(* ===== verification/Prelude.thy ===== *)
theory Prelude
  imports Main "HOL-Library.Word" "HOL-Library.Finite_Map"
begin

text \<open>
  Shared vocabulary of the development: Rust's machine integers as words with the checked and
  saturating operations of the standard library, the state-and-error computations in which the
  handlers are written, and sums over finite maps.
\<close>

section \<open>Machine integers\<close>

type_synonym u8 = "8 word"
type_synonym u16 = "16 word"
type_synonym u32 = "32 word"
type_synonym u64 = "64 word"

text \<open>
  Plain \<open>+\<close>, \<open>-\<close> and \<open>*\<close> on words wrap around, which is what the release profile of the
  repository does (overflow checks are off there). The checked and saturating variants of
  Rust's standard library are written out below.
\<close>

definition w_checked_add :: "'a::len word \<Rightarrow> 'a word \<Rightarrow> 'a word option" where
  "w_checked_add a b = (if unat a + unat b < 2 ^ LENGTH('a) then Some (a + b) else None)"

definition w_checked_sub :: "'a::len word \<Rightarrow> 'a word \<Rightarrow> 'a word option" where
  "w_checked_sub a b = (if b \<le> a then Some (a - b) else None)"

definition w_checked_mul :: "'a::len word \<Rightarrow> 'a word \<Rightarrow> 'a word option" where
  "w_checked_mul a b = (if unat a * unat b < 2 ^ LENGTH('a) then Some (a * b) else None)"

definition w_saturating_add :: "'a::len word \<Rightarrow> 'a word \<Rightarrow> 'a word" where
  "w_saturating_add a b = (if unat a + unat b < 2 ^ LENGTH('a) then a + b else - 1)"

definition w_saturating_sub :: "'a::len word \<Rightarrow> 'a word \<Rightarrow> 'a word" where
  "w_saturating_sub a b = (if b \<le> a then a - b else 0)"

definition w_saturating_mul :: "'a::len word \<Rightarrow> 'a word \<Rightarrow> 'a word" where
  "w_saturating_mul a b = (if unat a * unat b < 2 ^ LENGTH('a) then a * b else - 1)"

definition w_div_ceil :: "'a::len word \<Rightarrow> 'a word \<Rightarrow> 'a word" where
  "w_div_ceil a b = (let d = a div b; r = a mod b in if r > 0 \<and> b > 0 then d + 1 else d)"

named_theorems word_arith \<open>the natural-number reading of the word operations\<close>

lemma unat_add_lem_nat [word_arith]:
  "unat a + unat b < 2 ^ LENGTH('a) \<Longrightarrow> unat (a + b) = unat a + unat (b :: 'a::len word)"
  by (simp add: unat_word_ariths)

lemma unat_mult_lem_nat [word_arith]:
  "unat a * unat b < 2 ^ LENGTH('a) \<Longrightarrow> unat (a * b) = unat a * unat (b :: 'a::len word)"
  by (simp add: unat_word_ariths)

lemma unat_sub_le [word_arith]:
  "b \<le> a \<Longrightarrow> unat (a - b) = unat a - unat (b :: 'a::len word)"
  by (rule unat_sub)

lemma unat_ucast_up:
  assumes "LENGTH('a::len) \<le> LENGTH('b::len)"
  shows "unat (ucast (x :: 'a word) :: 'b word) = unat x"
proof -
  have "unat x < 2 ^ LENGTH('a)" by (rule unsigned_less)
  also have "(2::nat) ^ LENGTH('a) \<le> 2 ^ LENGTH('b)" using assms by simp
  finally show ?thesis by (simp add: unsigned_ucast_eq take_bit_nat_eq_self)
qed

lemma unat_max_word: "unat (- 1 :: 'a::len word) = 2 ^ LENGTH('a) - 1"
  by (simp add: unsigned_minus_1_eq_mask mask_eq_exp_minus_1)

lemma unat_bound: "unat (a :: 'a::len word) < 2 ^ LENGTH('a)"
  by simp

lemma unat_le_max: "unat (a :: 'a::len word) \<le> 2 ^ LENGTH('a) - 1"
  using unat_bound [of a] by linarith

lemma unat_w_saturating_add:
  "unat (w_saturating_add a b) = min (unat a + unat b) (2 ^ LENGTH('a) - 1)"
  for a b :: "'a::len word"
proof (cases "unat a + unat b < 2 ^ LENGTH('a)")
  case True
  then show ?thesis by (simp add: w_saturating_add_def unat_add_lem_nat)
next
  case False
  then have "2 ^ LENGTH('a) - 1 \<le> unat a + unat b" by linarith
  with False show ?thesis by (simp add: w_saturating_add_def unat_max_word)
qed

lemma unat_w_saturating_sub: "unat (w_saturating_sub a b) = unat a - unat b"
  for a b :: "'a::len word"
  by (auto simp: w_saturating_sub_def unat_sub_le word_le_nat_alt)

lemma unat_w_saturating_mul:
  "unat (w_saturating_mul a b) = min (unat a * unat b) (2 ^ LENGTH('a) - 1)"
  for a b :: "'a::len word"
proof (cases "unat a * unat b < 2 ^ LENGTH('a)")
  case True
  then show ?thesis by (simp add: w_saturating_mul_def unat_mult_lem_nat)
next
  case False
  then have "2 ^ LENGTH('a) - 1 \<le> unat a * unat b" by linarith
  with False show ?thesis by (simp add: w_saturating_mul_def unat_max_word)
qed

lemma w_checked_add_Some:
  "w_checked_add a b = Some c \<longleftrightarrow> unat c = unat a + unat (b :: 'a::len word)"
  unfolding w_checked_add_def
  by (metis option.inject option.distinct(1) unat_add_lem_nat unat_bound word_unat_eq_iff)

lemma w_checked_sub_Some:
  "w_checked_sub a b = Some c \<longleftrightarrow> b \<le> a \<and> unat c = unat a - unat (b :: 'a::len word)"
  unfolding w_checked_sub_def
  by (metis option.inject option.distinct(1) unat_sub word_unat_eq_iff)

lemma w_checked_mul_Some:
  "w_checked_mul a b = Some c \<longleftrightarrow> unat c = unat a * unat (b :: 'a::len word)"
  unfolding w_checked_mul_def
  by (metis option.inject option.distinct(1) unat_mult_lem_nat unat_bound word_unat_eq_iff)

lemma unat_w_div_ceil:
  assumes "unat b \<noteq> 0"
  shows "unat (w_div_ceil a b) = (unat a + unat b - 1) div unat (b :: 'a::len word)"
proof -
  let ?a = "unat a" and ?b = "unat b"
  have split: "?a = ?a div ?b * ?b + ?a mod ?b" by simp
  have r0: "a mod b > 0 \<longleftrightarrow> ?a mod ?b > 0"
    by (simp add: word_less_nat_alt unat_mod)
  have b0: "b > 0" using assms by (simp add: word_less_nat_alt)
  show ?thesis
  proof (cases "?a mod ?b = 0")
    case True
    then have "(?a + ?b - 1) div ?b = ?a div ?b"
    proof -
      have "?a + ?b - 1 = (?b - 1) + ?a div ?b * ?b"
        using split True assms by linarith
      then have "(?a + ?b - 1) div ?b = ?a div ?b + (?b - 1) div ?b"
        by (simp only: div_mult_self1 [OF assms])
      then show ?thesis using assms by simp
    qed
    with True r0 show ?thesis by (simp add: w_div_ceil_def Let_def unat_div)
  next
    case False
    have lt: "?a mod ?b < ?b" using assms by simp
    have "?a + ?b - 1 = (?a mod ?b - 1) + (?a div ?b + 1) * ?b"
    proof -
      have "(?a div ?b + 1) * ?b = ?a div ?b * ?b + ?b" by simp
      then show ?thesis using split False by linarith
    qed
    moreover have "?a mod ?b - 1 < ?b" using lt by simp
    ultimately have q: "(?a + ?b - 1) div ?b = ?a div ?b + 1"
      using assms by (simp del: One_nat_def)
    have "?a div ?b + 1 \<le> ?a"
    proof -
      have "?a div ?b \<le> ?a div ?b * ?b" using assms by simp
      then show ?thesis using split False by linarith
    qed
    then have "?a div ?b + 1 < 2 ^ LENGTH('a)"
      using unat_bound [of a] by linarith
    then have "unat (a div b + 1) = ?a div ?b + 1"
      by (simp add: unat_word_ariths unat_div)
    with False r0 b0 q show ?thesis by (simp add: w_div_ceil_def Let_def)
  qed
qed

section \<open>Sums over finite maps\<close>

text \<open>
  \<open>fsum f m\<close> adds \<open>f\<close> over the values of a finite map. The laws below say how one update or
  one removal moves the sum; they carry every accounting argument of the development.
\<close>

definition fsum :: "('v \<Rightarrow> nat) \<Rightarrow> ('k, 'v) fmap \<Rightarrow> nat" where
  "fsum f m = (\<Sum>k\<in>fmdom' m. f (the (fmlookup m k)))"

lemma sum_list_sorted_fset: "sum_list (map f (sorted_list_of_fset A)) = (\<Sum>a\<in>fset A. f a)"
  by (simp add: sorted_list_of_fset.rep_eq sum_list_distinct_conv_sum_set)

lemma fsum_empty [simp]: "fsum f fmempty = 0"
  by (simp add: fsum_def)

lemma fsum_upd_new [simp]:
  assumes "fmlookup m k = None"
  shows "fsum f (fmupd k v m) = f v + fsum f m"
proof -
  have k: "k \<notin> fmdom' m" using assms by (rule fmdom'_notI)
  have "(\<Sum>x\<in>fmdom' m. f (the (fmlookup (fmupd k v m) x))) = fsum f m"
    unfolding fsum_def using k by (intro sum.cong) auto
  with k show ?thesis by (simp add: fsum_def)
qed

lemma fsum_drop:
  assumes "fmlookup m k = Some u"
  shows "f u + fsum f (fmdrop k m) = fsum f m"
proof -
  have "(\<Sum>x\<in>fmdom' m - {k}. f (the (fmlookup (fmdrop k m) x)))
      = (\<Sum>x\<in>fmdom' m - {k}. f (the (fmlookup m x)))"
    by (intro sum.cong) auto
  moreover have "k \<in> fmdom' m" using assms by (rule fmdom'I)
  ultimately show ?thesis
    using assms by (simp add: fsum_def sum.remove)
qed

lemma fmupd_fmdrop: "fmupd k v (fmdrop k m) = fmupd k v m"
  by (rule fmap_ext) simp

lemma fmdrop_fmupd_new [simp]: "fmlookup m k = None \<Longrightarrow> fmdrop k (fmupd k v m) = m"
  by (rule fmap_ext) auto

lemma fmupd_fmupd [simp]: "fmupd k v (fmupd k w m) = fmupd k v m"
  by (rule fmap_ext) simp

lemma fmupd_same [simp]: "fmlookup m k = Some v \<Longrightarrow> fmupd k v m = m"
  by (rule fmap_ext) auto

lemma fmupd_drop_same [simp]: "fmlookup m k = Some v \<Longrightarrow> fmupd k v (fmdrop k m) = m"
  by (rule fmap_ext) auto

lemma fmdrop_absent [simp]: "fmlookup m k = None \<Longrightarrow> fmdrop k m = m"
  by (rule fmap_ext) auto

lemma fsum_upd_old:
  assumes "fmlookup m k = Some u"
  shows "f u + fsum f (fmupd k v m) = f v + fsum f m"
proof -
  have "fsum f (fmupd k v (fmdrop k m)) = f v + fsum f (fmdrop k m)"
    by simp
  with fsum_drop [OF assms, of f] show ?thesis
    by (simp add: fmupd_fmdrop)
qed

lemma fsum_member: "fmlookup m k = Some u \<Longrightarrow> f u \<le> fsum f m"
  using fsum_drop [of m k u f] by simp

lemma fsum_mono:
  assumes "\<And>k v. fmlookup m k = Some v \<Longrightarrow> f v \<le> g v"
  shows "fsum f m \<le> fsum g m"
  unfolding fsum_def by (rule sum_mono) (auto simp: fmlookup_dom'_iff dest: assms)

lemma fsum_cong:
  assumes "\<And>k v. fmlookup m k = Some v \<Longrightarrow> f v = g v"
  shows "fsum f m = fsum g m"
  unfolding fsum_def by (rule sum.cong) (auto simp: fmlookup_dom'_iff dest: assms)

lemma fsum_add: "fsum (\<lambda>v. f v + g v) m = fsum f m + fsum g m"
  by (simp add: fsum_def sum.distrib)

lemma fsum_zero:
  assumes "\<And>k v. fmlookup m k = Some v \<Longrightarrow> f v = 0"
  shows "fsum f m = 0"
  unfolding fsum_def by (rule sum.neutral) (auto simp: fmlookup_dom'_iff assms)

lemma fsum_zero_iff: "fsum f m = 0 \<longleftrightarrow> (\<forall>k v. fmlookup m k = Some v \<longrightarrow> f v = 0)"
  by (metis fsum_member fsum_zero le_zero_eq)

lemma fsum_upd_eq:
  assumes "fmlookup m k = Some u" and "f u = f v"
  shows "fsum f (fmupd k v m) = fsum f m"
  using fsum_upd_old [OF assms(1), of f v] assms(2) by simp

section \<open>Computations with a state and errors\<close>

text \<open>
  A method with \<open>&mut self\<close> and a \<open>Result\<close>: it returns an error or a value together with the
  state, and the state is kept on the error path as well, as in the source.
\<close>

type_synonym ('s, 'e, 'a) eff = "'s \<Rightarrow> ('e + 'a) \<times> 's"

definition ret :: "'a \<Rightarrow> ('s, 'e, 'a) eff" where
  "ret x s = (Inr x, s)"

definition throw :: "'e \<Rightarrow> ('s, 'e, 'a) eff" where
  "throw e s = (Inl e, s)"

definition bind_eff :: "('s, 'e, 'a) eff \<Rightarrow> ('a \<Rightarrow> ('s, 'e, 'b) eff) \<Rightarrow> ('s, 'e, 'b) eff" where
  "bind_eff m f s = (case m s of (Inl e, s1) \<Rightarrow> (Inl e, s1) | (Inr x, s1) \<Rightarrow> f x s1)"

definition seq_eff :: "('s, 'e, unit) eff \<Rightarrow> ('s, 'e, 'b) eff \<Rightarrow> ('s, 'e, 'b) eff" where
  "seq_eff m n = bind_eff m (\<lambda>_. n)"

definition gets :: "('s \<Rightarrow> 'a) \<Rightarrow> ('s, 'e, 'a) eff" where
  "gets f s = (Inr (f s), s)"

definition modify :: "('s \<Rightarrow> 's) \<Rightarrow> ('s, 'e, unit) eff" where
  "modify f s = (Inr (), f s)"

definition ensure :: "bool \<Rightarrow> 'e \<Rightarrow> ('s, 'e, unit) eff" where
  "ensure b e = (if b then ret () else throw e)"

definition when_eff :: "bool \<Rightarrow> ('s, 'e, unit) eff \<Rightarrow> ('s, 'e, unit) eff" where
  "when_eff b m = (if b then m else ret ())"

definition some_or :: "'e \<Rightarrow> 'a option \<Rightarrow> ('s, 'e, 'a) eff" where
  "some_or e x = (case x of None \<Rightarrow> throw e | Some a \<Rightarrow> ret a)"

definition of_sum :: "'e + 'a \<Rightarrow> ('s, 'e, 'a) eff" where
  "of_sum x = (case x of Inl e \<Rightarrow> throw e | Inr a \<Rightarrow> ret a)"

named_theorems eff_simps \<open>running a computation\<close>

lemma eff_run [eff_simps]:
  "ret x s = (Inr x, s)" "throw e s = (Inl e, s)" "gets f s = (Inr (f s), s)" "modify g s = (Inr (), g s)"
  "seq_eff m n s = bind_eff m (\<lambda>_. n) s"
  "ensure b e s = (if b then (Inr (), s) else (Inl e, s))"
  "when_eff b k s = (if b then k s else (Inr (), s))"
  by (simp_all add: ret_def throw_def gets_def modify_def seq_eff_def ensure_def when_eff_def)

lemma eff_bind_run [eff_simps]:
  "bind_eff (ret x) f s = f x s"
  "bind_eff (gets h) f s = f (h s) s"
  "bind_eff (throw e) f s = (Inl e, s)"
  by (simp_all add: bind_eff_def ret_def gets_def throw_def)

lemma some_or_run [eff_simps]:
  "some_or e None s = (Inl e, s)" "some_or e (Some x) s = (Inr x, s)"
  "of_sum (Inl e) s = (Inl e, s)" "of_sum (Inr y) s = (Inr y, s)"
  by (simp_all add: some_or_def of_sum_def ret_def throw_def)

lemma some_or_Inr: "some_or e x s = (Inr a, s') \<longleftrightarrow> x = Some a \<and> s' = s"
  by (cases x) (auto simp: eff_simps)

lemma some_or_Inl: "some_or e x s = (Inl e', s') \<longleftrightarrow> x = None \<and> e' = e \<and> s' = s"
  by (cases x) (auto simp: eff_simps)

lemma of_sum_Inr: "of_sum x s = (Inr a, s') \<longleftrightarrow> x = Inr a \<and> s' = s"
  by (cases x) (auto simp: eff_simps)

lemma of_sum_Inl: "of_sum x s = (Inl e, s') \<longleftrightarrow> x = Inl e \<and> s' = s"
  by (cases x) (auto simp: eff_simps)

lemma bind_eff_Inr:
  "bind_eff m f s = (Inr b, s') \<longleftrightarrow> (\<exists>a s1. m s = (Inr a, s1) \<and> f a s1 = (Inr b, s'))"
  by (auto simp: bind_eff_def split: prod.splits sum.splits)

lemma bind_eff_Inl:
  "bind_eff m f s = (Inl e, s') \<longleftrightarrow>
     m s = (Inl e, s') \<or> (\<exists>a s1. m s = (Inr a, s1) \<and> f a s1 = (Inl e, s'))"
  by (auto simp: bind_eff_def split: prod.splits sum.splits)

lemma ensure_Inr: "ensure b e s = (Inr (), s') \<longleftrightarrow> b \<and> s' = s"
  by (auto simp: eff_simps)

lemma ensure_Inl: "ensure b e s = (Inl e', s') \<longleftrightarrow> \<not> b \<and> e' = e \<and> s' = s"
  by (auto simp: eff_simps)

lemma when_eff_Inr: "when_eff b m s = (Inr (), s') \<longleftrightarrow> (if b then m s = (Inr (), s') else s' = s)"
  by (auto simp: eff_simps)

lemma when_eff_Inl: "when_eff b m s = (Inl e, s') \<longleftrightarrow> b \<and> m s = (Inl e, s')"
  by (auto simp: eff_simps)

lemma eff_leaf_iff:
  "ret x s = (Inr a, s') \<longleftrightarrow> a = x \<and> s' = s" "ret x s = (Inl e, s') \<longleftrightarrow> False"
  "throw e1 s = (Inr b, s') \<longleftrightarrow> False" "throw e1 s = (Inl e2, s') \<longleftrightarrow> e2 = e1 \<and> s' = s"
  "gets h s = (Inr c, s') \<longleftrightarrow> c = h s \<and> s' = s" "gets h s = (Inl e3, s') \<longleftrightarrow> False"
  "modify g s = (Inr u, s') \<longleftrightarrow> s' = g s" "modify g s = (Inl e4, s') \<longleftrightarrow> False"
  by (auto simp: eff_simps)

lemma seq_eff_Inr: "seq_eff m n s = (Inr b, s') \<longleftrightarrow> (\<exists>s1. m s = (Inr (), s1) \<and> n s1 = (Inr b, s'))"
  by (simp add: seq_eff_def bind_eff_Inr)

lemma seq_eff_Inl:
  "seq_eff m n s = (Inl e, s') \<longleftrightarrow> m s = (Inl e, s') \<or> (\<exists>s1. m s = (Inr (), s1) \<and> n s1 = (Inl e, s'))"
  by (simp add: seq_eff_def bind_eff_Inl)

lemmas eff_inv = bind_eff_Inr bind_eff_Inl seq_eff_Inr seq_eff_Inl some_or_Inr some_or_Inl of_sum_Inr
  of_sum_Inl ensure_Inr ensure_Inl when_eff_Inr when_eff_Inl eff_leaf_iff

text \<open>Loops over a list: \<open>for x in xs { f(x)?; }\<close> and \<open>xs.map(f).collect()\<close>.\<close>

fun for_eff :: "('i \<Rightarrow> ('s, 'e, unit) eff) \<Rightarrow> 'i list \<Rightarrow> ('s, 'e, unit) eff" where
  "for_eff f [] = ret ()"
| "for_eff f (x # xs) = seq_eff (f x) (for_eff f xs)"

fun map_eff :: "('i \<Rightarrow> ('s, 'e, 'a) eff) \<Rightarrow> 'i list \<Rightarrow> ('s, 'e, 'a list) eff" where
  "map_eff f [] = ret []"
| "map_eff f (x # xs) = bind_eff (f x) (\<lambda>y. bind_eff (map_eff f xs) (\<lambda>ys. ret (y # ys)))"

text \<open>A computation over a part of the state.\<close>

definition zoom_eff :: "('s \<Rightarrow> 't) \<Rightarrow> ('t \<Rightarrow> 's \<Rightarrow> 's) \<Rightarrow> ('t, 'e, 'a) eff \<Rightarrow> ('s, 'e, 'a) eff" where
  "zoom_eff get put m s = (case m (get s) of (r, t) \<Rightarrow> (r, put t s))"

lemma for_eff_append: "for_eff f (xs @ ys) = seq_eff (for_eff f xs) (for_eff f ys)"
  by (induction xs) (auto simp: fun_eq_iff seq_eff_def bind_eff_def ret_def split: sum.splits prod.splits)

section \<open>Reversible operations\<close>

text \<open>
  The chain undoes what it applied: an operation returns a receipt, and its revert consumes the
  receipt. A sequence is reverted from its last item to its first.
\<close>

fun commit_all :: "('i \<Rightarrow> 's \<Rightarrow> ('r \<times> 's) option) \<Rightarrow> 'i list \<Rightarrow> 's \<Rightarrow> (('i \<times> 'r) list \<times> 's) option" where
  "commit_all commit [] s = Some ([], s)"
| "commit_all commit (i # is) s = (case commit i s of
     None \<Rightarrow> None
   | Some (r, s1) \<Rightarrow> (case commit_all commit is s1 of
       None \<Rightarrow> None
     | Some (rs, s2) \<Rightarrow> Some ((i, r) # rs, s2)))"

fun revert_all :: "('i \<Rightarrow> 'r \<Rightarrow> 's \<Rightarrow> 's option) \<Rightarrow> ('i \<times> 'r) list \<Rightarrow> 's \<Rightarrow> 's option" where
  "revert_all revert [] s = Some s"
| "revert_all revert ((i, r) # rs) s = Option.bind (revert i r s) (revert_all revert rs)"

lemma revert_all_append:
  "revert_all revert (xs @ ys) s = Option.bind (revert_all revert xs s) (revert_all revert ys)"
  by (induction xs arbitrary: s) (auto split: bind_splits)

locale reversible =
  fixes inv :: "'s \<Rightarrow> bool" and ok :: "'i \<Rightarrow> bool"
    and commit :: "'i \<Rightarrow> 's \<Rightarrow> ('r \<times> 's) option" and revert :: "'i \<Rightarrow> 'r \<Rightarrow> 's \<Rightarrow> 's option"
  assumes undo: "inv s \<Longrightarrow> ok i \<Longrightarrow> commit i s = Some (r, s') \<Longrightarrow> revert i r s' = Some s"
    and keeps: "inv s \<Longrightarrow> ok i \<Longrightarrow> commit i s = Some (r, s') \<Longrightarrow> inv s'"
begin

lemma undo_all:
  "inv s \<Longrightarrow> list_all ok is \<Longrightarrow> commit_all commit is s = Some (rs, s') \<Longrightarrow>
    revert_all revert (rev rs) s' = Some s \<and> inv s'"
proof (induction "is" arbitrary: s rs s')
  case (Cons i "is")
  then obtain r s1 rs' where c: "commit i s = Some (r, s1)" "commit_all commit is s1 = Some (rs', s')"
    "rs = (i, r) # rs'"
    by (auto split: option.splits prod.splits)
  have "inv s1" using keeps [OF Cons.prems(1) _ c(1)] Cons.prems(2) by simp
  then have "revert_all revert (rev rs') s' = Some s1 \<and> inv s'"
    using Cons.IH Cons.prems(2) c(2) by simp
  then show ?case
    using undo [OF Cons.prems(1) _ c(1)] Cons.prems(2) c(3) by (simp add: revert_all_append)
qed simp

end

section \<open>Checks\<close>

text \<open>
  A check that reads its arguments only returns an error, a value, or panics, which is \<open>None\<close>.
\<close>

type_synonym ('e, 'x) res = "('e + 'x) option"

definition ok_res :: "'x \<Rightarrow> ('e, 'x) res" where
  "ok_res x = Some (Inr x)"

definition err_res :: "'e \<Rightarrow> ('e, 'x) res" where
  "err_res e = Some (Inl e)"

definition bind_res :: "('e, 'x) res \<Rightarrow> ('x \<Rightarrow> ('e, 'y) res) \<Rightarrow> ('e, 'y) res" where
  "bind_res m f = (case m of None \<Rightarrow> None | Some (Inl e) \<Rightarrow> Some (Inl e) | Some (Inr x) \<Rightarrow> f x)"

definition seq_res :: "('e, unit) res \<Rightarrow> ('e, 'y) res \<Rightarrow> ('e, 'y) res" where
  "seq_res m n = bind_res m (\<lambda>_. n)"

definition check_res :: "bool \<Rightarrow> 'e \<Rightarrow> ('e, unit) res" where
  "check_res b e = (if b then ok_res () else err_res e)"

definition expect_res :: "'x option \<Rightarrow> ('e, 'x) res" where
  "expect_res m = map_option Inr m"

definition some_or_res :: "'e \<Rightarrow> 'x option \<Rightarrow> ('e, 'x) res" where
  "some_or_res e m = (case m of None \<Rightarrow> err_res e | Some x \<Rightarrow> ok_res x)"

definition map_err_res :: "('e \<Rightarrow> 'f) \<Rightarrow> ('e, 'x) res \<Rightarrow> ('f, 'x) res" where
  "map_err_res f = map_option (map_sum f id)"

fun for_res :: "('i \<Rightarrow> ('e, unit) res) \<Rightarrow> 'i list \<Rightarrow> ('e, unit) res" where
  "for_res f [] = ok_res ()"
| "for_res f (x # xs) = seq_res (f x) (for_res f xs)"

lemma bind_res_Inr: "bind_res m f = Some (Inr y) \<longleftrightarrow> (\<exists>x. m = Some (Inr x) \<and> f x = Some (Inr y))"
  by (auto simp: bind_res_def split: option.splits sum.splits)

lemma seq_res_Inr: "seq_res m n = Some (Inr y) \<longleftrightarrow> m = Some (Inr ()) \<and> n = Some (Inr y)"
  by (simp add: seq_res_def bind_res_Inr)

lemma check_res_Inr: "check_res b e = Some (Inr x) \<longleftrightarrow> b"
  by (simp add: check_res_def ok_res_def err_res_def)

lemma expect_res_Inr: "expect_res m = Some (Inr x) \<longleftrightarrow> m = Some x"
  by (auto simp: expect_res_def)

lemma some_or_res_Inr: "some_or_res e m = Some (Inr x) \<longleftrightarrow> m = Some x"
  by (cases m) (simp_all add: some_or_res_def ok_res_def err_res_def)

lemma map_err_res_Inr: "map_err_res f m = Some (Inr x) \<longleftrightarrow> m = Some (Inr x)"
  by (cases m) (auto simp: map_err_res_def map_sum_def split: sum.splits)

lemma for_res_Inr: "for_res f xs = Some (Inr ()) \<longleftrightarrow> list_all (\<lambda>x. f x = Some (Inr ())) xs"
  by (induction xs) (simp_all add: seq_res_Inr ok_res_def)

lemma ok_res_Inr: "ok_res x = Some (Inr y) \<longleftrightarrow> x = y"
  by (simp add: ok_res_def)

lemma err_res_Inr: "err_res e \<noteq> Some (Inr y)"
  by (simp add: err_res_def)

lemmas res_Inr = bind_res_Inr seq_res_Inr check_res_Inr expect_res_Inr some_or_res_Inr map_err_res_Inr for_res_Inr
  ok_res_Inr err_res_Inr

named_theorems no_panic \<open>checks that do not panic\<close>

lemma ok_no_panic [no_panic]: "ok_res x \<noteq> None"
  by (simp add: ok_res_def)

lemma err_no_panic [no_panic]: "err_res e \<noteq> None"
  by (simp add: err_res_def)

lemma check_no_panic [no_panic]: "check_res b e \<noteq> None"
  by (simp add: check_res_def ok_res_def err_res_def)

lemma some_or_no_panic [no_panic]: "some_or_res e m \<noteq> None"
  by (cases m) (simp_all add: some_or_res_def ok_res_def err_res_def)

lemma map_err_no_panic [no_panic]: "m \<noteq> None \<Longrightarrow> map_err_res f m \<noteq> None"
  by (simp add: map_err_res_def)

lemma bind_no_panic [no_panic]: "m \<noteq> None \<Longrightarrow> (\<And>x. m = Some (Inr x) \<Longrightarrow> f x \<noteq> None) \<Longrightarrow> bind_res m f \<noteq> None"
  by (auto simp: bind_res_def split: option.splits sum.splits)

lemma seq_no_panic [no_panic]: "m \<noteq> None \<Longrightarrow> (m = Some (Inr ()) \<Longrightarrow> n \<noteq> None) \<Longrightarrow> seq_res m n \<noteq> None"
  by (simp add: seq_res_def bind_no_panic)

lemma for_no_panic [no_panic]: "(\<And>x. x \<in> set xs \<Longrightarrow> f x \<noteq> None) \<Longrightarrow> for_res f xs \<noteq> None"
  by (induction xs) (simp_all add: no_panic del: not_None_eq)

end
