(* ===== verification/Coin.thy ===== *)
theory Coin
  imports Prelude
begin

text \<open>
  The amount type of the chain, \<open>Coin\<close> of \<^verbatim>\<open>primitives/src/coin.rs\<close>: a 64-bit count of Lunas that
  every constructor keeps below \<open>MAX_SAFE_VALUE\<close>. An amount is a natural number; each
  operation writes out the 64-bit check and the bound it enforces. An operation that panics
  returns \<open>None\<close>. Strings are ASCII character lists.
\<close>

section \<open>Constants and constructors\<close>

type_synonym coin = nat

definition MAX_SAFE_VALUE :: nat where
  "MAX_SAFE_VALUE = 9007199254740991"

definition LUNAS_PER_COIN :: nat where
  "LUNAS_PER_COIN = 100000"

definition FRAC_DIGITS :: nat where
  "FRAC_DIGITS = 5"

datatype coin_convert_error = CoinConvertError nat

definition coin_try_from :: "nat \<Rightarrow> coin_convert_error + coin" where
  "coin_try_from val = (if val \<le> MAX_SAFE_VALUE then Inr val else Inl (CoinConvertError val))"

fun result_ok :: "'e + 'a \<Rightarrow> 'a option" where
  "result_ok (Inl e) = None"
| "result_ok (Inr a) = Some a"

definition from_u64_unchecked :: "nat \<Rightarrow> coin option" where
  "from_u64_unchecked val = result_ok (coin_try_from val)"

section \<open>Arithmetic\<close>

definition u64_checked_add :: "nat \<Rightarrow> nat \<Rightarrow> nat option" where
  "u64_checked_add a b = (if a + b < 2 ^ 64 then Some (a + b) else None)"

definition u64_checked_sub :: "nat \<Rightarrow> nat \<Rightarrow> nat option" where
  "u64_checked_sub a b = (if b \<le> a then Some (a - b) else None)"

definition u64_checked_mul :: "nat \<Rightarrow> nat \<Rightarrow> nat option" where
  "u64_checked_mul a b = (if a * b < 2 ^ 64 then Some (a * b) else None)"

definition checked_add :: "coin \<Rightarrow> coin \<Rightarrow> coin option" where
  "checked_add a b = Option.bind (u64_checked_add a b) (\<lambda>val. result_ok (coin_try_from val))"

definition checked_sub :: "coin \<Rightarrow> coin \<Rightarrow> coin option" where
  "checked_sub a b = Option.bind (u64_checked_sub a b) (\<lambda>val. result_ok (coin_try_from val))"

definition checked_mul :: "coin \<Rightarrow> nat \<Rightarrow> coin option" where
  "checked_mul a b = Option.bind (u64_checked_mul a b) (\<lambda>val. result_ok (coin_try_from val))"

datatype coin_underflow_error = CoinUnderflowError coin coin

definition safe_sub :: "coin \<Rightarrow> coin \<Rightarrow> coin_underflow_error + coin" where
  "safe_sub a b = (case checked_sub a b of None \<Rightarrow> Inl (CoinUnderflowError a b) | Some c \<Rightarrow> Inr c)"

definition coin_saturating_add :: "coin \<Rightarrow> coin \<Rightarrow> coin" where
  "coin_saturating_add a b = (case checked_add a b of None \<Rightarrow> MAX_SAFE_VALUE | Some c \<Rightarrow> c)"

definition coin_saturating_sub :: "coin \<Rightarrow> coin \<Rightarrow> coin" where
  "coin_saturating_sub a b = a - b"

text \<open>\<open>Add\<close>, \<open>Sub\<close>, \<open>Div\<close>, \<open>Rem\<close> and \<open>Sum\<close>: the operators panic where the checked form fails.\<close>

definition coin_add :: "coin \<Rightarrow> coin \<Rightarrow> coin option" where
  "coin_add a b = checked_add a b"

definition coin_sub :: "coin \<Rightarrow> coin \<Rightarrow> coin option" where
  "coin_sub a b = checked_sub a b"

definition coin_div :: "coin \<Rightarrow> nat \<Rightarrow> coin option" where
  "coin_div a b = (if b = 0 then None else Some (a div b))"

definition coin_rem :: "coin \<Rightarrow> nat \<Rightarrow> coin option" where
  "coin_rem a b = (if b = 0 then None else Some (a mod b))"

fun coin_fold_add :: "coin \<Rightarrow> coin list \<Rightarrow> coin option" where
  "coin_fold_add acc [] = Some acc"
| "coin_fold_add acc (c # cs) =
     (case coin_add acc c of None \<Rightarrow> None | Some acc' \<Rightarrow> coin_fold_add acc' cs)"

definition coin_sum :: "coin list \<Rightarrow> coin option" where
  "coin_sum cs = coin_fold_add 0 cs"

named_theorems coin_simps \<open>closed forms of the amount operations\<close>

lemma MAX_SAFE_lt_u64: "MAX_SAFE_VALUE < 2 ^ 64"
  by (simp add: MAX_SAFE_VALUE_def)

lemma checked_add_eq [coin_simps]:
  "checked_add a b = (if a + b \<le> MAX_SAFE_VALUE then Some (a + b) else None)"
  by (auto simp: checked_add_def u64_checked_add_def coin_try_from_def MAX_SAFE_VALUE_def)

lemma checked_sub_eq [coin_simps]:
  "a \<le> MAX_SAFE_VALUE \<Longrightarrow> checked_sub a b = (if b \<le> a then Some (a - b) else None)"
  by (auto simp: checked_sub_def u64_checked_sub_def coin_try_from_def)

lemma checked_mul_eq [coin_simps]:
  "checked_mul a b = (if a * b \<le> MAX_SAFE_VALUE then Some (a * b) else None)"
  by (auto simp: checked_mul_def u64_checked_mul_def coin_try_from_def MAX_SAFE_VALUE_def)

lemma coin_add_Some [simp]:
  "coin_add a b = Some c \<longleftrightarrow> c = a + b \<and> a + b \<le> MAX_SAFE_VALUE"
  by (auto simp: coin_add_def checked_add_eq)

lemma coin_add_None: "coin_add a b = None \<longleftrightarrow> MAX_SAFE_VALUE < a + b"
  by (auto simp: coin_add_def checked_add_eq)

lemma checked_sub_Some:
  "checked_sub a b = Some c \<longleftrightarrow> b \<le> a \<and> c = a - b \<and> a - b \<le> MAX_SAFE_VALUE"
  by (auto simp: checked_sub_def u64_checked_sub_def coin_try_from_def)

lemma coin_sub_Some [simp]:
  "coin_sub a b = Some c \<longleftrightarrow> b \<le> a \<and> c = a - b \<and> a - b \<le> MAX_SAFE_VALUE"
  by (simp add: coin_sub_def checked_sub_Some)

lemma safe_sub_Inr [simp]:
  "safe_sub a b = Inr c \<longleftrightarrow> b \<le> a \<and> c = a - b \<and> a - b \<le> MAX_SAFE_VALUE"
  by (cases "checked_sub a b") (auto simp: safe_sub_def checked_sub_Some,
      auto simp: checked_sub_def u64_checked_sub_def coin_try_from_def)

lemma safe_sub_Inl:
  "a \<le> MAX_SAFE_VALUE \<Longrightarrow> safe_sub a b = Inl e \<longleftrightarrow> a < b \<and> e = CoinUnderflowError a b"
  by (auto simp: safe_sub_def checked_sub_eq split: option.splits)

lemma coin_saturating_add_eq: "coin_saturating_add a b = min (a + b) MAX_SAFE_VALUE"
  by (auto simp: coin_saturating_add_def checked_add_eq)

lemma coin_fold_add_eq:
  "acc \<le> MAX_SAFE_VALUE \<Longrightarrow> coin_fold_add acc cs =
     (if acc + sum_list cs \<le> MAX_SAFE_VALUE then Some (acc + sum_list cs) else None)"
proof (induction cs arbitrary: acc)
  case Nil
  then show ?case by simp
next
  case (Cons c cs)
  show ?case
  proof (cases "acc + c \<le> MAX_SAFE_VALUE")
    case True
    with Cons.IH [OF True] show ?thesis
      by (simp add: coin_add_def checked_add_eq add.assoc)
  next
    case False
    then show ?thesis by (simp add: coin_add_def checked_add_eq)
  qed
qed

lemma coin_sum_eq:
  "coin_sum cs = (if sum_list cs \<le> MAX_SAFE_VALUE then Some (sum_list cs) else None)"
  by (simp add: coin_sum_def coin_fold_add_eq)

section \<open>Printing and parsing\<close>

definition digit_char :: "nat \<Rightarrow> char" where
  "digit_char d = char_of (48 + d)"

definition is_digit :: "char \<Rightarrow> bool" where
  "is_digit c \<longleftrightarrow> 48 \<le> (of_char c :: nat) \<and> (of_char c :: nat) \<le> 57"

fun show_nat :: "nat \<Rightarrow> string" where
  "show_nat n = (if n < 10 then [digit_char n] else show_nat (n div 10) @ [digit_char (n mod 10)])"

declare show_nat.simps [simp del]

definition pad_zeros :: "nat \<Rightarrow> string \<Rightarrow> string" where
  "pad_zeros w s = replicate (w - length s) (CHR ''0'') @ s"

definition coin_fmt :: "coin \<Rightarrow> string" where
  "coin_fmt c = (let frac_part = c mod LUNAS_PER_COIN in
     if frac_part = 0 then show_nat (c div LUNAS_PER_COIN)
     else show_nat (c div LUNAS_PER_COIN) @ ''.'' @ pad_zeros 5 (show_nat (c mod LUNAS_PER_COIN)))"

fun digits_value :: "nat \<Rightarrow> string \<Rightarrow> nat" where
  "digits_value acc [] = acc"
| "digits_value acc (c # cs) = digits_value (10 * acc + (of_char c - 48)) cs"

definition parse_u64 :: "string \<Rightarrow> nat option" where
  "parse_u64 s = (if s \<noteq> [] \<and> list_all is_digit s \<and> digits_value 0 s < 2 ^ 64
     then Some (digits_value 0 s) else None)"

text \<open>
  The regular expression \<^verbatim>\<open>^(?P<int_part>\d+)(.(?P<frac_part>\d{1,5})0*)?$\<close>: a digit run, then at the
  end of the text nothing, or one character other than a newline (the dot is not escaped), a
  run of one to five digits and only zeros after it.
\<close>

definition coin_captures :: "string \<Rightarrow> (string \<times> string option) option" where
  "coin_captures s = (let int_part = takeWhile is_digit s in
     if int_part = [] then None
     else case dropWhile is_digit s of
       [] \<Rightarrow> Some (int_part, None)
     | c # r \<Rightarrow>
         if c \<noteq> CHR 0x0A \<and> r \<noteq> [] \<and> list_all is_digit r \<and>
            list_all (\<lambda>x. x = CHR ''0'') (drop 5 r)
         then Some (int_part, Some (take 5 r)) else None)"

datatype coin_parse_error = CoinParseError string

definition coin_from_str :: "string \<Rightarrow> coin_parse_error + coin" where
  "coin_from_str s =
     (case coin_captures s of
        None \<Rightarrow> Inl (CoinParseError s)
      | Some (int_str, frac_opt) \<Rightarrow>
          (case parse_u64 int_str of
             None \<Rightarrow> Inl (CoinParseError s)
           | Some int_part \<Rightarrow>
               (case (case frac_opt of
                        None \<Rightarrow> Some 0
                      | Some frac_str \<Rightarrow>
                          map_option (\<lambda>f. f * 10 ^ (FRAC_DIGITS - length frac_str)) (parse_u64 frac_str)) of
                  None \<Rightarrow> Inl (CoinParseError s)
                | Some frac_part \<Rightarrow>
                    (case coin_try_from ((int_part * LUNAS_PER_COIN + frac_part) mod 2 ^ 64) of
                       Inl _ \<Rightarrow> Inl (CoinParseError s)
                     | Inr coin \<Rightarrow> Inr coin))))"

lemma of_char_digit_char: "d < 10 \<Longrightarrow> (of_char (digit_char d) :: nat) = 48 + d"
  by (simp add: digit_char_def)

lemma is_digit_digit_char: "d < 10 \<Longrightarrow> is_digit (digit_char d)"
  by (simp add: is_digit_def of_char_digit_char)

lemma show_nat_digits: "list_all is_digit (show_nat n)"
proof (induction n rule: show_nat.induct)
  case (1 n)
  then show ?case
    by (subst show_nat.simps) (auto simp: is_digit_digit_char)
qed

lemma show_nat_nonempty: "show_nat n \<noteq> []"
  by (subst show_nat.simps) simp

lemma digits_value_append: "digits_value acc (s @ t) = digits_value (digits_value acc s) t"
  by (induction s arbitrary: acc) auto

lemma digits_value_show_nat: "digits_value 0 (show_nat n) = n"
proof (induction n rule: show_nat.induct)
  case (1 n)
  show ?case
  proof (cases "n < 10")
    case True
    then show ?thesis by (simp add: show_nat.simps [of n] of_char_digit_char)
  next
    case False
    with 1 have "digits_value 0 (show_nat (n div 10)) = n div 10" by simp
    with False show ?thesis
      by (simp add: show_nat.simps [of n] digits_value_append of_char_digit_char)
  qed
qed

lemma show_nat_length: "n < 10 ^ k \<Longrightarrow> 0 < k \<Longrightarrow> length (show_nat n) \<le> k"
proof (induction n arbitrary: k rule: show_nat.induct)
  case (1 n)
  show ?case
  proof (cases "n < 10")
    case True
    with "1.prems" show ?thesis by (simp add: show_nat.simps [of n])
  next
    case False
    with "1.prems" obtain k' where k: "k = Suc k'" "0 < k'"
      by (cases k; cases "k - 1") auto
    with "1.prems" have "n div 10 < 10 ^ k'" by (simp add: less_mult_imp_div_less mult.commute)
    with 1 False k have "length (show_nat (n div 10)) \<le> k'" by blast
    with False k show ?thesis by (simp add: show_nat.simps [of n])
  qed
qed

lemma digits_value_replicate_zero: "digits_value 0 (replicate k (CHR ''0'')) = 0"
  by (induction k) simp_all

lemma pad_zeros_value: "digits_value 0 (pad_zeros w (show_nat n)) = n"
  by (simp add: pad_zeros_def digits_value_append digits_value_replicate_zero digits_value_show_nat)

lemma pad_zeros_digits: "list_all is_digit (pad_zeros w (show_nat n))"
  using show_nat_digits [of n] by (auto simp: pad_zeros_def list_all_iff is_digit_def)

lemma pad_zeros_length: "length s \<le> w \<Longrightarrow> length (pad_zeros w s) = w"
  by (simp add: pad_zeros_def)

lemma takeWhile_digits_all: "list_all is_digit s \<Longrightarrow> takeWhile is_digit s = s \<and> dropWhile is_digit s = []"
  by (simp add: list_all_iff)

lemma takeWhile_digits_sep:
  "list_all is_digit s \<Longrightarrow> \<not> is_digit c \<Longrightarrow>
     takeWhile is_digit (s @ c # t) = s \<and> dropWhile is_digit (s @ c # t) = c # t"
  by (simp add: list_all_iff)

lemma parse_u64_show_nat: "n < 2 ^ 64 \<Longrightarrow> parse_u64 (show_nat n) = Some n"
  by (simp add: parse_u64_def show_nat_nonempty show_nat_digits digits_value_show_nat)

lemma parse_u64_pad:
  "n < 2 ^ 64 \<Longrightarrow> parse_u64 (pad_zeros w (show_nat n)) = Some n"
  using show_nat_nonempty [of n]
  by (simp add: parse_u64_def pad_zeros_value pad_zeros_digits) (simp add: pad_zeros_def)

lemma coin_captures_int: "coin_captures (show_nat n) = Some (show_nat n, None)"
  by (simp add: coin_captures_def Let_def show_nat_nonempty
      takeWhile_digits_all [OF show_nat_digits])

lemma coin_captures_frac:
  assumes "f < 100000"
  shows "coin_captures (show_nat n @ ''.'' @ pad_zeros 5 (show_nat f))
     = Some (show_nat n, Some (pad_zeros 5 (show_nat f)))"
proof -
  let ?r = "pad_zeros 5 (show_nat f)"
  have len: "length ?r = 5"
    using show_nat_length [of f 5] assms by (intro pad_zeros_length) simp
  then have "?r \<noteq> []" by auto
  moreover have "\<not> is_digit (CHR ''.'')" by (simp add: is_digit_def)
  ultimately show ?thesis
    using takeWhile_digits_sep [OF show_nat_digits [of n], of "CHR ''.''" ?r] len
    by (simp add: coin_captures_def Let_def show_nat_nonempty pad_zeros_digits)
qed

section \<open>Properties\<close>

text \<open>
  C31. Every arithmetic operation of \<open>Coin\<close> keeps the type's bound \<open>MAX_SAFE_VALUE\<close> and computes the
  exact result where it returns one: checked addition, subtraction and multiplication succeed
  exactly when the mathematical result is representable, the saturating forms clamp to the
  bounds, and a sum over a list succeeds exactly when the total is representable.
\<close>

theorem coin_arithmetic_exact:
  assumes "a \<le> MAX_SAFE_VALUE"
  shows "checked_add a b = (if a + b \<le> MAX_SAFE_VALUE then Some (a + b) else None)
    \<and> checked_sub a b = (if b \<le> a then Some (a - b) else None)
    \<and> checked_mul a n = (if a * n \<le> MAX_SAFE_VALUE then Some (a * n) else None)
    \<and> coin_saturating_add a b = min (a + b) MAX_SAFE_VALUE
    \<and> coin_saturating_sub a b = a - b \<and> a - b \<le> MAX_SAFE_VALUE
    \<and> coin_sum cs = (if sum_list cs \<le> MAX_SAFE_VALUE then Some (sum_list cs) else None)"
  using assms
  by (simp add: checked_add_eq checked_sub_eq checked_mul_eq coin_saturating_add_eq
      coin_saturating_sub_def coin_sum_eq)

theorem coin_arithmetic_exact_witness:
  "(7::nat) \<le> MAX_SAFE_VALUE \<and> checked_sub 7 9 = None \<and> coin_saturating_add 7 9 = 16
    \<and> coin_sum [3, 4] = Some 7"
proof -
  have h: "(7::nat) \<le> MAX_SAFE_VALUE" by (simp add: MAX_SAFE_VALUE_def)
  show ?thesis
    using h coin_arithmetic_exact [OF h, of 9 2 "[3, 4]"] by (simp add: MAX_SAFE_VALUE_def)
qed

text \<open>
  C32. Parsing inverts printing: every representable amount printed by \<open>Display\<close> is read back by
  \<open>FromStr\<close> as the same amount.
\<close>

theorem coin_from_str_fmt:
  assumes "c \<le> MAX_SAFE_VALUE"
  shows "coin_from_str (coin_fmt c) = Inr c"
proof -
  let ?i = "c div LUNAS_PER_COIN" and ?f = "c mod LUNAS_PER_COIN"
  have c64: "c < 2 ^ 64" using assms MAX_SAFE_lt_u64 by linarith
  have i64: "?i < 2 ^ 64" using c64 div_le_dividend le_less_trans by blast
  have f5: "?f < 100000" by (simp add: LUNAS_PER_COIN_def)
  have whole: "?i * LUNAS_PER_COIN + ?f = c" by simp
  show ?thesis
  proof (cases "?f = 0")
    case True
    then show ?thesis
      using whole c64 i64 assms
      by (simp add: coin_fmt_def Let_def coin_from_str_def coin_captures_int parse_u64_show_nat
          coin_try_from_def)
  next
    case False
    have len: "length (pad_zeros 5 (show_nat ?f)) = 5"
      using show_nat_length [of ?f 5] f5 by (intro pad_zeros_length) simp
    have "?f < 2 ^ 64" using f5 by simp
    with False whole c64 i64 assms len show ?thesis
      using coin_captures_frac [OF f5, of ?i]
      by (simp add: coin_fmt_def Let_def coin_from_str_def parse_u64_show_nat parse_u64_pad
          coin_try_from_def FRAC_DIGITS_def)
  qed
qed

theorem coin_from_str_fmt_witness:
  "123456789 \<le> MAX_SAFE_VALUE \<and> coin_from_str (coin_fmt 123456789) = Inr 123456789"
proof -
  have h: "123456789 \<le> MAX_SAFE_VALUE" by (simp add: MAX_SAFE_VALUE_def)
  show ?thesis using h coin_from_str_fmt [OF h] by simp
qed


end
