(* ===== verification/Policy.thy ===== *)
theory Policy
  imports Coin
begin

text \<open>
  The chain's constants and block-height arithmetic, \<^verbatim>\<open>primitives/src/policy.rs\<close>. The process-wide
  \<open>GLOBAL_POLICY\<close> is the argument \<open>p\<close> of every function that reads it; heights are 32-bit words
  with the release profile's wrap-around; \<open>None\<close> stands for a panic. The lemmas read each
  function as arithmetic on natural numbers; the locale \<open>block_grid\<close> states what the batch and
  the epoch boundaries have in common.
\<close>

section \<open>Parameters and constants\<close>

record policy =
  blocks_per_batch :: u32
  batches_per_epoch :: u16
  state_chunks_max_size :: u32
  transaction_validity_window_batches :: u32
  genesis_block_number :: u32
  max_supported_version :: u16

type_synonym address = "160 word"

type_synonym blake2b_hash = "u8 list"

definition STAKING_CONTRACT_ADDRESS :: address where
  "STAKING_CONTRACT_ADDRESS = 1"

definition COINBASE_ADDRESS :: address where
  "COINBASE_ADDRESS = 0x600365ab4e000000000000000000000000000000"

definition MAX_BASIC_TX_RECIPIENT_DATA_SIZE :: nat where
  "MAX_BASIC_TX_RECIPIENT_DATA_SIZE = 64"

definition SLOTS :: u16 where
  "SLOTS = 512"

definition TWO_F_PLUS_ONE :: u16 where
  "TWO_F_PLUS_ONE = w_div_ceil (2 * SLOTS) 3"

definition F_PLUS_ONE :: u16 where
  "F_PLUS_ONE = w_div_ceil SLOTS 3"

definition VALIDATOR_DEPOSIT :: nat where
  "VALIDATOR_DEPOSIT = 10000000000"

definition MINIMUM_STAKE :: nat where
  "MINIMUM_STAKE = 10000000"

definition JAIL_EPOCHS :: u32 where
  "JAIL_EPOCHS = 8"

definition TOTAL_SUPPLY :: nat where
  "TOTAL_SUPPLY = 2100000000000000"

definition UPGRADE_MIN_SUPPORT :: nat where
  "UPGRADE_MIN_SUPPORT = 80"

definition MAINNET_POLICY :: policy where
  "MAINNET_POLICY = \<lparr> blocks_per_batch = 60, batches_per_epoch = 720, state_chunks_max_size = 1000,
     transaction_validity_window_batches = 120, genesis_block_number = 3456000, max_supported_version = 2 \<rparr>"

definition TESTNET_POLICY :: policy where
  "TESTNET_POLICY = \<lparr> blocks_per_batch = 60, batches_per_epoch = 720, state_chunks_max_size = 1000,
     transaction_validity_window_batches = 120, genesis_block_number = 3032010, max_supported_version = 2 \<rparr>"

definition TEST_POLICY :: policy where
  "TEST_POLICY = \<lparr> blocks_per_batch = 32, batches_per_epoch = 4, state_chunks_max_size = 3,
     transaction_validity_window_batches = 2, genesis_block_number = 200, max_supported_version = 5 \<rparr>"

datatype network_id = Test | Dev | Bounty | Dummy | Main
  | TestAlbatross | DevAlbatross | UnitAlbatross | MainAlbatross

fun is_albatross :: "network_id \<Rightarrow> bool" where
  "is_albatross TestAlbatross = True"
| "is_albatross DevAlbatross = True"
| "is_albatross UnitAlbatross = True"
| "is_albatross MainAlbatross = True"
| "is_albatross _ = False"

fun default_for_network :: "network_id \<Rightarrow> policy" where
  "default_for_network MainAlbatross = MAINNET_POLICY"
| "default_for_network TestAlbatross = TESTNET_POLICY"
| "default_for_network DevAlbatross = TESTNET_POLICY"
| "default_for_network UnitAlbatross = TEST_POLICY"
| "default_for_network _ = MAINNET_POLICY"

section \<open>Upgrade signalling\<close>

unbundle bit_operations_syntax

definition u16_to_be_bytes :: "u16 \<Rightarrow> u8 list" where
  "u16_to_be_bytes v = [ucast (drop_bit 8 v), ucast v]"

definition u16_from_be_bytes :: "u8 list \<Rightarrow> u16" where
  "u16_from_be_bytes bs = push_bit 8 (ucast (bs ! 0)) OR ucast (bs ! 1)"

definition signal_data_for_version :: "u16 \<Rightarrow> blake2b_hash" where
  "signal_data_for_version version = u16_to_be_bytes version @ drop 2 (replicate 32 0)"

definition signal_data_with_version :: "blake2b_hash option \<Rightarrow> u16 \<Rightarrow> blake2b_hash" where
  "signal_data_with_version current version =
     u16_to_be_bytes version @ drop 2 (case current of None \<Rightarrow> replicate 32 0 | Some bytes \<Rightarrow> bytes)"

definition supports_upgrade :: "blake2b_hash option \<Rightarrow> u16 \<Rightarrow> bool" where
  "supports_upgrade signal_data version =
     (case signal_data of
        None \<Rightarrow> False
      | Some data \<Rightarrow> u16_from_be_bytes (take 2 data) = version)"

section \<open>Batches and epochs\<close>

definition blocks_per_epoch :: "policy \<Rightarrow> u32" where
  "blocks_per_epoch p = blocks_per_batch p * ucast (batches_per_epoch p)"

definition transaction_validity_window :: "policy \<Rightarrow> u32 option" where
  "transaction_validity_window p =
     (if ucast (batches_per_epoch p) \<ge> transaction_validity_window_batches p
      then Some (transaction_validity_window_batches p) else None)"

definition transaction_validity_window_blocks :: "policy \<Rightarrow> u32 option" where
  "transaction_validity_window_blocks p =
     (if ucast (batches_per_epoch p) \<ge> transaction_validity_window_batches p
      then Some (transaction_validity_window_batches p * blocks_per_batch p) else None)"

definition epoch_at :: "policy \<Rightarrow> u32 \<Rightarrow> u32" where
  "epoch_at p block_number =
     (if block_number \<le> genesis_block_number p then 0
      else w_div_ceil (block_number - genesis_block_number p) (blocks_per_epoch p))"

definition epoch_index_at :: "policy \<Rightarrow> u32 \<Rightarrow> u32" where
  "epoch_index_at p block_number =
     (if block_number < genesis_block_number p then block_number
      else (block_number - genesis_block_number p + blocks_per_epoch p - 1) mod blocks_per_epoch p)"

definition batch_at :: "policy \<Rightarrow> u32 \<Rightarrow> u32" where
  "batch_at p block_number =
     (if block_number \<le> genesis_block_number p then 0
      else w_div_ceil (block_number - genesis_block_number p) (blocks_per_batch p))"

definition batch_index_at :: "policy \<Rightarrow> u32 \<Rightarrow> u32" where
  "batch_index_at p block_number =
     (if block_number < genesis_block_number p then block_number
      else (block_number - genesis_block_number p + blocks_per_batch p - 1) mod blocks_per_batch p)"

definition election_block_after :: "policy \<Rightarrow> u32 \<Rightarrow> u32" where
  "election_block_after p block_number =
     (if block_number < genesis_block_number p then genesis_block_number p
      else w_saturating_add
        (w_saturating_mul ((block_number - genesis_block_number p) div blocks_per_epoch p + 1)
          (blocks_per_epoch p))
        (genesis_block_number p))"

definition election_block_before :: "policy \<Rightarrow> u32 \<Rightarrow> u32 option" where
  "election_block_before p block_number =
     (if block_number < genesis_block_number p then None
      else if block_number = genesis_block_number p then Some (genesis_block_number p)
      else Some ((block_number - genesis_block_number p - 1) div blocks_per_epoch p * blocks_per_epoch p
        + genesis_block_number p))"

definition last_election_block :: "policy \<Rightarrow> u32 \<Rightarrow> u32 option" where
  "last_election_block p block_number =
     (if block_number < genesis_block_number p then None
      else Some ((block_number - genesis_block_number p) div blocks_per_epoch p * blocks_per_epoch p
        + genesis_block_number p))"

definition is_election_block_at :: "policy \<Rightarrow> u32 \<Rightarrow> bool" where
  "is_election_block_at p block_number \<longleftrightarrow> epoch_index_at p block_number = blocks_per_epoch p - 1"

definition macro_block_after :: "policy \<Rightarrow> u32 \<Rightarrow> u32" where
  "macro_block_after p block_number =
     (if block_number < genesis_block_number p then genesis_block_number p
      else w_saturating_add
        (w_saturating_mul ((block_number - genesis_block_number p) div blocks_per_batch p + 1)
          (blocks_per_batch p))
        (genesis_block_number p))"

definition macro_block_before :: "policy \<Rightarrow> u32 \<Rightarrow> u32 option" where
  "macro_block_before p block_number =
     (if block_number \<le> genesis_block_number p then None
      else Some ((block_number - genesis_block_number p - 1) div blocks_per_batch p * blocks_per_batch p
        + genesis_block_number p))"

definition last_macro_block :: "policy \<Rightarrow> u32 \<Rightarrow> u32 option" where
  "last_macro_block p block_number =
     (if block_number < genesis_block_number p then None
      else Some ((block_number - genesis_block_number p) div blocks_per_batch p * blocks_per_batch p
        + genesis_block_number p))"

definition is_macro_block_at :: "policy \<Rightarrow> u32 \<Rightarrow> bool" where
  "is_macro_block_at p block_number =
     (if block_number < genesis_block_number p then False
      else batch_index_at p block_number = blocks_per_batch p - 1)"

definition is_micro_block_at :: "policy \<Rightarrow> u32 \<Rightarrow> bool" where
  "is_micro_block_at p block_number =
     (if block_number < genesis_block_number p then False
      else batch_index_at p block_number \<noteq> blocks_per_batch p - 1)"

definition first_block_of :: "policy \<Rightarrow> u32 \<Rightarrow> u32 option" where
  "first_block_of p epoch =
     Option.bind (w_checked_sub epoch 1) (\<lambda>a.
     Option.bind (w_checked_mul a (blocks_per_epoch p)) (\<lambda>b.
     Option.bind (w_checked_add b 1) (\<lambda>c.
     w_checked_add c (genesis_block_number p))))"

definition first_block_of_batch :: "policy \<Rightarrow> u32 \<Rightarrow> u32 option" where
  "first_block_of_batch p batch =
     Option.bind (w_checked_sub batch 1) (\<lambda>a.
     Option.bind (w_checked_mul a (blocks_per_batch p)) (\<lambda>b.
     Option.bind (w_checked_add b 1) (\<lambda>c.
     w_checked_add c (genesis_block_number p))))"

definition election_block_of :: "policy \<Rightarrow> u32 \<Rightarrow> u32 option" where
  "election_block_of p epoch =
     Option.bind (w_checked_mul epoch (blocks_per_epoch p)) (\<lambda>a.
     w_checked_add a (genesis_block_number p))"

definition macro_block_of :: "policy \<Rightarrow> u32 \<Rightarrow> u32 option" where
  "macro_block_of p batch =
     Option.bind (w_checked_mul batch (blocks_per_batch p)) (\<lambda>a.
     w_checked_add a (genesis_block_number p))"

definition first_batch_of_epoch :: "policy \<Rightarrow> u32 \<Rightarrow> bool" where
  "first_batch_of_epoch p block_number \<longleftrightarrow> epoch_index_at p block_number < blocks_per_batch p"

section \<open>Windows\<close>

definition last_block_of_collateral_lockup :: "policy \<Rightarrow> u32 \<Rightarrow> u32" where
  "last_block_of_collateral_lockup p block_number = w_saturating_add block_number (blocks_per_epoch p)"

definition block_after_collateral_lockup :: "policy \<Rightarrow> u32 \<Rightarrow> u32" where
  "block_after_collateral_lockup p block_number =
     w_saturating_add (last_block_of_collateral_lockup p block_number) 1"

definition last_block_of_equivocation_reporting_window :: "policy \<Rightarrow> u32 \<Rightarrow> u32 option" where
  "last_block_of_equivocation_reporting_window p block_number =
     map_option (w_saturating_add block_number) (transaction_validity_window_blocks p)"

definition block_after_jail :: "policy \<Rightarrow> u32 \<Rightarrow> u32" where
  "block_after_jail p block_number =
     w_saturating_add
       (w_saturating_add block_number (w_saturating_mul (blocks_per_epoch p) JAIL_EPOCHS)) 1"

section \<open>Well-formed parameters\<close>

text \<open>
  A batch has a micro and a macro block at least, an epoch has a batch, and an epoch's length
  is a 32-bit number. The three policies the program ships are well-formed.
\<close>

definition wf_policy :: "policy \<Rightarrow> bool" where
  "wf_policy p \<longleftrightarrow> 2 \<le> unat (blocks_per_batch p) \<and> 1 \<le> unat (batches_per_epoch p) \<and>
     unat (blocks_per_batch p) * unat (batches_per_epoch p) < 2 ^ 32"

lemma wf_policy_shipped [simp]:
  "wf_policy MAINNET_POLICY" "wf_policy TESTNET_POLICY" "wf_policy TEST_POLICY"
  by (simp_all add: wf_policy_def MAINNET_POLICY_def TESTNET_POLICY_def TEST_POLICY_def)

lemma wf_policy_network: "wf_policy (default_for_network n)"
  by (cases n) simp_all

abbreviation genesis :: "policy \<Rightarrow> nat" where
  "genesis p \<equiv> unat (genesis_block_number p)"

abbreviation batch_len :: "policy \<Rightarrow> nat" where
  "batch_len p \<equiv> unat (blocks_per_batch p)"

abbreviation epoch_len :: "policy \<Rightarrow> nat" where
  "epoch_len p \<equiv> unat (blocks_per_epoch p)"

lemma epoch_len_eq:
  assumes "wf_policy p"
  shows "epoch_len p = batch_len p * unat (batches_per_epoch p)"
proof -
  have "unat (ucast (batches_per_epoch p) :: u32) = unat (batches_per_epoch p)"
    by (simp add: unat_ucast_up)
  then show ?thesis
    using assms by (simp add: blocks_per_epoch_def wf_policy_def unat_mult_lem_nat)
qed

lemma batch_len_ge: "wf_policy p \<Longrightarrow> 2 \<le> batch_len p"
  by (simp add: wf_policy_def)

lemma epoch_len_ge: "wf_policy p \<Longrightarrow> 2 \<le> epoch_len p"
  unfolding epoch_len_eq wf_policy_def
  by (metis (no_types, lifting) dual_order.trans mult.right_neutral mult_le_mono2 epoch_len_eq wf_policy_def)

lemma batch_dvd_epoch: "wf_policy p \<Longrightarrow> batch_len p dvd epoch_len p"
  by (simp add: epoch_len_eq)

section \<open>Reading the word arithmetic\<close>

text \<open>The offset \<open>n\<close> of a height from the genesis block, and the length \<open>d\<close> of a batch or an epoch.\<close>

lemma unat_offset [word_arith]:
  "(g::u32) \<le> b \<Longrightarrow> unat (b - g) = unat b - unat g"
  by (rule unat_sub_le)

lemma unat_index:
  fixes n d :: u32
  assumes "d \<noteq> 0" "unat n + unat d \<le> 2 ^ 32"
  shows "unat ((n + d - 1) mod d) = (unat n + unat d - 1) mod unat d"
proof -
  have d: "1 \<le> d" using assms(1) by (simp add: word_le_nat_alt unat_gt_0 Suc_le_eq)
  have e: "n + d - 1 = n + (d - 1)" by simp
  have "unat (d - 1) = unat d - 1" using d by (simp add: unat_sub_le)
  then have "unat (n + (d - 1)) = unat n + (unat d - 1)"
    using assms d by (subst unat_add_lem_nat) (auto simp: word_le_nat_alt)
  then show ?thesis
    unfolding e unat_mod using d by (simp add: word_le_nat_alt)
qed

lemma unat_round_down:
  fixes n d :: u32
  shows "unat (n div d * d) = unat n div unat d * unat d"
proof -
  have "unat (n div d) * unat d \<le> unat n" by (simp add: unat_div)
  then have "unat (n div d) * unat d < 2 ^ 32"
    using unat_bound [of n] by simp
  then show ?thesis by (simp add: unat_mult_lem_nat unat_div)
qed

lemma unat_boundary_at:
  fixes b g d :: u32
  assumes "unat g \<le> unat b"
  shows "unat ((b - g) div d * d + g) = (unat b - unat g) div unat d * unat d + unat g"
proof -
  have "(unat b - unat g) div unat d * unat d + unat g \<le> unat b"
    using assms div_times_less_eq_dividend [of "unat b - unat g" "unat d"] by linarith
  then show ?thesis
    using assms unat_bound [of b]
    by (subst unat_add_lem_nat) (auto simp: unat_round_down unat_offset word_le_nat_alt)
qed

lemma unat_boundary_below:
  fixes b g d :: u32
  assumes "unat g < unat b"
  shows "unat ((b - g - 1) div d * d + g) = (unat b - unat g - 1) div unat d * unat d + unat g"
proof -
  have "1 \<le> b" using assms by (simp add: word_le_nat_alt)
  then have u: "unat (b - 1) = unat b - 1" by (simp add: unat_sub_le)
  have e: "b - g - 1 = b - 1 - g" by simp
  show ?thesis unfolding e using unat_boundary_at [of g "b - 1" d] assms u by simp
qed

lemma unat_round_up:
  fixes n d g :: u32
  assumes "2 \<le> unat d"
  shows "unat (w_saturating_add (w_saturating_mul (n div d + 1) d) g) =
         min ((unat n div unat d + 1) * unat d + unat g) (2 ^ 32 - 1)"
proof -
  have "unat n div unat d \<le> unat n div 2" using assms by (simp add: div_le_mono2)
  then have "unat (n div d) + 1 < 2 ^ 32" using unat_bound [of n] by (simp add: unat_div)
  then have q: "unat (n div d + 1) = unat n div unat d + 1"
    by (simp add: unat_add_lem_nat unat_div)
  show ?thesis by (simp add: unat_w_saturating_add unat_w_saturating_mul q)
qed

lemma index_last_iff:
  fixes n d :: nat
  assumes "0 < d"
  shows "(n + d - 1) mod d = d - 1 \<longleftrightarrow> d dvd n"
proof (cases "n mod d = 0")
  case True
  then obtain k where n: "n = d * k" by auto
  have "n + d - 1 = d * k + (d - 1)" using assms n by simp
  also have "\<dots> mod d = d - 1" using assms by (simp only: mod_mult_self4) simp
  finally show ?thesis using n by simp
next
  case False
  have m: "n mod d < d" using assms by simp
  have "n + d - 1 = (n div d + 1) * d + (n mod d - 1)"
    using False assms div_mult_mod_eq [of n d] by simp
  then have "(n + d - 1) mod d = n mod d - 1"
    using m by (simp only: mod_mult_self3) simp
  then show ?thesis using False m by (simp add: dvd_eq_mod_eq_0)
qed

section \<open>Boundaries on a grid\<close>

text \<open>
  Macro blocks stand every \<open>blocks_per_batch\<close> blocks from the genesis block, election blocks
  every \<open>blocks_per_epoch\<close>. Both families of functions promise the same: the next, the previous
  and the last boundary of a height.
\<close>

locale block_grid =
  fixes period :: "policy \<Rightarrow> nat"
    and next_on :: "policy \<Rightarrow> u32 \<Rightarrow> u32"
    and prev_on :: "policy \<Rightarrow> u32 \<Rightarrow> u32 option"
    and last_on :: "policy \<Rightarrow> u32 \<Rightarrow> u32 option"
    and on_grid :: "policy \<Rightarrow> u32 \<Rightarrow> bool"
  assumes period_pos: "wf_policy p \<Longrightarrow> 0 < period p"
    and next_on_nat: "wf_policy p \<Longrightarrow> genesis p \<le> unat b \<Longrightarrow>
      unat (next_on p b) =
        min (((unat b - genesis p) div period p + 1) * period p + genesis p) (2 ^ 32 - 1)"
    and prev_on_nat: "wf_policy p \<Longrightarrow> genesis p < unat b \<Longrightarrow>
      map_option unat (prev_on p b) =
        Some ((unat b - genesis p - 1) div period p * period p + genesis p)"
    and last_on_nat: "wf_policy p \<Longrightarrow> genesis p \<le> unat b \<Longrightarrow>
      map_option unat (last_on p b) =
        Some ((unat b - genesis p) div period p * period p + genesis p)"
    and on_grid_nat: "wf_policy p \<Longrightarrow> genesis p \<le> unat b \<Longrightarrow>
      unat b - genesis p + period p \<le> 2 ^ 32 \<Longrightarrow>
      on_grid p b \<longleftrightarrow> period p dvd (unat b - genesis p)"
begin

definition boundary :: "policy \<Rightarrow> nat \<Rightarrow> bool" where
  "boundary p n \<longleftrightarrow> genesis p \<le> n \<and> period p dvd (n - genesis p)"

lemma boundaryI: "boundary p (k * period p + genesis p)"
  by (simp add: boundary_def)

lemma boundaryE:
  assumes "boundary p n"
  obtains k where "n = k * period p + genesis p"
  using assms by (auto simp: boundary_def dvd_def mult.commute) (metis le_add_diff_inverse2)

lemma next_least:
  assumes "wf_policy p" "genesis p \<le> unat b" "next_on p b \<noteq> - 1"
  shows "boundary p (unat (next_on p b)) \<and> unat b < unat (next_on p b) \<and>
    (\<forall>m. boundary p m \<and> unat b < m \<longrightarrow> unat (next_on p b) \<le> m)"
proof -
  let ?q = "(unat b - genesis p) div period p"
  have "unat (next_on p b) \<noteq> 2 ^ 32 - 1"
    using assms(3) by (simp add: word_unat_eq_iff unat_max_word)
  then have n: "unat (next_on p b) = (?q + 1) * period p + genesis p"
    using next_on_nat [OF assms(1,2)] by (auto simp: min_def split: if_splits)
  have lt: "unat b - genesis p < (?q + 1) * period p"
    using period_pos [OF assms(1)] dividend_less_div_times [of "period p" "unat b - genesis p"] by simp
  have least: "(?q + 1) * period p + genesis p \<le> m" if m: "boundary p m" "unat b < m" for m
  proof -
    obtain k where k: "m = k * period p + genesis p" using m(1) by (rule boundaryE)
    have "unat b - genesis p < k * period p" using m(2) k assms(2) by simp
    then have "?q < k" by (simp add: less_mult_imp_div_less)
    then show ?thesis using k by (simp add: mult_le_mono1 Suc_le_eq [symmetric] del: mult_Suc)
  qed
  show ?thesis unfolding n using lt assms(2) least boundaryI [of p "?q + 1"] by auto
qed

lemma greatest_below:
  assumes "wf_policy p" "boundary p m" "m \<le> n + genesis p"
  shows "m \<le> n div period p * period p + genesis p"
proof -
  obtain k where k: "m = k * period p + genesis p" using assms(2) by (rule boundaryE)
  then have "k \<le> n div period p"
    using assms(3) period_pos [OF assms(1)] by (simp add: less_eq_div_iff_mult_less_eq)
  then show ?thesis using k by simp
qed

lemma last_greatest:
  assumes "wf_policy p" "genesis p \<le> unat b"
  shows "\<exists>l. last_on p b = Some l \<and> boundary p (unat l) \<and> l \<le> b \<and>
    (\<forall>m. boundary p m \<and> m \<le> unat b \<longrightarrow> m \<le> unat l)"
proof -
  obtain l where l: "last_on p b = Some l"
    and n: "unat l = (unat b - genesis p) div period p * period p + genesis p"
    using last_on_nat [OF assms] by auto
  have "unat l \<le> unat b" using n assms(2) div_times_less_eq_dividend [of "unat b - genesis p" "period p"] by linarith
  moreover have "m \<le> unat l" if "boundary p m" "m \<le> unat b" for m
    using greatest_below [OF assms(1) that(1), of "unat b - genesis p"] that(2) assms(2) n by simp
  ultimately show ?thesis using l n boundaryI by (auto simp: word_le_nat_alt)
qed

lemma prev_greatest:
  assumes "wf_policy p" "genesis p < unat b"
  shows "\<exists>l. prev_on p b = Some l \<and> boundary p (unat l) \<and> l < b \<and>
    (\<forall>m. boundary p m \<and> m < unat b \<longrightarrow> m \<le> unat l)"
proof -
  let ?n = "unat b - genesis p - 1"
  obtain l where l: "prev_on p b = Some l"
    and n: "unat l = ?n div period p * period p + genesis p"
    using prev_on_nat [OF assms] by auto
  have "unat l < unat b" using n assms(2) div_times_less_eq_dividend [of ?n "period p"] by linarith
  moreover have "m \<le> unat l" if "boundary p m" "m < unat b" for m
    using greatest_below [OF assms(1) that(1), of ?n] that(2) assms(2) n by simp
  ultimately show ?thesis using l n boundaryI by (auto simp: word_less_nat_alt)
qed

end

lemma batch_index_at_nat:
  assumes "wf_policy p" "genesis p \<le> unat b" "unat b - genesis p + batch_len p \<le> 2 ^ 32"
  shows "unat (batch_index_at p b) = (unat b - genesis p + batch_len p - 1) mod batch_len p"
proof -
  have "blocks_per_batch p \<noteq> 0" using batch_len_ge [OF assms(1)] by auto
  then show ?thesis
    using assms by (simp add: batch_index_at_def word_less_nat_alt unat_index unat_offset word_le_nat_alt)
qed

lemma epoch_index_at_nat:
  assumes "wf_policy p" "genesis p \<le> unat b" "unat b - genesis p + epoch_len p \<le> 2 ^ 32"
  shows "unat (epoch_index_at p b) = (unat b - genesis p + epoch_len p - 1) mod epoch_len p"
proof -
  have "blocks_per_epoch p \<noteq> 0" using epoch_len_ge [OF assms(1)] by auto
  then show ?thesis
    using assms by (simp add: epoch_index_at_def word_less_nat_alt unat_index unat_offset word_le_nat_alt)
qed

lemma eq_minus_one_nat: "2 \<le> unat d \<Longrightarrow> (x::u32) = d - 1 \<longleftrightarrow> unat x = unat d - 1"
  by (simp add: word_unat_eq_iff unat_sub_le word_le_nat_alt)

lemma is_macro_block_at_nat:
  assumes "wf_policy p" "genesis p \<le> unat b" "unat b - genesis p + batch_len p \<le> 2 ^ 32"
  shows "is_macro_block_at p b \<longleftrightarrow> batch_len p dvd (unat b - genesis p)"
  using assms batch_len_ge [OF assms(1)] index_last_iff [of "batch_len p" "unat b - genesis p"]
  by (simp add: is_macro_block_at_def word_less_nat_alt eq_minus_one_nat batch_index_at_nat)

lemma is_election_block_at_nat:
  assumes "wf_policy p" "genesis p \<le> unat b" "unat b - genesis p + epoch_len p \<le> 2 ^ 32"
  shows "is_election_block_at p b \<longleftrightarrow> epoch_len p dvd (unat b - genesis p)"
  using assms epoch_len_ge [OF assms(1)] index_last_iff [of "epoch_len p" "unat b - genesis p"]
  by (simp add: is_election_block_at_def eq_minus_one_nat epoch_index_at_nat)

interpretation macro_grid: block_grid "\<lambda>p. batch_len p" macro_block_after macro_block_before
  last_macro_block is_macro_block_at
proof
  fix p b
  assume w: "wf_policy p"
  note [simp] = word_less_nat_alt word_le_nat_alt unat_offset
  show "0 < batch_len p" using batch_len_ge [OF w] by simp
  show "unat (macro_block_after p b) =
      min (((unat b - genesis p) div batch_len p + 1) * batch_len p + genesis p) (2 ^ 32 - 1)"
    if "genesis p \<le> unat b"
    using that unat_round_up [OF batch_len_ge [OF w]] by (simp add: macro_block_after_def)
  show "map_option unat (macro_block_before p b) =
      Some ((unat b - genesis p - 1) div batch_len p * batch_len p + genesis p)" if "genesis p < unat b"
    using that by (simp add: macro_block_before_def unat_boundary_below)
  show "map_option unat (last_macro_block p b) =
      Some ((unat b - genesis p) div batch_len p * batch_len p + genesis p)" if "genesis p \<le> unat b"
    using that by (simp add: last_macro_block_def unat_boundary_at)
  show "is_macro_block_at p b = (batch_len p dvd unat b - genesis p)"
    if "genesis p \<le> unat b" "unat b - genesis p + batch_len p \<le> 2 ^ 32"
    using is_macro_block_at_nat [OF w that] .
qed

interpretation election_grid: block_grid "\<lambda>p. epoch_len p" election_block_after election_block_before
  last_election_block is_election_block_at
proof
  fix p b
  assume w: "wf_policy p"
  note [simp] = word_less_nat_alt word_le_nat_alt unat_offset
  show "0 < epoch_len p" using epoch_len_ge [OF w] by simp
  show "unat (election_block_after p b) =
      min (((unat b - genesis p) div epoch_len p + 1) * epoch_len p + genesis p) (2 ^ 32 - 1)"
    if "genesis p \<le> unat b"
    using that unat_round_up [OF epoch_len_ge [OF w]] by (simp add: election_block_after_def)
  show "map_option unat (election_block_before p b) =
      Some ((unat b - genesis p - 1) div epoch_len p * epoch_len p + genesis p)" if "genesis p < unat b"
    using that by (auto simp: election_block_before_def unat_boundary_below)
  show "map_option unat (last_election_block p b) =
      Some ((unat b - genesis p) div epoch_len p * epoch_len p + genesis p)" if "genesis p \<le> unat b"
    using that by (simp add: last_election_block_def unat_boundary_at)
  show "is_election_block_at p b = (epoch_len p dvd unat b - genesis p)"
    if "genesis p \<le> unat b" "unat b - genesis p + epoch_len p \<le> 2 ^ 32"
    using is_election_block_at_nat [OF w that] .
qed

section \<open>Properties\<close>

lemma epoch_at_nat:
  assumes "wf_policy p" "genesis p < unat b"
  shows "unat (epoch_at p b) = (unat b - genesis p + epoch_len p - 1) div epoch_len p"
proof -
  have "epoch_len p \<noteq> 0" using epoch_len_ge [OF assms(1)] by simp
  then show ?thesis
    using assms unat_w_div_ceil [of "blocks_per_epoch p" "b - genesis_block_number p"]
    by (simp add: epoch_at_def word_le_nat_alt unat_offset)
qed

lemma batch_at_nat:
  assumes "wf_policy p" "genesis p < unat b"
  shows "unat (batch_at p b) = (unat b - genesis p + batch_len p - 1) div batch_len p"
proof -
  have "batch_len p \<noteq> 0" using batch_len_ge [OF assms(1)] by simp
  then show ?thesis
    using assms unat_w_div_ceil [of "blocks_per_batch p" "b - genesis_block_number p"]
    by (simp add: batch_at_def word_le_nat_alt unat_offset)
qed

lemma ceil_decomposition:
  fixes n d :: nat
  assumes "0 < d" "0 < n"
  shows "n = ((n + d - 1) div d - 1) * d + (n + d - 1) mod d + 1"
proof -
  have "(n + d - 1) div d * d + (n + d - 1) mod d = n + d - 1" by simp
  moreover have "1 \<le> (n + d - 1) div d" using assms by (simp add: Suc_le_eq div_greater_zero_iff)
  ultimately show ?thesis using assms by (simp add: diff_mult_distrib)
qed

lemma ceil_eq_iff:
  fixes n d e :: nat
  assumes "0 < d" "0 < e"
  shows "(n + d - 1) div d = e \<longleftrightarrow> (e - 1) * d + 1 \<le> n \<and> n \<le> e * d"
proof -
  obtain k where k: "e = Suc k" using assms(2) by (cases e) auto
  have "(n + d - 1) div d = e \<longleftrightarrow> e * d \<le> n + d - 1 \<and> n + d - 1 < (e + 1) * d"
    using assms(1) by (metis Suc_eq_plus1 div_nat_eqI le_refl less_eq_div_iff_mult_less_eq less_mult_imp_div_less mult.commute dividend_less_times_div add.commute mult_Suc_right add_mult_distrib2 div_times_less_eq_dividend mult_Suc)
  then show ?thesis using k assms(1) by auto
qed

lemma first_block_of_Some:
  "first_block_of p e = Some b \<longleftrightarrow>
     0 < unat e \<and> unat b = (unat e - 1) * epoch_len p + 1 + genesis p"
proof (cases "1 \<le> e")
  case True
  then have "0 < unat e" "unat (e - 1) = unat e - 1" by (simp_all add: word_le_nat_alt unat_sub_le)
  with True show ?thesis
    using unat_bound [of b]
    by (auto simp: first_block_of_def w_checked_sub_def w_checked_add_def w_checked_mul_def
        unat_mult_lem_nat unat_add_lem_nat word_unat_eq_iff split: if_splits)
qed (simp add: first_block_of_def w_checked_sub_def word_le_nat_alt)

lemma election_block_of_Some:
  "election_block_of p e = Some b \<longleftrightarrow> unat b = unat e * epoch_len p + genesis p"
  using unat_bound [of b]
  by (auto simp: election_block_of_def w_checked_add_def w_checked_mul_def
      unat_mult_lem_nat unat_add_lem_nat word_unat_eq_iff split: if_splits)

text \<open>
  C29. Heights decompose: past the genesis block, and while the height plus an epoch fits 32 bits,
  a height is the start of its epoch plus its index in it, the index is below the epoch's length,
  a block is a macro block exactly at the multiples of the batch length and an election block
  exactly at the multiples of the epoch length, every election block is a macro block, and micro
  blocks are exactly the others.
\<close>

theorem policy_heights:
  assumes "wf_policy p" "genesis p < unat b" "unat b - genesis p + epoch_len p \<le> 2 ^ 32"
  shows "unat b = genesis p + (unat (epoch_at p b) - 1) * epoch_len p + unat (epoch_index_at p b) + 1 \<and>
    unat (epoch_index_at p b) < epoch_len p \<and>
    unat b = genesis p + (unat (batch_at p b) - 1) * batch_len p + unat (batch_index_at p b) + 1 \<and>
    unat (batch_index_at p b) < batch_len p \<and>
    (is_macro_block_at p b \<longleftrightarrow> batch_len p dvd unat b - genesis p) \<and>
    (is_election_block_at p b \<longleftrightarrow> epoch_len p dvd unat b - genesis p) \<and>
    (is_election_block_at p b \<longrightarrow> is_macro_block_at p b) \<and>
    (is_micro_block_at p b \<longleftrightarrow> \<not> is_macro_block_at p b)"
proof -
  note w = assms(1)
  note pos = epoch_len_ge [OF w] batch_len_ge [OF w]
  have bl: "unat b - genesis p + batch_len p \<le> 2 ^ 32"
    using assms(3) pos dvd_imp_le [OF batch_dvd_epoch [OF w]] by linarith
  have g: "genesis p \<le> unat b" using assms(2) by simp
  note e = epoch_at_nat [OF w assms(2)] epoch_index_at_nat [OF w g assms(3)]
    and b = batch_at_nat [OF w assms(2)] batch_index_at_nat [OF w g bl]
    and k = is_macro_block_at_nat [OF w g bl] is_election_block_at_nat [OF w g assms(3)]
  have "unat b - genesis p = (unat (epoch_at p b) - 1) * epoch_len p + unat (epoch_index_at p b) + 1"
    unfolding e by (rule ceil_decomposition) (use assms pos in auto)
  moreover have "unat b - genesis p = (unat (batch_at p b) - 1) * batch_len p + unat (batch_index_at p b) + 1"
    unfolding b by (rule ceil_decomposition) (use assms pos in auto)
  moreover have "unat (epoch_index_at p b) < epoch_len p" "unat (batch_index_at p b) < batch_len p"
    unfolding e b using pos by simp_all
  moreover have "is_election_block_at p b \<longrightarrow> is_macro_block_at p b"
    unfolding k using batch_dvd_epoch [OF w] by (blast intro: dvd_trans)
  moreover have "is_micro_block_at p b \<longleftrightarrow> \<not> is_macro_block_at p b"
    using g by (simp add: is_micro_block_at_def is_macro_block_at_def word_less_nat_alt)
  ultimately show ?thesis using k g by linarith
qed

theorem policy_heights_witness:
  "wf_policy MAINNET_POLICY \<and> is_election_block_at MAINNET_POLICY 3499200 \<and>
   is_macro_block_at MAINNET_POLICY 3499200"
proof -
  have h: "epoch_len MAINNET_POLICY = 43200" "genesis MAINNET_POLICY = 3456000"
    "batch_len MAINNET_POLICY = 60"
    by (simp_all add: blocks_per_epoch_def MAINNET_POLICY_def)
  show ?thesis using policy_heights [of MAINNET_POLICY 3499200] by (simp add: h)
qed

text \<open>
  Neighbours: for a height at or past the genesis block, \<open>election_block_after\<close> is the
  least election height above it unless the 32-bit range is exhausted, \<open>last_election_block\<close>
  is the greatest one not above it, \<open>election_block_before\<close> the greatest one below it, and the
  same holds for macro blocks and the batch length.
\<close>

theorem policy_neighbours:
  assumes "wf_policy p" "genesis p < unat b"
    "election_block_after p b \<noteq> - 1" "macro_block_after p b \<noteq> - 1"
  shows "(\<exists>l q. last_election_block p b = Some l \<and> election_block_before p b = Some q \<and>
      q < b \<and> l \<le> b \<and> unat b < unat (election_block_after p b) \<and>
      (\<forall>n. genesis p \<le> n \<and> epoch_len p dvd n - genesis p \<longrightarrow>
        (n \<le> unat b \<longrightarrow> n \<le> unat l) \<and> (n < unat b \<longrightarrow> n \<le> unat q) \<and>
        (unat b < n \<longrightarrow> unat (election_block_after p b) \<le> n)) \<and>
      (\<forall>x \<in> {l, q, election_block_after p b}. genesis p \<le> unat x \<and> epoch_len p dvd unat x - genesis p)) \<and>
    (\<exists>l q. last_macro_block p b = Some l \<and> macro_block_before p b = Some q \<and>
      q < b \<and> l \<le> b \<and> unat b < unat (macro_block_after p b) \<and>
      (\<forall>n. genesis p \<le> n \<and> batch_len p dvd n - genesis p \<longrightarrow>
        (n \<le> unat b \<longrightarrow> n \<le> unat l) \<and> (n < unat b \<longrightarrow> n \<le> unat q) \<and>
        (unat b < n \<longrightarrow> unat (macro_block_after p b) \<le> n)) \<and>
      (\<forall>x \<in> {l, q, macro_block_after p b}. genesis p \<le> unat x \<and> batch_len p dvd unat x - genesis p))"
proof (intro conjI)
  note w = assms(1) and g = less_imp_le [OF assms(2)]
  show "\<exists>l q. last_election_block p b = Some l \<and> election_block_before p b = Some q \<and>
      q < b \<and> l \<le> b \<and> unat b < unat (election_block_after p b) \<and>
      (\<forall>n. genesis p \<le> n \<and> epoch_len p dvd n - genesis p \<longrightarrow>
        (n \<le> unat b \<longrightarrow> n \<le> unat l) \<and> (n < unat b \<longrightarrow> n \<le> unat q) \<and>
        (unat b < n \<longrightarrow> unat (election_block_after p b) \<le> n)) \<and>
      (\<forall>x \<in> {l, q, election_block_after p b}. genesis p \<le> unat x \<and> epoch_len p dvd unat x - genesis p)"
    using election_grid.last_greatest [OF w g] election_grid.prev_greatest [OF w assms(2)]
      election_grid.next_least [OF w g assms(3)]
    unfolding election_grid.boundary_def by auto
  show "\<exists>l q. last_macro_block p b = Some l \<and> macro_block_before p b = Some q \<and>
      q < b \<and> l \<le> b \<and> unat b < unat (macro_block_after p b) \<and>
      (\<forall>n. genesis p \<le> n \<and> batch_len p dvd n - genesis p \<longrightarrow>
        (n \<le> unat b \<longrightarrow> n \<le> unat l) \<and> (n < unat b \<longrightarrow> n \<le> unat q) \<and>
        (unat b < n \<longrightarrow> unat (macro_block_after p b) \<le> n)) \<and>
      (\<forall>x \<in> {l, q, macro_block_after p b}. genesis p \<le> unat x \<and> batch_len p dvd unat x - genesis p)"
    using macro_grid.last_greatest [OF w g] macro_grid.prev_greatest [OF w assms(2)]
      macro_grid.next_least [OF w g assms(4)]
    unfolding macro_grid.boundary_def by auto
qed

lemma mainnet_numbers:
  "epoch_len MAINNET_POLICY = 43200" "genesis MAINNET_POLICY = 3456000" "batch_len MAINNET_POLICY = 60"
  by (simp_all add: blocks_per_epoch_def MAINNET_POLICY_def)

theorem policy_neighbours_witness:
  "wf_policy MAINNET_POLICY \<and> last_election_block MAINNET_POLICY 3500000 = Some 3499200 \<and>
   (\<exists>l. last_election_block MAINNET_POLICY 3500000 = Some l \<and> l \<le> 3500000)"
proof -
  have "election_block_after MAINNET_POLICY 3500000 = 3542400"
    "macro_block_after MAINNET_POLICY 3500000 = 3500040"
    "last_election_block MAINNET_POLICY 3500000 = Some 3499200"
    by (simp_all add: election_block_after_def macro_block_after_def last_election_block_def
        w_saturating_add_def w_saturating_mul_def blocks_per_epoch_def MAINNET_POLICY_def)
  then show ?thesis using policy_neighbours [of MAINNET_POLICY 3500000] by (simp add: mainnet_numbers)
qed

text \<open>
  Epoch numbers and heights are inverse: the first block and the election block of an epoch
  bound exactly the heights the epoch number is computed for.
\<close>

theorem epoch_of_block:
  assumes "wf_policy p" "first_block_of p e = Some f" "election_block_of p e = Some l"
  shows "(epoch_at p b = e \<longleftrightarrow> f \<le> b \<and> b \<le> l) \<and> f \<le> l"
proof -
  have e: "0 < unat e" "unat f = (unat e - 1) * epoch_len p + 1 + genesis p"
    and l: "unat l = unat e * epoch_len p + genesis p"
    using assms(2,3) by (simp_all add: first_block_of_Some election_block_of_Some)
  note E = epoch_len_ge [OF assms(1)]
  obtain k where k: "unat e = Suc k" using e(1) gr0_implies_Suc by blast
  have "f \<le> l" using e l k E by (simp add: word_le_nat_alt)
  moreover have "epoch_at p b = e \<longleftrightarrow> f \<le> b \<and> b \<le> l"
  proof (cases "genesis p < unat b")
    case True
    have "unat (epoch_at p b) = unat e \<longleftrightarrow>
        (unat e - 1) * epoch_len p + 1 \<le> unat b - genesis p \<and> unat b - genesis p \<le> unat e * epoch_len p"
      unfolding epoch_at_nat [OF assms(1) True] by (rule ceil_eq_iff) (use e E in auto)
    then show ?thesis using e l True by (auto simp: word_unat_eq_iff word_le_nat_alt)
  next
    case False
    then show ?thesis using e by (auto simp: epoch_at_def word_le_nat_alt)
  qed
  ultimately show ?thesis by simp
qed

theorem epoch_of_block_witness:
  "first_block_of MAINNET_POLICY 2 = Some 3499201 \<and> election_block_of MAINNET_POLICY 2 = Some 3542400 \<and>
   epoch_at MAINNET_POLICY 3500000 = 2"
proof -
  have h: "first_block_of MAINNET_POLICY 2 = Some 3499201" "election_block_of MAINNET_POLICY 2 = Some 3542400"
    by (simp_all add: first_block_of_Some election_block_of_Some mainnet_numbers)
  show ?thesis using epoch_of_block [OF _ h, of 3500000] h by simp
qed

text \<open>
  C30. The windows nest: whenever the policy's validity window is consistent, an offence can be
  reported only while the offender's collateral is locked, the reporting window stays within the
  retention of the transaction validity store, and the jail outlasts the lock-up.
\<close>

theorem reporting_within_lockup:
  assumes "wf_policy p" "last_block_of_equivocation_reporting_window p b = Some r"
    "transaction_validity_window_blocks p = Some v"
  shows "r \<le> last_block_of_collateral_lockup p b \<and>
    last_block_of_collateral_lockup p b \<le> block_after_collateral_lockup p b \<and>
    block_after_collateral_lockup p b \<le> block_after_jail p b \<and>
    unat r \<le> unat b + unat v \<and> unat v \<le> epoch_len p"
proof -
  let ?w = "unat (transaction_validity_window_batches p)"
  have "unat (ucast (batches_per_epoch p) :: u32) = unat (batches_per_epoch p)"
    by (simp add: unat_ucast_up)
  then have w: "?w \<le> unat (batches_per_epoch p)"
    and v: "v = transaction_validity_window_batches p * blocks_per_batch p"
    using assms(3) by (auto simp: transaction_validity_window_blocks_def word_le_nat_alt split: if_splits)
  have le: "?w * batch_len p \<le> epoch_len p"
    using w by (simp add: epoch_len_eq [OF assms(1)] mult.commute)
  then have "unat v \<le> epoch_len p"
    using unat_bound [of "blocks_per_epoch p"] by (simp add: v unat_mult_lem_nat)
  moreover have "r = w_saturating_add b v"
    using assms(2,3) by (simp add: last_block_of_equivocation_reporting_window_def)
  ultimately show ?thesis
    by (auto simp: last_block_of_collateral_lockup_def block_after_collateral_lockup_def
        block_after_jail_def word_le_nat_alt unat_w_saturating_add unat_w_saturating_mul JAIL_EPOCHS_def min_def)
qed

theorem reporting_within_lockup_witness:
  "last_block_of_equivocation_reporting_window MAINNET_POLICY 4000000 = Some 4007200 \<and>
   4007200 \<le> last_block_of_collateral_lockup MAINNET_POLICY 4000000"
proof -
  have h: "transaction_validity_window_blocks MAINNET_POLICY = Some 7200"
    by (simp add: transaction_validity_window_blocks_def MAINNET_POLICY_def)
  then have r: "last_block_of_equivocation_reporting_window MAINNET_POLICY 4000000 = Some 4007200"
    by (simp add: last_block_of_equivocation_reporting_window_def w_saturating_add_def)
  show ?thesis using reporting_within_lockup [OF _ r h] r by simp
qed

lemma u16_be_bytes_roundtrip: "u16_from_be_bytes (u16_to_be_bytes v) = v"
proof (rule bit_word_eqI)
  fix n
  assume "n < LENGTH(16)"
  then show "bit (u16_from_be_bytes (u16_to_be_bytes v)) n = bit v n"
    by (cases "n < 8")
      (auto simp: u16_from_be_bytes_def u16_to_be_bytes_def bit_simps bit_or_iff bit_push_bit_iff
        bit_ucast_iff bit_drop_bit_eq not_less)
qed

lemma length_u16_to_be_bytes [simp]: "length (u16_to_be_bytes v) = 2"
  by (simp add: u16_to_be_bytes_def)

text \<open>
  Signalling round trip: a validator whose signal data was built or updated for a version
  supports exactly that version, the update keeps the thirty remaining bytes, a fresh value is the
  update of an absent one, and absent signal data supports nothing.
\<close>

theorem signal_data_roundtrip:
  "supports_upgrade (Some (signal_data_with_version cur v)) v' = (v' = v) \<and>
   supports_upgrade (Some (signal_data_for_version v)) v' = (v' = v) \<and>
   signal_data_for_version v = signal_data_with_version None v \<and>
   drop 2 (signal_data_with_version (Some d) v) = drop 2 d \<and>
   signal_data_with_version (Some (signal_data_with_version cur v)) v' = signal_data_with_version cur v' \<and>
   length (signal_data_for_version v) = 32 \<and>
   \<not> supports_upgrade None v"
  by (auto simp: supports_upgrade_def signal_data_with_version_def signal_data_for_version_def
      u16_be_bytes_roundtrip)


end
