(* ===== verification/BitSet.thy ===== *)
theory BitSet
  imports Prelude "HOL-Library.More_List"
begin

text \<open>
  The growable bit set of \<^verbatim>\<open>collections/src/bitset.rs\<close>: a vector of 64-bit words and a cached
  number of elements. A loop over two iterators is a recursion over the two stores. The cached
  count is a natural number: it changes only together with a bit, so that \<open>count - 1\<close> is
  computed only when a bit is set. The abstraction \<open>elems\<close> is the set of stored numbers; the
  locale \<open>index_set\<close> is the contract the users of the bit set rely on.
\<close>

unbundle bit_operations_syntax

record bitset =
  store :: "u64 list"
  count :: nat

definition index_and_mask :: "nat \<Rightarrow> nat \<times> u64" where
  "index_and_mask value = (drop_bit 6 value, push_bit (value AND 63) 1)"

definition bitset_new :: bitset where
  "bitset_new = \<lparr> store = [], count = 0 \<rparr>"

definition bitset_clear :: "bitset \<Rightarrow> bitset" where
  "bitset_clear s = s \<lparr> store := [], count := 0 \<rparr>"

definition bitset_len :: "bitset \<Rightarrow> nat" where
  "bitset_len s = count s"

definition bitset_is_empty :: "bitset \<Rightarrow> bool" where
  "bitset_is_empty s \<longleftrightarrow> count s = 0"

definition contains :: "bitset \<Rightarrow> nat \<Rightarrow> bool" where
  "contains s value = (let (i, m) = index_and_mask value in
     if i < length (store s) then store s ! i AND m \<noteq> 0 else False)"

definition bitset_insert :: "bitset \<Rightarrow> nat \<Rightarrow> bitset" where
  "bitset_insert s value = (let (i, m) = index_and_mask value;
     st = (if i \<ge> length (store s) then store s @ replicate (i + 1 - length (store s)) 0 else store s);
     c = (if st ! i AND m = 0 then count s + 1 else count s)
     in s \<lparr> store := st[i := st ! i OR m], count := c \<rparr>)"

definition compact :: "bitset \<Rightarrow> bitset" where
  "compact s = (let num_empty = length (takeWhile (\<lambda>v. v = 0) (rev (store s)))
     in s \<lparr> store := take (length (store s) - num_empty) (store s) \<rparr>)"

definition bitset_remove :: "bitset \<Rightarrow> nat \<Rightarrow> bitset" where
  "bitset_remove s value = (let (i, m) = index_and_mask value in
     compact (if i < length (store s) then
         s \<lparr> store := (store s)[i := store s ! i AND NOT m],
             count := (if store s ! i AND m \<noteq> 0 then count s - 1 else count s) \<rparr>
       else s))"

definition count_ones :: "u64 \<Rightarrow> nat" where
  "count_ones x = length (filter (bit x) [0..<64])"

fun apply_op_loop :: "(u64 \<Rightarrow> u64 \<Rightarrow> u64) \<Rightarrow> u64 list \<Rightarrow> u64 list \<Rightarrow> u64 list \<Rightarrow> nat \<Rightarrow> u64 list \<times> nat" where
  "apply_op_loop op (a # left) (b # right) st c =
     (let x = op a b in apply_op_loop op left right (st @ [x]) (c + count_ones x))"
| "apply_op_loop op (a # left) [] st c =
     (let x = op a 0 in apply_op_loop op left [] (st @ [x]) (c + count_ones x))"
| "apply_op_loop op [] (b # right) st c =
     (let x = op 0 b in apply_op_loop op [] right (st @ [x]) (c + count_ones x))"
| "apply_op_loop op [] [] st c = (st, c)"

definition apply_op :: "bitset \<Rightarrow> bitset \<Rightarrow> (u64 \<Rightarrow> u64 \<Rightarrow> u64) \<Rightarrow> bitset" where
  "apply_op s other op = (let (st, c) = apply_op_loop op (store s) (store other) [] 0
     in compact \<lparr> store = st, count = c \<rparr>)"

text \<open>The in-place variant: words already written, words appended afterwards, count so far.\<close>

fun apply_op_assign_loop ::
  "(u64 \<Rightarrow> u64 \<Rightarrow> u64) \<Rightarrow> u64 list \<Rightarrow> u64 list \<Rightarrow> u64 list \<Rightarrow> u64 list \<Rightarrow> nat \<Rightarrow> (u64 list \<times> u64 list) \<times> nat" where
  "apply_op_assign_loop op (a # left) (b # right) mut new c =
     (let a' = op a b in apply_op_assign_loop op left right (mut @ [a']) new (c + count_ones a'))"
| "apply_op_assign_loop op (a # left) [] mut new c =
     (let a' = op a 0 in apply_op_assign_loop op left [] (mut @ [a']) new (c + count_ones a'))"
| "apply_op_assign_loop op [] (b # right) mut new c =
     (let x = op 0 b in apply_op_assign_loop op [] right mut (new @ [x]) (c + count_ones x))"
| "apply_op_assign_loop op [] [] mut new c = ((mut, new), c)"

definition apply_op_assign :: "bitset \<Rightarrow> bitset \<Rightarrow> (u64 \<Rightarrow> u64 \<Rightarrow> u64) \<Rightarrow> bitset" where
  "apply_op_assign s other op =
     (let ((mut, new), c) = apply_op_assign_loop op (store s) (store other) [] [] 0
      in compact (s \<lparr> store := mut @ new, count := c \<rparr>))"

definition bitset_and :: "bitset \<Rightarrow> bitset \<Rightarrow> bitset" where
  "bitset_and s other = apply_op s other (AND)"

definition bitset_or :: "bitset \<Rightarrow> bitset \<Rightarrow> bitset" where
  "bitset_or s other = apply_op s other (OR)"

definition bitset_xor :: "bitset \<Rightarrow> bitset \<Rightarrow> bitset" where
  "bitset_xor s other = apply_op s other (XOR)"

definition bitset_and_assign :: "bitset \<Rightarrow> bitset \<Rightarrow> bitset" where
  "bitset_and_assign s other = apply_op_assign s other (AND)"

definition bitset_or_assign :: "bitset \<Rightarrow> bitset \<Rightarrow> bitset" where
  "bitset_or_assign s other = apply_op_assign s other (OR)"

definition bitset_xor_assign :: "bitset \<Rightarrow> bitset \<Rightarrow> bitset" where
  "bitset_xor_assign s other = apply_op_assign s other (XOR)"

definition bits64_next :: "u64 \<Rightarrow> nat \<Rightarrow> bool option \<times> nat" where
  "bits64_next st idx =
     (if idx \<le> 63 then (Some (st AND push_bit idx 1 \<noteq> 0), idx + 1) else (None, idx))"

function bits64_from :: "u64 \<Rightarrow> nat \<Rightarrow> bool list" where
  "bits64_from st idx = (case bits64_next st idx of
     (Some b, idx') \<Rightarrow> b # bits64_from st idx'
   | (None, _) \<Rightarrow> [])"
  by pat_completeness auto
termination
  by (relation "measure (\<lambda>(st, idx). 64 - idx)") (auto simp: bits64_next_def split: if_splits)

text \<open>The first \<open>n\<close> items of the infinite iterators.\<close>

definition iter_bits :: "bitset \<Rightarrow> nat \<Rightarrow> bool list" where
  "iter_bits s n = take n (concat (map (\<lambda>w. bits64_from w 0) (store s)) @ replicate n False)"

definition iter_excluded :: "bitset \<Rightarrow> nat \<Rightarrow> nat list" where
  "iter_excluded s n = map fst (filter (\<lambda>(i, one). \<not> one) (enumerate 0 (iter_bits s n)))"

definition bitset_iter :: "bitset \<Rightarrow> nat list" where
  "bitset_iter s = map fst (filter (\<lambda>(i, one). one) (enumerate 0 (iter_bits s (length (store s) * 64))))"

fun is_superset_loop :: "u64 list \<Rightarrow> u64 list \<Rightarrow> bool" where
  "is_superset_loop (a # left) (b # right) = (if \<not> (a AND b = b) then False else is_superset_loop left right)"
| "is_superset_loop (a # left) [] = True"
| "is_superset_loop [] (b # right) = (if \<not> (b = 0) then False else is_superset_loop [] right)"
| "is_superset_loop [] [] = True"

definition is_superset :: "bitset \<Rightarrow> bitset \<Rightarrow> bool" where
  "is_superset s other = is_superset_loop (store s) (store other)"

definition is_subset :: "bitset \<Rightarrow> bitset \<Rightarrow> bool" where
  "is_subset s other = is_superset other s"

definition intersection_size :: "bitset \<Rightarrow> bitset \<Rightarrow> nat" where
  "intersection_size s other =
     sum_list (map (\<lambda>(a, b). count_ones (a AND b)) (zip (store s) (store other)))"

fun bitset_eq_loop :: "u64 list \<Rightarrow> u64 list \<Rightarrow> bool" where
  "bitset_eq_loop (a # left) (b # right) = (if a \<noteq> b then False else bitset_eq_loop left right)"
| "bitset_eq_loop (a # left) [] = (if a \<noteq> 0 then False else bitset_eq_loop left [])"
| "bitset_eq_loop [] (b # right) = (if 0 \<noteq> b then False else bitset_eq_loop [] right)"
| "bitset_eq_loop [] [] = True"

definition bitset_eq :: "bitset \<Rightarrow> bitset \<Rightarrow> bool" where
  "bitset_eq s other = bitset_eq_loop (store s) (store other)"

definition bitset_from_iter :: "nat list \<Rightarrow> bitset" where
  "bitset_from_iter xs = foldl bitset_insert bitset_new xs"

datatype visit_error = ElementTooLarge nat | DuplicateElement nat

definition serialize_human :: "bitset \<Rightarrow> nat list" where
  "serialize_human s = bitset_iter s"

definition serialize_binary :: "bitset \<Rightarrow> u64 list" where
  "serialize_binary s = store s"

fun visit_seq_human :: "bitset \<Rightarrow> nat list \<Rightarrow> visit_error + bitset" where
  "visit_seq_human result [] = Inr result"
| "visit_seq_human result (elem # seq) =
     (if elem > 65536 then Inl (ElementTooLarge elem)
      else if contains result elem then Inl (DuplicateElement elem)
      else visit_seq_human (bitset_insert result elem) seq)"

definition deserialize_human :: "nat list \<Rightarrow> visit_error + bitset" where
  "deserialize_human seq = visit_seq_human bitset_new seq"

fun visit_seq_binary :: "u64 list \<Rightarrow> nat \<Rightarrow> u64 list \<Rightarrow> bitset" where
  "visit_seq_binary st c [] = \<lparr> store = st, count = c \<rparr>"
| "visit_seq_binary st c (elem # seq) = visit_seq_binary (st @ [elem]) (c + count_ones elem) seq"

definition deserialize_binary :: "u64 list \<Rightarrow> bitset" where
  "deserialize_binary seq = visit_seq_binary [] 0 seq"

section \<open>The set a bit set stands for\<close>

definition word_elems :: "u64 list \<Rightarrow> nat set" where
  "word_elems st = {v. bit (nth_default 0 st (v div 64)) (v mod 64)}"

definition elems :: "bitset \<Rightarrow> nat set" where
  "elems s = word_elems (store s)"

definition wf_bitset :: "bitset \<Rightarrow> bool" where
  "wf_bitset s \<longleftrightarrow> count s = sum_list (map count_ones (store s))"

definition compacted :: "bitset \<Rightarrow> bool" where
  "compacted s \<longleftrightarrow> store s = strip_while ((=) 0) (store s)"

lemma index_and_mask_eq: "index_and_mask v = (v div 64, 2 ^ (v mod 64))"
proof -
  have "v AND 63 = v mod 64"
    using take_bit_eq_mask [of 6 v] by (simp add: mask_eq_exp_minus_1 take_bit_eq_mod)
  then show ?thesis by (simp add: index_and_mask_def drop_bit_eq_div)
qed

lemma contains_iff: "contains s v \<longleftrightarrow> v \<in> elems s"
  by (simp add: contains_def index_and_mask_eq elems_def word_elems_def nth_default_def
      and_exp_eq_0_iff_not_bit)

lemma elems_new [simp]: "elems bitset_new = {}"
  by (simp add: elems_def word_elems_def bitset_new_def)

lemma wf_new [simp]: "wf_bitset bitset_new"
  by (simp add: wf_bitset_def bitset_new_def)

lemma count_ones_card: "count_ones x = card {v. v < 64 \<and> bit x v}"
proof -
  have "count_ones x = card (set (filter (bit x) [0..<64]))"
    unfolding count_ones_def by (rule distinct_card [symmetric]) simp
  then show ?thesis by (simp add: conj_commute)
qed

lemma word_elems_Cons:
  "word_elems (x # xs) = {v. v < 64 \<and> bit x v} \<union> (\<lambda>v. v + 64) ` word_elems xs"
proof (rule set_eqI)
  fix v
  show "v \<in> word_elems (x # xs) \<longleftrightarrow> v \<in> {v. v < 64 \<and> bit x v} \<union> (\<lambda>v. v + 64) ` word_elems xs"
  proof (cases "v < 64")
    case True
    then show ?thesis by (auto simp: word_elems_def)
  next
    case False
    then obtain w where "v = w + 64" by (metis add.commute le_Suc_ex not_less)
    then show ?thesis by (auto simp: word_elems_def)
  qed
qed

lemma word_elems_Nil [simp]: "word_elems [] = {}"
  by (simp add: word_elems_def)

lemma finite_word_elems [simp]: "finite (word_elems st)"
  by (induction st) (simp_all add: word_elems_Cons)

lemma card_word_elems: "card (word_elems st) = sum_list (map count_ones st)"
proof (induction st)
  case (Cons x xs)
  have "card (word_elems (x # xs)) = card {v. v < 64 \<and> bit x v} + card ((\<lambda>v. v + 64) ` word_elems xs)"
    unfolding word_elems_Cons by (rule card_Un_disjoint) auto
  then show ?case using Cons by (simp add: count_ones_card card_image)
qed simp

lemma finite_elems [simp]: "finite (elems s)"
  by (simp add: elems_def)

lemma wf_bitset_card: "wf_bitset s \<longleftrightarrow> count s = card (elems s)"
  by (simp add: wf_bitset_def elems_def card_word_elems)

lemma div_mod_eq_iff: "u div 64 = v div 64 \<and> u mod 64 = v mod 64 \<longleftrightarrow> u = (v::nat)"
  by (metis div_mult_mod_eq)

lemma nth_default_pad: "nth_default d (xs @ replicate n d) = nth_default d xs"
  by (rule ext) (simp add: nth_default_append nth_default_def)

lemma nth_default_update:
  "i < length xs \<Longrightarrow> nth_default d (xs[i := a]) j = (if j = i then a else nth_default d xs j)"
  by (simp add: nth_default_def nth_list_update)

lemma store_compact: "store (compact s) = strip_while ((=) 0) (store s)"
proof -
  let ?r = "rev (store s)" and ?P = "\<lambda>v::u64. v = 0"
  have split: "store s = rev (dropWhile ?P ?r) @ rev (takeWhile ?P ?r)"
    by (metis rev_append rev_rev_ident takeWhile_dropWhile_id)
  have "length (store s) - length (takeWhile ?P ?r) = length (dropWhile ?P ?r)"
    by (metis add_diff_cancel_left' length_append length_rev takeWhile_dropWhile_id)
  moreover have "take (length (dropWhile ?P ?r)) (store s) = rev (dropWhile ?P ?r)"
    by (subst split) simp
  ultimately have "store (compact s) = rev (dropWhile ?P ?r)"
    by (simp add: compact_def)
  moreover have "?P = (=) 0" by auto
  ultimately show ?thesis by (simp add: strip_while_def)
qed

lemma elems_compact [simp]: "elems (compact s) = elems s"
  by (simp add: elems_def word_elems_def store_compact nth_default_strip_while_dflt)

lemma count_compact [simp]: "count (compact s) = count s"
  by (simp add: compact_def)

lemma wf_compact [simp]: "wf_bitset (compact s) = wf_bitset s"
  by (simp add: wf_bitset_card)

lemma compacted_compact [simp]: "compacted (compact s)"
  by (simp add: compacted_def store_compact)

section \<open>Insertion and removal\<close>

lemma elems_insert: "elems (bitset_insert s v) = insert v (elems s)"
proof (rule set_eqI)
  fix u
  let ?i = "v div 64"
  let ?st = "if ?i \<ge> length (store s) then store s @ replicate (?i + 1 - length (store s)) 0 else store s"
  have len: "?i < length ?st" by simp
  have dflt: "nth_default 0 ?st = nth_default 0 (store s)" by (simp add: nth_default_pad)
  have "store (bitset_insert s v) = ?st[?i := ?st ! ?i OR 2 ^ (v mod 64)]"
    by (cases "?i \<ge> length (store s)") (simp_all add: bitset_insert_def index_and_mask_eq Let_def)
  moreover have "?st ! ?i = nth_default 0 (store s) ?i" using len dflt by (metis nth_default_nth)
  ultimately have "nth_default 0 (store (bitset_insert s v)) j =
      (if j = ?i then nth_default 0 (store s) ?i OR 2 ^ (v mod 64) else nth_default 0 (store s) j)" for j
    using len dflt by (simp only: nth_default_update)
  then show "u \<in> elems (bitset_insert s v) \<longleftrightarrow> u \<in> insert v (elems s)"
    using div_mod_eq_iff [of u v]
    by (auto simp: elems_def word_elems_def bit_or_iff bit_exp_iff)
qed

lemma count_insert:
  "count (bitset_insert s v) = (if v \<in> elems s then count s else count s + 1)"
proof -
  have "nth_default 0 (store s) (v div 64) =
    (if v div 64 \<ge> length (store s) then store s @ replicate (v div 64 + 1 - length (store s)) 0 else store s)
      ! (v div 64)"
    by (simp add: nth_default_def nth_append)
  then show ?thesis
    by (simp add: bitset_insert_def index_and_mask_eq Let_def elems_def word_elems_def
        and_exp_eq_0_iff_not_bit)
qed

lemma wf_insert [simp]: "wf_bitset s \<Longrightarrow> wf_bitset (bitset_insert s v)"
  by (auto simp: wf_bitset_card count_insert elems_insert insert_absorb)

lemma elems_remove: "elems (bitset_remove s v) = elems s - {v}"
proof (rule set_eqI)
  fix u
  show "u \<in> elems (bitset_remove s v) \<longleftrightarrow> u \<in> elems s - {v}"
  proof (cases "v div 64 < length (store s)")
    case True
    then have "elems (bitset_remove s v) =
        word_elems ((store s)[v div 64 := store s ! (v div 64) AND NOT (2 ^ (v mod 64))])"
      by (simp add: bitset_remove_def index_and_mask_eq) (simp add: elems_def)
    then show ?thesis
      using True div_mod_eq_iff [of u v]
      by (auto simp: elems_def word_elems_def nth_default_update nth_default_nth bit_and_iff bit_not_iff
          bit_exp_iff split: if_splits)
  next
    case False
    then have "elems (bitset_remove s v) = elems s" "v \<notin> elems s"
      by (simp_all add: bitset_remove_def index_and_mask_eq)
        (simp add: elems_def word_elems_def nth_default_def)
    then show ?thesis by auto
  qed
qed

lemma count_remove:
  "count (bitset_remove s v) = (if v \<in> elems s then count s - 1 else count s)"
  by (simp add: bitset_remove_def index_and_mask_eq elems_def word_elems_def nth_default_def
      and_exp_eq_0_iff_not_bit)

lemma wf_remove [simp]: "wf_bitset s \<Longrightarrow> wf_bitset (bitset_remove s v)"
  by (simp add: wf_bitset_card count_remove elems_remove)

section \<open>Operations on two sets\<close>

fun word_op :: "(u64 \<Rightarrow> u64 \<Rightarrow> u64) \<Rightarrow> u64 list \<Rightarrow> u64 list \<Rightarrow> u64 list" where
  "word_op op (a # left) (b # right) = op a b # word_op op left right"
| "word_op op (a # left) [] = op a 0 # word_op op left []"
| "word_op op [] (b # right) = op 0 b # word_op op [] right"
| "word_op op [] [] = []"

lemma apply_op_loop_eq:
  "apply_op_loop op l r st c = (st @ word_op op l r, c + sum_list (map count_ones (word_op op l r)))"
  by (induction op l r st c rule: apply_op_loop.induct) (simp_all add: Let_def)

lemma apply_op_assign_loop_eq:
  "\<exists>m n. apply_op_assign_loop op l r mut [] c =
     ((mut @ m, n), c + sum_list (map count_ones (word_op op l r))) \<and> m @ n = word_op op l r"
proof (induction op l r mut "[]::u64 list" c rule: apply_op_assign_loop.induct)
  case (3 op b right mut c)
  have "apply_op_assign_loop op [] r mut new c =
      ((mut, new @ word_op op [] r), c + sum_list (map count_ones (word_op op [] r)))" for r new c
    by (induction r arbitrary: new c) (simp_all add: Let_def)
  then show ?case by (metis append_Nil append_Nil2)
qed (auto simp: Let_def)

lemma nth_default_word_op:
  "op 0 0 = 0 \<Longrightarrow> nth_default 0 (word_op op l r) i = op (nth_default 0 l i) (nth_default 0 r i)"
proof (induction op l r arbitrary: i rule: word_op.induct)
  case (1 op a left b right)
  then show ?case by (cases i) simp_all
next
  case (2 op a left)
  then show ?case by (cases i) simp_all
next
  case (3 op b right)
  then show ?case by (cases i) simp_all
qed simp

lemma apply_op_eq: "apply_op s t op = compact \<lparr> store = word_op op (store s) (store t),
    count = sum_list (map count_ones (word_op op (store s) (store t))) \<rparr>"
  by (simp add: apply_op_def apply_op_loop_eq)

lemma apply_op_assign_eq: "apply_op_assign s t op = apply_op s t op"
  using apply_op_assign_loop_eq [of op "store s" "store t" "[]" 0]
  by (cases s) (auto simp: apply_op_assign_def apply_op_eq)

lemma wf_apply_op [simp]: "wf_bitset (apply_op s t op)"
  unfolding apply_op_eq wf_compact by (simp add: wf_bitset_def)

lemma compacted_apply_op [simp]: "compacted (apply_op s t op)"
  unfolding apply_op_eq by simp

lemma elems_apply_op:
  assumes "op 0 0 = 0"
  shows "elems (apply_op s t op) = {v. bit (op (nth_default 0 (store s) (v div 64))
    (nth_default 0 (store t) (v div 64))) (v mod 64)}"
  unfolding apply_op_eq elems_compact by (simp add: elems_def word_elems_def nth_default_word_op assms)

lemma elems_and: "elems (bitset_and s t) = elems s \<inter> elems t"
  by (auto simp: bitset_and_def elems_apply_op bit_and_iff) (auto simp: elems_def word_elems_def)

lemma elems_or: "elems (bitset_or s t) = elems s \<union> elems t"
  by (auto simp: bitset_or_def elems_apply_op bit_or_iff) (auto simp: elems_def word_elems_def)

lemma elems_xor: "elems (bitset_xor s t) = (elems s - elems t) \<union> (elems t - elems s)"
  by (auto simp: bitset_xor_def elems_apply_op bit_xor_iff) (auto simp: elems_def word_elems_def)

lemma word_elems_subset:
  "word_elems r \<subseteq> word_elems l \<longleftrightarrow> (\<forall>i. nth_default 0 l i AND nth_default 0 r i = nth_default 0 r i)"
proof
  assume sub: "word_elems r \<subseteq> word_elems l"
  show "\<forall>i. nth_default 0 l i AND nth_default 0 r i = nth_default 0 r i"
  proof
    fix i
    show "nth_default 0 l i AND nth_default 0 r i = nth_default 0 r i"
    proof (rule bit_word_eqI)
      fix n
      assume "n < LENGTH(64)"
      then have "(i * 64 + n) div 64 = i" "(i * 64 + n) mod 64 = n" by simp_all
      then have "bit (nth_default 0 r i) n \<Longrightarrow> bit (nth_default 0 l i) n"
        using sub unfolding word_elems_def by (metis (mono_tags, lifting) mem_Collect_eq subsetD)
      then show "bit (nth_default 0 l i AND nth_default 0 r i) n = bit (nth_default 0 r i) n"
        by (auto simp: bit_and_iff)
    qed
  qed
next
  assume "\<forall>i. nth_default 0 l i AND nth_default 0 r i = nth_default 0 r i"
  then show "word_elems r \<subseteq> word_elems l"
    unfolding word_elems_def by (metis (mono_tags, lifting) Collect_mono bit_and_iff)
qed

lemma nth_default_all_Cons:
  "(\<forall>i. P (nth_default d (x # xs) i) (nth_default d (y # ys) i)) \<longleftrightarrow>
     P x y \<and> (\<forall>i. P (nth_default d xs i) (nth_default d ys i))"
proof -
  have "P (nth_default d (x # xs) i) (nth_default d (y # ys) i)"
    if "P x y" "\<forall>i. P (nth_default d xs i) (nth_default d ys i)" for i
    using that by (cases i) simp_all
  moreover have "P x y" "P (nth_default d xs i) (nth_default d ys i)"
    if "\<forall>i. P (nth_default d (x # xs) i) (nth_default d (y # ys) i)" for i
    using that [rule_format, of 0] that [rule_format, of "Suc i"] by simp_all
  ultimately show ?thesis by blast
qed

lemma nth_default_all_Nil:
  "(\<forall>i. P (nth_default d (x # xs) i)) \<longleftrightarrow> P x \<and> (\<forall>i. P (nth_default d xs i))"
  using nth_default_all_Cons [of "\<lambda>a b. P a" d x xs x xs] by simp

lemma is_superset_loop_iff:
  "is_superset_loop l r \<longleftrightarrow> (\<forall>i. nth_default 0 l i AND nth_default 0 r i = nth_default 0 r i)"
proof (induction l r rule: is_superset_loop.induct)
  case (1 a left b right)
  then show ?case
    using nth_default_all_Cons [of "\<lambda>x y. x AND y = y" 0 a left b right] by simp
next
  case (3 b right)
  then show ?case
    using nth_default_all_Nil [of "\<lambda>y. 0 = y" 0 b right] by simp
qed simp_all

lemma bitset_eq_loop_iff: "bitset_eq_loop l r \<longleftrightarrow> (\<forall>i. nth_default 0 l i = nth_default 0 r i)"
proof (induction l r rule: bitset_eq_loop.induct)
  case (1 a left b right)
  then show ?case using nth_default_all_Cons [of "(=)" 0 a left b right] by simp
next
  case (2 a left)
  then show ?case using nth_default_all_Nil [of "\<lambda>y. y = 0" 0 a left] by simp
next
  case (3 b right)
  then show ?case using nth_default_all_Nil [of "\<lambda>y. 0 = y" 0 b right] by simp
qed simp

lemma is_superset_iff: "is_superset s t \<longleftrightarrow> elems t \<subseteq> elems s"
  by (simp add: is_superset_def elems_def word_elems_subset is_superset_loop_iff)

lemma word_elems_eq_iff: "word_elems l = word_elems r \<longleftrightarrow> nth_default 0 l = nth_default 0 r"
proof
  assume "word_elems l = word_elems r"
  then have s: "word_elems r \<subseteq> word_elems l" "word_elems l \<subseteq> word_elems r" by simp_all
  show "nth_default 0 l = nth_default 0 r"
  proof
    fix i
    have "nth_default 0 l i AND nth_default 0 r i = nth_default 0 r i"
      "nth_default 0 r i AND nth_default 0 l i = nth_default 0 l i"
      using s unfolding word_elems_subset by blast+
    then show "nth_default 0 l i = nth_default 0 r i" by (simp add: and.commute)
  qed
qed (simp add: word_elems_def)

lemma bitset_eq_iff: "bitset_eq s t \<longleftrightarrow> elems s = elems t"
  by (simp add: bitset_eq_def elems_def word_elems_eq_iff bitset_eq_loop_iff fun_eq_iff)

lemma bitset_canonical:
  assumes "wf_bitset s" "wf_bitset t" "compacted s" "compacted t" "elems s = elems t"
  shows "s = t"
proof -
  have "strip_while ((=) 0) (store s) = strip_while ((=) 0) (store t)"
    using assms(5) by (simp add: elems_def word_elems_eq_iff nth_default_eq_iff)
  then have "store s = store t" using assms(3,4) by (simp add: compacted_def)
  then show ?thesis using assms(1,2) by (cases s; cases t) (simp add: wf_bitset_def)
qed

section \<open>Canonical bit sets\<close>

definition canonical :: "bitset \<Rightarrow> bool" where
  "canonical s \<longleftrightarrow> wf_bitset s \<and> compacted s"

lemma compacted_last: "compacted s \<longleftrightarrow> (store s \<noteq> [] \<longrightarrow> last (store s) \<noteq> 0)"
proof -
  have "compacted s \<longleftrightarrow> no_trailing ((=) 0) (store s)"
    unfolding compacted_def by (metis strip_while_idem_iff)
  then show ?thesis by (auto simp: no_trailing_unfold)
qed

lemma or_exp_nonzero: "k < 64 \<Longrightarrow> x OR 2 ^ k \<noteq> (0::u64)"
proof
  assume k: "k < 64" and z: "x OR 2 ^ k = (0::u64)"
  have "bit (x OR 2 ^ k) k" using k by (simp add: bit_or_iff bit_exp_iff)
  then show False unfolding z by simp
qed

lemma last_update_nonzero:
  "xs \<noteq> [] \<Longrightarrow> x \<noteq> 0 \<Longrightarrow> (k \<noteq> length xs - 1 \<Longrightarrow> last xs \<noteq> 0) \<Longrightarrow> last (xs[k := x]) \<noteq> 0"
  by (simp add: last_list_update)

lemma compacted_insert: "compacted s \<Longrightarrow> compacted (bitset_insert s v)"
proof -
  assume c: "compacted s"
  let ?i = "v div 64"
  let ?st = "if ?i \<ge> length (store s) then store s @ replicate (?i + 1 - length (store s)) 0 else store s"
  have e: "store (bitset_insert s v) = ?st[?i := ?st ! ?i OR 2 ^ (v mod 64)]"
    by (cases "?i \<ge> length (store s)") (simp_all add: bitset_insert_def index_and_mask_eq Let_def)
  have ne: "?st \<noteq> []" by auto
  have "last (?st[?i := ?st ! ?i OR 2 ^ (v mod 64)]) \<noteq> 0"
  proof (rule last_update_nonzero [OF ne])
    show "?st ! ?i OR 2 ^ (v mod 64) \<noteq> 0" by (rule or_exp_nonzero) simp
    assume "?i \<noteq> length ?st - 1"
    then have "?st = store s" "store s \<noteq> []" by (auto split: if_splits)
    then show "last ?st \<noteq> 0" using c by (simp add: compacted_last)
  qed
  then show ?thesis unfolding compacted_last e by blast
qed

lemma canonical_new [simp]: "canonical bitset_new"
  by (simp add: canonical_def compacted_last) (simp add: bitset_new_def)

lemma canonical_insert [simp]: "canonical s \<Longrightarrow> canonical (bitset_insert s v)"
  by (simp add: canonical_def compacted_insert)

lemma compacted_remove [simp]: "compacted (bitset_remove s v)"
  by (simp add: bitset_remove_def index_and_mask_eq)

lemma canonical_remove [simp]: "canonical s \<Longrightarrow> canonical (bitset_remove s v)"
  by (simp add: canonical_def)

lemma canonical_compact [simp]: "wf_bitset s \<Longrightarrow> canonical (compact s)"
  by (simp add: canonical_def)

lemma canonical_eqI: "canonical s \<Longrightarrow> canonical t \<Longrightarrow> elems s = elems t \<Longrightarrow> s = t"
  unfolding canonical_def by (rule bitset_canonical) simp_all

text \<open>What the users of the bit set rely on.\<close>

locale index_set =
  fixes abs :: "'s \<Rightarrow> nat set" and inv :: "'s \<Rightarrow> bool" and emp :: 's
    and ins :: "'s \<Rightarrow> nat \<Rightarrow> 's" and del :: "'s \<Rightarrow> nat \<Rightarrow> 's"
    and mem :: "'s \<Rightarrow> nat \<Rightarrow> bool" and siz :: "'s \<Rightarrow> nat"
  assumes inv_emp: "inv emp" and abs_emp: "abs emp = {}"
    and inv_ins: "inv s \<Longrightarrow> inv (ins s v)" and abs_ins: "inv s \<Longrightarrow> abs (ins s v) = insert v (abs s)"
    and inv_del: "inv s \<Longrightarrow> inv (del s v)" and abs_del: "inv s \<Longrightarrow> abs (del s v) = abs s - {v}"
    and mem_iff: "inv s \<Longrightarrow> mem s v \<longleftrightarrow> v \<in> abs s"
    and siz_card: "inv s \<Longrightarrow> siz s = card (abs s)"
    and ext: "inv s \<Longrightarrow> inv t \<Longrightarrow> abs s = abs t \<Longrightarrow> s = t"
begin

lemma foldl_ins: "inv s \<Longrightarrow> inv (foldl ins s xs) \<and> abs (foldl ins s xs) = abs s \<union> set xs"
  by (induction xs arbitrary: s) (auto simp: inv_ins abs_ins)

lemma ins_present: "inv s \<Longrightarrow> mem s v \<Longrightarrow> ins s v = s"
  by (rule ext) (auto simp: inv_ins abs_ins mem_iff)

lemma del_absent: "inv s \<Longrightarrow> \<not> mem s v \<Longrightarrow> del s v = s"
  by (rule ext) (auto simp: inv_del abs_del mem_iff)

lemma del_ins: "inv s \<Longrightarrow> \<not> mem s v \<Longrightarrow> del (ins s v) v = s"
  by (rule ext) (auto simp: inv_ins abs_ins inv_del abs_del mem_iff)

lemma ins_del: "inv s \<Longrightarrow> mem s v \<Longrightarrow> ins (del s v) v = s"
  by (rule ext) (auto simp: inv_ins abs_ins inv_del abs_del mem_iff)

lemma foldl_ins_cong: "inv s \<Longrightarrow> set xs = set ys \<Longrightarrow> foldl ins s xs = foldl ins s ys"
  by (rule ext) (auto simp: foldl_ins)

lemma siz_foldl: "siz (foldl ins emp xs) = card (set xs)"
  using foldl_ins [OF inv_emp, of xs] by (simp add: siz_card abs_emp)

end

interpretation bset: index_set elems canonical bitset_new bitset_insert bitset_remove contains bitset_len
proof
  fix s t :: bitset and v
  show "canonical s \<Longrightarrow> canonical t \<Longrightarrow> elems s = elems t \<Longrightarrow> s = t" by (rule canonical_eqI)
  show "canonical s \<Longrightarrow> bitset_len s = card (elems s)"
    by (simp add: canonical_def wf_bitset_card bitset_len_def)
qed (simp_all add: elems_insert elems_remove contains_iff)

section \<open>Iteration and serialization\<close>

lemma bits64_from_eq: "idx \<le> 64 \<Longrightarrow> bits64_from w idx = map (bit w) [idx..<64]"
proof (induction w idx rule: bits64_from.induct)
  case (1 w idx)
  show ?case
  proof (cases "idx \<le> 63")
    case True
    then have "bits64_from w (idx + 1) = map (bit w) [idx + 1..<64]"
      using 1 by (simp add: bits64_next_def)
    moreover have "[idx..<64] = idx # [idx + 1..<64]" using True by (simp add: upt_conv_Cons)
    ultimately show ?thesis
      using True by (simp add: bits64_next_def and_exp_eq_0_iff_not_bit del: upt_Suc)
  next
    case False
    then show ?thesis using 1 by (simp add: bits64_next_def)
  qed
qed

declare bits64_from.simps [simp del]

lemma concat_bits:
  "concat (map (\<lambda>w. bits64_from w 0) st) = map (\<lambda>v. v \<in> word_elems st) [0..<64 * length st]"
proof (induction st)
  case (Cons x xs)
  have "[0..<64 * length (x # xs)] = [0..<64] @ map (\<lambda>v. v + 64) [0..<64 * length xs]"
    by (simp add: map_add_upt upt_add_eq_append [of 0 64, simplified] add.commute)
  moreover have "map (\<lambda>v. v \<in> word_elems (x # xs)) [0..<64] = map (bit x) [0..<64]"
    by (auto simp: word_elems_Cons)
  moreover have "v + 64 \<in> word_elems (x # xs) \<longleftrightarrow> v \<in> word_elems xs" for v
    by (simp add: word_elems_def)
  ultimately show ?case using Cons by (simp add: bits64_from_eq)
qed simp

lemma word_elems_bound: "v \<in> word_elems st \<Longrightarrow> v < 64 * length st"
  by (auto simp: word_elems_def nth_default_def div_less_iff_less_mult mult.commute split: if_splits)

lemma iter_bits_eq: "iter_bits s n = map (\<lambda>v. v \<in> elems s) [0..<n]"
proof (rule nth_equalityI)
  fix i
  assume "i < length (iter_bits s n)"
  then show "iter_bits s n ! i = map (\<lambda>v. v \<in> elems s) [0..<n] ! i"
    using word_elems_bound [of i "store s"]
    by (auto simp: iter_bits_def concat_bits nth_append elems_def)
qed (simp add: iter_bits_def concat_bits)

lemma iter_excluded_eq: "iter_excluded s n = filter (\<lambda>v. v \<notin> elems s) [0..<n]"
  by (simp add: iter_excluded_def iter_bits_eq enumerate_map_upt filter_map o_def)

lemma bitset_iter_eq: "bitset_iter s = sorted_list_of_set (elems s)"
proof -
  have "bitset_iter s = filter (\<lambda>v. v \<in> elems s) [0..<64 * length (store s)]"
    by (simp add: bitset_iter_def iter_bits_eq enumerate_map_upt filter_map o_def mult.commute)
  moreover have "set (filter (\<lambda>v. v \<in> elems s) [0..<64 * length (store s)]) = elems s"
    using word_elems_bound [of _ "store s"] by (auto simp: elems_def)
  moreover have "sorted_list_of_set (set (filter (\<lambda>v. v \<in> elems s) [0..<64 * length (store s)])) =
      filter (\<lambda>v. v \<in> elems s) [0..<64 * length (store s)]"
    by (rule sorted_list_of_set.idem_if_sorted_distinct) (simp_all add: sorted_wrt_filter)
  ultimately show ?thesis by simp
qed

lemma count_ones_0 [simp]: "count_ones 0 = 0"
  by (simp add: count_ones_def)

lemma zip_and_count:
  "sum_list (map (\<lambda>(a, b). count_ones (a AND b)) (zip l r)) = sum_list (map count_ones (word_op (AND) l r))"
proof (induction l arbitrary: r)
  case Nil
  show ?case by (induction r) simp_all
next
  case (Cons a l)
  have nil: "sum_list (map count_ones (word_op (AND) l [])) = 0" for l by (induction l) simp_all
  then show ?case using Cons by (cases r) simp_all
qed

lemma intersection_size_eq: "intersection_size s t = card (elems s \<inter> elems t)"
proof -
  have "intersection_size s t = bitset_len (bitset_and s t)"
    by (simp add: intersection_size_def zip_and_count bitset_len_def bitset_and_def apply_op_eq)
  also have "\<dots> = card (elems (bitset_and s t))"
    using wf_apply_op [of s t "(AND)"] by (simp add: wf_bitset_card bitset_len_def bitset_and_def)
  finally show ?thesis by (simp add: elems_and)
qed

lemma wf_bitset_ops: "wf_bitset (bitset_and s t)" "wf_bitset (bitset_or s t)" "wf_bitset (bitset_xor s t)"
  by (simp_all add: bitset_and_def bitset_or_def bitset_xor_def)

lemma visit_seq_human_eq:
  "visit_seq_human r xs = Inr t \<longleftrightarrow>
     t = foldl bitset_insert r xs \<and> distinct xs \<and> set xs \<inter> elems r = {} \<and> (\<forall>x\<in>set xs. x \<le> 65536)"
proof (induction xs arbitrary: r)
  case (Cons x xs)
  then show ?case by (auto simp: contains_iff elems_insert)
qed auto

lemma visit_seq_binary_eq:
  "visit_seq_binary st c xs = \<lparr> store = st @ xs, count = c + sum_list (map count_ones xs) \<rparr>"
  by (induction xs arbitrary: st c) simp_all

lemma bitset_from_iter_eq: "elems (bitset_from_iter xs) = set xs" "canonical (bitset_from_iter xs)"
  using bset.foldl_ins [of bitset_new xs] by (simp_all add: bitset_from_iter_def)



text \<open>
  The in-place operators compute the same bit set as the functional ones, for every word
  operation and every pair of bit sets, and the result has no trailing empty word.
\<close>

theorem bitset_assign_equivalent:
  "bitset_and_assign s t = bitset_and s t \<and> bitset_or_assign s t = bitset_or s t \<and>
   bitset_xor_assign s t = bitset_xor s t \<and> compacted (bitset_and s t) \<and> compacted (bitset_or s t) \<and>
   compacted (bitset_xor s t)"
  by (simp add: bitset_and_assign_def bitset_or_assign_def bitset_xor_assign_def bitset_and_def
      bitset_or_def bitset_xor_def apply_op_assign_eq)

text \<open>
  C36. Serialization round trips: the binary form reads back a consistent bit set unchanged, and the
  human readable form reads back the canonical bit set with the same elements, as long as no
  element exceeds the limit of 65536; duplicates and larger elements are refused.
\<close>

theorem bitset_serialization:
  assumes "wf_bitset s" "\<forall>v \<in> elems s. v \<le> 65536"
  shows "deserialize_binary (serialize_binary s) = s \<and>
    deserialize_human (serialize_human s) = Inr (compact s) \<and>
    (\<forall>xs. (\<exists>t. deserialize_human xs = Inr t) \<longleftrightarrow> distinct xs \<and> (\<forall>x \<in> set xs. x \<le> 65536))"
proof (intro conjI)
  show "deserialize_binary (serialize_binary s) = s"
    using assms(1) by (cases s) (simp add: deserialize_binary_def serialize_binary_def visit_seq_binary_eq wf_bitset_def)
  have "compact s = foldl bitset_insert bitset_new (sorted_list_of_set (elems s))"
    using bset.foldl_ins [of bitset_new "sorted_list_of_set (elems s)"] assms(1)
    by (intro canonical_eqI) simp_all
  then show "deserialize_human (serialize_human s) = Inr (compact s)"
    using assms by (simp add: deserialize_human_def serialize_human_def bitset_iter_eq visit_seq_human_eq)
  show "\<forall>xs. (\<exists>t. deserialize_human xs = Inr t) \<longleftrightarrow> distinct xs \<and> (\<forall>x \<in> set xs. x \<le> 65536)"
    by (simp add: deserialize_human_def visit_seq_human_eq)
qed

theorem bitset_serialization_witness:
  "wf_bitset (bitset_from_iter [70, 1]) \<and>
   deserialize_binary (serialize_binary (bitset_from_iter [70, 1])) = bitset_from_iter [70, 1]"
proof -
  have w: "wf_bitset (bitset_from_iter [70, 1])"
    using bitset_from_iter_eq(2) by (simp add: canonical_def)
  show ?thesis using bitset_serialization [OF w] w bitset_from_iter_eq(1) [of "[70, 1]"] by simp
qed

end
