(* ===== verification/PunishedSlots.thy ===== *)
theory PunishedSlots
  imports Policy BitSet
begin

text \<open>
  The slots that lose their rewards, \<^verbatim>\<open>staking_contract/punished_slots.rs\<close>, and the two event types
  of \<^verbatim>\<open>primitives/src/slots_allocation.rs\<close>. A \<open>BTreeMap\<close> is a finite map, a \<open>BTreeSet\<close> a finite set,
  and iteration follows the ascending order of the keys. \<open>None\<close> stands for a panic.
\<close>

record slot_range =
  range_start :: u16
  range_end :: u16

record penalized_slot =
  ps_slot :: u16
  ps_validator_address :: address
  ps_offense_event_block :: u32

record jailed_validator =
  jv_slots :: slot_range
  jv_validator_address :: address
  jv_offense_event_block :: u32

definition range_list :: "slot_range \<Rightarrow> u16 list" where
  "range_list r = map of_nat [unat (range_start r)..<unat (range_end r)]"

record punished_slots =
  current_batch :: "(address, u16 fset) fmap"
  previous_batch :: bitset

definition punished_slots_default :: punished_slots where
  "punished_slots_default = \<lparr> current_batch = fmempty, previous_batch = bitset_new \<rparr>"

definition entry_or_default :: "(address, u16 fset) fmap \<Rightarrow> address \<Rightarrow> u16 fset" where
  "entry_or_default m a = (case fmlookup m a of None \<Rightarrow> {||} | Some s \<Rightarrow> s)"

fun insert_slots :: "bitset \<Rightarrow> u16 list \<Rightarrow> bitset" where
  "insert_slots s [] = s"
| "insert_slots s (slot # slots) = insert_slots (bitset_insert s (unat slot)) slots"

fun insert_slot_set :: "u16 fset \<Rightarrow> u16 list \<Rightarrow> u16 fset" where
  "insert_slot_set s [] = s"
| "insert_slot_set s (slot # slots) = insert_slot_set (finsert slot s) slots"

definition register_jail ::
  "policy \<Rightarrow> punished_slots \<Rightarrow> jailed_validator \<Rightarrow> u32 \<Rightarrow> slot_range option
     \<Rightarrow> ((bitset \<times> u16 fset option) \<times> punished_slots) option" where
  "register_jail p self jv reporting_block new_epoch_slot_range =
    (let old_previous = previous_batch self;
         old_current = fmlookup (current_batch self) (jv_validator_address jv);
         current_range =
           (if epoch_at p (jv_offense_event_block jv) = epoch_at p reporting_block
            then Some (jv_slots jv) else new_epoch_slot_range);
         self1 = (case current_range of
             Some slots \<Rightarrow> self \<lparr> current_batch := fmupd (jv_validator_address jv)
               (insert_slot_set (entry_or_default (current_batch self) (jv_validator_address jv)) (range_list slots))
               (current_batch self) \<rparr>
           | None \<Rightarrow> self)
     in if batch_at p (jv_offense_event_block jv) < batch_at p reporting_block then
          if epoch_at p reporting_block - epoch_at p (jv_offense_event_block jv) \<le> 1 then
            let previous_range =
                  (if epoch_at p (jv_offense_event_block jv) = epoch_at p (reporting_block - blocks_per_batch p)
                   then Some (jv_slots jv) else new_epoch_slot_range);
                self2 = (case previous_range of
                    Some slots \<Rightarrow> self1 \<lparr> previous_batch := insert_slots (previous_batch self1) (range_list slots) \<rparr>
                  | None \<Rightarrow> self1)
            in Some ((old_previous, old_current), self2)
          else None
        else Some ((old_previous, old_current), self1))"

definition revert_register_jail ::
  "punished_slots \<Rightarrow> jailed_validator \<Rightarrow> bitset \<Rightarrow> u16 fset option \<Rightarrow> punished_slots" where
  "revert_register_jail self jv old_previous old_current =
    (let self1 = self \<lparr> previous_batch := old_previous \<rparr>
     in case old_current of
          Some old_slots \<Rightarrow> self1 \<lparr> current_batch := fmupd (jv_validator_address jv) old_slots (current_batch self1) \<rparr>
        | None \<Rightarrow> self1 \<lparr> current_batch := fmdrop (jv_validator_address jv) (current_batch self1) \<rparr>)"

definition register_penalty ::
  "policy \<Rightarrow> punished_slots \<Rightarrow> penalized_slot \<Rightarrow> u32 \<Rightarrow> (bool \<times> bool) \<times> punished_slots" where
  "register_penalty p self ps reporting_block =
    (let (newly_previous, self1) =
           (if batch_at p (ps_offense_event_block ps) + 1 = batch_at p reporting_block
            then (\<not> contains (previous_batch self) (unat (ps_slot ps)),
                  self \<lparr> previous_batch := bitset_insert (previous_batch self) (unat (ps_slot ps)) \<rparr>)
            else (False, self));
         (newly_current, self2) =
           (if epoch_at p (ps_offense_event_block ps) = epoch_at p reporting_block
            then let entry = entry_or_default (current_batch self1) (ps_validator_address ps)
                 in (ps_slot ps |\<notin>| entry,
                     self1 \<lparr> current_batch :=
                       fmupd (ps_validator_address ps) (finsert (ps_slot ps) entry) (current_batch self1) \<rparr>)
            else (False, self1))
     in ((newly_previous, newly_current), self2))"

definition revert_register_penalty ::
  "punished_slots \<Rightarrow> penalized_slot \<Rightarrow> bool \<Rightarrow> bool \<Rightarrow> punished_slots option" where
  "revert_register_penalty self ps newly_previous newly_current =
    (let self1 = (if newly_previous
           then self \<lparr> previous_batch := bitset_remove (previous_batch self) (unat (ps_slot ps)) \<rparr>
           else self)
     in if newly_current then
          case fmlookup (current_batch self1) (ps_validator_address ps) of
            None \<Rightarrow> None
          | Some entry \<Rightarrow>
              if ps_slot ps |\<in>| entry then
                let entry' = entry |-| {|ps_slot ps|}
                in Some (self1 \<lparr> current_batch :=
                     (if entry' = {||} then fmdrop (ps_validator_address ps) (current_batch self1)
                      else fmupd (ps_validator_address ps) entry' (current_batch self1)) \<rparr>)
              else None
        else Some self1)"

definition current_batch_punished_slots :: "punished_slots \<Rightarrow> bitset" where
  "current_batch_punished_slots self =
     foldl (\<lambda>bs slots. insert_slots bs (sorted_list_of_fset slots)) bitset_new
       (map (\<lambda>a. the (fmlookup (current_batch self) a)) (sorted_list_of_fset (fmdom (current_batch self))))"

definition finalize_batch ::
  "policy \<Rightarrow> punished_slots \<Rightarrow> u32 \<Rightarrow> (address, 'c) fmap \<Rightarrow> punished_slots option" where
  "finalize_batch p self block_number current_active_validators =
    (let self1 = self \<lparr> previous_batch := current_batch_punished_slots self \<rparr>
     in if is_election_block_at p block_number then Some (self1 \<lparr> current_batch := fmempty \<rparr>)
        else if is_macro_block_at p block_number then
          Some (self1 \<lparr> current_batch :=
            fmfilter (\<lambda>a. fmlookup current_active_validators a = None) (current_batch self1) \<rparr>)
        else None)"

definition next_batch_initial_punished_set ::
  "policy \<Rightarrow> punished_slots \<Rightarrow> u32 \<Rightarrow> (address, 'c) fmap \<Rightarrow> bitset option" where
  "next_batch_initial_punished_set p self block_number current_active_validators =
     map_option current_batch_punished_slots (finalize_batch p self block_number current_active_validators)"

section \<open>Lemmas\<close>

definition wf_punished :: "punished_slots \<Rightarrow> bool" where
  "wf_punished ps \<longleftrightarrow> canonical (previous_batch ps) \<and>
     (\<forall>a. fmlookup (current_batch ps) a \<noteq> Some {||})"

definition slots_of :: "(address, u16 fset) fmap \<Rightarrow> nat set" where
  "slots_of m = unat ` (\<Union>a. fset (entry_or_default m a))"

abbreviation current_slots :: "punished_slots \<Rightarrow> nat set" where
  "current_slots ps \<equiv> slots_of (current_batch ps)"

lemma entry_fmupd: "entry_or_default (fmupd a x m) b = (if b = a then x else entry_or_default m b)"
  by (simp add: entry_or_default_def)

lemma entry_fmempty [simp]: "entry_or_default fmempty a = {||}"
  by (simp add: entry_or_default_def)

lemma entry_fmfilter: "entry_or_default (fmfilter P m) a = (if P a then entry_or_default m a else {||})"
  by (simp add: entry_or_default_def)

lemma slots_of_upd: "slots_of (fmupd a (finsert x (entry_or_default m a)) m) = insert (unat x) (slots_of m)"
proof -
  have "(\<Union>b. fset (entry_or_default (fmupd a (finsert x (entry_or_default m a)) m) b)) =
      insert x (\<Union>b. fset (entry_or_default m b))"
    by (auto simp: entry_fmupd split: if_splits)
  then show ?thesis by (simp add: slots_of_def)
qed

lemma insert_slots_foldl: "insert_slots s xs = foldl bitset_insert s (map unat xs)"
  by (induction s xs rule: insert_slots.induct) simp_all

lemma insert_slots_spec:
  "canonical s \<Longrightarrow> canonical (insert_slots s xs) \<and> elems (insert_slots s xs) = elems s \<union> unat ` set xs"
  unfolding insert_slots_foldl using bset.foldl_ins [of s "map unat xs"] by simp

lemma insert_slot_set_eq: "insert_slot_set s xs = s |\<union>| fset_of_list xs"
  by (induction s xs rule: insert_slot_set.induct) auto

lemma foldl_insert_slots:
  "canonical bs \<Longrightarrow> canonical (foldl (\<lambda>bs slots. insert_slots bs (sorted_list_of_fset slots)) bs xs) \<and>
     elems (foldl (\<lambda>bs slots. insert_slots bs (sorted_list_of_fset slots)) bs xs) =
       elems bs \<union> (\<Union>x\<in>set xs. unat ` fset x)"
  by (induction xs arbitrary: bs) (auto simp: insert_slots_spec)

lemma current_batch_punished_slots_spec:
  "canonical (current_batch_punished_slots ps)" "elems (current_batch_punished_slots ps) = current_slots ps"
proof -
  have "(\<Union>x\<in>set (map (\<lambda>a. the (fmlookup (current_batch ps) a)) (sorted_list_of_fset (fmdom (current_batch ps)))).
      unat ` fset x) = current_slots ps"
    unfolding slots_of_def image_UN [symmetric] set_map sorted_list_of_fset_simps(1)
    by (rule arg_cong [of _ _ "(`) unat"]) (force simp: entry_or_default_def fmlookup_dom_iff split: option.splits)
  then show "canonical (current_batch_punished_slots ps)" "elems (current_batch_punished_slots ps) = current_slots ps"
    unfolding current_batch_punished_slots_def using foldl_insert_slots [OF canonical_new] by auto
qed

lemma fmupd_entry: "fmlookup m a = Some x \<Longrightarrow> fmupd a x m = m"
  by (rule fmap_ext) auto

lemma revert_penalty:
  assumes w: "wf_punished s" and c: "register_penalty p s ps rb = ((np, nc), s')"
  shows "revert_register_penalty s' ps np nc = Some s"
proof -
  let ?a = "ps_validator_address ps" and ?x = "ps_slot ps"
  let ?e = "entry_or_default (current_batch s) ?a"
  have prev: "(if np then bitset_remove (previous_batch s') (unat ?x) else previous_batch s') = previous_batch s"
    using w c bset.del_ins [of "previous_batch s" "unat ?x"] bset.ins_present [of "previous_batch s" "unat ?x"]
    by (auto simp: register_penalty_def wf_punished_def Let_def split: if_splits)
  have cur: "current_batch s' = (if epoch_at p (ps_offense_event_block ps) = epoch_at p rb
      then fmupd ?a (finsert ?x ?e) (current_batch s) else current_batch s)"
    "nc \<longleftrightarrow> epoch_at p (ps_offense_event_block ps) = epoch_at p rb \<and> ?x |\<notin>| ?e"
    using c by (auto simp: register_penalty_def Let_def split: if_splits)
  have ne: "fmlookup (current_batch s) ?a \<noteq> Some {||}" using w by (simp add: wf_punished_def)
  show ?thesis
  proof (cases nc)
    case False
    then have "current_batch s' = current_batch s"
      using cur by (cases "fmlookup (current_batch s) ?a")
        (auto simp: entry_or_default_def fmupd_entry finsert_absorb)
    then show ?thesis using prev False by (cases s; cases s') (auto simp: revert_register_penalty_def)
  next
    case True
    then have n: "?x |\<notin>| ?e" "current_batch s' = fmupd ?a (finsert ?x ?e) (current_batch s)" using cur by auto
    then have d: "finsert ?x ?e |-| {|?x|} = ?e" by auto
    have m: "(if ?e = {||} then fmdrop ?a (current_batch s') else fmupd ?a ?e (current_batch s')) = current_batch s"
      using n ne by (cases "fmlookup (current_batch s) ?a")
        (auto simp: entry_or_default_def fmupd_fmupd fmupd_entry fmdrop_fmupd_same fmdrop_absent fmlookup_dom_iff)
    have r: "revert_register_penalty s' ps np nc = Some (s' \<lparr>
        previous_batch := (if np then bitset_remove (previous_batch s') (unat ?x) else previous_batch s'),
        current_batch := (if finsert ?x ?e |-| {|?x|} = {||} then fmdrop ?a (current_batch s')
          else fmupd ?a (finsert ?x ?e |-| {|?x|}) (current_batch s')) \<rparr>)"
      using n(2) True by (simp add: revert_register_penalty_def Let_def)
    show ?thesis unfolding r d m prev by (cases s; cases s') simp
  qed
qed

lemma wf_penalty:
  "wf_punished s \<Longrightarrow> register_penalty p s ps rb = (r, s') \<Longrightarrow> wf_punished s'"
  by (auto simp: register_penalty_def wf_punished_def Let_def split: if_splits)

lemma revert_jail:
  assumes "register_jail p s jv rb rng = Some ((op, oc), s')"
  shows "revert_register_jail s' jv op oc = s"
proof -
  have o: "op = previous_batch s" "oc = fmlookup (current_batch s) (jv_validator_address jv)"
    and k: "\<exists>x. current_batch s' = fmupd (jv_validator_address jv) x (current_batch s) \<or>
      current_batch s' = current_batch s"
    using assms by (auto simp: register_jail_def Let_def split: if_splits option.splits)
  then show ?thesis
    by (cases s; cases s'; cases "fmlookup (current_batch s) (jv_validator_address jv)")
      (auto simp: revert_register_jail_def fmupd_fmupd fmupd_entry fmdrop_fmupd_same fmdrop_absent)
qed

definition wf_range :: "slot_range \<Rightarrow> bool" where
  "wf_range r \<longleftrightarrow> range_start r < range_end r"

lemma range_list_ne: "wf_range r \<Longrightarrow> range_list r \<noteq> []"
  by (simp add: wf_range_def range_list_def word_less_nat_alt)

lemma wf_jail:
  assumes "wf_punished s" "wf_range (jv_slots jv)" "\<forall>r. rng = Some r \<longrightarrow> wf_range r"
    "register_jail p s jv rb rng = Some (r, s')"
  shows "wf_punished s'"
proof -
  have ne: "s |\<union>| fset_of_list (range_list r) \<noteq> {||}" if "wf_range r" for s r
    using range_list_ne [OF that] by (cases "range_list r") auto
  show ?thesis
    using assms ne insert_slots_spec
    by (auto simp: register_jail_def wf_punished_def Let_def insert_slot_set_eq split: if_splits option.splits)
qed

section \<open>Properties\<close>

text \<open>The events of a block, each with the block that reports it.\<close>

datatype slash_event =
    Penalty policy penalized_slot u32
  | Jail policy jailed_validator u32 "slot_range option"

datatype slash_receipt =
    PenaltyRcpt bool bool
  | JailRcpt bitset "u16 fset option"

fun slash_ok :: "slash_event \<Rightarrow> bool" where
  "slash_ok (Penalty _ _ _) = True"
| "slash_ok (Jail _ jv _ rng) \<longleftrightarrow> wf_range (jv_slots jv) \<and> (case rng of None \<Rightarrow> True | Some r \<Rightarrow> wf_range r)"

fun slash_commit :: "slash_event \<Rightarrow> punished_slots \<Rightarrow> (slash_receipt \<times> punished_slots) option" where
  "slash_commit (Penalty p ps rb) s =
     (case register_penalty p s ps rb of ((np, nc), s') \<Rightarrow> Some (PenaltyRcpt np nc, s'))"
| "slash_commit (Jail p jv rb rng) s =
     map_option (\<lambda>((op, oc), s'). (JailRcpt op oc, s')) (register_jail p s jv rb rng)"

fun slash_revert :: "slash_event \<Rightarrow> slash_receipt \<Rightarrow> punished_slots \<Rightarrow> punished_slots option" where
  "slash_revert (Penalty p ps rb) (PenaltyRcpt np nc) s = revert_register_penalty s ps np nc"
| "slash_revert (Jail p jv rb rng) (JailRcpt op oc) s = Some (revert_register_jail s jv op oc)"
| "slash_revert _ _ _ = None"

interpretation slashing: reversible wf_punished slash_ok slash_commit slash_revert
proof
  fix s i r s'
  assume w: "wf_punished s" and k: "slash_ok i" and c: "slash_commit i s = Some (r, s')"
  show "slash_revert i r s' = Some s"
    using w c by (cases i) (auto simp: revert_penalty revert_jail split: prod.splits)
  show "wf_punished s'"
    using w k c by (cases i) (auto intro: wf_penalty wf_jail split: prod.splits option.splits)
qed

text \<open>
  C37. Penalties and jailings are reversible in any sequence: reverting the receipts from the last to
  the first restores the punished slots, both the map of the current batch and the bit set of the
  previous one, and the structure stays well-formed.
\<close>

theorem punished_slots_reversible:
  assumes "wf_punished s" "list_all slash_ok events" "commit_all slash_commit events s = Some (receipts, s')"
  shows "revert_all slash_revert (rev receipts) s' = Some s \<and> wf_punished s'"
  using assms by (rule slashing.undo_all)

definition example_event :: slash_event where
  "example_event = Penalty MAINNET_POLICY
     \<lparr> ps_slot = 3, ps_validator_address = 7, ps_offense_event_block = 3456010 \<rparr> 3456012"

theorem punished_slots_reversible_witness:
  "\<exists>receipts s'. commit_all slash_commit [example_event] punished_slots_default = Some (receipts, s') \<and>
     fmlookup (current_batch s') 7 = Some {|3|} \<and>
     revert_all slash_revert (rev receipts) s' = Some punished_slots_default"
proof -
  have w: "wf_punished punished_slots_default"
    by (simp add: wf_punished_def punished_slots_default_def)
  obtain receipts s' where c: "commit_all slash_commit [example_event] punished_slots_default = Some (receipts, s')"
    "fmlookup (current_batch s') 7 = Some {|3|}"
    by (simp add: example_event_def register_penalty_def punished_slots_default_def entry_or_default_def
        epoch_at_def batch_at_def w_div_ceil_def MAINNET_POLICY_def blocks_per_epoch_def Let_def)
  then show ?thesis
    using punished_slots_reversible [OF w _ c(1)] by (auto simp: example_event_def)
qed

text \<open>
  The effect of a penalty and of the end of a batch on the punished slots: a penalty adds its slot
  to the previous batch exactly when it is reported one batch late and to the current batch exactly
  when it is reported in its epoch; at a macro block the current slots become the previous ones, and
  the slots that carry over are none at an election block and otherwise those of the validators
  that are not active again.
\<close>

theorem punished_slots_effect:
  assumes "canonical (previous_batch s)"
  shows "elems (previous_batch (snd (register_penalty p s ps rb))) = elems (previous_batch s) \<union>
      (if batch_at p (ps_offense_event_block ps) + 1 = batch_at p rb then {unat (ps_slot ps)} else {}) \<and>
    current_slots (snd (register_penalty p s ps rb)) = current_slots s \<union>
      (if epoch_at p (ps_offense_event_block ps) = epoch_at p rb then {unat (ps_slot ps)} else {}) \<and>
    (finalize_batch p s b active = None \<longleftrightarrow> \<not> is_election_block_at p b \<and> \<not> is_macro_block_at p b) \<and>
    (\<forall>s'. finalize_batch p s b active = Some s' \<longrightarrow>
      canonical (previous_batch s') \<and> elems (previous_batch s') = current_slots s \<and>
      current_slots s' = (if is_election_block_at p b then {} else
        unat ` (\<Union>a \<in> {a. fmlookup active a = None}. fset (entry_or_default (current_batch s) a))) \<and>
      map_option elems (next_batch_initial_punished_set p s b active) = Some (current_slots s'))"
proof (intro conjI allI impI)
  show "elems (previous_batch (snd (register_penalty p s ps rb))) = elems (previous_batch s) \<union>
      (if batch_at p (ps_offense_event_block ps) + 1 = batch_at p rb then {unat (ps_slot ps)} else {})"
    by (auto simp: register_penalty_def elems_insert Let_def)
  show "current_slots (snd (register_penalty p s ps rb)) = current_slots s \<union>
      (if epoch_at p (ps_offense_event_block ps) = epoch_at p rb then {unat (ps_slot ps)} else {})"
    by (simp add: register_penalty_def Let_def slots_of_upd)
  show "finalize_batch p s b active = None \<longleftrightarrow> \<not> is_election_block_at p b \<and> \<not> is_macro_block_at p b"
    by (simp add: finalize_batch_def Let_def)
  fix s'
  assume f: "finalize_batch p s b active = Some s'"
  show "canonical (previous_batch s')" "elems (previous_batch s') = current_slots s"
    using f by (auto simp: finalize_batch_def Let_def current_batch_punished_slots_spec split: if_splits)
  show "current_slots s' = (if is_election_block_at p b then {} else
      unat ` (\<Union>a \<in> {a. fmlookup active a = None}. fset (entry_or_default (current_batch s) a)))"
    using f
    by (auto simp: finalize_batch_def Let_def slots_of_def entry_fmfilter split: if_splits
        intro!: arg_cong [of _ _ "(`) unat"])
  show "map_option elems (next_batch_initial_punished_set p s b active) = Some (current_slots s')"
    using f by (simp add: next_batch_initial_punished_set_def current_batch_punished_slots_spec)
qed

theorem punished_slots_effect_witness:
  "canonical (previous_batch punished_slots_default) \<and>
   current_slots (snd (register_penalty MAINNET_POLICY punished_slots_default
     \<lparr> ps_slot = 3, ps_validator_address = 7, ps_offense_event_block = 3456010 \<rparr> 3456012)) = {3}"
proof -
  have c: "canonical (previous_batch punished_slots_default)" by (simp add: punished_slots_default_def)
  have e: "epoch_at MAINNET_POLICY 3456010 = epoch_at MAINNET_POLICY 3456012"
    by (simp add: epoch_at_def w_div_ceil_def MAINNET_POLICY_def blocks_per_epoch_def Let_def)
  have z: "current_slots punished_slots_default = {}" by (simp add: slots_of_def punished_slots_default_def)
  show ?thesis
    using punished_slots_effect [OF c, of MAINNET_POLICY
        "\<lparr> ps_slot = 3, ps_validator_address = 7, ps_offense_event_block = 3456010 \<rparr>" 3456012
        0 "fmempty :: (address, nat) fmap"] e z c
    by simp
qed

end
