(* ===== verification/AccountTypes.thy ===== *)
theory AccountTypes
  imports PunishedSlots
begin

text \<open>
  The data the account modules share: account types and errors (\<^verbatim>\<open>primitives/src/account.rs\<close>),
  transactions, inherents and staking transaction data (\<^verbatim>\<open>primitives/transaction/src\<close>), logs
  (\<^verbatim>\<open>primitives/account/src/logs.rs\<close>) and the receipts of the staking contract. Keys, hashes and
  proofs are byte strings.
\<close>

type_synonym schnorr_public_key = "u8 list"
type_synonym bls_public_key = "u8 list"
type_synonym bls_signature = "u8 list"
type_synonym signature_proof = "u8 list"
type_synonym deserialize_error = string

section \<open>Accounts and errors\<close>

datatype account_type = Basic | Vesting | HTLC | Staking

fun account_type_try_from :: "u8 \<Rightarrow> u8 + account_type" where
  "account_type_try_from v =
     (if v = 0 then Inr Basic else if v = 1 then Inr Vesting else if v = 2 then Inr HTLC
      else if v = 3 then Inr Staking else Inl v)"

fun account_type_into :: "account_type \<Rightarrow> u8" where
  "account_type_into Basic = 0"
| "account_type_into Vesting = 1"
| "account_type_into HTLC = 2"
| "account_type_into Staking = 3"

datatype transaction_error =
    ForeignNetwork | ZeroValue | InvalidValue | Overflow | SenderEqualsRecipient
  | TxInvalidForSender | InvalidProof | TxInvalidForRecipient | InvalidForVersion | InvalidData
  | TxInvalidSerialization deserialize_error

datatype account_error =
    InsufficientFunds (needed: coin) (available: coin)
  | TypeMismatch (expected: account_type) (got: account_type)
  | InvalidSignature | InvalidForSender | InvalidForRecipient | InvalidForTarget | InvalidReceipt
  | InvalidSerialization deserialize_error
  | InvalidTransaction transaction_error
  | InvalidCoinValue
  | CoinParse coin_parse_error
  | CoinConvert coin_convert_error
  | InvalidInherent
  | NonExistentAddress address
  | AlreadyExistentAddress address
  | ChunkError string

fun from_coin_underflow :: "coin_underflow_error \<Rightarrow> account_error" where
  "from_coin_underflow (CoinUnderflowError lhs rhs) = InsufficientFunds rhs lhs"

datatype fail_reason =
    FR_InsufficientFunds | FR_TypeMismatch | FR_InvalidSignature | FR_InvalidForSender
  | FR_InvalidForRecipient | FR_InvalidForTarget | FR_InvalidReceipt | FR_InvalidSerialization
  | FR_InvalidTransaction | FR_InvalidCoinValue | FR_CoinParse | FR_CoinConvert | FR_InvalidInherent
  | FR_NonExistentAddress | FR_AlreadyExistentAddress | FR_ChunkError | FR_Incomplete

fun fail_reason_from :: "account_error \<Rightarrow> fail_reason" where
  "fail_reason_from (InsufficientFunds _ _) = FR_InsufficientFunds"
| "fail_reason_from (TypeMismatch _ _) = FR_TypeMismatch"
| "fail_reason_from InvalidSignature = FR_InvalidSignature"
| "fail_reason_from InvalidForSender = FR_InvalidForSender"
| "fail_reason_from InvalidForRecipient = FR_InvalidForRecipient"
| "fail_reason_from InvalidForTarget = FR_InvalidForTarget"
| "fail_reason_from InvalidReceipt = FR_InvalidReceipt"
| "fail_reason_from (InvalidSerialization _) = FR_InvalidSerialization"
| "fail_reason_from (InvalidTransaction _) = FR_InvalidTransaction"
| "fail_reason_from InvalidCoinValue = FR_InvalidCoinValue"
| "fail_reason_from (CoinParse _) = FR_CoinParse"
| "fail_reason_from (CoinConvert _) = FR_CoinConvert"
| "fail_reason_from InvalidInherent = FR_InvalidInherent"
| "fail_reason_from (NonExistentAddress _) = FR_NonExistentAddress"
| "fail_reason_from (AlreadyExistentAddress _) = FR_AlreadyExistentAddress"
| "fail_reason_from (ChunkError _) = FR_ChunkError"

text \<open>What stops a handler: an error it returns, or a panic.\<close>

datatype error = AccountErr account_error | Panic

record block_state =
  bs_number :: u32
  bs_time :: u64
  bs_protocol_version :: u16

section \<open>Transactions and inherents\<close>

text \<open>The two bits of \<open>TransactionFlags\<close>; the cached \<open>valid\<close> flag plays no part in the accounts.\<close>

record transaction =
  tx_sender :: address
  tx_sender_type :: account_type
  tx_sender_data :: "u8 list"
  tx_recipient :: address
  tx_recipient_type :: account_type
  tx_recipient_data :: "u8 list"
  tx_value :: coin
  tx_fee :: coin
  tx_validity_start_height :: u32
  tx_network_id :: network_id
  tx_contract_creation :: bool
  tx_signaling :: bool
  tx_proof :: "u8 list"

definition total_value :: "transaction \<Rightarrow> coin" where
  "total_value tx = coin_saturating_add (tx_value tx) (tx_fee tx)"

datatype inherent =
    Reward address address coin
  | Penalize penalized_slot
  | Jail_Inherent jailed_validator "slot_range option"
  | FinalizeBatch
  | FinalizeEpoch
  | VersionUpgrade u16

fun inherent_target :: "inherent \<Rightarrow> address" where
  "inherent_target (Reward _ target _) = target"
| "inherent_target _ = STAKING_CONTRACT_ADDRESS"

datatype signal_data_update = Full "blake2b_hash option" | Version u16

datatype incoming_staking_data =
    CreateValidator schnorr_public_key bls_public_key address "blake2b_hash option" bls_signature signature_proof
  | UpdateValidator "schnorr_public_key option" "bls_public_key option" "address option"
      "blake2b_hash option option" "bls_signature option" signature_proof
  | DeactivateValidator address signature_proof
  | ReactivateValidator address signature_proof
  | RetireValidator signature_proof
  | CreateStaker "address option" signature_proof
  | AddStake address
  | UpdateStaker "address option" bool signature_proof
  | SetActiveStake coin signature_proof
  | RetireStake coin signature_proof
  | SetSignalData address signal_data_update signature_proof

fun is_signaling :: "incoming_staking_data \<Rightarrow> bool" where
  "is_signaling (UpdateValidator _ _ _ _ _ _) = True"
| "is_signaling (DeactivateValidator _ _) = True"
| "is_signaling (ReactivateValidator _ _) = True"
| "is_signaling (RetireValidator _) = True"
| "is_signaling (UpdateStaker _ _ _) = True"
| "is_signaling (SetActiveStake _ _) = True"
| "is_signaling (RetireStake _ _) = True"
| "is_signaling (SetSignalData _ _ _) = True"
| "is_signaling _ = False"

datatype outgoing_staking_data = DeleteValidator | RemoveStake

section \<open>Hashes of the hash-time-locked contract\<close>

datatype any_hash = AnyBlake2b "u8 list" | AnySha256 "u8 list" | AnySha512 "u8 list"

fun any_hash_bytes :: "any_hash \<Rightarrow> u8 list" where
  "any_hash_bytes (AnyBlake2b hash) = hash"
| "any_hash_bytes (AnySha256 hash) = hash"
| "any_hash_bytes (AnySha512 hash) = hash"

datatype pre_image = PreImage32 "u8 list" | PreImage64 "u8 list"

fun pre_image_bytes :: "pre_image \<Rightarrow> u8 list" where
  "pre_image_bytes (PreImage32 hash) = hash"
| "pre_image_bytes (PreImage64 hash) = hash"

section \<open>Logs\<close>

datatype log =
    Log_PayFee address coin
  | Log_Transfer address address coin "u8 list option"
  | Log_HTLCCreate address address address any_hash u8 u64 coin
  | Log_HTLCTimeoutResolve address
  | Log_HTLCRegularTransfer address pre_image u8
  | Log_HTLCEarlyResolve address
  | Log_VestingCreate address address u64 u64 coin coin
  | Log_CreateValidator address address
  | Log_UpdateValidator address address "address option"
  | Log_ValidatorFeeDeduction address coin
  | Log_DeactivateValidator address u32
  | Log_ReactivateValidator address
  | Log_SetSignalData address "blake2b_hash option"
  | Log_CreateStaker address "address option" coin
  | Log_Stake address "address option" coin
  | Log_StakerFeeDeduction address coin
  | Log_UpdateStaker address "address option" "address option" coin "u32 option"
  | Log_RetireValidator address
  | Log_DeleteValidator address address
  | Log_SetActiveStake address "address option" coin coin "u32 option"
  | Log_RetireStake address "address option" coin "u32 option" coin
  | Log_RemoveStake address "address option" coin
  | Log_DeleteStaker address "address option"
  | Log_PayoutReward address coin
  | Log_Penalize address u32 u16 bool
  | Log_JailValidator address u32 bool
  | Log_RevertContract address
  | Log_FailedTransaction address address fail_reason

definition transfer_log :: "transaction \<Rightarrow> log" where
  "transfer_log tx = Log_Transfer (tx_sender tx) (tx_recipient tx) (tx_value tx)
     (if tx_recipient_data tx \<noteq> [] \<and> tx_recipient_type tx = Basic then Some (tx_recipient_data tx) else None)"

definition pay_fee_log :: "transaction \<Rightarrow> log" where
  "pay_fee_log tx = Log_PayFee (tx_sender tx) (tx_fee tx)"

section \<open>Receipts of the staking contract\<close>

record penalize_receipt =
  pr_newly_deactivated :: bool
  pr_newly_punished_previous_batch :: bool
  pr_newly_punished_current_batch :: bool

record jail_receipt =
  jr_newly_deactivated :: bool
  jr_old_previous_batch_punished_slots :: bitset
  jr_old_current_batch_punished_slots :: "u16 fset option"
  jr_old_jailed_from :: "u32 option"

record update_validator_receipt =
  uv_old_signing_key :: schnorr_public_key
  uv_old_voting_key :: bls_public_key
  uv_old_reward_address :: address
  uv_old_signal_data :: "blake2b_hash option"

record set_signal_data_receipt =
  sd_old_signal_data :: "blake2b_hash option"

record jail_validator_receipt =
  jvr_newly_deactivated :: bool
  jvr_old_jailed_from :: "u32 option"

definition jail_validator_receipt_from :: "jail_receipt \<Rightarrow> jail_validator_receipt" where
  "jail_validator_receipt_from r =
     \<lparr> jvr_newly_deactivated = jr_newly_deactivated r, jvr_old_jailed_from = jr_old_jailed_from r \<rparr>"

record reactivate_validator_receipt =
  rv_was_inactive_from :: u32

record retire_validator_receipt =
  rt_was_active :: bool

record delete_validator_receipt =
  dv_signing_key :: schnorr_public_key
  dv_voting_key :: bls_public_key
  dv_reward_address :: address
  dv_signal_data :: "blake2b_hash option"
  dv_inactive_from :: u32
  dv_jailed_from :: "u32 option"

record staker_receipt =
  sr_delegation :: "address option"
  sr_active_balance :: coin
  sr_inactive_from :: "u32 option"

record set_active_stake_receipt =
  sa_old_inactive_from :: "u32 option"
  sa_old_active_balance :: coin

record retire_stake_receipt =
  rs_old_inactive_from :: "u32 option"

record delete_staker_receipt =
  ds_delegation :: "address option"

end
