(* ===== verification/StakingState.thy ===== *)
theory StakingState
  imports AccountTypes
begin

text \<open>
  The state of the staking contract: the contract record (\<^verbatim>\<open>staking_contract/mod.rs\<close>), the three
  subtries of validators, stakers and tombstones behind the store (\<^verbatim>\<open>staking_contract/store.rs\<close>),
  and the log of the transaction in progress. The store is a finite map per prefix. Operations
  are computations with this state; \<open>Panic\<close> is the error of a failed \<open>expect\<close>, \<open>assert!\<close> or
  coin operation.
\<close>

record validator =
  v_address :: address
  v_signing_key :: schnorr_public_key
  v_voting_key :: bls_public_key
  v_reward_address :: address
  v_signal_data :: "blake2b_hash option"
  v_total_stake :: coin
  v_deposit :: coin
  v_num_stakers :: u64
  v_inactive_from :: "u32 option"
  v_jailed_from :: "u32 option"
  v_retired :: bool

record tombstone =
  t_remaining_stake :: coin
  t_num_remaining_stakers :: u64

record staker =
  s_address :: address
  s_active_balance :: coin
  s_inactive_balance :: coin
  s_inactive_from :: "u32 option"
  s_retired_balance :: coin
  s_delegation :: "address option"

record staking_state =
  sc_balance :: coin
  active_validators :: "(address, coin) fmap"
  punished :: punished_slots
  validators :: "(address, validator) fmap"
  stakers :: "(address, staker) fmap"
  tombstones :: "(address, tombstone) fmap"
  tx_log :: "log list"

text \<open>What the contract takes from its surroundings: the policy and \<open>Address::from(&key)\<close>.\<close>

record env =
  env_policy :: policy
  addr_of_key :: "schnorr_public_key \<Rightarrow> address"

type_synonym 'a sc = "(staking_state, error, 'a) eff"

section \<open>Store\<close>

definition get_validator :: "address \<Rightarrow> validator option sc" where
  "get_validator a = gets (\<lambda>s. fmlookup (validators s) a)"

definition get_staker :: "address \<Rightarrow> staker option sc" where
  "get_staker a = gets (\<lambda>s. fmlookup (stakers s) a)"

definition get_tombstone :: "address \<Rightarrow> tombstone option sc" where
  "get_tombstone a = gets (\<lambda>s. fmlookup (tombstones s) a)"

definition put_validator :: "address \<Rightarrow> validator \<Rightarrow> unit sc" where
  "put_validator a v = modify (\<lambda>s. s \<lparr> validators := fmupd a v (validators s) \<rparr>)"

definition remove_validator :: "address \<Rightarrow> unit sc" where
  "remove_validator a = modify (\<lambda>s. s \<lparr> validators := fmdrop a (validators s) \<rparr>)"

definition put_staker :: "address \<Rightarrow> staker \<Rightarrow> unit sc" where
  "put_staker a st = modify (\<lambda>s. s \<lparr> stakers := fmupd a st (stakers s) \<rparr>)"

definition remove_staker :: "address \<Rightarrow> unit sc" where
  "remove_staker a = modify (\<lambda>s. s \<lparr> stakers := fmdrop a (stakers s) \<rparr>)"

definition put_tombstone :: "address \<Rightarrow> tombstone \<Rightarrow> unit sc" where
  "put_tombstone a t = modify (\<lambda>s. s \<lparr> tombstones := fmupd a t (tombstones s) \<rparr>)"

definition remove_tombstone :: "address \<Rightarrow> unit sc" where
  "remove_tombstone a = modify (\<lambda>s. s \<lparr> tombstones := fmdrop a (tombstones s) \<rparr>)"

definition expect_validator :: "address \<Rightarrow> validator sc" where
  "expect_validator a = bind_eff (get_validator a) (some_or (AccountErr (NonExistentAddress a)))"

definition expect_staker :: "address \<Rightarrow> staker sc" where
  "expect_staker a = bind_eff (get_staker a) (some_or (AccountErr (NonExistentAddress a)))"

definition push_log :: "log \<Rightarrow> unit sc" where
  "push_log l = modify (\<lambda>s. s \<lparr> tx_log := tx_log s @ [l] \<rparr>)"

definition expect :: "'a option \<Rightarrow> 'a sc" where
  "expect x = some_or Panic x"

definition assert_that :: "bool \<Rightarrow> unit sc" where
  "assert_that b = ensure b Panic"

definition fail_unless :: "bool \<Rightarrow> account_error \<Rightarrow> unit sc" where
  "fail_unless b e = ensure b (AccountErr e)"

definition of_result :: "account_error + 'a \<Rightarrow> 'a sc" where
  "of_result r = of_sum (map_sum AccountErr id r)"

definition add_balance :: "coin \<Rightarrow> unit sc" where
  "add_balance c = bind_eff (gets sc_balance) (\<lambda>b.
     bind_eff (expect (coin_add b c)) (\<lambda>b'. modify (\<lambda>s. s \<lparr> sc_balance := b' \<rparr>)))"

definition sub_balance :: "coin \<Rightarrow> unit sc" where
  "sub_balance c = bind_eff (gets sc_balance) (\<lambda>b.
     bind_eff (expect (coin_sub b c)) (\<lambda>b'. modify (\<lambda>s. s \<lparr> sc_balance := b' \<rparr>)))"

definition active_insert :: "address \<Rightarrow> coin \<Rightarrow> unit sc" where
  "active_insert a c = modify (\<lambda>s. s \<lparr> active_validators := fmupd a c (active_validators s) \<rparr>)"

definition active_remove :: "address \<Rightarrow> coin option sc" where
  "active_remove a = bind_eff (gets (\<lambda>s. fmlookup (active_validators s) a)) (\<lambda>r.
     seq_eff (modify (\<lambda>s. s \<lparr> active_validators := fmdrop a (active_validators s) \<rparr>)) (ret r))"

lemmas store_defs = get_validator_def get_staker_def get_tombstone_def put_validator_def remove_validator_def
  put_staker_def remove_staker_def put_tombstone_def remove_tombstone_def expect_validator_def
  expect_staker_def push_log_def expect_def assert_that_def fail_unless_def of_result_def
  active_insert_def

lemma of_result_Inr: "of_result r s = (Inr a, s') \<longleftrightarrow> r = Inr a \<and> s' = s"
  by (cases r) (auto simp: of_result_def eff_simps)

lemma of_result_Inl: "of_result r s = (Inl e, s') \<longleftrightarrow> (\<exists>x. r = Inl x \<and> e = AccountErr x) \<and> s' = s"
  by (cases r) (auto simp: of_result_def eff_simps)

lemma expect_validator_Inr:
  "expect_validator a s = (Inr v, s') \<longleftrightarrow> fmlookup (validators s) a = Some v \<and> s' = s"
  by (auto simp: store_defs eff_inv)

lemma expect_validator_Inl:
  "expect_validator a s = (Inl e, s') \<longleftrightarrow>
     fmlookup (validators s) a = None \<and> e = AccountErr (NonExistentAddress a) \<and> s' = s"
  by (auto simp: store_defs eff_inv)

lemma expect_staker_Inr:
  "expect_staker a s = (Inr st, s') \<longleftrightarrow> fmlookup (stakers s) a = Some st \<and> s' = s"
  by (auto simp: store_defs eff_inv)

lemma expect_staker_Inl:
  "expect_staker a s = (Inl e, s') \<longleftrightarrow>
     fmlookup (stakers s) a = None \<and> e = AccountErr (NonExistentAddress a) \<and> s' = s"
  by (auto simp: store_defs eff_inv)

lemma add_balance_Inr:
  "add_balance c s = (Inr u, s') \<longleftrightarrow>
     sc_balance s + c \<le> MAX_SAFE_VALUE \<and> s' = s \<lparr> sc_balance := sc_balance s + c \<rparr>"
  by (auto simp: add_balance_def expect_def eff_inv)

lemma add_balance_Inl:
  "add_balance c s = (Inl e, s') \<longleftrightarrow> \<not> sc_balance s + c \<le> MAX_SAFE_VALUE \<and> e = Panic \<and> s' = s"
  by (auto simp: add_balance_def expect_def eff_inv coin_add_None)

lemma sub_balance_Inr:
  "sub_balance c s = (Inr u, s') \<longleftrightarrow> c \<le> sc_balance s \<and> sc_balance s - c \<le> MAX_SAFE_VALUE \<and>
     s' = s \<lparr> sc_balance := sc_balance s - c \<rparr>"
  by (auto simp: sub_balance_def expect_def eff_inv)

lemma coin_sub_None: "coin_sub a b = None \<longleftrightarrow> \<not> (b \<le> a \<and> a - b \<le> MAX_SAFE_VALUE)"
  using coin_sub_Some [of a b] by (metis not_None_eq)

lemma sub_balance_Inl:
  "sub_balance c s = (Inl e, s') \<longleftrightarrow>
     \<not> (c \<le> sc_balance s \<and> sc_balance s - c \<le> MAX_SAFE_VALUE) \<and> e = Panic \<and> s' = s"
  by (auto simp: sub_balance_def expect_def eff_inv coin_sub_None)

lemma active_remove_Inr:
  "active_remove a s = (Inr r, s') \<longleftrightarrow> r = fmlookup (active_validators s) a \<and>
     s' = s \<lparr> active_validators := fmdrop a (active_validators s) \<rparr>"
  by (auto simp: active_remove_def eff_inv)

lemma active_remove_Inl: "active_remove a s \<noteq> (Inl e, s')"
  by (auto simp: active_remove_def eff_inv)

lemma store_Inr:
  "get_validator a s = (Inr x, s') \<longleftrightarrow> x = fmlookup (validators s) a \<and> s' = s"
  "get_staker a s = (Inr y, s') \<longleftrightarrow> y = fmlookup (stakers s) a \<and> s' = s"
  "get_tombstone a s = (Inr z, s') \<longleftrightarrow> z = fmlookup (tombstones s) a \<and> s' = s"
  "put_validator a v s = (Inr u, s') \<longleftrightarrow> s' = s \<lparr> validators := fmupd a v (validators s) \<rparr>"
  "remove_validator a s = (Inr u, s') \<longleftrightarrow> s' = s \<lparr> validators := fmdrop a (validators s) \<rparr>"
  "put_staker a st s = (Inr u, s') \<longleftrightarrow> s' = s \<lparr> stakers := fmupd a st (stakers s) \<rparr>"
  "remove_staker a s = (Inr u, s') \<longleftrightarrow> s' = s \<lparr> stakers := fmdrop a (stakers s) \<rparr>"
  "put_tombstone a t s = (Inr u, s') \<longleftrightarrow> s' = s \<lparr> tombstones := fmupd a t (tombstones s) \<rparr>"
  "remove_tombstone a s = (Inr u, s') \<longleftrightarrow> s' = s \<lparr> tombstones := fmdrop a (tombstones s) \<rparr>"
  "push_log l s = (Inr u, s') \<longleftrightarrow> s' = s \<lparr> tx_log := tx_log s @ [l] \<rparr>"
  "active_insert a c s = (Inr u, s') \<longleftrightarrow> s' = s \<lparr> active_validators := fmupd a c (active_validators s) \<rparr>"
  "expect w s = (Inr q, s') \<longleftrightarrow> w = Some q \<and> s' = s"
  "assert_that b s = (Inr u, s') \<longleftrightarrow> b \<and> s' = s"
  "fail_unless b er s = (Inr u, s') \<longleftrightarrow> b \<and> s' = s"
  by (auto simp: store_defs eff_inv)

lemma store_Inl:
  "get_validator a s = (Inl e, s') \<longleftrightarrow> False" "get_staker a s = (Inl e, s') \<longleftrightarrow> False"
  "get_tombstone a s = (Inl e, s') \<longleftrightarrow> False" "put_validator a v s = (Inl e, s') \<longleftrightarrow> False"
  "remove_validator a s = (Inl e, s') \<longleftrightarrow> False" "put_staker a st s = (Inl e, s') \<longleftrightarrow> False"
  "remove_staker a s = (Inl e, s') \<longleftrightarrow> False" "put_tombstone a t s = (Inl e, s') \<longleftrightarrow> False"
  "remove_tombstone a s = (Inl e, s') \<longleftrightarrow> False" "push_log l s = (Inl e, s') \<longleftrightarrow> False"
  "active_insert a c s = (Inl e, s') \<longleftrightarrow> False" "active_remove a s = (Inl e, s') \<longleftrightarrow> False"
  "expect w s = (Inl e, s') \<longleftrightarrow> w = None \<and> e = Panic \<and> s' = s"
  "assert_that b s = (Inl e, s') \<longleftrightarrow> \<not> b \<and> e = Panic \<and> s' = s"
  "fail_unless b er s = (Inl e, s') \<longleftrightarrow> \<not> b \<and> e = AccountErr er \<and> s' = s"
  by (auto simp: store_defs eff_inv active_remove_Inl)

lemmas sc_inv_rules = bind_eff_Inr bind_eff_Inl seq_eff_Inr seq_eff_Inl when_eff_Inr when_eff_Inl eff_leaf_iff
  of_result_Inr of_result_Inl expect_validator_Inr expect_validator_Inl expect_staker_Inr expect_staker_Inl
  add_balance_Inr add_balance_Inl sub_balance_Inr sub_balance_Inl active_remove_Inr store_Inr store_Inl

end
