(* ===== verification/StakingTransaction.thy ===== *)
theory StakingTransaction
  imports StakingState
begin

text \<open>
  The data of staking transactions and its verification
  (\<^verbatim>\<open>primitives/transaction/src/account/staking_contract\<close>), and what the contract takes from the
  serialization and signature libraries. Serialization, hashing and signatures are functions of the
  environment; a receipt in its serialized form is a value of the type \<open>'r\<close>.
  \<open>deserialize_incoming\<close> is \<open>deserialize_all\<close>, which rejects trailing bytes, and
  \<open>deserialize_incoming_prefix\<close> is \<open>deserialize_from_vec\<close>, which ignores them.
\<close>

section \<open>The environment\<close>

record ('r, 'x) codec =
  serialize_to_vec :: "'x \<Rightarrow> 'r"
  deserialize_from_vec :: "'r \<Rightarrow> deserialize_error + 'x"

definition codec_ok :: "('r, 'x) codec \<Rightarrow> bool" where
  "codec_ok c \<longleftrightarrow> (\<forall>x. deserialize_from_vec c (serialize_to_vec c x) = Inr x)"

record 'r sc_env = env +
  deserialize_incoming :: "u8 list \<Rightarrow> deserialize_error + incoming_staking_data"
  deserialize_incoming_prefix :: "u8 list \<Rightarrow> deserialize_error + incoming_staking_data"
  serialize_incoming :: "incoming_staking_data \<Rightarrow> u8 list"
  deserialize_outgoing :: "u8 list \<Rightarrow> deserialize_error + outgoing_staking_data"
  deserialize_proof :: "u8 list \<Rightarrow> deserialize_error + signature_proof"
  compute_signer :: "signature_proof \<Rightarrow> address"
  is_default_public_key :: "signature_proof \<Rightarrow> bool"
  default_proof :: signature_proof
  verify_proof :: "signature_proof \<Rightarrow> u8 list \<Rightarrow> bool"
  serialize_content :: "transaction \<Rightarrow> u8 list"
  bls_verify :: "bls_public_key \<Rightarrow> bls_signature \<Rightarrow> bool option"
  penalize_codec :: "('r, penalize_receipt) codec"
  jail_codec :: "('r, jail_receipt) codec"
  update_validator_codec :: "('r, update_validator_receipt) codec"
  set_signal_data_codec :: "('r, set_signal_data_receipt) codec"
  reactivate_validator_codec :: "('r, reactivate_validator_receipt) codec"
  retire_validator_codec :: "('r, retire_validator_receipt) codec"
  delete_validator_codec :: "('r, delete_validator_receipt) codec"
  staker_codec :: "('r, staker_receipt) codec"
  set_active_stake_codec :: "('r, set_active_stake_receipt) codec"
  retire_stake_codec :: "('r, retire_stake_receipt) codec"
  delete_staker_codec :: "('r, delete_staker_receipt) codec"

text \<open>Deserializing what was serialized gives it back.\<close>

definition codecs_ok :: "('r, 'z) sc_env_scheme \<Rightarrow> bool" where
  "codecs_ok E \<longleftrightarrow> codec_ok (penalize_codec E) \<and> codec_ok (jail_codec E) \<and> codec_ok (update_validator_codec E) \<and>
     codec_ok (set_signal_data_codec E) \<and> codec_ok (reactivate_validator_codec E) \<and>
     codec_ok (retire_validator_codec E) \<and> codec_ok (delete_validator_codec E) \<and> codec_ok (staker_codec E) \<and>
     codec_ok (set_active_stake_codec E) \<and> codec_ok (retire_stake_codec E) \<and> codec_ok (delete_staker_codec E)"

section \<open>Transaction data\<close>

definition parse_incoming :: "('r, 'z) sc_env_scheme \<Rightarrow> transaction \<Rightarrow> transaction_error + incoming_staking_data" where
  "parse_incoming E tx = map_sum TxInvalidSerialization id (deserialize_incoming E (tx_recipient_data tx))"

definition parse_outgoing :: "('r, 'z) sc_env_scheme \<Rightarrow> transaction \<Rightarrow> transaction_error + outgoing_staking_data" where
  "parse_outgoing E tx = map_sum TxInvalidSerialization id (deserialize_outgoing E (tx_sender_data tx))"

fun set_signature :: "incoming_staking_data \<Rightarrow> signature_proof \<Rightarrow> incoming_staking_data" where
  "set_signature (CreateValidator sk vk ra sd pok _) p = CreateValidator sk vk ra sd pok p"
| "set_signature (UpdateValidator sk vk ra sd pok _) p = UpdateValidator sk vk ra sd pok p"
| "set_signature (DeactivateValidator a _) p = DeactivateValidator a p"
| "set_signature (ReactivateValidator a _) p = ReactivateValidator a p"
| "set_signature (RetireValidator _) p = RetireValidator p"
| "set_signature (CreateStaker d _) p = CreateStaker d p"
| "set_signature (UpdateStaker d b _) p = UpdateStaker d b p"
| "set_signature (SetActiveStake c _) p = SetActiveStake c p"
| "set_signature (RetireStake c _) p = RetireStake c p"
| "set_signature (SetSignalData a u _) p = SetSignalData a u p"
| "set_signature (AddStake a) p = AddStake a"

definition set_signature_on_data ::
  "('r, 'z) sc_env_scheme \<Rightarrow> u8 list \<Rightarrow> signature_proof \<Rightarrow> deserialize_error + u8 list" where
  "set_signature_on_data E data p =
     (case deserialize_incoming_prefix E data of
        Inl e \<Rightarrow> Inl e
      | Inr d \<Rightarrow> Inr (serialize_incoming E (set_signature d p)))"

section \<open>Verification\<close>

definition verify_transaction_signature ::
  "('r, 'z) sc_env_scheme \<Rightarrow> transaction \<Rightarrow> signature_proof \<Rightarrow> transaction_error + unit" where
  "verify_transaction_signature E tx sig_proof =
    (if is_default_public_key E sig_proof then Inl InvalidProof
     else case set_signature_on_data E (tx_recipient_data tx) (default_proof E) of
        Inl e \<Rightarrow> Inl (TxInvalidSerialization e)
      | Inr data \<Rightarrow>
          if \<not> verify_proof E sig_proof (serialize_content E (tx \<lparr> tx_recipient_data := data \<rparr>)) then Inl InvalidProof
          else Inr ())"

definition verify_proof_of_knowledge ::
  "('r, 'z) sc_env_scheme \<Rightarrow> bls_public_key \<Rightarrow> bls_signature \<Rightarrow> transaction_error + unit" where
  "verify_proof_of_knowledge E voting_key proof_of_knowledge =
    (case bls_verify E voting_key proof_of_knowledge of
       None \<Rightarrow> Inl InvalidData
     | Some ok \<Rightarrow> if \<not> ok then Inl InvalidData else Inr ())"

definition and_then :: "'e + unit \<Rightarrow> 'e + 'a \<Rightarrow> 'e + 'a" where
  "and_then r k = (case r of Inl e \<Rightarrow> Inl e | Inr _ \<Rightarrow> k)"

definition WARM_KEY_SIGNALING :: u16 where
  "WARM_KEY_SIGNALING = 2"

fun verify_data ::
  "('r, 'z) sc_env_scheme \<Rightarrow> incoming_staking_data \<Rightarrow> transaction \<Rightarrow> u16 \<Rightarrow> transaction_error + unit" where
  "verify_data E (CreateValidator _ voting_key _ _ proof_of_knowledge proof) tx version =
    (if tx_value tx \<noteq> VALIDATOR_DEPOSIT then Inl InvalidValue
     else and_then (verify_proof_of_knowledge E voting_key proof_of_knowledge) (verify_transaction_signature E tx proof))"
| "verify_data E (UpdateValidator new_signing_key new_voting_key new_reward_address new_signal_data
      new_proof_of_knowledge proof) tx version =
    (if new_signing_key = None \<and> new_voting_key = None \<and> new_reward_address = None \<and> new_signal_data = None
     then Inl InvalidData
     else and_then (case (new_voting_key, new_proof_of_knowledge) of
         (Some key, Some pok) \<Rightarrow> verify_proof_of_knowledge E key pok
       | (Some _, None) \<Rightarrow> Inl InvalidData
       | (None, Some _) \<Rightarrow> Inl InvalidData
       | (None, None) \<Rightarrow> Inr ()) (verify_transaction_signature E tx proof))"
| "verify_data E (DeactivateValidator _ proof) tx version = verify_transaction_signature E tx proof"
| "verify_data E (ReactivateValidator _ proof) tx version = verify_transaction_signature E tx proof"
| "verify_data E (RetireValidator proof) tx version = verify_transaction_signature E tx proof"
| "verify_data E (CreateStaker _ proof) tx version =
    (if tx_value tx < MINIMUM_STAKE then Inl InvalidValue else verify_transaction_signature E tx proof)"
| "verify_data E (AddStake _) tx version = (if tx_value tx = 0 then Inl ZeroValue else Inr ())"
| "verify_data E (UpdateStaker _ _ proof) tx version = verify_transaction_signature E tx proof"
| "verify_data E (SetActiveStake _ proof) tx version = verify_transaction_signature E tx proof"
| "verify_data E (RetireStake retire_stake proof) tx version =
    (if retire_stake = 0 then Inl ZeroValue else verify_transaction_signature E tx proof)"
| "verify_data E (SetSignalData _ _ proof) tx version =
    (if version < WARM_KEY_SIGNALING then Inl InvalidForVersion else verify_transaction_signature E tx proof)"

text \<open>\<open>None\<close> is the failed \<open>assert_eq!\<close> on the account type.\<close>

definition verify_incoming_transaction ::
  "('r, 'z) sc_env_scheme \<Rightarrow> transaction \<Rightarrow> u16 \<Rightarrow> (transaction_error + unit) option" where
  "verify_incoming_transaction E tx version =
    (if tx_recipient_type tx \<noteq> Staking then None
     else Some
      (if tx_contract_creation tx then Inl TxInvalidForRecipient
       else case parse_incoming E tx of
         Inl e \<Rightarrow> Inl e
       | Inr data \<Rightarrow>
           if is_signaling data \<noteq> tx_signaling tx then Inl TxInvalidForRecipient
           else if is_signaling data \<and> tx_value tx \<noteq> 0 then Inl InvalidValue
           else verify_data E data tx version))"

definition verify_outgoing_transaction ::
  "('r, 'z) sc_env_scheme \<Rightarrow> transaction \<Rightarrow> u16 \<Rightarrow> (transaction_error + unit) option" where
  "verify_outgoing_transaction E tx version =
    (if tx_sender_type tx \<noteq> Staking then None
     else Some
      (case parse_outgoing E tx of
         Inl e \<Rightarrow> Inl e
       | Inr _ \<Rightarrow>
         (case deserialize_proof E (tx_proof tx) of
            Inl e \<Rightarrow> Inl (TxInvalidSerialization e)
          | Inr proof \<Rightarrow>
              if \<not> verify_proof E proof (serialize_content E tx) then Inl InvalidProof else Inr ())))"

text \<open>What the contract relies on: the value a verified transaction carries fits its operation.\<close>

fun value_ok :: "incoming_staking_data \<Rightarrow> coin \<Rightarrow> bool" where
  "value_ok (CreateValidator _ _ _ _ _ _) v = (v = VALIDATOR_DEPOSIT)"
| "value_ok (CreateStaker _ _) v = (MINIMUM_STAKE \<le> v)"
| "value_ok (AddStake _) v = (0 < v)"
| "value_ok _ v = (v = 0)"

lemma and_then_Inr: "and_then r k = Inr x \<longleftrightarrow> r = Inr () \<and> k = Inr x"
  by (cases r) (auto simp: and_then_def)

lemma verified_value:
  assumes "verify_incoming_transaction E tx version = Some (Inr ())"
  shows "\<exists>data. parse_incoming E tx = Inr data \<and> value_ok data (tx_value tx)"
proof -
  obtain data where d: "parse_incoming E tx = Inr data" "verify_data E data tx version = Inr ()"
    "is_signaling data \<longrightarrow> tx_value tx = 0"
    using assms unfolding verify_incoming_transaction_def
    by (cases "parse_incoming E tx") (auto split: if_splits)
  then have "value_ok data (tx_value tx)" by (cases data) (auto split: if_splits)
  then show ?thesis using d(1) by blast
qed

end
