(* ===== verification/StakingValidator.thy ===== *)
theory StakingValidator
  imports StakingState
begin

text \<open>
  The validator operations of the staking contract and their reverts,
  \<^verbatim>\<open>staking_contract/validator.rs\<close>.
\<close>

section \<open>Validator\<close>

definition is_active :: "validator \<Rightarrow> bool" where
  "is_active v \<longleftrightarrow> v_inactive_from v = None"

definition is_jailed :: "policy \<Rightarrow> validator \<Rightarrow> u32 \<Rightarrow> bool" where
  "is_jailed p v block_number =
     (case v_jailed_from v of Some jailed_from \<Rightarrow> block_number < block_after_jail p jailed_from | None \<Rightarrow> False)"

definition enforce_retire_and_release :: "policy \<Rightarrow> validator \<Rightarrow> u32 \<Rightarrow> unit sc" where
  "enforce_retire_and_release p v block_number =
     seq_eff (fail_unless (v_retired v) InvalidForSender)
     (seq_eff (fail_unless (\<not> is_jailed p v block_number) InvalidForSender)
     (bind_eff (expect (v_inactive_from v)) (\<lambda>inactive_from.
      let wait_until = last_block_of_collateral_lockup p inactive_from
      in fail_unless (\<not> block_number \<le> wait_until) InvalidForSender)))"

definition can_delete_validator :: "policy \<Rightarrow> validator \<Rightarrow> coin \<Rightarrow> u32 \<Rightarrow> unit sc" where
  "can_delete_validator p v value block_number =
     seq_eff (fail_unless (\<not> value \<noteq> v_deposit v) InvalidCoinValue)
     (enforce_retire_and_release p v block_number)"

section \<open>Operations\<close>

definition create_validator ::
  "'z env_scheme \<Rightarrow> address \<Rightarrow> schnorr_public_key \<Rightarrow> bls_public_key \<Rightarrow> address \<Rightarrow> blake2b_hash option \<Rightarrow> coin
     \<Rightarrow> u32 option \<Rightarrow> u32 option \<Rightarrow> bool \<Rightarrow> u32 \<Rightarrow> unit sc" where
  "create_validator E validator_address signing_key voting_key reward_address signal_data deposit
      inactive_from jailed_from retired block_number =
    bind_eff (get_validator validator_address) (\<lambda>existing.
    seq_eff (fail_unless (existing = None) (AlreadyExistentAddress validator_address))
    (let is_currently_jailed = (case jailed_from of
           Some jf \<Rightarrow> block_number < block_after_jail (env_policy E) jf | None \<Rightarrow> False)
     in seq_eff (fail_unless (\<not> (inactive_from = None \<and> (retired \<or> is_currently_jailed))) InvalidForRecipient)
    (bind_eff (get_tombstone validator_address) (\<lambda>tombstone.
     seq_eff (fail_unless (tombstone = None) InvalidForRecipient)
    (let validator = \<lparr> v_address = validator_address, v_signing_key = signing_key, v_voting_key = voting_key,
           v_reward_address = reward_address, v_signal_data = signal_data, v_total_stake = deposit,
           v_deposit = deposit, v_num_stakers = 0, v_inactive_from = inactive_from,
           v_jailed_from = jailed_from, v_retired = retired \<rparr>
     in seq_eff (add_balance deposit)
    (seq_eff (when_eff (is_active validator) (active_insert validator_address (v_total_stake validator)))
    (seq_eff (push_log (Log_CreateValidator validator_address (v_reward_address validator)))
    (put_validator validator_address validator))))))))"

definition revert_create_validator :: "address \<Rightarrow> coin \<Rightarrow> unit sc" where
  "revert_create_validator validator_address deposit =
    bind_eff (expect_validator validator_address) (\<lambda>validator.
    seq_eff (assert_that (v_deposit validator = deposit))
    (seq_eff (sub_balance deposit)
    (bind_eff (active_remove validator_address) (\<lambda>_.
     seq_eff (remove_validator validator_address)
    (push_log (Log_CreateValidator validator_address (v_reward_address validator)))))))"

definition update_validator ::
  "address \<Rightarrow> schnorr_public_key option \<Rightarrow> bls_public_key option \<Rightarrow> address option
     \<Rightarrow> blake2b_hash option option \<Rightarrow> update_validator_receipt sc" where
  "update_validator validator_address new_signing_key new_voting_key new_reward_address new_signal_data =
    bind_eff (expect_validator validator_address) (\<lambda>validator0.
    let receipt = \<lparr> uv_old_signing_key = v_signing_key validator0, uv_old_voting_key = v_voting_key validator0,
          uv_old_reward_address = v_reward_address validator0, uv_old_signal_data = v_signal_data validator0 \<rparr>;
        validator1 = (case new_signing_key of Some value \<Rightarrow> validator0 \<lparr> v_signing_key := value \<rparr> | None \<Rightarrow> validator0);
        validator2 = (case new_voting_key of Some value \<Rightarrow> validator1 \<lparr> v_voting_key := value \<rparr> | None \<Rightarrow> validator1);
        validator3 = (case new_reward_address of Some value \<Rightarrow> validator2 \<lparr> v_reward_address := value \<rparr> | None \<Rightarrow> validator2);
        validator = (case new_signal_data of Some value \<Rightarrow> validator3 \<lparr> v_signal_data := value \<rparr> | None \<Rightarrow> validator3)
    in seq_eff (push_log (Log_UpdateValidator validator_address (uv_old_reward_address receipt)
         (Some (v_reward_address validator))))
    (seq_eff (put_validator validator_address validator)
    (ret receipt)))"

definition revert_update_validator :: "address \<Rightarrow> update_validator_receipt \<Rightarrow> unit sc" where
  "revert_update_validator validator_address receipt =
    bind_eff (expect_validator validator_address) (\<lambda>validator.
    seq_eff (push_log (Log_UpdateValidator validator_address (uv_old_reward_address receipt)
         (Some (v_reward_address validator))))
    (put_validator validator_address (validator \<lparr> v_signing_key := uv_old_signing_key receipt,
       v_voting_key := uv_old_voting_key receipt, v_reward_address := uv_old_reward_address receipt,
       v_signal_data := uv_old_signal_data receipt \<rparr>)))"

definition set_signal_data ::
  "'z env_scheme \<Rightarrow> address \<Rightarrow> address \<Rightarrow> signal_data_update \<Rightarrow> set_signal_data_receipt sc" where
  "set_signal_data E validator_address signer update =
    bind_eff (expect_validator validator_address) (\<lambda>validator.
    seq_eff (fail_unless (\<not> signer \<noteq> addr_of_key E (v_signing_key validator)) InvalidSignature)
    (let receipt = \<lparr> sd_old_signal_data = v_signal_data validator \<rparr>;
         new_signal_data = (case update of
             Full signal_data \<Rightarrow> signal_data
           | Version version \<Rightarrow> Some (signal_data_with_version (v_signal_data validator) version))
     in seq_eff (push_log (Log_SetSignalData validator_address new_signal_data))
    (seq_eff (put_validator validator_address (validator \<lparr> v_signal_data := new_signal_data \<rparr>))
    (ret receipt))))"

definition revert_set_signal_data :: "address \<Rightarrow> set_signal_data_receipt \<Rightarrow> unit sc" where
  "revert_set_signal_data validator_address receipt =
    bind_eff (expect_validator validator_address) (\<lambda>validator.
    seq_eff (push_log (Log_SetSignalData validator_address (v_signal_data validator)))
    (put_validator validator_address (validator \<lparr> v_signal_data := sd_old_signal_data receipt \<rparr>)))"

definition deactivate_validator :: "'z env_scheme \<Rightarrow> address \<Rightarrow> address \<Rightarrow> u32 \<Rightarrow> unit sc" where
  "deactivate_validator E validator_address signer block_number =
    bind_eff (expect_validator validator_address) (\<lambda>validator.
    seq_eff (fail_unless (is_active validator) InvalidForRecipient)
    (seq_eff (fail_unless (\<not> signer \<noteq> addr_of_key E (v_signing_key validator)) InvalidSignature)
    (let next_election_block = election_block_after (env_policy E) block_number
     in bind_eff (active_remove validator_address) (\<lambda>removed.
        bind_eff (expect removed) (\<lambda>_.
        seq_eff (put_validator validator_address (validator \<lparr> v_inactive_from := Some next_election_block \<rparr>))
        (push_log (Log_DeactivateValidator validator_address next_election_block)))))))"

definition revert_deactivate_validator :: "address \<Rightarrow> unit sc" where
  "revert_deactivate_validator validator_address =
    bind_eff (expect_validator validator_address) (\<lambda>validator.
    bind_eff (expect (v_inactive_from validator)) (\<lambda>inactive_from.
    seq_eff (active_insert validator_address (v_total_stake validator))
    (seq_eff (put_validator validator_address (validator \<lparr> v_inactive_from := None \<rparr>))
    (push_log (Log_DeactivateValidator validator_address inactive_from)))))"

definition jail_validator :: "'z env_scheme \<Rightarrow> address \<Rightarrow> u32 \<Rightarrow> jail_validator_receipt sc" where
  "jail_validator E validator_address block_number =
    bind_eff (expect_validator validator_address) (\<lambda>validator.
    let old_jailed_from = v_jailed_from validator;
        newly_deactivated = is_active validator;
        next_election_block = election_block_after (env_policy E) block_number;
        validator1 = (if newly_deactivated then validator \<lparr> v_inactive_from := Some next_election_block \<rparr> else validator)
    in seq_eff (when_eff newly_deactivated
         (bind_eff (active_remove validator_address) (\<lambda>removed.
          bind_eff (expect removed) (\<lambda>_. ret ()))))
    (seq_eff (put_validator validator_address (validator1 \<lparr> v_jailed_from := Some block_number \<rparr>))
    (seq_eff (push_log (Log_JailValidator validator_address block_number (old_jailed_from = None)))
    (seq_eff (when_eff newly_deactivated (push_log (Log_DeactivateValidator validator_address next_election_block)))
    (ret \<lparr> jvr_newly_deactivated = newly_deactivated, jvr_old_jailed_from = old_jailed_from \<rparr>)))))"

definition revert_jail_validator :: "address \<Rightarrow> jail_validator_receipt \<Rightarrow> unit sc" where
  "revert_jail_validator validator_address receipt =
    bind_eff (expect_validator validator_address) (\<lambda>validator.
    let inactive_from = v_inactive_from validator;
        validator1 = (if jvr_newly_deactivated receipt then validator \<lparr> v_inactive_from := None \<rparr> else validator)
    in seq_eff (when_eff (jvr_newly_deactivated receipt) (active_insert validator_address (v_total_stake validator1)))
    (bind_eff (expect (v_jailed_from validator1)) (\<lambda>jailed_from.
     seq_eff (put_validator validator_address (validator1 \<lparr> v_jailed_from := jvr_old_jailed_from receipt \<rparr>))
    (seq_eff (when_eff (jvr_newly_deactivated receipt)
       (bind_eff (expect inactive_from) (\<lambda>inactive_from. push_log (Log_DeactivateValidator validator_address inactive_from))))
    (push_log (Log_JailValidator validator_address jailed_from (jvr_old_jailed_from receipt = None)))))))"

definition reactivate_validator ::
  "'z env_scheme \<Rightarrow> address \<Rightarrow> address \<Rightarrow> u32 \<Rightarrow> reactivate_validator_receipt sc" where
  "reactivate_validator E validator_address signer block_number =
    bind_eff (expect_validator validator_address) (\<lambda>validator.
    seq_eff (fail_unless (\<not> is_active validator) InvalidForRecipient)
    (seq_eff (fail_unless (\<not> v_retired validator) InvalidForRecipient)
    (seq_eff (fail_unless (\<not> is_jailed (env_policy E) validator block_number) InvalidForRecipient)
    (seq_eff (fail_unless (\<not> signer \<noteq> addr_of_key E (v_signing_key validator)) InvalidSignature)
    (bind_eff (expect (v_inactive_from validator)) (\<lambda>was_inactive_from.
     seq_eff (active_insert validator_address (v_total_stake validator))
    (seq_eff (put_validator validator_address (validator \<lparr> v_inactive_from := None \<rparr>))
    (seq_eff (push_log (Log_ReactivateValidator validator_address))
    (ret \<lparr> rv_was_inactive_from = was_inactive_from \<rparr>)))))))))"

definition revert_reactivate_validator :: "address \<Rightarrow> reactivate_validator_receipt \<Rightarrow> unit sc" where
  "revert_reactivate_validator validator_address receipt =
    bind_eff (expect_validator validator_address) (\<lambda>validator.
    bind_eff (active_remove validator_address) (\<lambda>removed.
    bind_eff (expect removed) (\<lambda>_.
    seq_eff (put_validator validator_address (validator \<lparr> v_inactive_from := Some (rv_was_inactive_from receipt) \<rparr>))
    (push_log (Log_ReactivateValidator validator_address)))))"

definition retire_validator :: "'z env_scheme \<Rightarrow> address \<Rightarrow> u32 \<Rightarrow> retire_validator_receipt sc" where
  "retire_validator E validator_address block_number =
    bind_eff (expect_validator validator_address) (\<lambda>validator0.
    seq_eff (fail_unless (\<not> v_retired validator0) InvalidForRecipient)
    (let validator = validator0 \<lparr> v_retired := True \<rparr>;
         was_active = is_active validator;
         next_election_block = election_block_after (env_policy E) block_number
     in seq_eff (push_log (Log_RetireValidator validator_address))
    (seq_eff (when_eff was_active
       (bind_eff (active_remove validator_address) (\<lambda>removed.
        bind_eff (expect removed) (\<lambda>_. push_log (Log_DeactivateValidator validator_address next_election_block)))))
    (seq_eff (put_validator validator_address
       (if was_active then validator \<lparr> v_inactive_from := Some next_election_block \<rparr> else validator))
    (ret \<lparr> rt_was_active = was_active \<rparr>)))))"

definition revert_retire_validator :: "address \<Rightarrow> retire_validator_receipt \<Rightarrow> unit sc" where
  "revert_retire_validator validator_address receipt =
    bind_eff (expect_validator validator_address) (\<lambda>validator0.
    let validator = validator0 \<lparr> v_retired := False \<rparr>
    in seq_eff (when_eff (rt_was_active receipt)
        (bind_eff (expect (v_inactive_from validator)) (\<lambda>inactive_from.
         seq_eff (active_insert validator_address (v_total_stake validator))
        (push_log (Log_DeactivateValidator validator_address inactive_from)))))
    (seq_eff (push_log (Log_RetireValidator validator_address))
    (put_validator validator_address
       (if rt_was_active receipt then validator \<lparr> v_inactive_from := None \<rparr> else validator))))"

definition delete_validator :: "'z env_scheme \<Rightarrow> address \<Rightarrow> u32 \<Rightarrow> coin \<Rightarrow> delete_validator_receipt sc" where
  "delete_validator E validator_address block_number value =
    bind_eff (expect_validator validator_address) (\<lambda>validator.
    seq_eff (can_delete_validator (env_policy E) validator value block_number)
    (seq_eff (sub_balance (v_deposit validator))
    (seq_eff (when_eff (v_num_stakers validator > 0)
       (bind_eff (expect (coin_sub (v_total_stake validator) (v_deposit validator))) (\<lambda>remaining.
        put_tombstone validator_address
          \<lparr> t_remaining_stake = remaining, t_num_remaining_stakers = v_num_stakers validator \<rparr>)))
    (seq_eff (remove_validator validator_address)
    (seq_eff (push_log (Log_DeleteValidator validator_address (v_reward_address validator)))
    (bind_eff (expect (v_inactive_from validator)) (\<lambda>inactive_from.
     ret \<lparr> dv_signing_key = v_signing_key validator, dv_voting_key = v_voting_key validator,
       dv_reward_address = v_reward_address validator, dv_signal_data = v_signal_data validator,
       dv_inactive_from = inactive_from, dv_jailed_from = v_jailed_from validator \<rparr>)))))))"

definition revert_delete_validator :: "address \<Rightarrow> coin \<Rightarrow> delete_validator_receipt \<Rightarrow> unit sc" where
  "revert_delete_validator validator_address transaction_total_value receipt =
    seq_eff (add_balance transaction_total_value)
    (let validator0 = \<lparr> v_address = validator_address, v_signing_key = dv_signing_key receipt,
           v_voting_key = dv_voting_key receipt, v_reward_address = dv_reward_address receipt,
           v_signal_data = dv_signal_data receipt, v_total_stake = transaction_total_value,
           v_deposit = transaction_total_value, v_num_stakers = 0,
           v_inactive_from = Some (dv_inactive_from receipt), v_jailed_from = dv_jailed_from receipt,
           v_retired = True \<rparr>
     in bind_eff (get_tombstone validator_address) (\<lambda>tombstone.
        bind_eff (case tombstone of
            Some t \<Rightarrow>
              bind_eff (expect (coin_add (v_total_stake validator0) (t_remaining_stake t))) (\<lambda>total.
              seq_eff (remove_tombstone validator_address)
              (ret (validator0 \<lparr> v_total_stake := total,
                     v_num_stakers := v_num_stakers validator0 + t_num_remaining_stakers t \<rparr>)))
          | None \<Rightarrow> ret validator0) (\<lambda>validator.
        seq_eff (push_log (Log_DeleteValidator validator_address (v_reward_address validator)))
        (put_validator validator_address validator))))"

end
