(* ===== verification/StakingStaker.thy ===== *)
theory StakingStaker
  imports StakingValidator
begin

text \<open>
  The staker operations of the staking contract and their reverts, \<^verbatim>\<open>staking_contract/staker.rs\<close>,
  with the helpers that keep the validators' and tombstones' counters in step.
\<close>

section \<open>Staker\<close>

definition total_balance :: "staker \<Rightarrow> coin option" where
  "total_balance st = Option.bind (coin_add (s_active_balance st) (s_inactive_balance st))
     (\<lambda>c. coin_add c (s_retired_balance st))"

definition non_retired_balance :: "staker \<Rightarrow> coin option" where
  "non_retired_balance st = coin_add (s_active_balance st) (s_inactive_balance st)"

definition can_remove_stake :: "staker \<Rightarrow> coin \<Rightarrow> unit sc" where
  "can_remove_stake st value = fail_unless (\<not> value \<noteq> s_retired_balance st) InvalidCoinValue"

definition is_inactive_stake_released :: "policy \<Rightarrow> staker \<Rightarrow> u32 \<Rightarrow> bool sc" where
  "is_inactive_stake_released p st block_number =
    (case s_delegation st of
       Some validator_address \<Rightarrow>
         if (case s_inactive_from st of
               Some inactive_from \<Rightarrow> block_number < block_after_collateral_lockup p inactive_from
             | None \<Rightarrow> False)
         then ret False
         else bind_eff (get_validator validator_address) (\<lambda>v.
           case v of Some validator \<Rightarrow> ret (\<not> is_jailed p validator block_number) | None \<Rightarrow> ret True)
     | None \<Rightarrow> ret True)"

definition enforce_min_stake :: "coin \<Rightarrow> coin \<Rightarrow> coin \<Rightarrow> unit sc" where
  "enforce_min_stake active_balance inactive_balance retired_balance =
    bind_eff (expect (coin_add active_balance inactive_balance)) (\<lambda>non_retired.
    bind_eff (expect (from_u64_unchecked MINIMUM_STAKE)) (\<lambda>minimum.
    seq_eff (fail_unless (\<not> (non_retired > 0 \<and> non_retired < minimum)) InvalidCoinValue)
    (fail_unless (\<not> (non_retired = 0 \<and> retired_balance > 0 \<and> retired_balance < minimum)) InvalidCoinValue)))"

section \<open>Helpers on the delegation target\<close>

definition register_staker_on_validator :: "address \<Rightarrow> bool \<Rightarrow> unit sc" where
  "register_staker_on_validator validator_address can_create_tombstone =
    bind_eff (get_validator validator_address) (\<lambda>v.
    case v of
      Some validator \<Rightarrow> put_validator validator_address (validator \<lparr> v_num_stakers := v_num_stakers validator + 1 \<rparr>)
    | None \<Rightarrow> bind_eff (get_tombstone validator_address) (\<lambda>t.
        case t of
          Some tombstone \<Rightarrow> put_tombstone validator_address
            (tombstone \<lparr> t_num_remaining_stakers := t_num_remaining_stakers tombstone + 1 \<rparr>)
        | None \<Rightarrow>
            if can_create_tombstone
            then put_tombstone validator_address \<lparr> t_remaining_stake = 0, t_num_remaining_stakers = 1 \<rparr>
            else throw Panic))"

definition unregister_staker_from_validator :: "address \<Rightarrow> unit sc" where
  "unregister_staker_from_validator validator_address =
    bind_eff (get_validator validator_address) (\<lambda>v.
    case v of
      Some validator \<Rightarrow> put_validator validator_address (validator \<lparr> v_num_stakers := v_num_stakers validator - 1 \<rparr>)
    | None \<Rightarrow> bind_eff (get_tombstone validator_address) (\<lambda>t.
        case t of
          Some tombstone \<Rightarrow>
            let tombstone' = tombstone \<lparr> t_num_remaining_stakers := t_num_remaining_stakers tombstone - 1 \<rparr>
            in if t_num_remaining_stakers tombstone' = 0 then remove_tombstone validator_address
               else put_tombstone validator_address tombstone'
        | None \<Rightarrow> throw Panic))"

definition increase_stake_to_validator :: "address \<Rightarrow> coin \<Rightarrow> unit sc" where
  "increase_stake_to_validator validator_address value =
    bind_eff (get_validator validator_address) (\<lambda>v.
    case v of
      Some validator \<Rightarrow>
        bind_eff (expect (coin_add (v_total_stake validator) value)) (\<lambda>total.
        seq_eff (when_eff (is_active validator) (active_insert validator_address total))
        (put_validator validator_address (validator \<lparr> v_total_stake := total \<rparr>)))
    | None \<Rightarrow> bind_eff (get_tombstone validator_address) (\<lambda>t.
        case t of
          Some tombstone \<Rightarrow>
            bind_eff (expect (coin_add (t_remaining_stake tombstone) value)) (\<lambda>remaining.
            put_tombstone validator_address (tombstone \<lparr> t_remaining_stake := remaining \<rparr>))
        | None \<Rightarrow> throw Panic))"

definition decrease_stake_from_validator :: "address \<Rightarrow> coin \<Rightarrow> unit sc" where
  "decrease_stake_from_validator validator_address value =
    bind_eff (get_validator validator_address) (\<lambda>v.
    case v of
      Some validator \<Rightarrow>
        bind_eff (expect (coin_sub (v_total_stake validator) value)) (\<lambda>total.
        seq_eff (when_eff (is_active validator) (active_insert validator_address total))
        (put_validator validator_address (validator \<lparr> v_total_stake := total \<rparr>)))
    | None \<Rightarrow> bind_eff (get_tombstone validator_address) (\<lambda>t.
        case t of
          Some tombstone \<Rightarrow>
            bind_eff (expect (coin_sub (t_remaining_stake tombstone) value)) (\<lambda>remaining.
            put_tombstone validator_address (tombstone \<lparr> t_remaining_stake := remaining \<rparr>))
        | None \<Rightarrow> throw Panic))"

definition update_stake_for_validator :: "address \<Rightarrow> coin \<Rightarrow> coin \<Rightarrow> unit sc" where
  "update_stake_for_validator validator_address old_balance new_balance =
    (if new_balance < old_balance then
       bind_eff (expect (coin_sub old_balance new_balance)) (decrease_stake_from_validator validator_address)
     else if new_balance > old_balance then
       bind_eff (expect (coin_sub new_balance old_balance)) (increase_stake_to_validator validator_address)
     else ret ())"

section \<open>Operations\<close>

text \<open>\<open>if let Some(validator_address) = &delegation\<close>\<close>

definition on_delegation :: "address option \<Rightarrow> (address \<Rightarrow> unit sc) \<Rightarrow> unit sc" where
  "on_delegation d f = (case d of Some a \<Rightarrow> f a | None \<Rightarrow> ret ())"

definition create_staker ::
  "address \<Rightarrow> coin \<Rightarrow> address option \<Rightarrow> coin \<Rightarrow> u32 option \<Rightarrow> unit sc" where
  "create_staker staker_address value delegation inactive_balance inactive_from =
    bind_eff (get_staker staker_address) (\<lambda>existing.
    seq_eff (fail_unless (existing = None) (AlreadyExistentAddress staker_address))
    (seq_eff (fail_unless (\<not> ((inactive_balance = 0) \<noteq> (inactive_from = None))) InvalidForRecipient)
    (seq_eff (on_delegation delegation (\<lambda>a. bind_eff (expect_validator a) (\<lambda>_. ret ())))
    (let staker = \<lparr> s_address = staker_address, s_active_balance = value, s_inactive_balance = inactive_balance,
           s_inactive_from = inactive_from, s_retired_balance = 0, s_delegation = delegation \<rparr>
     in seq_eff (on_delegation (s_delegation staker) (\<lambda>validator_address.
          seq_eff (register_staker_on_validator validator_address False)
          (increase_stake_to_validator validator_address (s_active_balance staker))))
    (bind_eff (expect (coin_add value inactive_balance)) (\<lambda>sum.
     seq_eff (add_balance sum)
    (seq_eff (push_log (Log_CreateStaker staker_address (s_delegation staker) value))
    (put_staker staker_address staker))))))))"

definition revert_create_staker :: "address \<Rightarrow> coin \<Rightarrow> unit sc" where
  "revert_create_staker staker_address value =
    bind_eff (expect_staker staker_address) (\<lambda>staker.
    seq_eff (assert_that (value = s_active_balance staker))
    (bind_eff (expect (coin_add value (s_inactive_balance staker))) (\<lambda>sum.
     seq_eff (sub_balance sum)
    (seq_eff (on_delegation (s_delegation staker) (\<lambda>validator_address.
       seq_eff (decrease_stake_from_validator validator_address (s_active_balance staker))
       (unregister_staker_from_validator validator_address)))
    (seq_eff (remove_staker (s_address staker))
    (push_log (Log_CreateStaker staker_address (s_delegation staker) value)))))))"

definition add_stake :: "address \<Rightarrow> coin \<Rightarrow> unit sc" where
  "add_stake staker_address value =
    bind_eff (expect_staker staker_address) (\<lambda>staker.
    bind_eff (expect (coin_add (s_active_balance staker) value)) (\<lambda>new_active.
    seq_eff (enforce_min_stake new_active (s_inactive_balance staker) (s_retired_balance staker))
    (seq_eff (on_delegation (s_delegation staker) (\<lambda>validator_address.
       bind_eff (expect_validator validator_address) (\<lambda>_.
       increase_stake_to_validator validator_address value)))
    (seq_eff (add_balance value)
    (seq_eff (push_log (Log_Stake staker_address (s_delegation staker) value))
    (put_staker staker_address (staker \<lparr> s_active_balance := new_active \<rparr>)))))))"

definition revert_add_stake :: "address \<Rightarrow> coin \<Rightarrow> unit sc" where
  "revert_add_stake staker_address value =
    bind_eff (expect_staker staker_address) (\<lambda>staker.
    seq_eff (on_delegation (s_delegation staker) (\<lambda>validator_address.
       decrease_stake_from_validator validator_address value))
    (bind_eff (expect (coin_sub (s_active_balance staker) value)) (\<lambda>new_active.
     seq_eff (sub_balance value)
    (seq_eff (push_log (Log_Stake staker_address (s_delegation staker) value))
    (put_staker staker_address (staker \<lparr> s_active_balance := new_active \<rparr>))))))"

definition update_staker ::
  "'z env_scheme \<Rightarrow> address \<Rightarrow> address option \<Rightarrow> bool \<Rightarrow> u32 \<Rightarrow> staker_receipt sc" where
  "update_staker E staker_address new_delegation reactivate_all_stake block_number =
    bind_eff (expect_staker staker_address) (\<lambda>staker0.
    seq_eff (on_delegation new_delegation (\<lambda>a. bind_eff (expect_validator a) (\<lambda>_. ret ())))
    (seq_eff (when_eff (s_delegation staker0 \<noteq> None)
       (seq_eff (fail_unless (s_active_balance staker0 = 0) InvalidForRecipient)
       (bind_eff (is_inactive_stake_released (env_policy E) staker0 block_number) (\<lambda>released.
        fail_unless released InvalidForRecipient))))
    (let receipt = \<lparr> sr_delegation = s_delegation staker0, sr_active_balance = s_active_balance staker0,
           sr_inactive_from = s_inactive_from staker0 \<rparr>;
         old_validator_address = s_delegation staker0
     in seq_eff (on_delegation (s_delegation staker0) unregister_staker_from_validator)
    (let staker1 = staker0 \<lparr> s_delegation := new_delegation \<rparr>
     in bind_eff (if reactivate_all_stake
          then bind_eff (expect (coin_add (s_active_balance staker1) (s_inactive_balance staker1))) (\<lambda>active.
            ret (staker1 \<lparr> s_active_balance := active, s_inactive_balance := 0, s_inactive_from := None \<rparr>))
          else ret staker1) (\<lambda>staker.
     seq_eff (on_delegation (s_delegation staker) (\<lambda>validator_address.
       seq_eff (register_staker_on_validator validator_address False)
       (when_eff (s_active_balance staker \<noteq> 0)
         (increase_stake_to_validator validator_address (s_active_balance staker)))))
    (seq_eff (push_log (Log_UpdateStaker staker_address old_validator_address (s_delegation staker)
       (s_active_balance staker) (s_inactive_from staker)))
    (seq_eff (put_staker staker_address staker)
    (ret receipt))))))))"

definition revert_update_staker :: "address \<Rightarrow> staker_receipt \<Rightarrow> unit sc" where
  "revert_update_staker staker_address receipt =
    bind_eff (expect_staker staker_address) (\<lambda>staker0.
    seq_eff (on_delegation (s_delegation staker0) (\<lambda>validator_address.
      seq_eff (when_eff (s_active_balance staker0 \<noteq> 0)
        (decrease_stake_from_validator validator_address (s_active_balance staker0)))
      (unregister_staker_from_validator validator_address)))
    (seq_eff (push_log (Log_UpdateStaker staker_address (sr_delegation receipt) (s_delegation staker0)
       (s_active_balance staker0) (s_inactive_from staker0)))
    (let staker = staker0 \<lparr> s_delegation := sr_delegation receipt \<rparr>
     in seq_eff (on_delegation (s_delegation staker) (\<lambda>validator_address.
          register_staker_on_validator validator_address True))
    (bind_eff (expect (non_retired_balance staker)) (\<lambda>non_retired.
     bind_eff (expect (coin_sub non_retired (sr_active_balance receipt))) (\<lambda>inactive.
     put_staker staker_address (staker \<lparr> s_active_balance := sr_active_balance receipt,
       s_inactive_balance := inactive, s_inactive_from := sr_inactive_from receipt \<rparr>)))))))"

definition set_active_stake ::
  "'z env_scheme \<Rightarrow> address \<Rightarrow> coin \<Rightarrow> u32 \<Rightarrow> set_active_stake_receipt sc" where
  "set_active_stake E staker_address new_active_balance block_number =
    bind_eff (expect_staker staker_address) (\<lambda>staker0.
    bind_eff (expect (non_retired_balance staker0)) (\<lambda>non_retired.
    seq_eff (fail_unless (\<not> non_retired < new_active_balance) (InsufficientFunds new_active_balance non_retired))
    (let old_inactive_from = s_inactive_from staker0;
         old_active_balance = s_active_balance staker0
     in bind_eff (expect (coin_sub non_retired new_active_balance)) (\<lambda>new_inactive_balance.
     let staker = staker0 \<lparr> s_active_balance := new_active_balance, s_inactive_balance := new_inactive_balance,
           s_inactive_from := (if new_inactive_balance = 0 then None
             else Some (election_block_after (env_policy E) block_number)) \<rparr>
     in seq_eff (on_delegation (s_delegation staker) (\<lambda>validator_address.
          update_stake_for_validator validator_address old_active_balance new_active_balance))
    (seq_eff (push_log (Log_SetActiveStake staker_address (s_delegation staker) new_active_balance
       new_inactive_balance (s_inactive_from staker)))
    (seq_eff (put_staker staker_address staker)
    (ret \<lparr> sa_old_inactive_from = old_inactive_from, sa_old_active_balance = old_active_balance \<rparr>)))))))"

definition revert_set_active_stake :: "address \<Rightarrow> coin \<Rightarrow> set_active_stake_receipt \<Rightarrow> unit sc" where
  "revert_set_active_stake staker_address value receipt =
    bind_eff (expect_staker staker_address) (\<lambda>staker0.
    bind_eff (expect (non_retired_balance staker0)) (\<lambda>non_retired.
    let old_inactive_from = s_inactive_from staker0;
        old_inactive_balance = s_inactive_balance staker0
    in bind_eff (expect (coin_sub non_retired (sa_old_active_balance receipt))) (\<lambda>inactive.
    let staker = staker0 \<lparr> s_inactive_from := sa_old_inactive_from receipt,
          s_active_balance := sa_old_active_balance receipt, s_inactive_balance := inactive \<rparr>
    in seq_eff (on_delegation (s_delegation staker) (\<lambda>validator_address.
         update_stake_for_validator validator_address value (s_active_balance staker)))
    (seq_eff (push_log (Log_SetActiveStake staker_address (s_delegation staker) value
       old_inactive_balance old_inactive_from))
    (put_staker staker_address staker)))))"

definition retire_stake ::
  "'z env_scheme \<Rightarrow> address \<Rightarrow> coin \<Rightarrow> u32 \<Rightarrow> retire_stake_receipt sc" where
  "retire_stake E staker_address amount block_number =
    bind_eff (expect_staker staker_address) (\<lambda>staker0.
    seq_eff (fail_unless (\<not> s_inactive_balance staker0 < amount) (InsufficientFunds amount (s_inactive_balance staker0)))
    (bind_eff (expect (coin_sub (s_inactive_balance staker0) amount)) (\<lambda>new_inactive_balance.
     bind_eff (expect (coin_add (s_retired_balance staker0) amount)) (\<lambda>new_retired_balance.
     seq_eff (enforce_min_stake (s_active_balance staker0) new_inactive_balance new_retired_balance)
    (bind_eff (is_inactive_stake_released (env_policy E) staker0 block_number) (\<lambda>released.
     seq_eff (fail_unless released InvalidForRecipient)
    (let old_inactive_from = s_inactive_from staker0;
         staker1 = staker0 \<lparr> s_inactive_balance := new_inactive_balance, s_retired_balance := new_retired_balance \<rparr>;
         staker = (if s_inactive_balance staker1 = 0 then staker1 \<lparr> s_inactive_from := None \<rparr> else staker1)
     in seq_eff (push_log (Log_RetireStake staker_address (s_delegation staker) (s_inactive_balance staker)
          (s_inactive_from staker) (s_retired_balance staker)))
    (seq_eff (put_staker staker_address staker)
    (ret \<lparr> rs_old_inactive_from = old_inactive_from \<rparr>)))))))))"

definition revert_retire_stake :: "address \<Rightarrow> coin \<Rightarrow> retire_stake_receipt \<Rightarrow> unit sc" where
  "revert_retire_stake staker_address amount receipt =
    bind_eff (expect_staker staker_address) (\<lambda>staker0.
    let old_retire_balance = s_retired_balance staker0;
        old_inactive_balance = s_inactive_balance staker0;
        old_inactive_from = s_inactive_from staker0
    in bind_eff (expect (coin_sub (s_retired_balance staker0) amount)) (\<lambda>retired.
    bind_eff (expect (coin_add (s_inactive_balance staker0) amount)) (\<lambda>inactive.
    seq_eff (push_log (Log_RetireStake staker_address (s_delegation staker0) old_inactive_balance
       old_inactive_from old_retire_balance))
    (put_staker staker_address (staker0 \<lparr> s_retired_balance := retired, s_inactive_balance := inactive,
       s_inactive_from := rs_old_inactive_from receipt \<rparr>)))))"

definition remove_stake :: "address \<Rightarrow> coin \<Rightarrow> delete_staker_receipt option sc" where
  "remove_stake staker_address value =
    bind_eff (expect_staker staker_address) (\<lambda>staker0.
    seq_eff (fail_unless (\<not> value > s_retired_balance staker0) (InsufficientFunds value (s_retired_balance staker0)))
    (bind_eff (expect (coin_sub (s_retired_balance staker0) value)) (\<lambda>new_retired_balance.
     seq_eff (enforce_min_stake (s_active_balance staker0) (s_inactive_balance staker0) new_retired_balance)
    (let staker = staker0 \<lparr> s_retired_balance := new_retired_balance \<rparr>
     in seq_eff (sub_balance value)
    (seq_eff (push_log (Log_RemoveStake staker_address (s_delegation staker) value))
    (bind_eff (expect (total_balance staker)) (\<lambda>total.
     if total = 0 then
       seq_eff (on_delegation (s_delegation staker) unregister_staker_from_validator)
       (seq_eff (remove_staker staker_address)
       (seq_eff (push_log (Log_DeleteStaker staker_address (s_delegation staker)))
       (ret (Some \<lparr> ds_delegation = s_delegation staker \<rparr>))))
     else seq_eff (put_staker staker_address staker) (ret None))))))))"

definition revert_remove_stake :: "address \<Rightarrow> coin \<Rightarrow> delete_staker_receipt option \<Rightarrow> unit sc" where
  "revert_remove_stake staker_address value receipt =
    bind_eff (case receipt of
        Some r \<Rightarrow>
          seq_eff (on_delegation (ds_delegation r) (\<lambda>validator_address.
            register_staker_on_validator validator_address True))
          (seq_eff (push_log (Log_DeleteStaker staker_address (ds_delegation r)))
          (ret \<lparr> s_address = staker_address, s_active_balance = 0, s_inactive_balance = 0,
             s_inactive_from = None, s_retired_balance = value, s_delegation = ds_delegation r \<rparr>))
      | None \<Rightarrow>
          bind_eff (expect_staker staker_address) (\<lambda>staker.
          bind_eff (expect (coin_add (s_retired_balance staker) value)) (\<lambda>retired.
          ret (staker \<lparr> s_retired_balance := retired \<rparr>)))) (\<lambda>staker.
    seq_eff (add_balance value)
    (seq_eff (push_log (Log_RemoveStake staker_address (s_delegation staker) value))
    (put_staker staker_address staker)))"

end
