(* ===== verification/StakingContract.thy ===== *)
theory StakingContract
  imports StakingTransaction StakingStaker
begin

text \<open>
  The staking contract as an account: the transactions and inherents it commits and reverts
  (\<^verbatim>\<open>staking_contract/traits.rs\<close>) and the operations on the whole set of validators
  (\<^verbatim>\<open>staking_contract/mod.rs\<close>). The log of the state is the log of the transaction, or of the
  inherents of the block; a handler that gives a fresh log to an operation is modelled so.
\<close>

section \<open>Logs\<close>

text \<open>An operation run with a fresh transaction log, which is appended when it succeeds.\<close>

definition with_tx_logger :: "'a sc \<Rightarrow> 'a sc" where
  "with_tx_logger m s =
    (case m (s \<lparr> tx_log := [] \<rparr>) of
       (Inl e, s') \<Rightarrow> (Inl e, s' \<lparr> tx_log := tx_log s \<rparr>)
     | (Inr a, s') \<Rightarrow> (Inr a, s' \<lparr> tx_log := tx_log s @ tx_log s' \<rparr>))"

text \<open>An operation run with a log that is thrown away.\<close>

definition with_empty_logger :: "'a sc \<Rightarrow> 'a sc" where
  "with_empty_logger m s = (case m (s \<lparr> tx_log := [] \<rparr>) of (r, s') \<Rightarrow> (r, s' \<lparr> tx_log := tx_log s \<rparr>))"

definition put_punished :: "punished_slots \<Rightarrow> unit sc" where
  "put_punished ps = modify (\<lambda>s. s \<lparr> punished := ps \<rparr>)"

section \<open>Receipts\<close>

text \<open>\<open>receipt.into()\<close>, \<open>receipt.ok_or(InvalidReceipt)?.try_into()?\<close> and \<open>receipt.try_into()?\<close>\<close>

definition into_receipt :: "('r, 'x) codec \<Rightarrow> 'x sc \<Rightarrow> 'r option sc" where
  "into_receipt c m = bind_eff m (\<lambda>x. ret (Some (serialize_to_vec c x)))"

definition no_receipt :: "unit sc \<Rightarrow> 'r option sc" where
  "no_receipt m = seq_eff m (ret None)"

definition try_into_receipt :: "('r, 'x) codec \<Rightarrow> 'r \<Rightarrow> 'x sc" where
  "try_into_receipt c r = of_result (map_sum InvalidSerialization id (deserialize_from_vec c r))"

definition expect_receipt :: "('r, 'x) codec \<Rightarrow> 'r option \<Rightarrow> 'x sc" where
  "expect_receipt c r = bind_eff (some_or (AccountErr InvalidReceipt) r) (try_into_receipt c)"

section \<open>Transactions\<close>

definition parse_incoming_tx :: "('r, 'z) sc_env_scheme \<Rightarrow> transaction \<Rightarrow> incoming_staking_data sc" where
  "parse_incoming_tx E tx = of_result (map_sum InvalidTransaction id (parse_incoming E tx))"

definition parse_outgoing_tx :: "('r, 'z) sc_env_scheme \<Rightarrow> transaction \<Rightarrow> (outgoing_staking_data \<times> signature_proof) sc" where
  "parse_outgoing_tx E tx =
    bind_eff (of_result (map_sum InvalidTransaction id (parse_outgoing E tx))) (\<lambda>data.
    bind_eff (of_result (map_sum InvalidSerialization id (deserialize_proof E (tx_proof tx)))) (\<lambda>proof.
    ret (data, proof)))"

fun incoming_op :: "('r, 'z) sc_env_scheme \<Rightarrow> transaction \<Rightarrow> block_state \<Rightarrow> incoming_staking_data \<Rightarrow> 'r option sc" where
  "incoming_op E tx bs (CreateValidator signing_key voting_key reward_address signal_data _ proof) =
    no_receipt (create_validator E (compute_signer E proof) signing_key voting_key reward_address signal_data
      (tx_value tx) None None False (bs_number bs))"
| "incoming_op E tx bs (UpdateValidator new_signing_key new_voting_key new_reward_address new_signal_data _ proof) =
    into_receipt (update_validator_codec E) (update_validator (compute_signer E proof)
      new_signing_key new_voting_key new_reward_address new_signal_data)"
| "incoming_op E tx bs (DeactivateValidator validator_address proof) =
    no_receipt (deactivate_validator E validator_address (compute_signer E proof) (bs_number bs))"
| "incoming_op E tx bs (ReactivateValidator validator_address proof) =
    into_receipt (reactivate_validator_codec E)
      (reactivate_validator E validator_address (compute_signer E proof) (bs_number bs))"
| "incoming_op E tx bs (RetireValidator proof) =
    into_receipt (retire_validator_codec E) (retire_validator E (compute_signer E proof) (bs_number bs))"
| "incoming_op E tx bs (CreateStaker delegation proof) =
    no_receipt (create_staker (compute_signer E proof) (tx_value tx) delegation 0 None)"
| "incoming_op E tx bs (AddStake staker_address) = no_receipt (add_stake staker_address (tx_value tx))"
| "incoming_op E tx bs (UpdateStaker new_delegation reactivate_all_stake proof) =
    into_receipt (staker_codec E)
      (update_staker E (compute_signer E proof) new_delegation reactivate_all_stake (bs_number bs))"
| "incoming_op E tx bs (SetActiveStake new_active_balance proof) =
    into_receipt (set_active_stake_codec E)
      (set_active_stake E (compute_signer E proof) new_active_balance (bs_number bs))"
| "incoming_op E tx bs (RetireStake amount proof) =
    into_receipt (retire_stake_codec E) (retire_stake E (compute_signer E proof) amount (bs_number bs))"
| "incoming_op E tx bs (SetSignalData validator_address update proof) =
    into_receipt (set_signal_data_codec E) (set_signal_data E validator_address (compute_signer E proof) update)"

definition sc_commit_incoming ::
  "('r, 'z) sc_env_scheme \<Rightarrow> transaction \<Rightarrow> block_state \<Rightarrow> 'r option sc" where
  "sc_commit_incoming E tx bs = bind_eff (parse_incoming_tx E tx) (incoming_op E tx bs)"

fun revert_incoming_op :: "('r, 'z) sc_env_scheme \<Rightarrow> transaction \<Rightarrow> 'r option \<Rightarrow> incoming_staking_data \<Rightarrow> unit sc" where
  "revert_incoming_op E tx receipt (CreateValidator _ _ _ _ _ proof) =
    revert_create_validator (compute_signer E proof) (tx_value tx)"
| "revert_incoming_op E tx receipt (UpdateValidator _ _ _ _ _ proof) =
    bind_eff (expect_receipt (update_validator_codec E) receipt) (revert_update_validator (compute_signer E proof))"
| "revert_incoming_op E tx receipt (DeactivateValidator validator_address _) =
    revert_deactivate_validator validator_address"
| "revert_incoming_op E tx receipt (ReactivateValidator validator_address _) =
    bind_eff (expect_receipt (reactivate_validator_codec E) receipt) (revert_reactivate_validator validator_address)"
| "revert_incoming_op E tx receipt (RetireValidator proof) =
    bind_eff (expect_receipt (retire_validator_codec E) receipt) (revert_retire_validator (compute_signer E proof))"
| "revert_incoming_op E tx receipt (CreateStaker _ proof) =
    revert_create_staker (compute_signer E proof) (tx_value tx)"
| "revert_incoming_op E tx receipt (AddStake staker_address) = revert_add_stake staker_address (tx_value tx)"
| "revert_incoming_op E tx receipt (UpdateStaker _ _ proof) =
    bind_eff (expect_receipt (staker_codec E) receipt) (revert_update_staker (compute_signer E proof))"
| "revert_incoming_op E tx receipt (SetActiveStake new_active_balance proof) =
    bind_eff (expect_receipt (set_active_stake_codec E) receipt)
      (revert_set_active_stake (compute_signer E proof) new_active_balance)"
| "revert_incoming_op E tx receipt (RetireStake amount proof) =
    bind_eff (expect_receipt (retire_stake_codec E) receipt) (revert_retire_stake (compute_signer E proof) amount)"
| "revert_incoming_op E tx receipt (SetSignalData validator_address _ _) =
    bind_eff (expect_receipt (set_signal_data_codec E) receipt) (revert_set_signal_data validator_address)"

definition sc_revert_incoming :: "('r, 'z) sc_env_scheme \<Rightarrow> transaction \<Rightarrow> 'r option \<Rightarrow> unit sc" where
  "sc_revert_incoming E tx receipt = bind_eff (parse_incoming_tx E tx) (revert_incoming_op E tx receipt)"

definition sc_commit_outgoing ::
  "('r, 'z) sc_env_scheme \<Rightarrow> transaction \<Rightarrow> block_state \<Rightarrow> 'r option sc" where
  "sc_commit_outgoing E tx bs =
    bind_eff (parse_outgoing_tx E tx) (\<lambda>(data, proof).
    seq_eff (push_log (pay_fee_log tx))
    (seq_eff (push_log (transfer_log tx))
    (case data of
       DeleteValidator \<Rightarrow>
         into_receipt (delete_validator_codec E)
           (delete_validator E (compute_signer E proof) (bs_number bs) (total_value tx))
     | RemoveStake \<Rightarrow>
         bind_eff (expect_staker (compute_signer E proof)) (\<lambda>staker.
         seq_eff (can_remove_stake staker (total_value tx))
         (bind_eff (remove_stake (compute_signer E proof) (total_value tx)) (\<lambda>receipt.
          ret (map_option (serialize_to_vec (delete_staker_codec E)) receipt)))))))"

text \<open>\<open>if let Some(receipt) = receipt { Some(receipt.try_into()?) } else { None }\<close>\<close>

definition optional_receipt :: "('r, 'x) codec \<Rightarrow> 'r option \<Rightarrow> 'x option sc" where
  "optional_receipt c receipt = (case receipt of
     Some r \<Rightarrow> bind_eff (try_into_receipt c r) (\<lambda>x. ret (Some x))
   | None \<Rightarrow> ret None)"

text \<open>The two logs at the end are pushed also when the operation itself fails.\<close>

definition finally_eff :: "unit sc \<Rightarrow> unit sc \<Rightarrow> unit sc" where
  "finally_eff m n s = (case m s of (r, s1) \<Rightarrow> (case n s1 of (Inl e, s2) \<Rightarrow> (Inl e, s2) | (Inr _, s2) \<Rightarrow> (r, s2)))"

definition sc_revert_outgoing :: "('r, 'z) sc_env_scheme \<Rightarrow> transaction \<Rightarrow> 'r option \<Rightarrow> unit sc" where
  "sc_revert_outgoing E tx receipt =
    bind_eff (parse_outgoing_tx E tx) (\<lambda>(data, proof).
    let logs = seq_eff (push_log (transfer_log tx)) (push_log (pay_fee_log tx)) in
    case data of
      DeleteValidator \<Rightarrow>
        bind_eff (expect_receipt (delete_validator_codec E) receipt) (\<lambda>receipt.
        finally_eff (revert_delete_validator (compute_signer E proof) (total_value tx) receipt) logs)
    | RemoveStake \<Rightarrow>
        bind_eff (optional_receipt (delete_staker_codec E) receipt) (\<lambda>receipt.
        finally_eff (revert_remove_stake (compute_signer E proof) (total_value tx) receipt) logs))"

definition sc_commit_failed ::
  "('r, 'z) sc_env_scheme \<Rightarrow> transaction \<Rightarrow> block_state \<Rightarrow> 'r option sc" where
  "sc_commit_failed E tx bs =
    bind_eff (parse_outgoing_tx E tx) (\<lambda>(data, proof).
    seq_eff (push_log (pay_fee_log tx))
    (case data of
       DeleteValidator \<Rightarrow>
         let validator_address = compute_signer E proof in
         bind_eff (expect_validator validator_address) (\<lambda>validator.
         bind_eff (of_result (map_sum from_coin_underflow id (safe_sub (v_deposit validator) (tx_fee tx)))) (\<lambda>new_deposit.
         seq_eff (enforce_retire_and_release (env_policy E) validator (bs_number bs))
         (seq_eff (push_log (Log_ValidatorFeeDeduction validator_address (tx_fee tx)))
         (if new_deposit = 0 then
            into_receipt (delete_validator_codec E)
              (delete_validator E validator_address (bs_number bs) (tx_fee tx))
          else
            bind_eff (of_result (map_sum from_coin_underflow id (safe_sub (v_total_stake validator) (tx_fee tx)))) (\<lambda>total.
            seq_eff (sub_balance (tx_fee tx))
            (seq_eff (put_validator validator_address
               (validator \<lparr> v_deposit := new_deposit, v_total_stake := total \<rparr>))
            (ret None)))))))
     | RemoveStake \<Rightarrow>
         let staker_address = compute_signer E proof in
         bind_eff (with_empty_logger (remove_stake staker_address (tx_fee tx))) (\<lambda>receipt.
         seq_eff (push_log (Log_StakerFeeDeduction staker_address (tx_fee tx)))
         (seq_eff (case receipt of
             Some r \<Rightarrow> push_log (Log_DeleteStaker staker_address (ds_delegation r))
           | None \<Rightarrow> ret ())
         (ret (map_option (serialize_to_vec (delete_staker_codec E)) receipt))))))"

definition sc_revert_failed :: "('r, 'z) sc_env_scheme \<Rightarrow> transaction \<Rightarrow> 'r option \<Rightarrow> unit sc" where
  "sc_revert_failed E tx receipt =
    bind_eff (parse_outgoing_tx E tx) (\<lambda>(data, proof).
    seq_eff (case data of
       DeleteValidator \<Rightarrow>
         let validator_address = compute_signer E proof in
         seq_eff (push_log (Log_ValidatorFeeDeduction validator_address (tx_fee tx)))
         (bind_eff (bind_eff (get_validator validator_address) (\<lambda>v.
            case v of
              Some validator \<Rightarrow> ret validator
            | None \<Rightarrow> (case receipt of
                Some r \<Rightarrow>
                  bind_eff (try_into_receipt (delete_validator_codec E) r) (\<lambda>r.
                  seq_eff (revert_delete_validator validator_address 0 r)
                  (bind_eff (get_validator validator_address) expect))
              | None \<Rightarrow> throw (AccountErr InvalidReceipt)))) (\<lambda>validator.
         bind_eff (expect (coin_add (v_deposit validator) (tx_fee tx))) (\<lambda>deposit.
         bind_eff (expect (coin_add (v_total_stake validator) (tx_fee tx))) (\<lambda>total.
         seq_eff (add_balance (tx_fee tx))
         (put_validator validator_address (validator \<lparr> v_deposit := deposit, v_total_stake := total \<rparr>))))))
     | RemoveStake \<Rightarrow>
         let staker_address = compute_signer E proof in
         bind_eff (optional_receipt (delete_staker_codec E) receipt) (\<lambda>receipt.
         seq_eff (case receipt of
             Some r \<Rightarrow> push_log (Log_DeleteStaker staker_address (ds_delegation r))
           | None \<Rightarrow> ret ())
         (seq_eff (with_empty_logger (revert_remove_stake staker_address (tx_fee tx) receipt))
         (push_log (Log_StakerFeeDeduction staker_address (tx_fee tx))))))
    (push_log (pay_fee_log tx)))"

section \<open>Inherents\<close>

definition deactivate_unsupporting_validators ::
  "('r, 'z) sc_env_scheme \<Rightarrow> (blake2b_hash option \<Rightarrow> bool) \<Rightarrow> u32 \<Rightarrow> unit sc" where
  "deactivate_unsupporting_validators E support_check block_number =
    bind_eff (gets (\<lambda>s. sorted_list_of_fset (fmdom (active_validators s)))) (\<lambda>keys.
    bind_eff (map_eff (\<lambda>validator_address.
      bind_eff (get_validator validator_address) (\<lambda>v.
      bind_eff (expect v) (\<lambda>validator.
      ret (if \<not> support_check (v_signal_data validator)
           then [(v_address validator, addr_of_key E (v_signing_key validator))] else [])))) keys) (\<lambda>found.
    for_eff (\<lambda>(validator_address, signer). deactivate_validator E validator_address signer (block_number - 1))
      (concat found)))"

fun sc_commit_inherent :: "('r, 'z) sc_env_scheme \<Rightarrow> block_state \<Rightarrow> inherent \<Rightarrow> 'r option sc" where
  "sc_commit_inherent E bs (Jail_Inherent jailed_validator new_epoch_slot_range) =
    bind_eff (with_tx_logger (jail_validator E (jv_validator_address jailed_validator) (bs_number bs))) (\<lambda>receipt.
    bind_eff (gets punished) (\<lambda>ps.
    bind_eff (expect (register_jail (env_policy E) ps jailed_validator (bs_number bs) new_epoch_slot_range))
      (\<lambda>((old_previous, old_current), ps').
    seq_eff (put_punished ps')
    (ret (Some (serialize_to_vec (jail_codec E)
      \<lparr> jr_newly_deactivated = jvr_newly_deactivated receipt, jr_old_previous_batch_punished_slots = old_previous,
        jr_old_current_batch_punished_slots = old_current, jr_old_jailed_from = jvr_old_jailed_from receipt \<rparr>))))))"
| "sc_commit_inherent E bs (Penalize slot) =
    bind_eff (expect_validator (ps_validator_address slot)) (\<lambda>validator.
    let newly_deactivated = is_active validator in
    seq_eff (when_eff newly_deactivated
      (with_tx_logger (deactivate_validator E (ps_validator_address slot) (addr_of_key E (v_signing_key validator))
        (bs_number bs))))
    (bind_eff (gets punished) (\<lambda>ps.
     case register_penalty (env_policy E) ps slot (bs_number bs) of
       ((newly_previous, newly_current), ps') \<Rightarrow>
         seq_eff (put_punished ps')
         (seq_eff (push_log (Log_Penalize (ps_validator_address slot) (ps_offense_event_block slot) (ps_slot slot)
            newly_deactivated))
         (ret (Some (serialize_to_vec (penalize_codec E)
           \<lparr> pr_newly_deactivated = newly_deactivated, pr_newly_punished_previous_batch = newly_previous,
             pr_newly_punished_current_batch = newly_current \<rparr>)))))))"
| "sc_commit_inherent E bs FinalizeBatch =
    bind_eff (gets (\<lambda>s. finalize_batch (env_policy E) (punished s) (bs_number bs) (active_validators s))) (\<lambda>r.
    bind_eff (expect r) (\<lambda>ps. seq_eff (put_punished ps) (ret None)))"
| "sc_commit_inherent E bs FinalizeEpoch = ret None"
| "sc_commit_inherent E bs (Reward _ _ _) = throw (AccountErr InvalidForTarget)"
| "sc_commit_inherent E bs (VersionUpgrade new_version) =
    seq_eff (with_tx_logger (deactivate_unsupporting_validators E (\<lambda>data. supports_upgrade data new_version) (bs_number bs)))
    (ret None)"

fun sc_revert_inherent :: "('r, 'z) sc_env_scheme \<Rightarrow> 'r option \<Rightarrow> inherent \<Rightarrow> unit sc" where
  "sc_revert_inherent E receipt (Jail_Inherent jailed_validator _) =
    bind_eff (expect_receipt (jail_codec E) receipt) (\<lambda>receipt.
    bind_eff (gets punished) (\<lambda>ps.
    seq_eff (put_punished (revert_register_jail ps jailed_validator
      (jr_old_previous_batch_punished_slots receipt) (jr_old_current_batch_punished_slots receipt)))
    (with_tx_logger (revert_jail_validator (jv_validator_address jailed_validator) (jail_validator_receipt_from receipt)))))"
| "sc_revert_inherent E receipt (Penalize slot) =
    bind_eff (expect_receipt (penalize_codec E) receipt) (\<lambda>receipt.
    bind_eff (gets punished) (\<lambda>ps.
    bind_eff (expect (revert_register_penalty ps slot (pr_newly_punished_previous_batch receipt)
      (pr_newly_punished_current_batch receipt))) (\<lambda>ps'.
    seq_eff (put_punished ps')
    (seq_eff (push_log (Log_Penalize (ps_validator_address slot) (ps_offense_event_block slot) (ps_slot slot)
      (pr_newly_deactivated receipt)))
    (when_eff (pr_newly_deactivated receipt)
      (with_tx_logger (revert_deactivate_validator (ps_validator_address slot))))))))"
| "sc_revert_inherent E receipt _ = throw (AccountErr InvalidForTarget)"

section \<open>The active stake\<close>

definition get_active_stake :: "staking_state \<Rightarrow> coin option" where
  "get_active_stake s = coin_sum (map (\<lambda>a. the (fmlookup (active_validators s) a))
     (sorted_list_of_fset (fmdom (active_validators s))))"

definition get_supporting_stake :: "(blake2b_hash option \<Rightarrow> bool) \<Rightarrow> staking_state \<Rightarrow> coin option" where
  "get_supporting_stake support_check s =
    (let keys = sorted_list_of_fset (fmdom (active_validators s)) in
     if list_all (\<lambda>a. fmlookup (validators s) a \<noteq> None) keys
     then coin_sum (map (\<lambda>a. the (fmlookup (active_validators s) a))
       (filter (\<lambda>a. support_check (v_signal_data (the (fmlookup (validators s) a)))) keys))
     else None)"

end
