(* ===== verification/StakingInvariant.thy ===== *)
theory StakingInvariant
  imports StakingStaker
begin

text \<open>
  The consistency of the staking contract. The ledger invariant \<open>sc_inv\<close> says that the contract's
  balance is the sum of the validators' deposits and the stakers' balances, that every counter a
  validator or a tombstone caches is the sum over the stakers that delegate to it, and that the
  list of active validators is the one the validators determine. Each operation is described once
  by its outcome on a consistent state: it either fails with an account error and leaves the state
  as it was, or succeeds with a described effect on a state that is consistent again; a panic is
  excluded.
\<close>

section \<open>The ledger\<close>

definition s_total :: "staker \<Rightarrow> nat" where
  "s_total st = s_active_balance st + s_inactive_balance st + s_retired_balance st"

definition stake_of :: "(address, staker) fmap \<Rightarrow> address \<Rightarrow> nat" where
  "stake_of m a = fsum (\<lambda>st. if s_delegation st = Some a then s_active_balance st else 0) m"

definition count_of :: "(address, staker) fmap \<Rightarrow> address \<Rightarrow> nat" where
  "count_of m a = fsum (\<lambda>st. if s_delegation st = Some a then 1 else 0) m"

definition target_ok :: "staking_state \<Rightarrow> address \<Rightarrow> nat \<Rightarrow> nat \<Rightarrow> bool" where
  "target_ok s a stake n =
    (case fmlookup (validators s) a of
       Some v \<Rightarrow> v_address v = a \<and> v_total_stake v = v_deposit v + stake \<and> v_num_stakers v = of_nat n \<and>
         fmlookup (tombstones s) a = None \<and>
         fmlookup (active_validators s) a = (if is_active v then Some (v_total_stake v) else None)
     | None \<Rightarrow> fmlookup (active_validators s) a = None \<and>
         (case fmlookup (tombstones s) a of
            Some t \<Rightarrow> t_remaining_stake t = stake \<and> t_num_remaining_stakers t = of_nat n \<and> 0 < n
          | None \<Rightarrow> stake = 0 \<and> n = 0))"

definition targets :: "staking_state \<Rightarrow> (address \<Rightarrow> nat) \<Rightarrow> (address \<Rightarrow> nat) \<Rightarrow> bool" where
  "targets s stake n \<longleftrightarrow> (\<forall>a. target_ok s a (stake a) (n a))"

definition staker_ok :: "address \<Rightarrow> staker \<Rightarrow> bool" where
  "staker_ok k st \<longleftrightarrow> s_address st = k \<and>
     (s_active_balance st + s_inactive_balance st = 0 \<or> MINIMUM_STAKE \<le> s_active_balance st + s_inactive_balance st) \<and>
     MINIMUM_STAKE \<le> s_total st \<and>
     (s_inactive_from st = None \<longleftrightarrow> s_inactive_balance st = 0)"

definition stakers_ok :: "(address, staker) fmap \<Rightarrow> bool" where
  "stakers_ok m \<longleftrightarrow> (\<forall>k st. fmlookup m k = Some st \<longrightarrow> staker_ok k st)"

definition retired_ok :: "(address, validator) fmap \<Rightarrow> bool" where
  "retired_ok m \<longleftrightarrow> (\<forall>a v. fmlookup m a = Some v \<longrightarrow> v_retired v \<longrightarrow> v_inactive_from v \<noteq> None)"

definition sc_inv :: "staking_state \<Rightarrow> bool" where
  "sc_inv s \<longleftrightarrow> targets s (stake_of (stakers s)) (count_of (stakers s)) \<and>
     sc_balance s = fsum v_deposit (validators s) + fsum s_total (stakers s) \<and>
     sc_balance s \<le> MAX_SAFE_VALUE \<and> stakers_ok (stakers s) \<and> retired_ok (validators s)"

text \<open>
  The part of the state the operations decide; the counters, the tombstones and the active list are
  determined by it.
\<close>

definition vstat :: "validator \<Rightarrow> validator" where
  "vstat v = v \<lparr> v_total_stake := 0, v_num_stakers := 0 \<rparr>"

definition static :: "staking_state \<Rightarrow> coin \<times> (address, validator) fmap \<times> (address, staker) fmap \<times> punished_slots" where
  "static s = (sc_balance s, fmmap vstat (validators s), stakers s, punished s)"

lemma vstat_simps [simp]:
  "v_deposit (vstat v) = v_deposit v" "v_address (vstat v) = v_address v"
  "v_inactive_from (vstat v) = v_inactive_from v" "v_retired (vstat v) = v_retired v"
  "v_jailed_from (vstat v) = v_jailed_from v" "v_signing_key (vstat v) = v_signing_key v"
  "vstat (v \<lparr> v_total_stake := x \<rparr>) = vstat v" "vstat (v \<lparr> v_num_stakers := n \<rparr>) = vstat v"
  by (simp_all add: vstat_def)

lemma vstat_eqD:
  assumes "vstat v = vstat w"
  shows "v_deposit v = v_deposit w" "v_inactive_from v = v_inactive_from w" "v_retired v = v_retired w"
    "v_jailed_from v = v_jailed_from w" "v_address v = v_address w"
  using arg_cong [OF assms, of v_deposit] arg_cong [OF assms, of v_inactive_from]
    arg_cong [OF assms, of v_retired] arg_cong [OF assms, of v_jailed_from] arg_cong [OF assms, of v_address]
  by simp_all

lemma fmmap_vstat_upd:
  "fmlookup m a = Some v \<Longrightarrow> vstat v' = vstat v \<Longrightarrow> fmmap vstat (fmupd a v' m) = fmmap vstat m"
  by (rule fmap_ext) auto

lemma fsum_fmmap: "fsum f (fmmap g m) = fsum (\<lambda>v. f (g v)) m"
  unfolding fsum_def by (intro sum.cong) (auto simp: fmlookup_dom'_iff fmdom'_map)

lemma static_deposits: "fmmap vstat m = fmmap vstat m' \<Longrightarrow> fsum v_deposit m = fsum v_deposit m'"
  using fsum_fmmap [of v_deposit vstat m] fsum_fmmap [of v_deposit vstat m'] by simp

lemma static_at: "fmmap vstat m = fmmap vstat m' \<Longrightarrow> map_option vstat (fmlookup m a) = map_option vstat (fmlookup m' a)"
  by (metis fmlookup_map)

lemma static_lookup:
  assumes "fmmap vstat m = fmmap vstat m'" "fmlookup m a = Some v"
  shows "\<exists>v'. fmlookup m' a = Some v' \<and> vstat v' = vstat v"
  using static_at [OF assms(1), of a] assms(2) by (cases "fmlookup m' a") auto

lemma static_lookup_None:
  assumes "fmmap vstat m = fmmap vstat m'"
  shows "fmlookup m a = None \<longleftrightarrow> fmlookup m' a = None"
  using static_at [OF assms, of a] by (cases "fmlookup m' a"; cases "fmlookup m a") auto

lemma static_retired:
  assumes "fmmap vstat m = fmmap vstat m'" "retired_ok m"
  shows "retired_ok m'"
  unfolding retired_ok_def
proof (intro allI impI)
  fix a v
  assume v: "fmlookup m' a = Some v" "v_retired v"
  obtain w where w: "fmlookup m a = Some w" "vstat w = vstat v"
    using static_lookup [OF assms(1) [symmetric] v(1)] by blast
  then have "v_inactive_from w \<noteq> None" using assms(2) v(2) vstat_eqD(3) [OF w(2)] by (simp add: retired_ok_def)
  then show "v_inactive_from v \<noteq> None" using vstat_eqD(2) [OF w(2)] by simp
qed

lemma target_ok_cong:
  assumes "fmlookup (validators s) a = fmlookup (validators s') a"
    "fmlookup (tombstones s) a = fmlookup (tombstones s') a"
    "fmlookup (active_validators s) a = fmlookup (active_validators s') a"
  shows "target_ok s a x n = target_ok s' a x n"
  unfolding target_ok_def assms ..

lemma targets_cong:
  assumes "validators s = validators s'" "tombstones s = tombstones s'"
    "active_validators s = active_validators s'"
  shows "targets s x n = targets s' x n"
  unfolding targets_def target_ok_def assms ..

lemma targets_upd:
  assumes "targets s x n" and "target_ok s' a (x' a) (n' a)"
    and "\<And>b. b \<noteq> a \<Longrightarrow> fmlookup (validators s') b = fmlookup (validators s) b"
    and "\<And>b. b \<noteq> a \<Longrightarrow> fmlookup (tombstones s') b = fmlookup (tombstones s) b"
    and "\<And>b. b \<noteq> a \<Longrightarrow> fmlookup (active_validators s') b = fmlookup (active_validators s) b"
    and "\<And>b. b \<noteq> a \<Longrightarrow> x' b = x b" and "\<And>b. b \<noteq> a \<Longrightarrow> n' b = n b"
  shows "targets s' x' n'"
  unfolding targets_def
proof
  fix b
  show "target_ok s' b (x' b) (n' b)"
  proof (cases "b = a")
    case False
    then show ?thesis using assms(1,3-7) target_ok_cong [of s' b s] by (simp add: targets_def)
  qed (simp add: assms(2))
qed

text \<open>The static part of a consistent state determines the rest.\<close>

lemma targets_determined:
  assumes "targets s x n" "targets s' x n" "fmmap vstat (validators s) = fmmap vstat (validators s')"
  shows "validators s = validators s' \<and> tombstones s = tombstones s' \<and> active_validators s = active_validators s'"
proof -
  have "fmlookup (validators s) a = fmlookup (validators s') a \<and>
      fmlookup (tombstones s) a = fmlookup (tombstones s') a \<and>
      fmlookup (active_validators s) a = fmlookup (active_validators s') a" for a
  proof (cases "fmlookup (validators s) a")
    case None
    then have n': "fmlookup (validators s') a = None" using static_lookup_None [OF assms(3)] by simp
    have t: "target_ok s a (x a) (n a)" "target_ok s' a (x a) (n a)" using assms(1,2) by (simp_all add: targets_def)
    then have "fmlookup (tombstones s) a = fmlookup (tombstones s') a"
      using None n' by (auto simp: target_ok_def split: option.splits) 
    then show ?thesis using t None n' by (simp add: target_ok_def)
  next
    case (Some v)
    then obtain w where w: "fmlookup (validators s') a = Some w" "vstat w = vstat v"
      using static_lookup [OF assms(3)] by blast
    have t: "target_ok s a (x a) (n a)" "target_ok s' a (x a) (n a)" using assms(1,2) by (simp_all add: targets_def)
    have "v_total_stake w = v_total_stake v" "v_num_stakers w = v_num_stakers v"
      using t Some w vstat_eqD(1) [OF w(2)] by (simp_all add: target_ok_def)
    then have "w = v" using w(2) by (cases v; cases w) (simp add: vstat_def)
    then show ?thesis using t Some w by (simp add: target_ok_def)
  qed
  then show ?thesis by (blast intro: fmap_ext)
qed

lemma state_determined:
  assumes "sc_inv s" "sc_inv s'" "static s = static s'" "tx_log s = tx_log s'"
  shows "s = s'"
proof -
  have "stakers s = stakers s'" using assms(3) by (simp add: static_def)
  then have "validators s = validators s' \<and> tombstones s = tombstones s' \<and> active_validators s = active_validators s'"
    using assms by (intro targets_determined) (auto simp: sc_inv_def static_def)
  then show ?thesis using assms(3,4) by (simp add: static_def)
qed

section \<open>The helpers on the delegation target\<close>

definition keeps :: "staking_state \<Rightarrow> staking_state \<Rightarrow> bool" where
  "keeps s s' \<longleftrightarrow> static s' = static s \<and> tx_log s' = tx_log s"

definition exists_target :: "staking_state \<Rightarrow> address \<Rightarrow> bool" where
  "exists_target s a \<longleftrightarrow> fmlookup (validators s) a \<noteq> None \<or> fmlookup (tombstones s) a \<noteq> None"

definition dep :: "staking_state \<Rightarrow> address \<Rightarrow> nat" where
  "dep s a = (case fmlookup (validators s) a of Some v \<Rightarrow> v_deposit v | None \<Rightarrow> 0)"

lemma keeps_refl [simp]: "keeps s s"
  by (simp add: keeps_def)

lemma keeps_trans: "keeps s s1 \<Longrightarrow> keeps s1 s2 \<Longrightarrow> keeps s s2"
  by (simp add: keeps_def)

lemma keeps_dep:
  assumes "keeps s s'"
  shows "dep s' a = dep s a"
proof -
  have e: "fmmap vstat (validators s') = fmmap vstat (validators s)" using assms by (simp add: keeps_def static_def)
  show ?thesis
    using static_at [OF e, of a]
    by (cases "fmlookup (validators s') a"; cases "fmlookup (validators s) a") (auto simp: dep_def dest: vstat_eqD(1))
qed

lemma keeps_validator:
  assumes "keeps s s'"
  shows "fmlookup (validators s') a = None \<longleftrightarrow> fmlookup (validators s) a = None"
  by (rule static_lookup_None) (use assms in \<open>simp add: keeps_def static_def\<close>)

lemma targets_exists: "targets s x n \<Longrightarrow> 0 < n a \<Longrightarrow> exists_target s a"
  unfolding targets_def target_ok_def exists_target_def
  by (metis (mono_tags, lifting) less_numeral_extra(3) option.case_eq_if)

lemma target_okD:
  assumes "targets s x n" "fmlookup (validators s) a = Some v"
  shows "v_address v = a" "v_total_stake v = v_deposit v + x a" "v_num_stakers v = of_nat (n a)"
    "fmlookup (tombstones s) a = None"
    "fmlookup (active_validators s) a = (if is_active v then Some (v_total_stake v) else None)"
  using assms(1) [unfolded targets_def, rule_format, of a] assms(2) by (simp_all add: target_ok_def)

lemma target_okD_tomb:
  assumes "targets s x n" "fmlookup (validators s) a = None" "fmlookup (tombstones s) a = Some t"
  shows "t_remaining_stake t = x a" "t_num_remaining_stakers t = of_nat (n a)" "0 < n a"
    "fmlookup (active_validators s) a = None"
  using assms(1) [unfolded targets_def, rule_format, of a] assms(2,3) by (simp_all add: target_ok_def)

lemma target_okD_none:
  assumes "targets s x n" "fmlookup (validators s) a = None" "fmlookup (tombstones s) a = None"
  shows "x a = 0" "n a = 0" "fmlookup (active_validators s) a = None"
  using assms(1) [unfolded targets_def, rule_format, of a] assms(2,3) by (simp_all add: target_ok_def)

lemma target_okD_novalidator:
  assumes "targets s x n" "fmlookup (validators s) a = None"
  shows "fmlookup (active_validators s) a = None"
  using assms(1) [unfolded targets_def, rule_format, of a] assms(2) by (simp add: target_ok_def)

lemma keeps_put_validator:
  "fmlookup (validators s) a = Some v \<Longrightarrow> vstat v' = vstat v \<Longrightarrow>
   keeps s (s \<lparr> validators := fmupd a v' (validators s) \<rparr>)"
  "fmlookup (validators s) a = Some v \<Longrightarrow> vstat v' = vstat v \<Longrightarrow>
   keeps s (s \<lparr> active_validators := A, validators := fmupd a v' (validators s) \<rparr>)"
  "keeps s (s \<lparr> tombstones := T \<rparr>)"
  by (simp_all add: keeps_def static_def fmmap_vstat_upd)

lemma register_spec:
  assumes "targets s x n" "exists_target s a \<or> b"
  shows "\<exists>s'. register_staker_on_validator a b s = (Inr (), s') \<and> targets s' x (n(a := n a + 1)) \<and> keeps s s'"
proof (cases "fmlookup (validators s) a")
  case (Some v)
  let ?s = "s \<lparr> validators := fmupd a (v \<lparr> v_num_stakers := v_num_stakers v + 1 \<rparr>) (validators s) \<rparr>"
  have "target_ok ?s a (x a) ((n(a := n a + 1)) a)"
    using target_okD [OF assms(1) Some] by (simp add: target_ok_def is_active_def)
  then have "targets ?s x (n(a := n a + 1))" by (rule targets_upd [OF assms(1)]) auto
  then show ?thesis
    using Some by (auto simp: register_staker_on_validator_def store_defs eff_simps intro!: keeps_put_validator)
next
  case None
  let ?t = "case fmlookup (tombstones s) a of
      Some t \<Rightarrow> t \<lparr> t_num_remaining_stakers := t_num_remaining_stakers t + 1 \<rparr>
    | None \<Rightarrow> \<lparr> t_remaining_stake = 0, t_num_remaining_stakers = 1 \<rparr>"
  let ?s = "s \<lparr> tombstones := fmupd a ?t (tombstones s) \<rparr>"
  have "target_ok ?s a (x a) ((n(a := n a + 1)) a)"
    using None target_okD_none [OF assms(1) None] target_okD_tomb [OF assms(1) None]
    by (cases "fmlookup (tombstones s) a") (auto simp: target_ok_def)
  then have "targets ?s x (n(a := n a + 1))" by (rule targets_upd [OF assms(1)]) auto
  then show ?thesis
    using None assms(2)
    by (cases "fmlookup (tombstones s) a")
      (auto simp: register_staker_on_validator_def store_defs eff_simps exists_target_def intro!: keeps_put_validator)
qed

lemma of_nat_u64_0: "n < 2 ^ 64 \<Longrightarrow> (of_nat n :: u64) = 0 \<longleftrightarrow> n = 0"
  by (auto simp: word_of_nat_eq_0_iff dest: dvd_imp_le)

lemma unregister_spec:
  assumes t: "targets s x n" and n: "0 < n a" "n a < 2 ^ 64" and z: "n a = 1 \<Longrightarrow> x a = 0"
  shows "\<exists>s'. unregister_staker_from_validator a s = (Inr (), s') \<and> targets s' x (n(a := n a - 1)) \<and> keeps s s'"
proof -
  have d: "(of_nat (n a) :: u64) - 1 = of_nat (n a - 1)" using n(1) by simp
  show ?thesis
  proof (cases "fmlookup (validators s) a")
    case (Some v)
    let ?s = "s \<lparr> validators := fmupd a (v \<lparr> v_num_stakers := v_num_stakers v - 1 \<rparr>) (validators s) \<rparr>"
    have "target_ok ?s a (x a) ((n(a := n a - 1)) a)"
      using target_okD [OF t Some] d by (simp add: target_ok_def is_active_def)
    then have "targets ?s x (n(a := n a - 1))" by (rule targets_upd [OF t]) auto
    then show ?thesis
      using Some by (auto simp: unregister_staker_from_validator_def store_defs eff_simps intro!: keeps_put_validator)
  next
    case None
    then obtain tb where tb: "fmlookup (tombstones s) a = Some tb"
      using targets_exists [OF t n(1)] by (auto simp: exists_target_def)
    note D = target_okD_tomb [OF t None tb]
    let ?tb = "tb \<lparr> t_num_remaining_stakers := t_num_remaining_stakers tb - 1 \<rparr>"
    let ?T = "if n a = 1 then fmdrop a (tombstones s) else fmupd a ?tb (tombstones s)"
    let ?s = "s \<lparr> tombstones := ?T \<rparr>"
    have "target_ok ?s a (x a) ((n(a := n a - 1)) a)"
      using None D d z n by (auto simp: target_ok_def)
    then have "targets ?s x (n(a := n a - 1))" by (rule targets_upd [OF t]) auto
    moreover have "t_num_remaining_stakers ?tb = 0 \<longleftrightarrow> n a = 1"
      using D(2) d n of_nat_u64_0 [of "n a - 1"] by auto
    ultimately show ?thesis
      using None tb
      by (auto simp: unregister_staker_from_validator_def store_defs eff_simps Let_def intro!: keeps_put_validator)
  qed
qed

lemma increase_spec:
  assumes t: "targets s x n" and e: "exists_target s a" and b: "dep s a + x a + c \<le> MAX_SAFE_VALUE"
  shows "\<exists>s'. increase_stake_to_validator a c s = (Inr (), s') \<and> targets s' (x(a := x a + c)) n \<and> keeps s s'"
proof (cases "fmlookup (validators s) a")
  case (Some v)
  note D = target_okD [OF t Some]
  let ?v = "v \<lparr> v_total_stake := v_total_stake v + c \<rparr>"
  let ?A = "if is_active v then fmupd a (v_total_stake v + c) (active_validators s) else active_validators s"
  let ?s = "s \<lparr> active_validators := ?A, validators := fmupd a ?v (validators s) \<rparr>"
  have "target_ok ?s a ((x(a := x a + c)) a) (n a)"
    using D by (simp add: target_ok_def is_active_def)
  then have "targets ?s (x(a := x a + c)) n" by (rule targets_upd [OF t]) auto
  moreover have "increase_stake_to_validator a c s = (Inr (), ?s)"
    using b D(1,2) Some
    by (cases "is_active v") (simp_all add: increase_stake_to_validator_def sc_inv_rules dep_def)
  moreover have "keeps s ?s" using Some by (auto intro: keeps_put_validator)
  ultimately show ?thesis by blast
next
  case None
  then obtain tb where tb: "fmlookup (tombstones s) a = Some tb" using e by (auto simp: exists_target_def)
  note D = target_okD_tomb [OF t None tb]
  let ?s = "s \<lparr> tombstones := fmupd a (tb \<lparr> t_remaining_stake := t_remaining_stake tb + c \<rparr>) (tombstones s) \<rparr>"
  have "target_ok ?s a ((x(a := x a + c)) a) (n a)"
    using D None by (simp add: target_ok_def)
  then have "targets ?s (x(a := x a + c)) n" by (rule targets_upd [OF t]) auto
  moreover have "increase_stake_to_validator a c s = (Inr (), ?s)"
    using b D(1,2) None tb by (simp add: increase_stake_to_validator_def sc_inv_rules dep_def)
  moreover have "keeps s ?s" by (rule keeps_put_validator)
  ultimately show ?thesis by blast
qed

lemma decrease_spec:
  assumes t: "targets s x n" and e: "exists_target s a" and c: "c \<le> x a" and b: "dep s a + x a \<le> MAX_SAFE_VALUE"
  shows "\<exists>s'. decrease_stake_from_validator a c s = (Inr (), s') \<and> targets s' (x(a := x a - c)) n \<and> keeps s s'"
proof (cases "fmlookup (validators s) a")
  case (Some v)
  note D = target_okD [OF t Some]
  let ?v = "v \<lparr> v_total_stake := v_total_stake v - c \<rparr>"
  let ?A = "if is_active v then fmupd a (v_total_stake v - c) (active_validators s) else active_validators s"
  let ?s = "s \<lparr> active_validators := ?A, validators := fmupd a ?v (validators s) \<rparr>"
  have "target_ok ?s a ((x(a := x a - c)) a) (n a)"
    using D c by (simp add: target_ok_def is_active_def)
  then have "targets ?s (x(a := x a - c)) n" by (rule targets_upd [OF t]) auto
  moreover have "decrease_stake_from_validator a c s = (Inr (), ?s)"
    using b c D(1,2) Some
    by (cases "is_active v") (simp_all add: decrease_stake_from_validator_def sc_inv_rules dep_def)
  moreover have "keeps s ?s" using Some by (auto intro: keeps_put_validator)
  ultimately show ?thesis by blast
next
  case None
  then obtain tb where tb: "fmlookup (tombstones s) a = Some tb" using e by (auto simp: exists_target_def)
  note D = target_okD_tomb [OF t None tb]
  let ?s = "s \<lparr> tombstones := fmupd a (tb \<lparr> t_remaining_stake := t_remaining_stake tb - c \<rparr>) (tombstones s) \<rparr>"
  have "target_ok ?s a ((x(a := x a - c)) a) (n a)"
    using D None by (simp add: target_ok_def)
  then have "targets ?s (x(a := x a - c)) n" by (rule targets_upd [OF t]) auto
  moreover have "decrease_stake_from_validator a c s = (Inr (), ?s)"
    using b c D(1,2) None tb by (simp add: decrease_stake_from_validator_def sc_inv_rules dep_def)
  moreover have "keeps s ?s" by (rule keeps_put_validator)
  ultimately show ?thesis by blast
qed

lemma update_spec:
  assumes t: "targets s x n" and e: "exists_target s a" and c: "old \<le> x a"
    and b: "dep s a + x a - old + new \<le> MAX_SAFE_VALUE" "dep s a + x a \<le> MAX_SAFE_VALUE"
  shows "\<exists>s'. update_stake_for_validator a old new s = (Inr (), s') \<and>
    targets s' (x(a := x a - old + new)) n \<and> keeps s s'"
proof (cases "new < old")
  case True
  have "x(a := x a - (old - new)) = x(a := x a - old + new)" using True c by auto
  moreover have "expect (coin_sub old new) s = (Inr (old - new), s)"
    using True c b by (simp add: store_Inr)
  ultimately show ?thesis
    using decrease_spec [OF t e, of "old - new"] True c b(2)
    by (simp add: update_stake_for_validator_def bind_eff_def)
next
  case ge: False
  show ?thesis
  proof (cases "old < new")
    case True
    have "x(a := x a + (new - old)) = x(a := x a - old + new)" using True c by auto
    moreover have "expect (coin_sub new old) s = (Inr (new - old), s)"
      using True c b by (simp add: store_Inr)
    ultimately show ?thesis
      using increase_spec [OF t e, of "new - old"] True c b(1)
      by (simp add: update_stake_for_validator_def bind_eff_def)
  next
    case False
    then have "x(a := x a - old + new) = x" using ge c by auto
    then show ?thesis using False ge t by (simp add: update_stake_for_validator_def eff_simps)
  qed
qed

section \<open>Sums over the stakers\<close>

definition add_at :: "(address \<Rightarrow> nat) \<Rightarrow> address option \<Rightarrow> nat \<Rightarrow> address \<Rightarrow> nat" where
  "add_at f d c = (case d of None \<Rightarrow> f | Some a \<Rightarrow> f(a := f a + c))"

definition sub_at :: "(address \<Rightarrow> nat) \<Rightarrow> address option \<Rightarrow> nat \<Rightarrow> address \<Rightarrow> nat" where
  "sub_at f d c = (case d of None \<Rightarrow> f | Some a \<Rightarrow> f(a := f a - c))"

lemma stake_of_new:
  "fmlookup m k = None \<Longrightarrow> stake_of (fmupd k st m) = add_at (stake_of m) (s_delegation st) (s_active_balance st)"
  by (rule ext) (auto simp: stake_of_def add_at_def split: option.splits)

lemma count_of_new:
  "fmlookup m k = None \<Longrightarrow> count_of (fmupd k st m) = add_at (count_of m) (s_delegation st) 1"
  by (rule ext) (auto simp: count_of_def add_at_def split: option.splits)

lemma stake_of_drop:
  assumes "fmlookup m k = Some st"
  shows "stake_of (fmdrop k m) = sub_at (stake_of m) (s_delegation st) (s_active_balance st)"
proof
  fix a
  show "stake_of (fmdrop k m) a = sub_at (stake_of m) (s_delegation st) (s_active_balance st) a"
    using fsum_drop [OF assms, of "\<lambda>st. if s_delegation st = Some a then s_active_balance st else 0"]
    by (auto simp: stake_of_def sub_at_def split: option.splits)
qed

lemma count_of_drop:
  assumes "fmlookup m k = Some st"
  shows "count_of (fmdrop k m) = sub_at (count_of m) (s_delegation st) 1"
proof
  fix a
  show "count_of (fmdrop k m) a = sub_at (count_of m) (s_delegation st) 1 a"
    using fsum_drop [OF assms, of "\<lambda>st. if s_delegation st = Some a then 1 else 0"]
    by (auto simp: count_of_def sub_at_def split: option.splits)
qed

lemma stake_of_member:
  "fmlookup m k = Some st \<Longrightarrow> s_delegation st = Some a \<Longrightarrow> s_active_balance st \<le> stake_of m a"
  unfolding stake_of_def
  using fsum_member [of m k st "\<lambda>st. if s_delegation st = Some a then s_active_balance st else 0"] by simp

lemma count_of_member:
  "fmlookup m k = Some st \<Longrightarrow> s_delegation st = Some a \<Longrightarrow> 0 < count_of m a"
  unfolding count_of_def
  using fsum_member [of m k st "\<lambda>st. if s_delegation st = Some a then 1 else 0"] by simp

lemma count_of_zero: "count_of m a = 0 \<Longrightarrow> stake_of m a = 0"
  unfolding count_of_def stake_of_def by (auto simp: fsum_zero_iff split: if_splits)

lemma count_of_one:
  assumes "fmlookup m k = Some st" "s_delegation st = Some a" "count_of m a = 1"
  shows "stake_of m a = s_active_balance st"
proof -
  have "count_of (fmdrop k m) a = 0" using count_of_drop [OF assms(1)] assms(2,3) by (simp add: sub_at_def)
  then have "stake_of (fmdrop k m) a = 0" by (rule count_of_zero)
  then show ?thesis
    using stake_of_drop [OF assms(1)] stake_of_member [OF assms(1,2)] assms(2) by (simp add: sub_at_def)
qed

lemma sc_invD:
  assumes "sc_inv s"
  shows "targets s (stake_of (stakers s)) (count_of (stakers s))"
    "dep s a + fsum s_total (stakers s) \<le> sc_balance s" "sc_balance s \<le> MAX_SAFE_VALUE"
    "stake_of (stakers s) a \<le> fsum s_total (stakers s)" "count_of (stakers s) a \<le> fsum s_total (stakers s)"
    "count_of (stakers s) a < 2 ^ 64"
proof -
  show "targets s (stake_of (stakers s)) (count_of (stakers s))" "sc_balance s \<le> MAX_SAFE_VALUE"
    using assms by (simp_all add: sc_inv_def)
  show d: "dep s a + fsum s_total (stakers s) \<le> sc_balance s"
    using assms fsum_member [of "validators s" a _ v_deposit] by (auto simp: sc_inv_def dep_def split: option.splits)
  show "stake_of (stakers s) a \<le> fsum s_total (stakers s)"
    unfolding stake_of_def by (rule fsum_mono) (simp add: s_total_def)
  have pos: "1 \<le> s_total st" if "fmlookup (stakers s) k = Some st" for k st
  proof -
    have "MINIMUM_STAKE \<le> s_total st" using assms that by (simp add: sc_inv_def stakers_ok_def staker_ok_def)
    then show ?thesis by (simp add: MINIMUM_STAKE_def)
  qed
  show c: "count_of (stakers s) a \<le> fsum s_total (stakers s)"
    unfolding count_of_def using pos by (intro fsum_mono) auto
  then show "count_of (stakers s) a < 2 ^ 64"
    using d assms by (simp add: sc_inv_def MAX_SAFE_VALUE_def)
qed

lemma sc_inv_staker:
  assumes "sc_inv s" "fmlookup (stakers s) k = Some st"
  shows "staker_ok k st" "s_total st \<le> fsum s_total (stakers s)" "s_total st \<le> MAX_SAFE_VALUE"
  using assms fsum_member [OF assms(2), of s_total] sc_invD(2) [OF assms(1), of k]
    sc_invD(3) [OF assms(1)]
  by (auto simp: sc_inv_def stakers_ok_def)

lemma sc_inv_after:
  assumes "sc_inv s" "keeps s s1" "targets s1 (stake_of (stakers s2)) (count_of (stakers s2))"
    and "stakers_ok (stakers s2)" "fsum s_total (stakers s2) + sc_balance s = sc_balance s2 + fsum s_total (stakers s)"
    and "sc_balance s2 \<le> MAX_SAFE_VALUE"
    and "validators s2 = validators s1" "tombstones s2 = tombstones s1" "active_validators s2 = active_validators s1"
  shows "sc_inv s2"
proof -
  have e: "fmmap vstat (validators s) = fmmap vstat (validators s1)" using assms(2) by (simp add: keeps_def static_def)
  have "fsum v_deposit (validators s2) = fsum v_deposit (validators s)"
    using static_deposits [OF e] assms(7) by simp
  moreover have "retired_ok (validators s2)" using static_retired [OF e] assms(1,7) by (simp add: sc_inv_def)
  moreover have "targets s2 (stake_of (stakers s2)) (count_of (stakers s2))"
    using assms(3) targets_cong [OF assms(7-9)] by simp
  ultimately show ?thesis using assms(1,4-6) by (simp add: sc_inv_def)
qed

section \<open>Outcomes\<close>

definition outcome :: "(error + 'a) \<times> staking_state \<Rightarrow> staking_state \<Rightarrow> ('a \<Rightarrow> staking_state \<Rightarrow> bool) \<Rightarrow> bool" where
  "outcome r s Q = (case fst r of
     Inl (AccountErr e) \<Rightarrow> snd r = s
   | Inl Panic \<Rightarrow> False
   | Inr a \<Rightarrow> Q a (snd r))"

lemma outcome_Inr: "outcome (Inr a, s') s Q = Q a s'"
  by (simp add: outcome_def)

lemma outcome_run: "m s1 = (Inr a, s2) \<Longrightarrow> outcome (bind_eff m f s1) s Q = outcome (f a s2) s Q"
  "m' s1 = (Inr (), s2) \<Longrightarrow> outcome (seq_eff m' n s1) s Q = outcome (n s2) s Q"
  by (simp_all add: bind_eff_def seq_eff_def)

lemma outcome_fails: "m s = (Inl (AccountErr e), s) \<Longrightarrow> outcome (bind_eff m f s) s Q"
  by (simp add: outcome_def bind_eff_def)

lemma outcome_checks:
  "outcome (seq_eff (fail_unless b e) n s) s Q \<longleftrightarrow> (b \<longrightarrow> outcome (n s) s Q)"
  "outcome (fail_unless b e s) s R \<longleftrightarrow> (b \<longrightarrow> R () s)"
  "outcome (bind_eff (expect_validator a) f s) s Q \<longleftrightarrow>
     (\<forall>v. fmlookup (validators s) a = Some v \<longrightarrow> outcome (f v s) s Q)"
  "outcome (bind_eff (expect_staker a) g s) s Q \<longleftrightarrow>
     (\<forall>st. fmlookup (stakers s) a = Some st \<longrightarrow> outcome (g st s) s Q)"
proof -
  have f: "fail_unless b e s = (if b then (Inr (), s) else (Inl (AccountErr e), s))"
    by (simp add: fail_unless_def eff_simps)
  show "outcome (seq_eff (fail_unless b e) n s) s Q \<longleftrightarrow> (b \<longrightarrow> outcome (n s) s Q)"
  proof (cases b)
    case True
    then show ?thesis using outcome_run(2) [of "fail_unless b e" s s] f by simp
  next
    case False
    then show ?thesis using outcome_fails [of "fail_unless b e" s e] f by (simp add: seq_eff_def)
  qed
  show "outcome (fail_unless b e s) s R \<longleftrightarrow> (b \<longrightarrow> R () s)"
    by (simp add: outcome_def f)
  show "outcome (bind_eff (expect_validator a) f s) s Q \<longleftrightarrow>
     (\<forall>v. fmlookup (validators s) a = Some v \<longrightarrow> outcome (f v s) s Q)"
  proof (cases "fmlookup (validators s) a")
    case None
    then have "expect_validator a s = (Inl (AccountErr (NonExistentAddress a)), s)" by (simp add: expect_validator_Inl)
    then show ?thesis using None outcome_fails by simp
  next
    case (Some v)
    then have "expect_validator a s = (Inr v, s)" by (simp add: expect_validator_Inr)
    then show ?thesis using Some by (simp add: outcome_run)
  qed
  show "outcome (bind_eff (expect_staker a) g s) s Q \<longleftrightarrow>
     (\<forall>st. fmlookup (stakers s) a = Some st \<longrightarrow> outcome (g st s) s Q)"
  proof (cases "fmlookup (stakers s) a")
    case None
    then have "expect_staker a s = (Inl (AccountErr (NonExistentAddress a)), s)" by (simp add: expect_staker_Inl)
    then show ?thesis using None outcome_fails by simp
  next
    case (Some v)
    then have "expect_staker a s = (Inr v, s)" by (simp add: expect_staker_Inr)
    then show ?thesis using Some by (simp add: outcome_run)
  qed
qed

lemma outcome_panics:
  "outcome (bind_eff (expect x) f s1) s Q \<longleftrightarrow> (\<exists>y. x = Some y \<and> outcome (f y s1) s Q)"
  "outcome (seq_eff (assert_that b) n s1) s Q \<longleftrightarrow> b \<and> outcome (n s1) s Q"
  "outcome (seq_eff (add_balance c) n s1) s Q \<longleftrightarrow>
     sc_balance s1 + c \<le> MAX_SAFE_VALUE \<and> outcome (n (s1 \<lparr> sc_balance := sc_balance s1 + c \<rparr>)) s Q"
  "outcome (seq_eff (sub_balance c) n s1) s Q \<longleftrightarrow>
     c \<le> sc_balance s1 \<and> sc_balance s1 - c \<le> MAX_SAFE_VALUE \<and>
     outcome (n (s1 \<lparr> sc_balance := sc_balance s1 - c \<rparr>)) s Q"
proof -
  show "outcome (bind_eff (expect x) f s1) s Q \<longleftrightarrow> (\<exists>y. x = Some y \<and> outcome (f y s1) s Q)"
    by (cases x) (simp_all add: outcome_def bind_eff_def expect_def eff_simps)
  show "outcome (seq_eff (assert_that b) n s1) s Q \<longleftrightarrow> b \<and> outcome (n s1) s Q"
    by (cases b) (simp_all add: outcome_def seq_eff_def bind_eff_def assert_that_def eff_simps)
  show "outcome (seq_eff (add_balance c) n s1) s Q \<longleftrightarrow>
     sc_balance s1 + c \<le> MAX_SAFE_VALUE \<and> outcome (n (s1 \<lparr> sc_balance := sc_balance s1 + c \<rparr>)) s Q"
  proof (cases "sc_balance s1 + c \<le> MAX_SAFE_VALUE")
    case True
    then have "add_balance c s1 = (Inr (), s1 \<lparr> sc_balance := sc_balance s1 + c \<rparr>)" by (simp add: add_balance_Inr)
    then show ?thesis using True by (simp add: outcome_run)
  next
    case False
    then have "add_balance c s1 = (Inl Panic, s1)" by (simp add: add_balance_Inl)
    then show ?thesis using False by (simp add: outcome_def seq_eff_def bind_eff_def)
  qed
  show "outcome (seq_eff (sub_balance c) n s1) s Q \<longleftrightarrow>
     c \<le> sc_balance s1 \<and> sc_balance s1 - c \<le> MAX_SAFE_VALUE \<and>
     outcome (n (s1 \<lparr> sc_balance := sc_balance s1 - c \<rparr>)) s Q"
  proof (cases "c \<le> sc_balance s1 \<and> sc_balance s1 - c \<le> MAX_SAFE_VALUE")
    case True
    then have "sub_balance c s1 = (Inr (), s1 \<lparr> sc_balance := sc_balance s1 - c \<rparr>)" by (simp add: sub_balance_Inr)
    then show ?thesis using True by (simp add: outcome_run)
  next
    case False
    then have "sub_balance c s1 = (Inl Panic, s1)" by (simp add: sub_balance_Inl)
    then show ?thesis using False by (auto simp: outcome_def seq_eff_def bind_eff_def)
  qed
qed

lemma outcome_steps:
  "outcome (bind_eff (get_validator a) f1 s1) s Q = outcome (f1 (fmlookup (validators s1) a) s1) s Q"
  "outcome (bind_eff (get_staker a) f2 s1) s Q = outcome (f2 (fmlookup (stakers s1) a) s1) s Q"
  "outcome (bind_eff (get_tombstone a) f3 s1) s Q = outcome (f3 (fmlookup (tombstones s1) a) s1) s Q"
  "outcome (seq_eff (put_validator a v) n s1) s Q = outcome (n (s1 \<lparr> validators := fmupd a v (validators s1) \<rparr>)) s Q"
  "outcome (seq_eff (remove_validator a) n s1) s Q = outcome (n (s1 \<lparr> validators := fmdrop a (validators s1) \<rparr>)) s Q"
  "outcome (seq_eff (put_staker a st) n s1) s Q = outcome (n (s1 \<lparr> stakers := fmupd a st (stakers s1) \<rparr>)) s Q"
  "outcome (seq_eff (remove_staker a) n s1) s Q = outcome (n (s1 \<lparr> stakers := fmdrop a (stakers s1) \<rparr>)) s Q"
  "outcome (seq_eff (put_tombstone a t) n s1) s Q = outcome (n (s1 \<lparr> tombstones := fmupd a t (tombstones s1) \<rparr>)) s Q"
  "outcome (seq_eff (remove_tombstone a) n s1) s Q = outcome (n (s1 \<lparr> tombstones := fmdrop a (tombstones s1) \<rparr>)) s Q"
  "outcome (seq_eff (push_log l) n s1) s Q = outcome (n (s1 \<lparr> tx_log := tx_log s1 @ [l] \<rparr>)) s Q"
  "outcome (seq_eff (active_insert a c) n s1) s Q =
     outcome (n (s1 \<lparr> active_validators := fmupd a c (active_validators s1) \<rparr>)) s Q"
  "outcome (bind_eff (active_remove a) f4 s1) s Q =
     outcome (f4 (fmlookup (active_validators s1) a)
       (s1 \<lparr> active_validators := fmdrop a (active_validators s1) \<rparr>)) s Q"
  by (rule outcome_run, simp add: store_Inr active_remove_Inr)+

lemma seq_eff_assoc:
  "seq_eff (bind_eff k h) n = bind_eff k (\<lambda>x. seq_eff (h x) n)"
  "seq_eff (seq_eff m m') n = seq_eff m (seq_eff m' n)"
  "bind_eff (bind_eff k h) g = bind_eff k (\<lambda>x. bind_eff (h x) g)"
  by (rule ext, simp add: seq_eff_def bind_eff_def split: sum.splits prod.splits)+

lemma seq_eff_ret:
  "seq_eff (ret u) n = n" "bind_eff (ret y) f = f y" "seq_eff (when_eff b m) n = (if b then seq_eff m n else n)"
proof -
  show r: "seq_eff (ret u) n = n" by (rule ext) (simp add: seq_eff_def bind_eff_def ret_def)
  show "bind_eff (ret y) f = f y" by (rule ext) (simp add: bind_eff_def ret_def)
  show "seq_eff (when_eff b m) n = (if b then seq_eff m n else n)" using r by (simp add: when_eff_def)
qed

lemma outcome_ends:
  "outcome (ret x s1) s P = P x s1"
  "outcome (put_validator a v s1) s R = R () (s1 \<lparr> validators := fmupd a v (validators s1) \<rparr>)"
  "outcome (put_staker a st s1) s R = R () (s1 \<lparr> stakers := fmupd a st (stakers s1) \<rparr>)"
  "outcome (push_log l s1) s R = R () (s1 \<lparr> tx_log := tx_log s1 @ [l] \<rparr>)"
  "outcome (bind_eff (ret y) f s1) s P = outcome (f y s1) s P"
  "outcome (seq_eff (when_eff b m) n s1) s P = outcome (if b then seq_eff m n s1 else n s1) s P"
  "outcome (seq_eff (bind_eff k h) n s1) s P = outcome (bind_eff k (\<lambda>x. seq_eff (h x) n) s1) s P"
  "outcome (seq_eff (seq_eff m m') n s1) s P = outcome (seq_eff m (seq_eff m' n) s1) s P"
  "outcome (seq_eff (ret u) n s1) s P = outcome (n s1) s P"
  by (simp_all add: seq_eff_assoc seq_eff_ret) (simp_all add: outcome_def store_defs eff_simps)

lemmas outcome_simps = outcome_checks outcome_panics outcome_steps outcome_ends

end
