(* ===== verification/StakingSpec.thy ===== *)
theory StakingSpec
  imports StakingInvariant
begin

text \<open>
  The outcome of every operation of the staking contract on a consistent state. The validator
  operations are described by the state they produce, the staker operations by the part of the
  state that determines it.
\<close>

section \<open>Validators\<close>

lemma sc_inv_validator:
  assumes "sc_inv s" "fmlookup (validators s) a = Some v"
    and "validators s' = fmupd a v' (validators s)"
    and "v_address v' = v_address v" "v_total_stake v' = v_total_stake v" "v_num_stakers v' = v_num_stakers v"
    and "v_deposit v' = v_deposit v" "v_retired v' \<longrightarrow> v_inactive_from v' \<noteq> None"
    and "active_validators s' = (if is_active v' then fmupd a (v_total_stake v) (active_validators s)
           else fmdrop a (active_validators s))"
    and "stakers s' = stakers s" "tombstones s' = tombstones s" "sc_balance s' = sc_balance s"
  shows "sc_inv s'"
proof -
  note t = sc_invD(1) [OF assms(1)]
  have "target_ok s' a (stake_of (stakers s) a) (count_of (stakers s) a)"
    using target_okD [OF t assms(2)] assms by (simp add: target_ok_def)
  then have "targets s' (stake_of (stakers s)) (count_of (stakers s))"
    by (rule targets_upd [OF t]) (use assms in auto)
  moreover have "fsum v_deposit (validators s') = fsum v_deposit (validators s)"
    using assms(2,3,7) by (simp add: fsum_upd_eq)
  moreover have "retired_ok (validators s')"
    using assms(1,3,8) by (auto simp: retired_ok_def sc_inv_def split: if_splits)
  ultimately show ?thesis using assms(1,10-12) by (simp add: sc_inv_def)
qed

lemma active_lookup:
  assumes "sc_inv s" "fmlookup (validators s) a = Some v"
  shows "fmlookup (active_validators s) a = (if is_active v then Some (v_total_stake v) else None)"
  using target_okD(5) [OF sc_invD(1) [OF assms(1)] assms(2)] .

lemma active_same:
  assumes "sc_inv s" "fmlookup (validators s) a = Some v"
  shows "active_validators s = (if is_active v then fmupd a (v_total_stake v) (active_validators s)
           else fmdrop a (active_validators s))"
  using active_lookup [OF assms] by (auto simp: fmupd_same fmdrop_absent)

lemma create_validator_spec:
  assumes inv: "sc_inv s" and bound: "sc_balance s + deposit \<le> MAX_SAFE_VALUE"
  shows "outcome (create_validator E a sk vk ra sd deposit ifr jf rtd bn s) s (\<lambda>_ s'.
    let v = \<lparr> v_address = a, v_signing_key = sk, v_voting_key = vk, v_reward_address = ra, v_signal_data = sd,
          v_total_stake = deposit, v_deposit = deposit, v_num_stakers = 0, v_inactive_from = ifr,
          v_jailed_from = jf, v_retired = rtd \<rparr>
    in sc_inv s' \<and> fmlookup (validators s) a = None \<and> fmlookup (tombstones s) a = None \<and>
      (rtd \<or> is_jailed (env_policy E) v bn \<longrightarrow> ifr \<noteq> None) \<and>
      s' = s \<lparr> sc_balance := sc_balance s + deposit,
        active_validators := (if ifr = None then fmupd a deposit (active_validators s) else active_validators s),
        tx_log := tx_log s @ [Log_CreateValidator a ra],
        validators := fmupd a v (validators s) \<rparr>)"
proof -
  let ?v = "\<lparr> v_address = a, v_signing_key = sk, v_voting_key = vk, v_reward_address = ra, v_signal_data = sd,
      v_total_stake = deposit, v_deposit = deposit, v_num_stakers = 0, v_inactive_from = ifr,
      v_jailed_from = jf, v_retired = rtd \<rparr>"
  let ?s = "s \<lparr> sc_balance := sc_balance s + deposit,
        active_validators := (if ifr = None then fmupd a deposit (active_validators s) else active_validators s),
        tx_log := tx_log s @ [Log_CreateValidator a ra], validators := fmupd a ?v (validators s) \<rparr>"
  have "sc_inv ?s" if n: "fmlookup (validators s) a = None" "fmlookup (tombstones s) a = None"
    and r: "rtd \<longrightarrow> ifr \<noteq> None"
  proof -
    note t = sc_invD(1) [OF inv]
    note D = target_okD_none [OF t n]
    have "target_ok ?s a (stake_of (stakers s) a) (count_of (stakers s) a)"
      using D n by (simp add: target_ok_def is_active_def)
    then have "targets ?s (stake_of (stakers s)) (count_of (stakers s))"
      by (rule targets_upd [OF t]) (simp_all split: if_splits)
    moreover have "retired_ok (validators ?s)"
      using inv r by (auto simp: retired_ok_def sc_inv_def split: if_splits)
    ultimately show ?thesis using inv n bound by (simp add: sc_inv_def)
  qed
  then show ?thesis
    using bound
    by (cases "ifr = None")
      (auto simp: create_validator_def outcome_simps Let_def is_active_def is_jailed_def split: option.splits)
qed

lemma sc_inv_details:
  assumes inv: "sc_inv s" and v: "fmlookup (validators s) a = Some v"
    and "validators s' = fmupd a v' (validators s)" "v_inactive_from v' = v_inactive_from v"
    and "v_address v' = v_address v" "v_total_stake v' = v_total_stake v" "v_num_stakers v' = v_num_stakers v"
    and "v_deposit v' = v_deposit v" "v_retired v' = v_retired v" "active_validators s' = active_validators s"
    and "stakers s' = stakers s" "tombstones s' = tombstones s" "sc_balance s' = sc_balance s"
  shows "sc_inv s'"
proof (rule sc_inv_validator [OF inv v assms(3)])
  show "active_validators s' = (if is_active v' then fmupd a (v_total_stake v) (active_validators s)
      else fmdrop a (active_validators s))"
    using active_same [OF inv v] assms(4,10) by (simp add: is_active_def)
  show "v_retired v' \<longrightarrow> v_inactive_from v' \<noteq> None"
    using inv v assms(4,9) by (simp add: sc_inv_def retired_ok_def)
qed (use assms in auto)

lemma validator_field_updates:
  "(case sk of Some x \<Rightarrow> v \<lparr> v_signing_key := x \<rparr> | None \<Rightarrow> v) =
     v \<lparr> v_signing_key := (case sk of Some x \<Rightarrow> x | None \<Rightarrow> v_signing_key v) \<rparr>"
  "(case vk of Some x \<Rightarrow> v \<lparr> v_voting_key := x \<rparr> | None \<Rightarrow> v) =
     v \<lparr> v_voting_key := (case vk of Some x \<Rightarrow> x | None \<Rightarrow> v_voting_key v) \<rparr>"
  "(case ra of Some x \<Rightarrow> v \<lparr> v_reward_address := x \<rparr> | None \<Rightarrow> v) =
     v \<lparr> v_reward_address := (case ra of Some x \<Rightarrow> x | None \<Rightarrow> v_reward_address v) \<rparr>"
  "(case sd of Some x \<Rightarrow> v \<lparr> v_signal_data := x \<rparr> | None \<Rightarrow> v) =
     v \<lparr> v_signal_data := (case sd of Some x \<Rightarrow> x | None \<Rightarrow> v_signal_data v) \<rparr>"
  by (simp_all split: option.splits)

lemma update_validator_spec:
  assumes inv: "sc_inv s"
  shows "outcome (update_validator a sk vk ra sd s) s (\<lambda>r s'. sc_inv s' \<and> (\<exists>v. fmlookup (validators s) a = Some v \<and>
    r = \<lparr> uv_old_signing_key = v_signing_key v, uv_old_voting_key = v_voting_key v,
      uv_old_reward_address = v_reward_address v, uv_old_signal_data = v_signal_data v \<rparr> \<and>
    s' = s \<lparr> tx_log := tx_log s @ [Log_UpdateValidator a (v_reward_address v)
        (Some (case ra of Some x \<Rightarrow> x | None \<Rightarrow> v_reward_address v))],
      validators := fmupd a (v \<lparr> v_signing_key := (case sk of Some x \<Rightarrow> x | None \<Rightarrow> v_signing_key v),
        v_voting_key := (case vk of Some x \<Rightarrow> x | None \<Rightarrow> v_voting_key v),
        v_reward_address := (case ra of Some x \<Rightarrow> x | None \<Rightarrow> v_reward_address v),
        v_signal_data := (case sd of Some x \<Rightarrow> x | None \<Rightarrow> v_signal_data v) \<rparr>) (validators s) \<rparr>))"
proof -
  have "sc_inv (s \<lparr> tx_log := l, validators := fmupd a (v \<lparr> v_signing_key := x1, v_voting_key := x2,
      v_reward_address := x3, v_signal_data := x4 \<rparr>) (validators s) \<rparr>)"
    if v: "fmlookup (validators s) a = Some v" for v l x1 x2 x3 x4
    by (rule sc_inv_details [OF inv v, where v' = "v \<lparr> v_signing_key := x1, v_voting_key := x2,
      v_reward_address := x3, v_signal_data := x4 \<rparr>"]) simp_all
  then show ?thesis
    by (simp add: update_validator_def outcome_simps Let_def validator_field_updates cong: option.case_cong)
qed

lemma set_signal_data_spec:
  assumes inv: "sc_inv s"
  shows "outcome (set_signal_data E a signer upd s) s (\<lambda>r s'. sc_inv s' \<and> (\<exists>v d. fmlookup (validators s) a = Some v \<and>
    signer = addr_of_key E (v_signing_key v) \<and> r = \<lparr> sd_old_signal_data = v_signal_data v \<rparr> \<and>
    d = (case upd of Full x \<Rightarrow> x | Version n \<Rightarrow> Some (signal_data_with_version (v_signal_data v) n)) \<and>
    s' = s \<lparr> tx_log := tx_log s @ [Log_SetSignalData a d],
      validators := fmupd a (v \<lparr> v_signal_data := d \<rparr>) (validators s) \<rparr>))"
proof -
  have "sc_inv (s \<lparr> tx_log := l, validators := fmupd a (v \<lparr> v_signal_data := d \<rparr>) (validators s) \<rparr>)"
    if v: "fmlookup (validators s) a = Some v" for v l d
    by (rule sc_inv_details [OF inv v, where v' = "v \<lparr> v_signal_data := d \<rparr>"]) simp_all
  then show ?thesis by (simp add: set_signal_data_def outcome_simps Let_def)
qed

lemma sc_inv_deactivate:
  assumes inv: "sc_inv s" and v: "fmlookup (validators s) a = Some v"
    and "validators s' = fmupd a v' (validators s)" "v_inactive_from v' \<noteq> None"
    and "v_address v' = v_address v" "v_total_stake v' = v_total_stake v" "v_num_stakers v' = v_num_stakers v"
    and "v_deposit v' = v_deposit v" "active_validators s' = fmdrop a (active_validators s)"
    and "stakers s' = stakers s" "tombstones s' = tombstones s" "sc_balance s' = sc_balance s"
  shows "sc_inv s'"
  by (rule sc_inv_validator [OF inv v assms(3)]) (use assms in \<open>auto simp: is_active_def\<close>)

lemma deactivate_validator_spec:
  assumes inv: "sc_inv s"
  shows "outcome (deactivate_validator E a signer bn s) s (\<lambda>_ s'. sc_inv s' \<and> (\<exists>v. fmlookup (validators s) a = Some v \<and>
    is_active v \<and> signer = addr_of_key E (v_signing_key v) \<and>
    s' = s \<lparr> active_validators := fmdrop a (active_validators s),
      validators := fmupd a (v \<lparr> v_inactive_from := Some (election_block_after (env_policy E) bn) \<rparr>) (validators s),
      tx_log := tx_log s @ [Log_DeactivateValidator a (election_block_after (env_policy E) bn)] \<rparr>))"
proof -
  have "sc_inv (s \<lparr> active_validators := fmdrop a (active_validators s),
      validators := fmupd a (v \<lparr> v_inactive_from := Some x \<rparr>) (validators s), tx_log := l \<rparr>)"
    if v: "fmlookup (validators s) a = Some v" for v x l
    by (rule sc_inv_deactivate [OF inv v, where v' = "v \<lparr> v_inactive_from := Some x \<rparr>"]) simp_all
  then show ?thesis
    using active_lookup [OF inv] by (auto simp: deactivate_validator_def outcome_simps Let_def)
qed

lemma jail_validator_spec:
  assumes inv: "sc_inv s"
  shows "outcome (jail_validator E a bn s) s (\<lambda>r s'. sc_inv s' \<and> (\<exists>v. fmlookup (validators s) a = Some v \<and>
    r = \<lparr> jvr_newly_deactivated = is_active v, jvr_old_jailed_from = v_jailed_from v \<rparr> \<and>
    s' = s \<lparr> active_validators := fmdrop a (active_validators s),
      validators := fmupd a (v \<lparr> v_inactive_from := (if is_active v then Some (election_block_after (env_policy E) bn)
          else v_inactive_from v), v_jailed_from := Some bn \<rparr>) (validators s),
      tx_log := tx_log s @ Log_JailValidator a bn (v_jailed_from v = None) #
        (if is_active v then [Log_DeactivateValidator a (election_block_after (env_policy E) bn)] else []) \<rparr>))"
proof -
  have i: "sc_inv (s \<lparr> active_validators := fmdrop a (active_validators s),
      validators := fmupd a (v \<lparr> v_inactive_from := Some x, v_jailed_from := j \<rparr>) (validators s), tx_log := l \<rparr>)"
    if v: "fmlookup (validators s) a = Some v" for v x l j
    by (rule sc_inv_deactivate [OF inv v, where v' = "v \<lparr> v_inactive_from := Some x, v_jailed_from := j \<rparr>"]) simp_all
  have k: "sc_inv (s \<lparr> validators := fmupd a (v \<lparr> v_jailed_from := j \<rparr>) (validators s), tx_log := l \<rparr>)"
    if v: "fmlookup (validators s) a = Some v" for v l j
    by (rule sc_inv_details [OF inv v, where v' = "v \<lparr> v_jailed_from := j \<rparr>"]) simp_all
  have d: "fmdrop a (active_validators s) = active_validators s"
    if "fmlookup (validators s) a = Some v" "\<not> is_active v" for v
    using active_lookup [OF inv that(1)] that(2) by (simp add: fmdrop_absent)
  show ?thesis
  proof (cases "fmlookup (validators s) a")
    case (Some v)
    show ?thesis
    proof (cases "is_active v")
      case True
      then show ?thesis
        using i [OF Some] active_lookup [OF inv Some] Some
        by (simp add: jail_validator_def outcome_simps Let_def)
    next
      case False
      then show ?thesis
        using k [OF Some] d [OF Some False] Some
        by (simp add: jail_validator_def outcome_simps Let_def)
    qed
  qed (simp add: jail_validator_def outcome_simps)
qed

lemma reactivate_validator_spec:
  assumes inv: "sc_inv s"
  shows "outcome (reactivate_validator E a signer bn s) s (\<lambda>r s'. sc_inv s' \<and> (\<exists>v x. fmlookup (validators s) a = Some v \<and>
    v_inactive_from v = Some x \<and> \<not> v_retired v \<and> \<not> is_jailed (env_policy E) v bn \<and>
    signer = addr_of_key E (v_signing_key v) \<and> r = \<lparr> rv_was_inactive_from = x \<rparr> \<and>
    s' = s \<lparr> active_validators := fmupd a (v_total_stake v) (active_validators s),
      validators := fmupd a (v \<lparr> v_inactive_from := None \<rparr>) (validators s),
      tx_log := tx_log s @ [Log_ReactivateValidator a] \<rparr>))"
proof -
  have "sc_inv (s \<lparr> active_validators := fmupd a (v_total_stake v) (active_validators s),
      validators := fmupd a (v \<lparr> v_inactive_from := None \<rparr>) (validators s), tx_log := l \<rparr>)"
    if v: "fmlookup (validators s) a = Some v" "\<not> v_retired v" for v l
    by (rule sc_inv_validator [OF inv v(1), where v' = "v \<lparr> v_inactive_from := None \<rparr>"])
      (use v in \<open>simp_all add: is_active_def\<close>)
  then show ?thesis by (auto simp: reactivate_validator_def outcome_simps is_active_def)
qed

lemma retire_validator_spec:
  assumes inv: "sc_inv s"
  shows "outcome (retire_validator E a bn s) s (\<lambda>r s'. sc_inv s' \<and> (\<exists>v. fmlookup (validators s) a = Some v \<and>
    \<not> v_retired v \<and> r = \<lparr> rt_was_active = is_active v \<rparr> \<and>
    s' = s \<lparr> tx_log := tx_log s @ Log_RetireValidator a #
        (if is_active v then [Log_DeactivateValidator a (election_block_after (env_policy E) bn)] else []),
      active_validators := fmdrop a (active_validators s),
      validators := fmupd a (v \<lparr> v_retired := True, v_inactive_from := (if is_active v
          then Some (election_block_after (env_policy E) bn) else v_inactive_from v) \<rparr>) (validators s) \<rparr>))"
proof -
  have i: "sc_inv (s \<lparr> active_validators := fmdrop a (active_validators s), tx_log := l,
      validators := fmupd a (v \<lparr> v_retired := True, v_inactive_from := Some x \<rparr>) (validators s) \<rparr>)"
    if v: "fmlookup (validators s) a = Some v" for v x l
    by (rule sc_inv_deactivate [OF inv v, where v' = "v \<lparr> v_retired := True, v_inactive_from := Some x \<rparr>"]) simp_all
  have k: "sc_inv (s \<lparr> tx_log := l, validators := fmupd a (v \<lparr> v_retired := True \<rparr>) (validators s) \<rparr>)"
    if v: "fmlookup (validators s) a = Some v" "\<not> is_active v" for v l
    by (rule sc_inv_deactivate [OF inv v(1), where v' = "v \<lparr> v_retired := True \<rparr>"])
      (use v active_lookup [OF inv v(1)] in \<open>simp_all add: is_active_def fmdrop_absent\<close>)
  have d: "fmdrop a (active_validators s) = active_validators s"
    if "fmlookup (validators s) a = Some v" "\<not> is_active v" for v
    using active_lookup [OF inv that(1)] that(2) by (simp add: fmdrop_absent)
  show ?thesis
  proof (cases "fmlookup (validators s) a")
    case (Some v)
    have a: "is_active (v \<lparr> v_retired := True \<rparr>) = is_active v" by (simp add: is_active_def)
    show ?thesis
    proof (cases "is_active v")
      case True
      then show ?thesis
        using i [OF Some] active_lookup [OF inv Some] Some
        by (simp add: retire_validator_def outcome_simps Let_def a)
    next
      case False
      then show ?thesis
        using k [OF Some False] d [OF Some False] Some
        by (simp add: retire_validator_def outcome_simps Let_def a)
    qed
  qed (simp add: retire_validator_def outcome_simps)
qed

lemma can_delete_Inr:
  "can_delete_validator p v value bn s = (Inr u, s') \<longleftrightarrow> s' = s \<and> value = v_deposit v \<and> v_retired v \<and>
     \<not> is_jailed p v bn \<and> (\<exists>x. v_inactive_from v = Some x \<and> last_block_of_collateral_lockup p x < bn)"
  by (auto simp: can_delete_validator_def enforce_retire_and_release_def sc_inv_rules Let_def)

lemma enforce_release_Inr:
  "enforce_retire_and_release p v bn s = (Inr u, s') \<longleftrightarrow> s' = s \<and> v_retired v \<and>
     \<not> is_jailed p v bn \<and> (\<exists>x. v_inactive_from v = Some x \<and> last_block_of_collateral_lockup p x < bn)"
  by (auto simp: enforce_retire_and_release_def sc_inv_rules Let_def)

lemma release_fails:
  assumes "v_retired v \<longrightarrow> v_inactive_from v \<noteq> None"
  shows "(\<exists>e. enforce_retire_and_release p v bn s = (Inl (AccountErr e), s)) \<or>
    enforce_retire_and_release p v bn s = (Inr (), s)"
    "(\<exists>e. can_delete_validator p v value bn s = (Inl (AccountErr e), s)) \<or>
    can_delete_validator p v value bn s = (Inr (), s)"
  using assms
  by (auto simp: can_delete_validator_def enforce_retire_and_release_def sc_inv_rules Let_def)

lemma outcome_seq_check:
  assumes "(\<exists>e. m s = (Inl (AccountErr e), s)) \<or> m s = (Inr (), s)"
  shows "outcome (seq_eff m n s) s Q \<longleftrightarrow> (m s = (Inr (), s) \<longrightarrow> outcome (n s) s Q)"
  using assms by (auto simp: seq_eff_def outcome_fails outcome_run)

definition deleted_state :: "staking_state \<Rightarrow> address \<Rightarrow> validator \<Rightarrow> log list \<Rightarrow> staking_state" where
  "deleted_state s a v l = s \<lparr> sc_balance := sc_balance s - v_deposit v,
     tombstones := (if v_num_stakers v > 0
       then fmupd a \<lparr> t_remaining_stake = v_total_stake v - v_deposit v, t_num_remaining_stakers = v_num_stakers v \<rparr> (tombstones s)
       else tombstones s),
     validators := fmdrop a (validators s), tx_log := l \<rparr>"

lemma sc_inv_deleted:
  assumes inv: "sc_inv s" and v: "fmlookup (validators s) a = Some v" and i: "v_inactive_from v \<noteq> None"
  shows "sc_inv (deleted_state s a v l)"
proof -
  note t = sc_invD(1) [OF inv] and D = target_okD [OF sc_invD(1) [OF inv] v]
  let ?s = "deleted_state s a v l"
  have n: "v_num_stakers v > 0 \<longleftrightarrow> 0 < count_of (stakers s) a"
    using D(3) of_nat_u64_0 [OF sc_invD(6) [OF inv]] by (simp add: word_greater_zero_iff)
  have "target_ok ?s a (stake_of (stakers s) a) (count_of (stakers s) a)"
    using D n i count_of_zero [of "stakers s" a] by (auto simp: target_ok_def deleted_state_def is_active_def)
  then have "targets ?s (stake_of (stakers s)) (count_of (stakers s))"
    by (rule targets_upd [OF t]) (auto simp: deleted_state_def)
  moreover have "fsum v_deposit (validators s) = v_deposit v + fsum v_deposit (fmdrop a (validators s))"
    using fsum_drop [OF v, of v_deposit] by simp
  moreover have "retired_ok (validators ?s)" using inv by (auto simp: sc_inv_def retired_ok_def deleted_state_def)
  ultimately show ?thesis using inv by (simp add: sc_inv_def deleted_state_def)
qed

lemma delete_validator_spec:
  assumes inv: "sc_inv s"
  shows "outcome (delete_validator E a bn value s) s (\<lambda>r s'. sc_inv s' \<and> (\<exists>v x. fmlookup (validators s) a = Some v \<and>
    value = v_deposit v \<and> v_retired v \<and> \<not> is_jailed (env_policy E) v bn \<and> v_inactive_from v = Some x \<and>
    last_block_of_collateral_lockup (env_policy E) x < bn \<and>
    r = \<lparr> dv_signing_key = v_signing_key v, dv_voting_key = v_voting_key v, dv_reward_address = v_reward_address v,
      dv_signal_data = v_signal_data v, dv_inactive_from = x, dv_jailed_from = v_jailed_from v \<rparr> \<and>
    s' = deleted_state s a v (tx_log s @ [Log_DeleteValidator a (v_reward_address v)])))"
proof (cases "fmlookup (validators s) a")
  case (Some v)
  note D = target_okD [OF sc_invD(1) [OF inv] Some]
  have r: "v_retired v \<longrightarrow> v_inactive_from v \<noteq> None" using inv Some by (simp add: sc_inv_def retired_ok_def)
  have b: "v_deposit v \<le> sc_balance s" "sc_balance s \<le> MAX_SAFE_VALUE" "v_total_stake v \<le> MAX_SAFE_VALUE"
    using sc_invD(2,4) [OF inv, of a] sc_invD(3) [OF inv] Some D(2) by (auto simp: dep_def)
  have c: "coin_sub (v_total_stake v) (v_deposit v) = Some y \<longleftrightarrow> y = v_total_stake v - v_deposit v" for y
    using D(2) b by auto
  have q: "outcome (seq_eff (can_delete_validator (env_policy E) v value bn) n s) s Q \<longleftrightarrow>
      (can_delete_validator (env_policy E) v value bn s = (Inr (), s) \<longrightarrow> outcome (n s) s Q)"
    for n and Q :: "delete_validator_receipt \<Rightarrow> staking_state \<Rightarrow> bool"
    by (rule outcome_seq_check) (rule release_fails(2) [OF r])
  show ?thesis
  proof (cases "can_delete_validator (env_policy E) v value bn s = (Inr (), s)")
    case True
    then obtain x where x: "value = v_deposit v" "v_retired v" "\<not> is_jailed (env_policy E) v bn"
      "v_inactive_from v = Some x" "last_block_of_collateral_lockup (env_policy E) x < bn"
      by (auto simp: can_delete_Inr)
    have "sc_inv (deleted_state s a v l)" for l using sc_inv_deleted [OF inv Some] x(4) by simp
    moreover have "sc_balance s - v_deposit v \<le> MAX_SAFE_VALUE" using b by simp
    ultimately show ?thesis
      using Some True [unfolded x(1)] x b
      by (cases "v_num_stakers v > 0")
        (simp_all add: delete_validator_def outcome_simps q [unfolded x(1)] c deleted_state_def del: coin_sub_Some)
  next
    case False
    then show ?thesis using Some by (simp add: delete_validator_def outcome_simps q)
  qed
qed (simp add: delete_validator_def outcome_simps)

section \<open>Delegation\<close>

lemma on_delegation_simps:
  "on_delegation None f = ret ()" "on_delegation (Some a) f = f a"
  by (simp_all add: on_delegation_def)

lemma at_simps [simp]: "add_at f None c = f" "sub_at f None c = f" "add_at f d 0 = f" "sub_at f d 0 = f"
  "add_at f (Some a) c = f(a := f a + c)" "sub_at f (Some a) c = f(a := f a - c)"
  by (auto simp: add_at_def sub_at_def split: option.splits)

lemma seq_run: "m s = (Inr (), s1) \<Longrightarrow> n s1 = r \<Longrightarrow> seq_eff m n s = r"
  by (simp add: seq_eff_def bind_eff_def)

lemma on_register:
  assumes "targets s x n" "\<And>a. d = Some a \<Longrightarrow> exists_target s a \<or> b"
  shows "\<exists>s'. on_delegation d (\<lambda>a. register_staker_on_validator a b) s = (Inr (), s') \<and>
    targets s' x (add_at n d 1) \<and> keeps s s'"
proof (cases d)
  case (Some a)
  then show ?thesis using register_spec [OF assms(1)] assms(2) by (simp add: on_delegation_simps)
qed (use assms in \<open>simp add: on_delegation_simps eff_simps\<close>)

lemma on_register_increase:
  assumes t: "targets s x n" and e: "\<And>a. d = Some a \<Longrightarrow> exists_target s a \<or> b"
    and bd: "\<And>a. d = Some a \<Longrightarrow> dep s a + (x a + c) \<le> MAX_SAFE_VALUE"
  shows "\<exists>s'. on_delegation d (\<lambda>a. seq_eff (register_staker_on_validator a b)
      (when_eff w (increase_stake_to_validator a c))) s = (Inr (), s') \<and>
    targets s' (if w then add_at x d c else x) (add_at n d 1) \<and> keeps s s'"
proof (cases d)
  case (Some a)
  obtain s1 where s1: "register_staker_on_validator a b s = (Inr (), s1)" "targets s1 x (n(a := n a + 1))" "keeps s s1"
    using register_spec [OF t] e Some by blast
  show ?thesis
  proof (cases w)
    case True
    obtain s2 where "increase_stake_to_validator a c s1 = (Inr (), s2)"
      "targets s2 (x(a := x a + c)) (n(a := n a + 1))" "keeps s1 s2"
      using increase_spec [OF s1(2) targets_exists [OF s1(2)], of a c] keeps_dep [OF s1(3)] bd Some by auto
    then show ?thesis
      using Some True s1 keeps_trans by (auto simp: on_delegation_simps eff_simps bind_eff_def)
  qed (use Some s1 in \<open>simp add: on_delegation_simps eff_simps bind_eff_def\<close>)
qed (use assms in \<open>simp add: on_delegation_simps eff_simps\<close>)

lemma on_unregister:
  assumes "targets s x n"
    "\<And>a. d = Some a \<Longrightarrow> 0 < n a \<and> n a < 2 ^ 64 \<and> (n a = 1 \<longrightarrow> x a = 0)"
  shows "\<exists>s'. on_delegation d unregister_staker_from_validator s = (Inr (), s') \<and>
    targets s' x (sub_at n d 1) \<and> keeps s s'"
proof (cases d)
  case (Some a)
  then show ?thesis using unregister_spec [OF assms(1), of a] assms(2) by (simp add: on_delegation_simps)
qed (use assms in \<open>simp add: on_delegation_simps eff_simps\<close>)

lemma on_decrease_unregister:
  assumes t: "targets s x n"
    and c: "\<And>a. d = Some a \<Longrightarrow> 0 < n a \<and> n a < 2 ^ 64 \<and> c \<le> x a \<and> (n a = 1 \<longrightarrow> x a = c) \<and>
      dep s a + x a \<le> MAX_SAFE_VALUE"
    and w: "\<not> w \<longrightarrow> c = 0"
  shows "\<exists>s'. on_delegation d (\<lambda>a. seq_eff (when_eff w (decrease_stake_from_validator a c))
      (unregister_staker_from_validator a)) s = (Inr (), s') \<and>
    targets s' (sub_at x d c) (sub_at n d 1) \<and> keeps s s'"
proof (cases d)
  case (Some a)
  note C = c [OF Some]
  obtain s1 where s1: "when_eff w (decrease_stake_from_validator a c) s = (Inr (), s1)"
    "targets s1 (x(a := x a - c)) n" "keeps s s1"
    using decrease_spec [OF t targets_exists [OF t], of a c] C w t by (cases w) (auto simp: eff_simps)
  obtain s2 where s2: "unregister_staker_from_validator a s1 = (Inr (), s2)"
    "targets s2 (x(a := x a - c)) (n(a := n a - 1))" "keeps s1 s2"
    using unregister_spec [OF s1(2), of a] C by auto
  show ?thesis
    using Some s1 s2 keeps_trans [OF s1(3) s2(3)] by (auto simp: on_delegation_simps intro!: seq_run)
qed (use assms in \<open>simp add: on_delegation_simps eff_simps\<close>)

lemma on_increase:
  assumes "targets s x n" "\<And>a. d = Some a \<Longrightarrow> exists_target s a \<and> dep s a + (x a + c) \<le> MAX_SAFE_VALUE"
  shows "\<exists>s'. on_delegation d (\<lambda>a. increase_stake_to_validator a c) s = (Inr (), s') \<and>
    targets s' (add_at x d c) n \<and> keeps s s'"
proof (cases d)
  case (Some a)
  then show ?thesis using increase_spec [OF assms(1), of a c] assms(2) by (simp add: on_delegation_simps add.assoc)
qed (use assms in \<open>simp add: on_delegation_simps eff_simps\<close>)

lemma on_decrease:
  assumes "targets s x n"
    "\<And>a. d = Some a \<Longrightarrow> exists_target s a \<and> c \<le> x a \<and> dep s a + x a \<le> MAX_SAFE_VALUE"
  shows "\<exists>s'. on_delegation d (\<lambda>a. decrease_stake_from_validator a c) s = (Inr (), s') \<and>
    targets s' (sub_at x d c) n \<and> keeps s s'"
proof (cases d)
  case (Some a)
  then show ?thesis using decrease_spec [OF assms(1), of a c] assms(2) by (simp add: on_delegation_simps)
qed (use assms in \<open>simp add: on_delegation_simps eff_simps\<close>)

lemma on_update:
  assumes "targets s x n" "\<And>a. d = Some a \<Longrightarrow> exists_target s a \<and> old \<le> x a \<and>
      dep s a + (x a - old + new) \<le> MAX_SAFE_VALUE \<and> dep s a + x a \<le> MAX_SAFE_VALUE"
  shows "\<exists>s'. on_delegation d (\<lambda>a. update_stake_for_validator a old new) s = (Inr (), s') \<and>
    targets s' (add_at (sub_at x d old) d new) n \<and> keeps s s'"
proof (cases d)
  case (Some a)
  note C = assms(2) [OF Some]
  have "dep s a + x a - old + new = dep s a + (x a - old + new)" using C by simp
  then show ?thesis
    using update_spec [OF assms(1), of a old new] C Some by (simp only: on_delegation_simps) simp
qed (use assms in \<open>simp add: on_delegation_simps eff_simps\<close>)

end
