(* ===== verification/StakingStakerSpec.thy ===== *)
theory StakingStakerSpec
  imports StakingSpec
begin

text \<open>The outcome of the staker operations on a consistent state.\<close>

lemma when_eff_bool: "when_eff True m = m" "when_eff False m = ret ()"
  by (simp_all add: when_eff_def)

lemma stake_le: "stake_of m a \<le> fsum s_total m"
  unfolding stake_of_def by (rule fsum_mono) (simp add: s_total_def)

lemma static_after:
  assumes "keeps s s1"
  shows "fmmap vstat (validators s1) = fmmap vstat (validators s)" "punished s1 = punished s"
    "tx_log s1 = tx_log s" "sc_balance s1 = sc_balance s" "stakers s1 = stakers s"
  using assms by (simp_all add: keeps_def static_def)

lemma stakers_ok_upd: "stakers_ok m \<Longrightarrow> staker_ok k st \<Longrightarrow> stakers_ok (fmupd k st m)"
  by (simp add: stakers_ok_def)

lemma stakers_ok_drop: "stakers_ok m \<Longrightarrow> stakers_ok (fmdrop k m)"
  by (simp add: stakers_ok_def)

lemma outcome_delegate_check:
  "outcome (seq_eff (on_delegation d (\<lambda>a. bind_eff (expect_validator a) (\<lambda>_. ret ()))) n s) s Q \<longleftrightarrow>
     ((\<forall>a. d = Some a \<longrightarrow> fmlookup (validators s) a \<noteq> None) \<longrightarrow> outcome (n s) s Q)"
proof (cases d)
  case (Some a)
  then show ?thesis by (auto simp: on_delegation_simps outcome_simps)
qed (simp add: on_delegation_simps outcome_simps)

lemma create_staker_spec:
  assumes inv: "sc_inv s" and bound: "sc_balance s + (value + ib) \<le> MAX_SAFE_VALUE"
    and minimum: "MINIMUM_STAKE \<le> value + ib"
  shows "outcome (create_staker k value d ib ifr s) s (\<lambda>_ s'. sc_inv s' \<and>
    fmlookup (stakers s) k = None \<and> (\<forall>a. d = Some a \<longrightarrow> fmlookup (validators s) a \<noteq> None) \<and>
    (ib = 0 \<longleftrightarrow> ifr = None) \<and>
    static s' = (sc_balance s + (value + ib), fmmap vstat (validators s),
      fmupd k \<lparr> s_address = k, s_active_balance = value, s_inactive_balance = ib, s_inactive_from = ifr,
        s_retired_balance = 0, s_delegation = d \<rparr> (stakers s), punished s) \<and>
    tx_log s' = tx_log s @ [Log_CreateStaker k d value])"
proof -
  let ?st = "\<lparr> s_address = k, s_active_balance = value, s_inactive_balance = ib, s_inactive_from = ifr,
        s_retired_balance = 0, s_delegation = d \<rparr>"
  let ?n = "bind_eff (expect (coin_add value ib)) (\<lambda>sum. seq_eff (add_balance sum)
      (seq_eff (push_log (Log_CreateStaker k d value)) (put_staker k ?st)))"
  let ?Q = "\<lambda>_ s'. sc_inv s' \<and> static s' = (sc_balance s + (value + ib), fmmap vstat (validators s),
      fmupd k ?st (stakers s), punished s) \<and> tx_log s' = tx_log s @ [Log_CreateStaker k d value]"
  have main: "outcome (seq_eff (on_delegation d (\<lambda>a. seq_eff (register_staker_on_validator a False)
      (increase_stake_to_validator a value))) ?n s) s ?Q"
    if new: "fmlookup (stakers s) k = None" and d: "\<forall>a. d = Some a \<longrightarrow> fmlookup (validators s) a \<noteq> None"
      and i: "ib = 0 \<longleftrightarrow> ifr = None"
  proof -
    note t = sc_invD(1) [OF inv]
    have b: "dep s a + (stake_of (stakers s) a + value) \<le> MAX_SAFE_VALUE" for a
      using sc_invD(2,4) [OF inv, of a] bound by simp
    obtain s1 where s1: "on_delegation d (\<lambda>a. seq_eff (register_staker_on_validator a False)
        (increase_stake_to_validator a value)) s = (Inr (), s1)"
      "targets s1 (add_at (stake_of (stakers s)) d value) (add_at (count_of (stakers s)) d 1)" "keeps s s1"
      using on_register_increase [OF t, of d False "value" True] d b by (auto simp: when_eff_bool exists_target_def)
    note S = static_after [OF s1(3)]
    let ?s2 = "s1 \<lparr> sc_balance := sc_balance s1 + (value + ib), tx_log := tx_log s1 @ [Log_CreateStaker k d value],
        stakers := fmupd k ?st (stakers s1) \<rparr>"
    have "sc_inv ?s2"
    proof (rule sc_inv_after [OF inv s1(3)])
      show "targets s1 (stake_of (stakers ?s2)) (count_of (stakers ?s2))"
        using s1(2) new S by (simp add: stake_of_new count_of_new)
      show "stakers_ok (stakers ?s2)"
        using inv minimum i S by (auto simp: sc_inv_def staker_ok_def s_total_def intro!: stakers_ok_upd)
      show "fsum s_total (stakers ?s2) + sc_balance s = sc_balance ?s2 + fsum s_total (stakers s)"
        using new S by (simp add: s_total_def)
    qed (use bound S in simp_all)
    then show ?thesis
      using bound S by (simp add: outcome_run(2) [where m' = "on_delegation _ _", OF s1(1)] outcome_simps static_def)
  qed
  show ?thesis
    using main by (simp add: create_staker_def outcome_simps outcome_delegate_check Let_def)
qed

section \<open>Changing a staker\<close>

lemma stake_of_change:
  assumes "fmlookup m k = Some st"
  shows "stake_of (fmupd k st' m) =
    add_at (sub_at (stake_of m) (s_delegation st) (s_active_balance st)) (s_delegation st') (s_active_balance st')"
proof -
  have "fmupd k st' m = fmupd k st' (fmdrop k m)" by (rule fmap_ext) simp
  then show ?thesis using stake_of_new [of "fmdrop k m" k st'] stake_of_drop [OF assms] by simp
qed

lemma count_of_change:
  assumes "fmlookup m k = Some st"
  shows "count_of (fmupd k st' m) = add_at (sub_at (count_of m) (s_delegation st) 1) (s_delegation st') 1"
proof -
  have "fmupd k st' m = fmupd k st' (fmdrop k m)" by (rule fmap_ext) simp
  then show ?thesis using count_of_new [of "fmdrop k m" k st'] count_of_drop [OF assms] by simp
qed

lemma count_of_same:
  assumes "fmlookup m k = Some st" "s_delegation st' = s_delegation st"
  shows "count_of (fmupd k st' m) = count_of m"
  using count_of_change [OF assms(1), of st'] assms(2) count_of_member [OF assms(1)]
  by (cases "s_delegation st") auto

lemma fsum_total_change:
  "fmlookup m k = Some st \<Longrightarrow> s_total st + fsum s_total (fmupd k st' m) = s_total st' + fsum s_total m"
  by (rule fsum_upd_old)

definition min_ok :: "nat \<Rightarrow> nat \<Rightarrow> nat \<Rightarrow> bool" where
  "min_ok active inactive retired \<longleftrightarrow>
     \<not> (0 < active + inactive \<and> active + inactive < MINIMUM_STAKE) \<and>
     \<not> (active + inactive = 0 \<and> 0 < retired \<and> retired < MINIMUM_STAKE)"

lemma from_u64_minimum: "from_u64_unchecked MINIMUM_STAKE = Some MINIMUM_STAKE"
  by (simp add: from_u64_unchecked_def coin_try_from_def MINIMUM_STAKE_def MAX_SAFE_VALUE_def)

lemma outcome_enforce:
  assumes "x + y \<le> MAX_SAFE_VALUE"
  shows "outcome (seq_eff (enforce_min_stake x y z) n s) s Q \<longleftrightarrow> (min_ok x y z \<longrightarrow> outcome (n s) s Q)"
  using assms by (auto simp: enforce_min_stake_def outcome_simps from_u64_minimum min_ok_def)

definition released :: "policy \<Rightarrow> staking_state \<Rightarrow> staker \<Rightarrow> u32 \<Rightarrow> bool" where
  "released p s st bn \<longleftrightarrow> (\<forall>a. s_delegation st = Some a \<longrightarrow>
     (\<forall>x. s_inactive_from st = Some x \<longrightarrow> block_after_collateral_lockup p x \<le> bn) \<and>
     (\<forall>v. fmlookup (validators s) a = Some v \<longrightarrow> \<not> is_jailed p v bn))"

lemma is_released_run:
  "is_inactive_stake_released p st bn s = (Inr (released p s st bn), s)"
  by (auto simp: is_inactive_stake_released_def released_def store_defs eff_simps split: option.splits)

lemma outcome_released:
  "outcome (bind_eff (is_inactive_stake_released p st bn) f s1) s Q = outcome (f (released p s1 st bn) s1) s Q"
  by (rule outcome_run) (rule is_released_run)

lemma add_stake_spec:
  assumes inv: "sc_inv s" and bound: "sc_balance s + value \<le> MAX_SAFE_VALUE"
  shows "outcome (add_stake k value s) s (\<lambda>_ s'. sc_inv s' \<and> (\<exists>st. fmlookup (stakers s) k = Some st \<and>
    (\<forall>a. s_delegation st = Some a \<longrightarrow> fmlookup (validators s) a \<noteq> None) \<and>
    static s' = (sc_balance s + value, fmmap vstat (validators s),
      fmupd k (st \<lparr> s_active_balance := s_active_balance st + value \<rparr>) (stakers s), punished s) \<and>
    tx_log s' = tx_log s @ [Log_Stake k (s_delegation st) value]))"
proof (cases "fmlookup (stakers s) k")
  case (Some st)
  let ?st = "st \<lparr> s_active_balance := s_active_balance st + value \<rparr>" and ?d = "s_delegation st"
  let ?Q = "\<lambda>_ s'. sc_inv s' \<and> static s' = (sc_balance s + value, fmmap vstat (validators s),
      fmupd k ?st (stakers s), punished s) \<and> tx_log s' = tx_log s @ [Log_Stake k ?d value]"
  note t = sc_invD(1) [OF inv] and st = sc_inv_staker [OF inv Some]
  have bal: "s_total st + value \<le> MAX_SAFE_VALUE" using st(2) sc_invD(2) [OF inv] bound by (meson add_le_mono1 le_trans add_leE)
  have main: "outcome (seq_eff (on_delegation ?d (\<lambda>a. increase_stake_to_validator a value))
      (seq_eff (add_balance value) (seq_eff (push_log (Log_Stake k ?d value)) (put_staker k ?st))) s) s ?Q"
    if m: "min_ok (s_active_balance st + value) (s_inactive_balance st) (s_retired_balance st)"
      and d: "\<forall>a. ?d = Some a \<longrightarrow> fmlookup (validators s) a \<noteq> None"
  proof -
    have b: "dep s a + (stake_of (stakers s) a + value) \<le> MAX_SAFE_VALUE" for a
      using sc_invD(2,4) [OF inv, of a] bound by simp
    obtain s1 where s1: "on_delegation ?d (\<lambda>a. increase_stake_to_validator a value) s = (Inr (), s1)"
      "targets s1 (add_at (stake_of (stakers s)) ?d value) (count_of (stakers s))" "keeps s s1"
      using on_increase [OF t, of ?d "value"] d b by (auto simp: exists_target_def)
    note S = static_after [OF s1(3)]
    let ?s2 = "s1 \<lparr> sc_balance := sc_balance s1 + value, tx_log := tx_log s1 @ [Log_Stake k ?d value],
        stakers := fmupd k ?st (stakers s1) \<rparr>"
    have x: "stake_of (fmupd k ?st (stakers s)) = add_at (stake_of (stakers s)) ?d value"
      using stake_of_change [OF Some, of ?st] stake_of_member [OF Some] by (cases ?d) auto
    have "sc_inv ?s2"
    proof (rule sc_inv_after [OF inv s1(3)])
      show "targets s1 (stake_of (stakers ?s2)) (count_of (stakers ?s2))"
        using s1(2) S x by (simp add: count_of_same [OF Some])
      show "stakers_ok (stakers ?s2)"
        using inv st(1) m S by (auto simp: sc_inv_def staker_ok_def s_total_def min_ok_def intro!: stakers_ok_upd)
      show "fsum s_total (stakers ?s2) + sc_balance s = sc_balance ?s2 + fsum s_total (stakers s)"
        using fsum_total_change [OF Some, of ?st] S by (simp add: s_total_def)
    qed (use bound S in simp_all)
    then show ?thesis
      using bound S by (simp add: outcome_run(2) [where m' = "on_delegation _ _", OF s1(1)] outcome_simps static_def)
  qed
  have "s_active_balance st + value + s_inactive_balance st \<le> MAX_SAFE_VALUE" using bal by (simp add: s_total_def)
  then show ?thesis
    using main Some
    by (cases ?d) (auto simp: add_stake_def outcome_simps outcome_enforce on_delegation_simps)
qed (simp add: add_stake_def outcome_simps)

text \<open>The invariant after a staker is replaced by another one.\<close>

lemma sc_inv_replace:
  assumes inv: "sc_inv s" and st: "fmlookup (stakers s) k = Some st" and k: "keeps s s1"
    and t: "targets s1 (add_at (sub_at (stake_of (stakers s)) (s_delegation st) (s_active_balance st))
        (s_delegation st') (s_active_balance st')) (add_at (sub_at (count_of (stakers s)) (s_delegation st) 1)
        (s_delegation st') 1)"
    and ok: "staker_ok k st'" and b: "s_total st' + sc_balance s = sc_balance s2 + s_total st"
    and m: "sc_balance s2 \<le> MAX_SAFE_VALUE"
    and s2: "stakers s2 = fmupd k st' (stakers s)" "validators s2 = validators s1" "tombstones s2 = tombstones s1"
      "active_validators s2 = active_validators s1"
  shows "sc_inv s2"
proof (rule sc_inv_after [OF inv k])
  show "targets s1 (stake_of (stakers s2)) (count_of (stakers s2))"
    unfolding s2(1) stake_of_change [OF st] count_of_change [OF st] by (rule t)
  show "stakers_ok (stakers s2)" using inv ok s2(1) by (simp add: sc_inv_def stakers_ok_upd)
  show "fsum s_total (stakers s2) + sc_balance s = sc_balance s2 + fsum s_total (stakers s)"
    using fsum_total_change [OF st, of st'] b s2(1) by simp
qed (use m s2 in simp_all)

lemma count_kept:
  assumes "fmlookup (stakers s) k = Some st"
  shows "add_at (sub_at (count_of (stakers s)) (s_delegation st) 1) (s_delegation st) 1 = count_of (stakers s)"
  using count_of_same [OF assms, of st] count_of_change [OF assms, of st] by simp

lemma stake_kept:
  assumes "fmlookup (stakers s) k = Some st"
  shows "add_at (sub_at (stake_of (stakers s)) (s_delegation st) (s_active_balance st)) (s_delegation st)
    (s_active_balance st) = stake_of (stakers s)"
  using stake_of_change [OF assms, of st] assms by simp

lemma staker_exists:
  assumes "sc_inv s" "fmlookup (stakers s) k = Some st" "s_delegation st = Some a"
  shows "exists_target s a"
  using targets_exists [OF sc_invD(1) [OF assms(1)] count_of_member [OF assms(2,3)]] .

lemma stake_bound: "sc_inv s \<Longrightarrow> dep s a + stake_of (stakers s) a \<le> MAX_SAFE_VALUE"
  using sc_invD(2,4) [of s a] sc_invD(3) [of s] by simp

definition retired_staker :: "staker \<Rightarrow> coin \<Rightarrow> staker" where
  "retired_staker st amount = st \<lparr> s_inactive_balance := s_inactive_balance st - amount,
     s_retired_balance := s_retired_balance st + amount,
     s_inactive_from := (if s_inactive_balance st - amount = 0 then None else s_inactive_from st) \<rparr>"

lemma retired_staker_if:
  "retired_staker st amount =
    (let staker1 = st \<lparr> s_inactive_balance := s_inactive_balance st - amount, s_retired_balance := s_retired_balance st + amount \<rparr>
     in if s_inactive_balance staker1 = 0 then staker1 \<lparr> s_inactive_from := None \<rparr> else staker1)"
  by (cases st) (simp add: retired_staker_def)

lemma retire_stake_spec:
  assumes inv: "sc_inv s"
  shows "outcome (retire_stake E k amount bn s) s (\<lambda>r s'. sc_inv s' \<and> (\<exists>st. fmlookup (stakers s) k = Some st \<and>
    amount \<le> s_inactive_balance st \<and> released (env_policy E) s st bn \<and>
    r = \<lparr> rs_old_inactive_from = s_inactive_from st \<rparr> \<and>
    s' = s \<lparr> tx_log := tx_log s @ [Log_RetireStake k (s_delegation st) (s_inactive_balance (retired_staker st amount))
        (s_inactive_from (retired_staker st amount)) (s_retired_balance (retired_staker st amount))],
      stakers := fmupd k (retired_staker st amount) (stakers s) \<rparr>))"
proof (cases "fmlookup (stakers s) k")
  case (Some st)
  let ?st = "retired_staker st amount"
  note st = sc_inv_staker [OF inv Some]
  have bal: "s_active_balance st + (s_inactive_balance st - amount) \<le> MAX_SAFE_VALUE"
    "amount \<le> s_inactive_balance st \<Longrightarrow> s_retired_balance st + amount \<le> MAX_SAFE_VALUE"
    "s_inactive_balance st - amount \<le> MAX_SAFE_VALUE"
    using st(3) by (simp_all add: s_total_def)
  have main: "sc_inv (s \<lparr> tx_log := L, stakers := fmupd k ?st (stakers s) \<rparr>)"
    if m: "min_ok (s_active_balance st) (s_inactive_balance st - amount) (s_retired_balance st + amount)"
      and a: "amount \<le> s_inactive_balance st" for L
  proof (rule sc_inv_replace [OF inv Some keeps_refl])
    show "targets s (add_at (sub_at (stake_of (stakers s)) (s_delegation st) (s_active_balance st))
        (s_delegation ?st) (s_active_balance ?st)) (add_at (sub_at (count_of (stakers s)) (s_delegation st) 1)
        (s_delegation ?st) 1)"
      using sc_invD(1) [OF inv] by (simp add: retired_staker_def count_kept [OF Some] stake_kept [OF Some] del: One_nat_def)
    show "staker_ok k ?st"
      using st(1) m a by (auto simp: staker_ok_def min_ok_def s_total_def retired_staker_def)
  qed (use a sc_invD(3) [OF inv] in \<open>simp_all add: s_total_def retired_staker_def\<close>)
  then show ?thesis
    using Some bal
    by (cases "s_inactive_balance st - amount = 0")
      (simp_all add: retire_stake_def outcome_simps outcome_enforce outcome_released Let_def not_less retired_staker_if)
qed (simp add: retire_stake_def outcome_simps)

definition set_active_staker :: "policy \<Rightarrow> staker \<Rightarrow> coin \<Rightarrow> u32 \<Rightarrow> staker" where
  "set_active_staker p st new bn = (let inactive = s_active_balance st + s_inactive_balance st - new in
     st \<lparr> s_active_balance := new, s_inactive_balance := inactive,
       s_inactive_from := (if inactive = 0 then None else Some (election_block_after p bn)) \<rparr>)"

lemma set_active_stake_spec:
  assumes inv: "sc_inv s"
  shows "outcome (set_active_stake E k new bn s) s (\<lambda>r s'. sc_inv s' \<and> (\<exists>st. fmlookup (stakers s) k = Some st \<and>
    new \<le> s_active_balance st + s_inactive_balance st \<and>
    r = \<lparr> sa_old_inactive_from = s_inactive_from st, sa_old_active_balance = s_active_balance st \<rparr> \<and>
    (let st' = set_active_staker (env_policy E) st new bn in
     static s' = (sc_balance s, fmmap vstat (validators s), fmupd k st' (stakers s), punished s) \<and>
     tx_log s' = tx_log s @ [Log_SetActiveStake k (s_delegation st) new (s_inactive_balance st') (s_inactive_from st')])))"
proof (cases "fmlookup (stakers s) k")
  case (Some st)
  let ?st = "set_active_staker (env_policy E) st new bn" and ?d = "s_delegation st"
  note st = sc_inv_staker [OF inv Some] and t = sc_invD(1) [OF inv]
  note I = set_active_staker_def [of "env_policy E" st new bn, unfolded Let_def]
  let ?l = "Log_SetActiveStake k ?d new (s_inactive_balance ?st) (s_inactive_from ?st)"
  let ?r = "\<lparr> sa_old_inactive_from = s_inactive_from st, sa_old_active_balance = s_active_balance st \<rparr>"
  have main: "outcome (seq_eff (on_delegation ?d (\<lambda>a. update_stake_for_validator a (s_active_balance st) new))
      (seq_eff (push_log ?l) (seq_eff (put_staker k ?st) (ret ?r))) s) s (\<lambda>r s'. sc_inv s' \<and> r = ?r \<and>
      static s' = (sc_balance s, fmmap vstat (validators s), fmupd k ?st (stakers s), punished s) \<and>
      tx_log s' = tx_log s @ [?l])"
    if le: "new \<le> s_active_balance st + s_inactive_balance st"
  proof -
    have o: "s_active_balance st \<le> stake_of (stakers s) a" if "?d = Some a" for a
      using stake_of_member [OF Some that] .
    have b: "dep s a + (stake_of (stakers s) a - s_active_balance st + new) \<le> MAX_SAFE_VALUE"
      if "?d = Some a" for a
    proof -
      have "stake_of (fmupd k ?st (stakers s)) a = stake_of (stakers s) a - s_active_balance st + new"
        unfolding stake_of_change [OF Some] using that by (simp add: I)
      moreover have "fsum s_total (fmupd k ?st (stakers s)) = fsum s_total (stakers s)"
        using fsum_total_change [OF Some, of ?st] le by (simp add: s_total_def I)
      ultimately show ?thesis
        using stake_le [of "fmupd k ?st (stakers s)" a] sc_invD(2) [OF inv, of a] sc_invD(3) [OF inv] by simp
    qed
    obtain s1 where s1: "on_delegation ?d (\<lambda>a. update_stake_for_validator a (s_active_balance st) new) s = (Inr (), s1)"
      "targets s1 (add_at (sub_at (stake_of (stakers s)) ?d (s_active_balance st)) ?d new) (count_of (stakers s))"
      "keeps s s1"
      using on_update [OF t, of ?d "s_active_balance st" new] o b staker_exists [OF inv Some] stake_bound [OF inv]
      by blast
    note S = static_after [OF s1(3)]
    have "sc_inv (s1 \<lparr> tx_log := tx_log s1 @ [?l], stakers := fmupd k ?st (stakers s1) \<rparr>)"
    proof (rule sc_inv_replace [OF inv Some s1(3)])
      show "targets s1 (add_at (sub_at (stake_of (stakers s)) ?d (s_active_balance st))
          (s_delegation ?st) (s_active_balance ?st)) (add_at (sub_at (count_of (stakers s)) ?d 1) (s_delegation ?st) 1)"
        using s1(2) by (simp add: I count_kept [OF Some] del: One_nat_def)
      show "staker_ok k ?st" using st(1) le by (auto simp: I staker_ok_def s_total_def)
    qed (use S le sc_invD(3) [OF inv] in \<open>simp_all add: s_total_def I\<close>)
    then show ?thesis
      using S by (simp add: outcome_run(2) [where m' = "on_delegation _ _", OF s1(1)] outcome_simps static_def)
  qed
  have "s_active_balance st + s_inactive_balance st \<le> MAX_SAFE_VALUE"
    "s_active_balance st + s_inactive_balance st - new \<le> MAX_SAFE_VALUE" using st(3) by (simp_all add: s_total_def)
  then show ?thesis
    using main Some by (simp add: set_active_stake_def non_retired_balance_def outcome_simps Let_def not_less I)
qed (simp add: set_active_stake_def outcome_simps)

definition updated_staker :: "staker \<Rightarrow> address option \<Rightarrow> bool \<Rightarrow> staker" where
  "updated_staker st d all = (if all
     then st \<lparr> s_delegation := d, s_active_balance := s_active_balance st + s_inactive_balance st,
       s_inactive_balance := 0, s_inactive_from := None \<rparr>
     else st \<lparr> s_delegation := d \<rparr>)"

lemma updated_staker_simps [simp]:
  "s_delegation (updated_staker st d all) = d" "s_total (updated_staker st d all) = s_total st"
  by (simp_all add: updated_staker_def s_total_def)

lemma update_staker_targets:
  assumes inv: "sc_inv s" and Some: "fmlookup (stakers s) k = Some st"
    and d: "\<And>a. d = Some a \<Longrightarrow> fmlookup (validators s) a \<noteq> None"
    and z: "s_delegation st \<noteq> None \<Longrightarrow> s_active_balance st = 0"
  shows "\<exists>s1 s2. on_delegation (s_delegation st) unregister_staker_from_validator s = (Inr (), s1) \<and>
    on_delegation d (\<lambda>a. seq_eff (register_staker_on_validator a False)
      (when_eff (s_active_balance (updated_staker st d all) \<noteq> 0)
        (increase_stake_to_validator a (s_active_balance (updated_staker st d all))))) s1 = (Inr (), s2) \<and>
    targets s2 (add_at (sub_at (stake_of (stakers s)) (s_delegation st) (s_active_balance st))
        d (s_active_balance (updated_staker st d all)))
      (add_at (sub_at (count_of (stakers s)) (s_delegation st) 1) d 1) \<and> keeps s s2"
proof -
  let ?d = "s_delegation st" and ?st = "updated_staker st d all"
  have e: "stake_of (stakers s) = sub_at (stake_of (stakers s)) ?d (s_active_balance st)" using z by (cases ?d) auto
  obtain s1 where s1: "on_delegation ?d unregister_staker_from_validator s = (Inr (), s1)"
    "targets s1 (stake_of (stakers s)) (sub_at (count_of (stakers s)) ?d 1)" "keeps s s1"
    using on_unregister [OF sc_invD(1) [OF inv], of ?d] count_of_member [OF Some] count_of_one [OF Some]
      sc_invD(6) [OF inv] z by fastforce
  have b: "dep s1 a + (stake_of (stakers s) a + s_active_balance ?st) \<le> MAX_SAFE_VALUE" if "d = Some a" for a
  proof -
    have "stake_of (fmupd k ?st (stakers s)) a = stake_of (stakers s) a + s_active_balance ?st"
      unfolding stake_of_change [OF Some] e [symmetric] using that by simp
    moreover have "fsum s_total (fmupd k ?st (stakers s)) = fsum s_total (stakers s)"
      using fsum_total_change [OF Some, of ?st] by simp
    ultimately show ?thesis
      using stake_le [of "fmupd k ?st (stakers s)" a] sc_invD(2) [OF inv, of a] sc_invD(3) [OF inv]
        keeps_dep [OF s1(3), of a] by simp
  qed
  have x: "exists_target s1 a" if "d = Some a" for a
    using d [OF that] keeps_validator [OF s1(3), of a] by (auto simp: exists_target_def)
  have f: "(if s_active_balance ?st \<noteq> 0 then add_at (stake_of (stakers s)) d (s_active_balance ?st) else stake_of (stakers s)) =
      add_at (sub_at (stake_of (stakers s)) ?d (s_active_balance st)) d (s_active_balance ?st)"
    using e by auto
  obtain s2 where "on_delegation d (\<lambda>a. seq_eff (register_staker_on_validator a False)
      (when_eff (s_active_balance ?st \<noteq> 0) (increase_stake_to_validator a (s_active_balance ?st)))) s1 = (Inr (), s2)"
    "targets s2 (add_at (sub_at (stake_of (stakers s)) ?d (s_active_balance st)) d (s_active_balance ?st))
      (add_at (sub_at (count_of (stakers s)) ?d 1) d 1)" "keeps s1 s2"
    using on_register_increase [OF s1(2), of d False "s_active_balance ?st" "s_active_balance ?st \<noteq> 0"] x b
    unfolding f by blast
  then show ?thesis using s1 keeps_trans by blast
qed

lemma expect_sum: "a + b \<le> MAX_SAFE_VALUE \<Longrightarrow> expect (coin_add a b) = ret (a + b)"
  by (rule ext) (simp add: store_Inr ret_def)

definition update_rest :: "address \<Rightarrow> staker \<Rightarrow> address option \<Rightarrow> staker \<Rightarrow> staker_receipt sc" where
  "update_rest k st d st' =
    seq_eff (on_delegation (s_delegation st) unregister_staker_from_validator)
    (seq_eff (on_delegation d (\<lambda>a. seq_eff (register_staker_on_validator a False)
      (when_eff (s_active_balance st' \<noteq> 0) (increase_stake_to_validator a (s_active_balance st')))))
    (seq_eff (push_log (Log_UpdateStaker k (s_delegation st) d (s_active_balance st') (s_inactive_from st')))
    (seq_eff (put_staker k st') (ret \<lparr> sr_delegation = s_delegation st, sr_active_balance = s_active_balance st,
      sr_inactive_from = s_inactive_from st \<rparr>))))"

lemma update_staker_cut:
  assumes st: "fmlookup (stakers s) k = Some st" and b: "s_active_balance st + s_inactive_balance st \<le> MAX_SAFE_VALUE"
  shows "outcome (update_staker E k d all bn s) s Q \<longleftrightarrow>
    ((\<forall>a. d = Some a \<longrightarrow> fmlookup (validators s) a \<noteq> None) \<longrightarrow>
     (s_delegation st \<noteq> None \<longrightarrow> s_active_balance st = 0 \<and> released (env_policy E) s st bn) \<longrightarrow>
     outcome (update_rest k st d (updated_staker st d all) s) s Q)"
proof -
  have r: "bind_eff (if all then bind_eff (expect (coin_add (s_active_balance (st \<lparr> s_delegation := d \<rparr>))
        (s_inactive_balance (st \<lparr> s_delegation := d \<rparr>)))) (\<lambda>active.
      ret (st \<lparr> s_delegation := d, s_active_balance := active, s_inactive_balance := 0, s_inactive_from := None \<rparr>))
      else ret (st \<lparr> s_delegation := d \<rparr>)) f = f (updated_staker st d all)" for f :: "staker \<Rightarrow> staker_receipt sc"
    using b by (simp add: expect_sum updated_staker_def seq_eff_ret)
  show ?thesis
    unfolding update_staker_def Let_def
    by (cases "s_delegation st") (simp_all only: outcome_simps outcome_delegate_check outcome_released
      outcome_seq_check r st option.inject update_rest_def updated_staker_simps simp_thms if_True if_False option.distinct imp_conjL)
qed

lemma update_staker_spec:
  assumes inv: "sc_inv s"
  shows "outcome (update_staker E k d all bn s) s (\<lambda>r s'. sc_inv s' \<and> (\<exists>st. fmlookup (stakers s) k = Some st \<and>
    (\<forall>a. d = Some a \<longrightarrow> fmlookup (validators s) a \<noteq> None) \<and>
    (s_delegation st \<noteq> None \<longrightarrow> s_active_balance st = 0 \<and> released (env_policy E) s st bn) \<and>
    r = \<lparr> sr_delegation = s_delegation st, sr_active_balance = s_active_balance st, sr_inactive_from = s_inactive_from st \<rparr> \<and>
    (let st' = updated_staker st d all in
     static s' = (sc_balance s, fmmap vstat (validators s), fmupd k st' (stakers s), punished s) \<and>
     tx_log s' = tx_log s @ [Log_UpdateStaker k (s_delegation st) d (s_active_balance st') (s_inactive_from st')])))"
proof (cases "fmlookup (stakers s) k")
  case (Some st)
  let ?st = "updated_staker st d all" and ?d = "s_delegation st"
  note st = sc_inv_staker [OF inv Some]
  let ?l = "Log_UpdateStaker k ?d d (s_active_balance ?st) (s_inactive_from ?st)"
  let ?r = "\<lparr> sr_delegation = ?d, sr_active_balance = s_active_balance st, sr_inactive_from = s_inactive_from st \<rparr>"
  have main: "outcome (seq_eff (on_delegation ?d unregister_staker_from_validator)
      (seq_eff (on_delegation d (\<lambda>a. seq_eff (register_staker_on_validator a False)
      (when_eff (s_active_balance ?st \<noteq> 0) (increase_stake_to_validator a (s_active_balance ?st)))))
      (seq_eff (push_log ?l) (seq_eff (put_staker k ?st) (ret ?r)))) s) s (\<lambda>r s'. sc_inv s' \<and> r = ?r \<and>
      static s' = (sc_balance s, fmmap vstat (validators s), fmupd k ?st (stakers s), punished s) \<and>
      tx_log s' = tx_log s @ [?l])"
    if d: "\<forall>a. d = Some a \<longrightarrow> fmlookup (validators s) a \<noteq> None" and z: "?d \<noteq> None \<longrightarrow> s_active_balance st = 0"
  proof -
    obtain s1 s2 where s1: "on_delegation ?d unregister_staker_from_validator s = (Inr (), s1)"
      and s2: "on_delegation d (\<lambda>a. seq_eff (register_staker_on_validator a False)
        (when_eff (s_active_balance ?st \<noteq> 0) (increase_stake_to_validator a (s_active_balance ?st)))) s1 = (Inr (), s2)"
      and t: "targets s2 (add_at (sub_at (stake_of (stakers s)) ?d (s_active_balance st)) d (s_active_balance ?st))
        (add_at (sub_at (count_of (stakers s)) ?d 1) d 1)" and k: "keeps s s2"
      using update_staker_targets [OF inv Some, of d all] d z by blast
    note S = static_after [OF k]
    have "sc_inv (s2 \<lparr> tx_log := tx_log s2 @ [?l], stakers := fmupd k ?st (stakers s2) \<rparr>)"
    proof (rule sc_inv_replace [OF inv Some k])
      show "targets s2 (add_at (sub_at (stake_of (stakers s)) ?d (s_active_balance st))
          (s_delegation ?st) (s_active_balance ?st)) (add_at (sub_at (count_of (stakers s)) ?d 1) (s_delegation ?st) 1)"
        using t by (simp del: One_nat_def)
      show "staker_ok k ?st" using st(1) by (auto simp: updated_staker_def staker_ok_def s_total_def)
    qed (use S sc_invD(3) [OF inv] in simp_all)
    then show ?thesis
      unfolding outcome_run(2) [where m' = "on_delegation _ _", OF s1] outcome_run(2) [where m' = "on_delegation _ _", OF s2]
      using S by (simp add: outcome_simps static_def)
  qed
  have "s_active_balance st + s_inactive_balance st \<le> MAX_SAFE_VALUE" using st(3) by (simp add: s_total_def)
  then show ?thesis
    using main [folded update_rest_def] Some by (auto simp: update_staker_cut Let_def)
qed (simp add: update_staker_def outcome_simps)

lemma total_balance_Some: "s_total st \<le> MAX_SAFE_VALUE \<Longrightarrow> total_balance st = Some (s_total st)"
  by (auto simp: total_balance_def s_total_def bind_eq_Some_conv)

lemma remove_staker_targets:
  assumes inv: "sc_inv s" and Some: "fmlookup (stakers s) k = Some st" and z: "s_active_balance st = 0"
  shows "\<exists>s1. on_delegation (s_delegation st) unregister_staker_from_validator
      (s \<lparr> sc_balance := B, tx_log := L \<rparr>) = (Inr (), s1) \<and>
    targets s1 (stake_of (fmdrop k (stakers s))) (count_of (fmdrop k (stakers s))) \<and>
    keeps (s \<lparr> sc_balance := B, tx_log := L \<rparr>) s1"
proof -
  let ?s = "s \<lparr> sc_balance := B, tx_log := L \<rparr>" and ?d = "s_delegation st"
  have t: "targets ?s (stake_of (stakers s)) (count_of (stakers s))"
    using sc_invD(1) [OF inv] targets_cong [of ?s s] by simp
  have "stake_of (fmdrop k (stakers s)) = stake_of (stakers s)" using stake_of_drop [OF Some] z by simp
  then show ?thesis
    using on_unregister [OF t, of ?d] count_of_member [OF Some] count_of_one [OF Some] sc_invD(6) [OF inv] z
    unfolding count_of_drop [OF Some] by fastforce
qed

lemma remove_stake_delete:
  assumes inv: "sc_inv s" and Some: "fmlookup (stakers s) k = Some st"
    and z: "s_active_balance st = 0" "s_inactive_balance st = 0" and v: "s_retired_balance st = value"
  shows "outcome (seq_eff (on_delegation (s_delegation st) unregister_staker_from_validator)
      (seq_eff (remove_staker k) (seq_eff (push_log (Log_DeleteStaker k (s_delegation st))) (ret r)))
      (s \<lparr> sc_balance := sc_balance s - value, tx_log := L \<rparr>)) s (\<lambda>r' s'. sc_inv s' \<and> r' = r \<and>
    static s' = (sc_balance s - value, fmmap vstat (validators s), fmdrop k (stakers s), punished s) \<and>
    tx_log s' = L @ [Log_DeleteStaker k (s_delegation st)])"
proof -
  let ?s = "s \<lparr> sc_balance := sc_balance s - value, tx_log := L \<rparr>"
  obtain s1 where s1: "on_delegation (s_delegation st) unregister_staker_from_validator ?s = (Inr (), s1)"
    "targets s1 (stake_of (fmdrop k (stakers s))) (count_of (fmdrop k (stakers s)))" "keeps ?s s1"
    using remove_staker_targets [OF inv Some z(1)] by blast
  note S = static_after [OF s1(3)]
  let ?s2 = "s1 \<lparr> stakers := fmdrop k (stakers s1), tx_log := tx_log s1 @ [Log_DeleteStaker k (s_delegation st)] \<rparr>"
  have k: "keeps s (s1 \<lparr> sc_balance := sc_balance s, tx_log := tx_log s \<rparr>)" using S by (simp add: keeps_def static_def)
  have bal: "value \<le> sc_balance s"
    using sc_inv_staker(2) [OF inv Some] z v sc_invD(2) [OF inv, of k] by (simp add: s_total_def)
  have "sc_inv ?s2"
  proof (rule sc_inv_after [OF inv k])
    show "targets (s1 \<lparr> sc_balance := sc_balance s, tx_log := tx_log s \<rparr>) (stake_of (stakers ?s2)) (count_of (stakers ?s2))"
      using s1(2) S targets_cong [of "s1 \<lparr> sc_balance := sc_balance s, tx_log := tx_log s \<rparr>" s1] by simp
    show "stakers_ok (stakers ?s2)" using inv S by (simp add: sc_inv_def stakers_ok_drop)
    show "fsum s_total (stakers ?s2) + sc_balance s = sc_balance ?s2 + fsum s_total (stakers s)"
      using fsum_drop [OF Some, of s_total] S z v bal sc_inv_staker(2) [OF inv Some] by (simp add: s_total_def)
  qed (use S sc_invD(3) [OF inv] in simp_all)
  then show ?thesis
    unfolding outcome_run(2) [where m' = "on_delegation _ _", OF s1(1)]
    using S by (simp add: outcome_simps static_def)
qed

lemma remove_stake_spec:
  assumes inv: "sc_inv s"
  shows "outcome (remove_stake k value s) s (\<lambda>r s'. sc_inv s' \<and> value \<le> sc_balance s \<and>
    (\<exists>st. fmlookup (stakers s) k = Some st \<and> value \<le> s_retired_balance st \<and>
    (if s_total st = value
     then r = Some \<lparr> ds_delegation = s_delegation st \<rparr> \<and>
       static s' = (sc_balance s - value, fmmap vstat (validators s), fmdrop k (stakers s), punished s) \<and>
       tx_log s' = tx_log s @ [Log_RemoveStake k (s_delegation st) value, Log_DeleteStaker k (s_delegation st)]
     else r = None \<and>
       s' = s \<lparr> sc_balance := sc_balance s - value, tx_log := tx_log s @ [Log_RemoveStake k (s_delegation st) value],
         stakers := fmupd k (st \<lparr> s_retired_balance := s_retired_balance st - value \<rparr>) (stakers s) \<rparr>)))"
proof (cases "fmlookup (stakers s) k")
  case (Some st)
  let ?st = "st \<lparr> s_retired_balance := s_retired_balance st - value \<rparr>"
  note st = sc_inv_staker [OF inv Some]
  have bal: "value \<le> sc_balance s" if "value \<le> s_retired_balance st"
    using st(2) sc_invD(2) [OF inv, of k] that by (simp add: s_total_def)
  have tot: "total_balance ?st = Some (s_total st - value)" if "value \<le> s_retired_balance st"
    using total_balance_Some [of ?st] st(3) that by (simp add: s_total_def)
  have keep: "sc_inv (s \<lparr> sc_balance := sc_balance s - value, tx_log := L, stakers := fmupd k ?st (stakers s) \<rparr>)"
    if a: "value \<le> s_retired_balance st" and n: "s_total st \<noteq> value"
      and m: "min_ok (s_active_balance st) (s_inactive_balance st) (s_retired_balance st - value)" for L
  proof (rule sc_inv_replace [OF inv Some keeps_refl])
    show "targets s (add_at (sub_at (stake_of (stakers s)) (s_delegation st) (s_active_balance st))
        (s_delegation ?st) (s_active_balance ?st)) (add_at (sub_at (count_of (stakers s)) (s_delegation st) 1)
        (s_delegation ?st) 1)"
      using sc_invD(1) [OF inv] by (simp add: count_kept [OF Some] stake_kept [OF Some] del: One_nat_def)
    show "staker_ok k ?st"
      using st(1) m a n by (auto simp: staker_ok_def min_ok_def s_total_def)
  qed (use a bal sc_invD(3) [OF inv] in \<open>simp_all add: s_total_def\<close>)
  have z: "s_active_balance st = 0" "s_inactive_balance st = 0" "s_retired_balance st = value"
    if "value \<le> s_retired_balance st" "s_total st \<le> value" using that by (simp_all add: s_total_def)
  have b: "s_active_balance st + s_inactive_balance st \<le> MAX_SAFE_VALUE" "s_retired_balance st - value \<le> MAX_SAFE_VALUE"
    "sc_balance s - value \<le> MAX_SAFE_VALUE"
    using st(3) sc_invD(3) [OF inv] by (simp_all add: s_total_def)
  show ?thesis
  proof (cases "s_total st \<le> value")
    case True
    show ?thesis
    proof (cases "value \<le> s_retired_balance st")
      case a: True
      note z = z [OF a True]
      note D = remove_stake_delete [OF inv Some z(1) z(2) z(3), of "Some \<lparr> ds_delegation = s_delegation st \<rparr>"
          "tx_log s @ [Log_RemoveStake k (s_delegation st) value]"]
      have "s_total st = value" using z by (simp add: s_total_def)
      then show ?thesis
        using Some bal b z a tot D
        by (simp add: remove_stake_def outcome_simps outcome_enforce Let_def)
    qed (use Some in \<open>simp add: remove_stake_def outcome_simps\<close>)
  next
    case False
    then show ?thesis
      using Some bal b keep tot
      by (auto simp: remove_stake_def outcome_simps outcome_enforce Let_def not_less)
  qed
qed (simp add: remove_stake_def outcome_simps)

end
