(* ===== verification/StakingRevert.thy ===== *)
theory StakingRevert
  imports StakingStakerSpec
begin

text \<open>
  Reverting the staking contract's operations. Each operation that succeeds on a consistent state
  is undone by its revert: called with the receipt the operation returned, on the state it left, the
  revert succeeds and restores every part of the state, and it logs the operation's events in the
  opposite order.
\<close>

section \<open>Succeeding computations\<close>

definition succeeds :: "(error + 'a) \<times> staking_state \<Rightarrow> ('a \<Rightarrow> staking_state \<Rightarrow> bool) \<Rightarrow> bool" where
  "succeeds r Q = (case fst r of Inl e \<Rightarrow> False | Inr a \<Rightarrow> Q a (snd r))"

lemma succeeds_run: "m s1 = (Inr a, s2) \<Longrightarrow> succeeds (bind_eff m f s1) Q = succeeds (f a s2) Q"
  "m' s1 = (Inr (), s2) \<Longrightarrow> succeeds (seq_eff m' n s1) Q = succeeds (n s2) Q"
  by (simp_all add: bind_eff_def seq_eff_def)

lemma succeeds_eq: "succeeds r Q \<longleftrightarrow> (\<exists>a s'. r = (Inr a, s') \<and> Q a s')"
  by (cases r; cases "fst r") (auto simp: succeeds_def)

lemma succeeds_checks:
  "succeeds (seq_eff (fail_unless b e) n s1) Q \<longleftrightarrow> b \<and> succeeds (n s1) Q"
  "succeeds (seq_eff (assert_that b) n s1) Q \<longleftrightarrow> b \<and> succeeds (n s1) Q"
  "succeeds (bind_eff (expect x) f s1) Q \<longleftrightarrow> (\<exists>y. x = Some y \<and> succeeds (f y s1) Q)"
  "succeeds (bind_eff (expect_validator a) g s1) Q \<longleftrightarrow> (\<exists>v. fmlookup (validators s1) a = Some v \<and> succeeds (g v s1) Q)"
  "succeeds (bind_eff (expect_staker a) h s1) Q \<longleftrightarrow> (\<exists>st. fmlookup (stakers s1) a = Some st \<and> succeeds (h st s1) Q)"
  unfolding succeeds_eq seq_eff_Inr bind_eff_Inr store_Inr expect_validator_Inr expect_staker_Inr by auto

lemma succeeds_balance:
  "succeeds (seq_eff (add_balance c) n s1) Q \<longleftrightarrow>
     sc_balance s1 + c \<le> MAX_SAFE_VALUE \<and> succeeds (n (s1 \<lparr> sc_balance := sc_balance s1 + c \<rparr>)) Q"
  "succeeds (seq_eff (sub_balance c) n s1) Q \<longleftrightarrow> c \<le> sc_balance s1 \<and> sc_balance s1 - c \<le> MAX_SAFE_VALUE \<and>
     succeeds (n (s1 \<lparr> sc_balance := sc_balance s1 - c \<rparr>)) Q"
  unfolding succeeds_eq seq_eff_Inr add_balance_Inr sub_balance_Inr by auto

lemma succeeds_steps:
  "succeeds (bind_eff (get_validator a) f1 s1) Q = succeeds (f1 (fmlookup (validators s1) a) s1) Q"
  "succeeds (bind_eff (get_staker a) f2 s1) Q = succeeds (f2 (fmlookup (stakers s1) a) s1) Q"
  "succeeds (bind_eff (get_tombstone a) f3 s1) Q = succeeds (f3 (fmlookup (tombstones s1) a) s1) Q"
  "succeeds (seq_eff (put_validator a v) n s1) Q = succeeds (n (s1 \<lparr> validators := fmupd a v (validators s1) \<rparr>)) Q"
  "succeeds (seq_eff (remove_validator a) n s1) Q = succeeds (n (s1 \<lparr> validators := fmdrop a (validators s1) \<rparr>)) Q"
  "succeeds (seq_eff (put_staker a st) n s1) Q = succeeds (n (s1 \<lparr> stakers := fmupd a st (stakers s1) \<rparr>)) Q"
  "succeeds (seq_eff (remove_staker a) n s1) Q = succeeds (n (s1 \<lparr> stakers := fmdrop a (stakers s1) \<rparr>)) Q"
  "succeeds (seq_eff (put_tombstone a t) n s1) Q = succeeds (n (s1 \<lparr> tombstones := fmupd a t (tombstones s1) \<rparr>)) Q"
  "succeeds (seq_eff (remove_tombstone a) n s1) Q = succeeds (n (s1 \<lparr> tombstones := fmdrop a (tombstones s1) \<rparr>)) Q"
  "succeeds (seq_eff (push_log l) n s1) Q = succeeds (n (s1 \<lparr> tx_log := tx_log s1 @ [l] \<rparr>)) Q"
  "succeeds (seq_eff (active_insert a c) n s1) Q =
     succeeds (n (s1 \<lparr> active_validators := fmupd a c (active_validators s1) \<rparr>)) Q"
  "succeeds (bind_eff (active_remove a) f4 s1) Q =
     succeeds (f4 (fmlookup (active_validators s1) a)
       (s1 \<lparr> active_validators := fmdrop a (active_validators s1) \<rparr>)) Q"
  by (rule succeeds_run, simp add: store_Inr active_remove_Inr)+

lemma succeeds_ends:
  "succeeds (ret x s1) P = P x s1"
  "succeeds (put_validator a v s1) R = R () (s1 \<lparr> validators := fmupd a v (validators s1) \<rparr>)"
  "succeeds (put_staker a st s1) R = R () (s1 \<lparr> stakers := fmupd a st (stakers s1) \<rparr>)"
  "succeeds (push_log l s1) R = R () (s1 \<lparr> tx_log := tx_log s1 @ [l] \<rparr>)"
  "succeeds (bind_eff (ret y) f s1) P = succeeds (f y s1) P"
  "succeeds (seq_eff (when_eff b m) n s1) P = succeeds (if b then seq_eff m n s1 else n s1) P"
  "succeeds (seq_eff (bind_eff k h) n s1) P = succeeds (bind_eff k (\<lambda>x. seq_eff (h x) n) s1) P"
  "succeeds (seq_eff (seq_eff m m') n s1) P = succeeds (seq_eff m (seq_eff m' n) s1) P"
  "succeeds (seq_eff (ret u) n s1) P = succeeds (n s1) P"
  by (simp_all add: seq_eff_assoc seq_eff_ret) (simp_all add: succeeds_def store_defs eff_simps)

lemma succeeds_assoc:
  "succeeds (bind_eff (bind_eff k h) g s1) P = succeeds (bind_eff k (\<lambda>x. bind_eff (h x) g) s1) P"
  "succeeds (bind_eff (seq_eff m h') g s1) P = succeeds (seq_eff m (bind_eff h' g) s1) P"
  by (simp_all add: seq_eff_def bind_eff_def split: sum.splits prod.splits)

lemmas succeeds_simps = succeeds_assoc succeeds_checks succeeds_balance succeeds_steps succeeds_ends

section \<open>Undoing an operation\<close>

definition undoes :: "'r sc \<Rightarrow> ('r \<Rightarrow> unit sc) \<Rightarrow> staking_state \<Rightarrow> bool" where
  "undoes m rv s \<longleftrightarrow> (\<forall>r s'. m s = (Inr r, s') \<longrightarrow>
     (\<exists>ls. tx_log s' = tx_log s @ ls \<and> rv r s' = (Inr (), s \<lparr> tx_log := tx_log s' @ rev ls \<rparr>)))"

lemma undoesI:
  assumes "outcome (m s) s Q"
    and "\<And>r s'. Q r s' \<Longrightarrow> \<exists>ls. tx_log s' = tx_log s @ ls \<and>
      succeeds (rv r s') (\<lambda>_ s''. s'' = s \<lparr> tx_log := tx_log s' @ rev ls \<rparr>)"
  shows "undoes m rv s"
  unfolding undoes_def
proof (intro allI impI)
  fix r s'
  assume m: "m s = (Inr r, s')"
  have "Q r s'" using assms(1) by (simp add: m outcome_Inr)
  then show "\<exists>ls. tx_log s' = tx_log s @ ls \<and> rv r s' = (Inr (), s \<lparr> tx_log := tx_log s' @ rev ls \<rparr>)"
    using assms(2) unfolding succeeds_eq by fastforce
qed

lemma state_eqI:
  "sc_balance s = sc_balance s' \<Longrightarrow> active_validators s = active_validators s' \<Longrightarrow> punished s = punished s' \<Longrightarrow>
   validators s = validators s' \<Longrightarrow> stakers s = stakers s' \<Longrightarrow> tombstones s = tombstones s' \<Longrightarrow> tx_log s = tx_log s' \<Longrightarrow>
   s = s'"
  for s s' :: staking_state
  by (rule staking_state.equality) simp_all

lemma restored:
  assumes "sc_inv s" "targets s'' (stake_of (stakers s)) (count_of (stakers s))" "static s'' = static s" "tx_log s'' = L"
  shows "s'' = s \<lparr> tx_log := L \<rparr>"
proof -
  have "validators s'' = validators s \<and> tombstones s'' = tombstones s \<and> active_validators s'' = active_validators s"
    by (rule targets_determined [OF assms(2) sc_invD(1) [OF assms(1)]]) (use assms(3) in \<open>simp add: static_def\<close>)
  then show ?thesis using assms(3,4) by (intro state_eqI) (simp_all add: static_def)
qed

lemma targets_frame:
  "targets (s \<lparr> stakers := S \<rparr>) x n = targets s x n" "targets (s \<lparr> tx_log := l \<rparr>) x n = targets s x n"
  "targets (s \<lparr> sc_balance := b \<rparr>) x n = targets s x n"
  by (rule targets_cong; simp)+

section \<open>The validators' operations\<close>

lemma restore_at: "fmlookup m a = Some v \<Longrightarrow> v' = v \<Longrightarrow> fmupd a v' m = m"
  by simp

lemma validator_same:
  "v_inactive_from v = x \<Longrightarrow> v \<lparr> v_inactive_from := x \<rparr> = v"
  "v_inactive_from v = x \<Longrightarrow> v \<lparr> v_inactive_from := x, v_jailed_from := v_jailed_from v \<rparr> = v"
  "v \<lparr> v_jailed_from := v_jailed_from v \<rparr> = v"
  "\<not> v_retired v \<Longrightarrow> v \<lparr> v_retired := False \<rparr> = v"
  "\<not> v_retired v \<Longrightarrow> v_inactive_from v = x \<Longrightarrow> v \<lparr> v_retired := False, v_inactive_from := x \<rparr> = v"
  "v \<lparr> v_signal_data := v_signal_data v \<rparr> = v"
  "v \<lparr> v_signing_key := v_signing_key v, v_voting_key := v_voting_key v, v_reward_address := v_reward_address v,
     v_signal_data := v_signal_data v \<rparr> = v"
  by (cases v; simp)+

lemma create_validator_undo:
  assumes inv: "sc_inv s" and bound: "sc_balance s + deposit \<le> MAX_SAFE_VALUE"
  shows "undoes (create_validator E a sk vk ra sd deposit ifr jf rtd bn)
    (\<lambda>_. revert_create_validator a deposit) s"
  by (rule undoesI, rule create_validator_spec [OF inv bound])
    (use target_okD_novalidator [OF sc_invD(1) [OF inv], of a] bound in
     \<open>auto simp: revert_create_validator_def succeeds_simps Let_def intro!: state_eqI split: if_splits\<close>)

lemma update_validator_undo:
  assumes inv: "sc_inv s"
  shows "undoes (update_validator a sk vk ra sd) (revert_update_validator a) s"
  by (rule undoesI, rule update_validator_spec [OF inv])
    (auto simp: revert_update_validator_def succeeds_simps validator_same intro!: state_eqI)

lemma set_signal_data_undo:
  assumes inv: "sc_inv s"
  shows "undoes (set_signal_data E a signer upd) (revert_set_signal_data a) s"
  by (rule undoesI, rule set_signal_data_spec [OF inv])
    (auto simp: revert_set_signal_data_def succeeds_simps validator_same intro!: state_eqI)

lemma deactivate_validator_undo:
  assumes inv: "sc_inv s"
  shows "undoes (deactivate_validator E a signer bn) (\<lambda>_. revert_deactivate_validator a) s"
  by (rule undoesI, rule deactivate_validator_spec [OF inv])
    (use active_lookup [OF inv] in \<open>auto simp: revert_deactivate_validator_def succeeds_simps validator_same
      is_active_def intro!: state_eqI\<close>)

lemma reactivate_validator_undo:
  assumes inv: "sc_inv s"
  shows "undoes (reactivate_validator E a signer bn) (revert_reactivate_validator a) s"
  by (rule undoesI, rule reactivate_validator_spec [OF inv])
    (use active_lookup [OF inv] in \<open>auto simp: revert_reactivate_validator_def succeeds_simps validator_same
      is_active_def intro!: state_eqI\<close>)

lemma jail_validator_undo:
  assumes inv: "sc_inv s"
  shows "undoes (jail_validator E a bn) (revert_jail_validator a) s"
proof (rule undoesI, rule jail_validator_spec [OF inv], elim conjE exE)
  fix r s' v
  let ?l = "Log_JailValidator a bn (v_jailed_from v = None) #
      (if is_active v then [Log_DeactivateValidator a (election_block_after (env_policy E) bn)] else [])"
  assume v: "fmlookup (validators s) a = Some v"
    and r: "r = \<lparr> jvr_newly_deactivated = is_active v, jvr_old_jailed_from = v_jailed_from v \<rparr>"
    and s': "s' = s \<lparr> active_validators := fmdrop a (active_validators s),
      validators := fmupd a (v \<lparr> v_inactive_from := (if is_active v then Some (election_block_after (env_policy E) bn)
          else v_inactive_from v), v_jailed_from := Some bn \<rparr>) (validators s),
      tx_log := tx_log s @ ?l \<rparr>"
  have "tx_log s' = tx_log s @ ?l" by (simp add: s')
  moreover have "succeeds (revert_jail_validator a r s') (\<lambda>_ s''. s'' = s \<lparr> tx_log := tx_log s' @ rev ?l \<rparr>)"
    using active_lookup [OF inv v] v
    by (cases "is_active v") (auto simp: revert_jail_validator_def succeeds_simps Let_def s' r validator_same is_active_def
      intro!: state_eqI)
  ultimately show "\<exists>ls. tx_log s' = tx_log s @ ls \<and>
      succeeds (revert_jail_validator a r s') (\<lambda>_ s''. s'' = s \<lparr> tx_log := tx_log s' @ rev ls \<rparr>)" by blast
qed

lemma retire_validator_undo:
  assumes inv: "sc_inv s"
  shows "undoes (retire_validator E a bn) (revert_retire_validator a) s"
proof (rule undoesI, rule retire_validator_spec [OF inv], elim conjE exE)
  fix r s' v
  let ?l = "Log_RetireValidator a #
        (if is_active v then [Log_DeactivateValidator a (election_block_after (env_policy E) bn)] else [])"
  assume v: "fmlookup (validators s) a = Some v" "\<not> v_retired v" and r: "r = \<lparr> rt_was_active = is_active v \<rparr>"
    and s': "s' = s \<lparr> tx_log := tx_log s @ ?l, active_validators := fmdrop a (active_validators s),
      validators := fmupd a (v \<lparr> v_retired := True, v_inactive_from := (if is_active v
          then Some (election_block_after (env_policy E) bn) else v_inactive_from v) \<rparr>) (validators s) \<rparr>"
  have "tx_log s' = tx_log s @ ?l" by (simp add: s')
  moreover have "succeeds (revert_retire_validator a r s') (\<lambda>_ s''. s'' = s \<lparr> tx_log := tx_log s' @ rev ?l \<rparr>)"
    using active_lookup [OF inv v(1)] v
    by (cases "is_active v") (auto simp: revert_retire_validator_def succeeds_simps Let_def s' r validator_same is_active_def
      intro!: state_eqI)
  ultimately show "\<exists>ls. tx_log s' = tx_log s @ ls \<and>
      succeeds (revert_retire_validator a r s') (\<lambda>_ s''. s'' = s \<lparr> tx_log := tx_log s' @ rev ls \<rparr>)" by blast
qed

lemma delete_validator_undo:
  assumes inv: "sc_inv s"
  shows "undoes (delete_validator E a bn value) (revert_delete_validator a value) s"
proof (rule undoesI, rule delete_validator_spec [OF inv], elim conjE exE)
  fix r s' x and v :: validator
  let ?l = "[Log_DeleteValidator a (v_reward_address v)]"
  assume v: "fmlookup (validators s) a = Some v" "value = v_deposit v" "v_retired v" "v_inactive_from v = Some x"
    and r: "r = \<lparr> dv_signing_key = v_signing_key v, dv_voting_key = v_voting_key v, dv_reward_address = v_reward_address v,
      dv_signal_data = v_signal_data v, dv_inactive_from = x, dv_jailed_from = v_jailed_from v \<rparr>"
    and s': "s' = deleted_state s a v (tx_log s @ ?l)"
  note D = target_okD [OF sc_invD(1) [OF inv] v(1)]
  have dep: "v_deposit v \<le> sc_balance s" using sc_invD(2) [OF inv, of a] v(1) by (simp add: dep_def)
  have le: "v_deposit v \<le> v_total_stake v" "v_total_stake v \<le> MAX_SAFE_VALUE"
    using D(2) stake_bound [OF inv, of a] v(1) by (simp_all add: dep_def)
  have z: "v_num_stakers v = 0 \<Longrightarrow> v_total_stake v = v_deposit v"
    using D(2,3) of_nat_u64_0 [OF sc_invD(6) [OF inv], of a] count_of_zero [of "stakers s" a] by simp
  have "succeeds (revert_delete_validator a value r s') (\<lambda>_ s''. s'' = s \<lparr> tx_log := tx_log s' @ rev ?l \<rparr>)"
  proof (cases "v_num_stakers v = 0")
    case True
    then show ?thesis
      using v D(1,4) dep z sc_invD(3) [OF inv]
      by (simp add: revert_delete_validator_def succeeds_simps Let_def s' r deleted_state_def)
  next
    case False
    then have "0 < v_num_stakers v" by (simp add: word_greater_zero_iff)
    then show ?thesis
      using v D(1,4) dep le sc_invD(3) [OF inv]
      by (simp add: revert_delete_validator_def succeeds_simps Let_def s' r deleted_state_def)
  qed
  then show "\<exists>ls. tx_log s' = tx_log s @ ls \<and>
      succeeds (revert_delete_validator a value r s') (\<lambda>_ s''. s'' = s \<lparr> tx_log := tx_log s' @ rev ls \<rparr>)"
    by (intro exI [of _ ?l]) (simp add: s' deleted_state_def)
qed

section \<open>The stakers' operations\<close>

lemma create_staker_undo:
  assumes inv: "sc_inv s" and bound: "sc_balance s + (value + ib) \<le> MAX_SAFE_VALUE"
    and minimum: "MINIMUM_STAKE \<le> value + ib"
  shows "undoes (create_staker k value d ib ifr) (\<lambda>_. revert_create_staker k value) s"
proof (rule undoesI, rule create_staker_spec [OF inv bound minimum], elim conjE)
  fix s'
  let ?st = "\<lparr> s_address = k, s_active_balance = value, s_inactive_balance = ib, s_inactive_from = ifr,
        s_retired_balance = 0, s_delegation = d \<rparr>"
  let ?l = "Log_CreateStaker k d value"
  assume inv': "sc_inv s'" and new: "fmlookup (stakers s) k = None"
    and st: "static s' = (sc_balance s + (value + ib), fmmap vstat (validators s), fmupd k ?st (stakers s), punished s)"
    and l: "tx_log s' = tx_log s @ [?l]"
  have k: "fmlookup (stakers s') k = Some ?st" "fmdrop k (stakers s') = stakers s"
    using st new by (auto simp: static_def)
  let ?s = "s' \<lparr> sc_balance := sc_balance s \<rparr>"
  have t: "targets ?s (stake_of (stakers s')) (count_of (stakers s'))"
    using sc_invD(1) [OF inv'] by (simp add: targets_frame)
  have x: "sub_at (stake_of (stakers s')) d value = stake_of (stakers s)"
    "sub_at (count_of (stakers s')) d 1 = count_of (stakers s)"
    using stake_of_drop [OF k(1)] count_of_drop [OF k(1)] k(2) by simp_all
  have b: "0 < count_of (stakers s') a \<and> count_of (stakers s') a < 2 ^ 64 \<and> value \<le> stake_of (stakers s') a \<and>
      (count_of (stakers s') a = 1 \<longrightarrow> stake_of (stakers s') a = value) \<and> dep ?s a + stake_of (stakers s') a \<le> MAX_SAFE_VALUE"
    if "d = Some a" for a
    using that count_of_member [OF k(1)] stake_of_member [OF k(1)] count_of_one [OF k(1)] sc_invD(6) [OF inv', of a]
      stake_bound [OF inv', of a] by (simp add: dep_def)
  obtain s1 where s1: "on_delegation d (\<lambda>a. seq_eff (when_eff True (decrease_stake_from_validator a value))
      (unregister_staker_from_validator a)) ?s = (Inr (), s1)"
    "targets s1 (stake_of (stakers s)) (count_of (stakers s))" "keeps ?s s1"
    using on_decrease_unregister [OF t, of d "value" True] b unfolding x by blast
  note S = static_after [OF s1(3)]
  have "s1 \<lparr> stakers := fmdrop k (stakers s1), tx_log := tx_log s1 @ [?l] \<rparr> = s \<lparr> tx_log := tx_log s' @ [?l] \<rparr>"
    by (rule restored [OF inv]) (use S k st s1(2) in \<open>simp_all add: static_def targets_frame\<close>)
  moreover have "sc_balance s' - (value + ib) = sc_balance s" "sc_balance s \<le> MAX_SAFE_VALUE"
    using st bound by (simp_all add: static_def)
  ultimately have "succeeds (revert_create_staker k value s') (\<lambda>_ s''. s'' = s \<lparr> tx_log := tx_log s' @ [?l] \<rparr>)"
    using k(1) st bound S
    by (simp add: revert_create_staker_def succeeds_simps succeeds_run(2) [where m' = "on_delegation _ _", OF s1(1) [unfolded when_eff_bool]] static_def)
  then show "\<exists>ls. tx_log s' = tx_log s @ ls \<and>
      succeeds (revert_create_staker k value s') (\<lambda>_ s''. s'' = s \<lparr> tx_log := tx_log s' @ rev ls \<rparr>)"
    by (intro exI [of _ "[?l]"]) (simp add: l)
qed

text \<open>A staker \<open>st\<close> that was replaced by \<open>st'\<close> is put back.\<close>

lemma stake_of_back:
  assumes "fmlookup m k = Some st" "m' = fmupd k st' m"
  shows "add_at (sub_at (stake_of m') (s_delegation st') (s_active_balance st')) (s_delegation st) (s_active_balance st) =
      stake_of m"
    "add_at (sub_at (count_of m') (s_delegation st') 1) (s_delegation st) 1 = count_of m"
    "fmlookup m' k = Some st'" "fmupd k st m' = m"
  using stake_of_change [of m' k st' st] count_of_change [of m' k st' st] assms by simp_all

lemma retire_stake_undo:
  assumes inv: "sc_inv s"
  shows "undoes (retire_stake E k amount bn) (revert_retire_stake k amount) s"
proof (rule undoesI, rule retire_stake_spec [OF inv], elim conjE exE)
  fix r s' and st :: staker
  let ?st = "retired_staker st amount"
  let ?l = "Log_RetireStake k (s_delegation st) (s_inactive_balance ?st) (s_inactive_from ?st) (s_retired_balance ?st)"
  assume st: "fmlookup (stakers s) k = Some st" "amount \<le> s_inactive_balance st"
    and r: "r = \<lparr> rs_old_inactive_from = s_inactive_from st \<rparr>"
    and s': "s' = s \<lparr> tx_log := tx_log s @ [?l], stakers := fmupd k ?st (stakers s) \<rparr>"
  have "s_retired_balance st \<le> MAX_SAFE_VALUE" "s_inactive_balance st \<le> MAX_SAFE_VALUE"
    using sc_inv_staker(3) [OF inv st(1)] by (simp_all add: s_total_def)
  then have "succeeds (revert_retire_stake k amount r s') (\<lambda>_ s''. s'' = s \<lparr> tx_log := tx_log s' @ [?l] \<rparr>)"
    using st by (auto simp: revert_retire_stake_def succeeds_simps Let_def s' r retired_staker_def intro!: state_eqI)
  then show "\<exists>ls. tx_log s' = tx_log s @ ls \<and>
      succeeds (revert_retire_stake k amount r s') (\<lambda>_ s''. s'' = s \<lparr> tx_log := tx_log s' @ rev ls \<rparr>)"
    by (intro exI [of _ "[?l]"]) (simp add: s')
qed

lemma add_stake_undo:
  assumes inv: "sc_inv s" and bound: "sc_balance s + value \<le> MAX_SAFE_VALUE"
  shows "undoes (add_stake k value) (\<lambda>_. revert_add_stake k value) s"
proof (rule undoesI, rule add_stake_spec [OF inv bound], elim conjE exE)
  fix s' and st :: staker
  let ?st = "st \<lparr> s_active_balance := s_active_balance st + value \<rparr>" and ?d = "s_delegation st"
  let ?l = "Log_Stake k ?d value"
  assume inv': "sc_inv s'" and S: "fmlookup (stakers s) k = Some st"
    and st: "static s' = (sc_balance s + value, fmmap vstat (validators s), fmupd k ?st (stakers s), punished s)"
    and l: "tx_log s' = tx_log s @ [?l]"
  have m: "stakers s' = fmupd k ?st (stakers s)" using st by (simp add: static_def)
  note B = stake_of_back [OF S m]
  have x: "sub_at (stake_of (stakers s')) ?d value = stake_of (stakers s)" "count_of (stakers s') = count_of (stakers s)"
    using B(1) stake_of_member [OF B(3)] count_of_same [OF S, of ?st] m by (cases ?d; auto)+
  have e: "exists_target s' a \<and> value \<le> stake_of (stakers s') a \<and> dep s' a + stake_of (stakers s') a \<le> MAX_SAFE_VALUE"
    if "?d = Some a" for a
    using staker_exists [OF inv' B(3)] stake_of_member [OF B(3)] stake_bound [OF inv', of a] that by auto
  obtain s1 where s1: "on_delegation ?d (\<lambda>a. decrease_stake_from_validator a value) s' = (Inr (), s1)"
    "targets s1 (stake_of (stakers s)) (count_of (stakers s))" "keeps s' s1"
    using on_decrease [OF sc_invD(1) [OF inv'], of ?d "value"] e unfolding x by blast
  note S1 = static_after [OF s1(3)]
  have "s1 \<lparr> sc_balance := sc_balance s1 - value, tx_log := tx_log s1 @ [?l],
      stakers := fmupd k (?st \<lparr> s_active_balance := s_active_balance st \<rparr>) (stakers s1) \<rparr> = s \<lparr> tx_log := tx_log s' @ [?l] \<rparr>"
    by (rule restored [OF inv]) (use S S1 B st s1(2) in \<open>simp_all add: static_def targets_frame\<close>)
  moreover have "s_active_balance st \<le> MAX_SAFE_VALUE" "sc_balance s \<le> MAX_SAFE_VALUE"
    using sc_inv_staker(3) [OF inv S] bound by (simp_all add: s_total_def)
  ultimately have "succeeds (revert_add_stake k value s') (\<lambda>_ s''. s'' = s \<lparr> tx_log := tx_log s' @ [?l] \<rparr>)"
    using B(3) S1 st
    by (simp add: revert_add_stake_def succeeds_simps succeeds_run(2) [where m' = "on_delegation _ _", OF s1(1)] static_def)
  then show "\<exists>ls. tx_log s' = tx_log s @ ls \<and>
      succeeds (revert_add_stake k value s') (\<lambda>_ s''. s'' = s \<lparr> tx_log := tx_log s' @ rev ls \<rparr>)"
    by (intro exI [of _ "[?l]"]) (simp add: l)
qed

lemma set_active_stake_undo:
  assumes inv: "sc_inv s"
  shows "undoes (set_active_stake E k new bn) (revert_set_active_stake k new) s"
proof (rule undoesI, rule set_active_stake_spec [OF inv], unfold Let_def, elim conjE exE)
  fix r s' and st :: staker
  let ?st = "set_active_staker (env_policy E) st new bn" and ?d = "s_delegation st"
  let ?l = "Log_SetActiveStake k ?d new (s_inactive_balance ?st) (s_inactive_from ?st)"
  assume inv': "sc_inv s'" and S: "fmlookup (stakers s) k = Some st"
    and le: "new \<le> s_active_balance st + s_inactive_balance st"
    and r: "r = \<lparr> sa_old_inactive_from = s_inactive_from st, sa_old_active_balance = s_active_balance st \<rparr>"
    and st: "static s' = (sc_balance s, fmmap vstat (validators s), fmupd k ?st (stakers s), punished s)"
    and l: "tx_log s' = tx_log s @ [?l]"
  note I = set_active_staker_def [of "env_policy E" st new bn, unfolded Let_def]
  have m: "stakers s' = fmupd k ?st (stakers s)" using st by (simp add: static_def)
  note B = stake_of_back [OF S m]
  have x: "add_at (sub_at (stake_of (stakers s')) ?d new) ?d (s_active_balance st) = stake_of (stakers s)"
    "count_of (stakers s') = count_of (stakers s)"
    using B(1) count_of_same [OF S, of ?st] m by (auto simp: I)
  have e: "exists_target s' a \<and> new \<le> stake_of (stakers s') a \<and>
      dep s' a + (stake_of (stakers s') a - new + s_active_balance st) \<le> MAX_SAFE_VALUE \<and>
      dep s' a + stake_of (stakers s') a \<le> MAX_SAFE_VALUE" if "?d = Some a" for a
  proof -
    have "stake_of (stakers s') a - new + s_active_balance st = stake_of (stakers s) a"
      using fun_cong [OF x(1), of a] that by simp
    moreover have "dep s' a = dep s a"
      using static_at [of "validators s'" "validators s" a] st
      by (cases "fmlookup (validators s') a"; cases "fmlookup (validators s) a")
        (auto simp: dep_def static_def dest: vstat_eqD(1))
    ultimately show ?thesis
      using staker_exists [OF inv' B(3), of a] stake_of_member [OF B(3), of a] stake_bound [OF inv', of a]
        stake_bound [OF inv, of a] that by (simp add: I)
  qed
  obtain s1 where s1: "on_delegation ?d (\<lambda>a. update_stake_for_validator a new (s_active_balance st)) s' = (Inr (), s1)"
    "targets s1 (stake_of (stakers s)) (count_of (stakers s))" "keeps s' s1"
    using on_update [OF sc_invD(1) [OF inv'], of ?d new "s_active_balance st"] e unfolding x by blast
  note S1 = static_after [OF s1(3)]
  have "s1 \<lparr> tx_log := tx_log s1 @ [?l], stakers := fmupd k st (stakers s1) \<rparr> = s \<lparr> tx_log := tx_log s' @ [?l] \<rparr>"
    by (rule restored [OF inv]) (use S S1 B st s1(2) in \<open>simp_all add: static_def targets_frame\<close>)
  moreover have "s_active_balance st + s_inactive_balance st \<le> MAX_SAFE_VALUE" "s_inactive_balance st \<le> MAX_SAFE_VALUE"
    using sc_inv_staker(3) [OF inv S] by (simp_all add: s_total_def)
  moreover have "?st \<lparr> s_inactive_from := s_inactive_from st, s_active_balance := s_active_balance st,
      s_inactive_balance := s_inactive_balance st \<rparr> = st" by (rule staker.equality) (simp_all add: I)
  ultimately have "succeeds (revert_set_active_stake k new r s') (\<lambda>_ s''. s'' = s \<lparr> tx_log := tx_log s' @ [?l] \<rparr>)"
    using B(3) S1 st le
    by (simp add: revert_set_active_stake_def non_retired_balance_def succeeds_simps Let_def r
        succeeds_run(2) [where m' = "on_delegation _ _", OF s1(1)] static_def I)
  then show "\<exists>ls. tx_log s' = tx_log s @ ls \<and>
      succeeds (revert_set_active_stake k new r s') (\<lambda>_ s''. s'' = s \<lparr> tx_log := tx_log s' @ rev ls \<rparr>)"
    by (intro exI [of _ "[?l]"]) (simp add: l)
qed

lemma deleted_staker_back:
  assumes inv: "sc_inv s" "sc_inv s'" and S: "fmlookup (stakers s) k = Some st"
    and z: "s_retired_balance st = s_total st"
    and st: "static s' = (sc_balance s - s_total st, fmmap vstat (validators s), fmdrop k (stakers s), punished s)"
    and b: "s_total st \<le> sc_balance s"
  shows "succeeds (revert_remove_stake k (s_total st) (Some \<lparr> ds_delegation = s_delegation st \<rparr>) s')
    (\<lambda>_ s''. s'' = s \<lparr> tx_log := tx_log s' @ [Log_DeleteStaker k (s_delegation st), Log_RemoveStake k (s_delegation st) (s_total st)] \<rparr>)"
proof -
  let ?d = "s_delegation st" and ?v = "s_total st"
  let ?st = "\<lparr> s_address = k, s_active_balance = 0, s_inactive_balance = 0, s_inactive_from = None,
      s_retired_balance = ?v, s_delegation = ?d \<rparr>"
  have ze: "s_active_balance st = 0" "s_inactive_balance st = 0" using z by (simp_all add: s_total_def)
  have e: "?st = st"
    by (rule staker.equality) (use sc_inv_staker(1) [OF inv(1) S] z ze in \<open>simp_all add: staker_ok_def\<close>)
  have m: "stakers s' = fmdrop k (stakers s)" using st by (simp add: static_def)
  have x: "stake_of (stakers s') = stake_of (stakers s)" "add_at (count_of (stakers s')) ?d 1 = count_of (stakers s)"
    unfolding m stake_of_drop [OF S] count_of_drop [OF S]
    using ze count_of_member [OF S] by (cases ?d; auto)+
  obtain s1 where s1: "on_delegation ?d (\<lambda>a. register_staker_on_validator a True) s' = (Inr (), s1)"
    "targets s1 (stake_of (stakers s)) (count_of (stakers s))" "keeps s' s1"
    using on_register [OF sc_invD(1) [OF inv(2)], of ?d True] unfolding x by blast
  note S1 = static_after [OF s1(3)]
  have "s1 \<lparr> sc_balance := sc_balance s1 + ?v, tx_log := tx_log s1 @ [Log_DeleteStaker k ?d, Log_RemoveStake k ?d ?v],
      stakers := fmupd k st (stakers s1) \<rparr> = s \<lparr> tx_log := tx_log s' @ [Log_DeleteStaker k ?d, Log_RemoveStake k ?d ?v] \<rparr>"
    by (rule restored [OF inv(1)]) (use S S1 m b st s1(2) in \<open>simp_all add: static_def targets_frame\<close>)
  then show ?thesis
    using S1 st b sc_invD(3) [OF inv(1)]
    by (simp add: revert_remove_stake_def succeeds_simps succeeds_run(2) [where m' = "on_delegation _ _", OF s1(1)]
        static_def e)
qed

lemma remove_stake_undo:
  assumes inv: "sc_inv s"
  shows "undoes (remove_stake k value) (revert_remove_stake k value) s"
proof (rule undoesI, rule remove_stake_spec [OF inv], elim conjE exE)
  fix r s' and st :: staker
  assume inv': "sc_inv s'" and S: "fmlookup (stakers s) k = Some st" and b: "value \<le> sc_balance s"
    and v: "value \<le> s_retired_balance st"
    and c: "if s_total st = value
     then r = Some \<lparr> ds_delegation = s_delegation st \<rparr> \<and>
       static s' = (sc_balance s - value, fmmap vstat (validators s), fmdrop k (stakers s), punished s) \<and>
       tx_log s' = tx_log s @ [Log_RemoveStake k (s_delegation st) value, Log_DeleteStaker k (s_delegation st)]
     else r = None \<and>
       s' = s \<lparr> sc_balance := sc_balance s - value, tx_log := tx_log s @ [Log_RemoveStake k (s_delegation st) value],
         stakers := fmupd k (st \<lparr> s_retired_balance := s_retired_balance st - value \<rparr>) (stakers s) \<rparr>"
  show "\<exists>ls. tx_log s' = tx_log s @ ls \<and>
      succeeds (revert_remove_stake k value r s') (\<lambda>_ s''. s'' = s \<lparr> tx_log := tx_log s' @ rev ls \<rparr>)"
  proof (cases "s_total st = value")
    case True
    have "s_retired_balance st = s_total st" using v True by (simp add: s_total_def)
    then show ?thesis
      using c True b deleted_staker_back [OF inv inv' S]
      by (intro exI [of _ "[Log_RemoveStake k (s_delegation st) value, Log_DeleteStaker k (s_delegation st)]"]) simp
  next
    case False
    have "s_retired_balance st \<le> MAX_SAFE_VALUE" using sc_inv_staker(3) [OF inv S] by (simp add: s_total_def)
    then show ?thesis
      using c False b v S sc_invD(3) [OF inv]
      by (auto simp: revert_remove_stake_def succeeds_simps intro!: state_eqI)
  qed
qed

lemma update_staker_back:
  assumes inv: "sc_inv s" "sc_inv s'" and S: "fmlookup (stakers s) k = Some st"
    and z: "s_delegation st \<noteq> None \<longrightarrow> s_active_balance st = 0" and m: "stakers s' = fmupd k st' (stakers s)"
  shows "\<exists>s1 s2. on_delegation (s_delegation st') (\<lambda>a. seq_eff (when_eff (s_active_balance st' \<noteq> 0)
        (decrease_stake_from_validator a (s_active_balance st'))) (unregister_staker_from_validator a)) s' = (Inr (), s1) \<and>
    on_delegation (s_delegation st) (\<lambda>a. register_staker_on_validator a True) (s1 \<lparr> tx_log := tx_log s1 @ [l] \<rparr>) = (Inr (), s2) \<and>
    targets s2 (stake_of (stakers s)) (count_of (stakers s)) \<and> keeps (s' \<lparr> tx_log := tx_log s' @ [l] \<rparr>) s2"
proof -
  let ?d = "s_delegation st" and ?d' = "s_delegation st'" and ?w = "s_active_balance st'"
  note B = stake_of_back [OF S m]
  have b: "0 < count_of (stakers s') a \<and> count_of (stakers s') a < 2 ^ 64 \<and> ?w \<le> stake_of (stakers s') a \<and>
      (count_of (stakers s') a = 1 \<longrightarrow> stake_of (stakers s') a = ?w) \<and> dep s' a + stake_of (stakers s') a \<le> MAX_SAFE_VALUE"
    if "?d' = Some a" for a
    using that count_of_member [OF B(3)] stake_of_member [OF B(3)] count_of_one [OF B(3)] sc_invD(6) [OF inv(2), of a]
      stake_bound [OF inv(2), of a] by simp
  obtain s1 where s1: "on_delegation ?d' (\<lambda>a. seq_eff (when_eff (?w \<noteq> 0) (decrease_stake_from_validator a ?w))
      (unregister_staker_from_validator a)) s' = (Inr (), s1)"
    "targets s1 (sub_at (stake_of (stakers s')) ?d' ?w) (sub_at (count_of (stakers s')) ?d' 1)" "keeps s' s1"
    using on_decrease_unregister [OF sc_invD(1) [OF inv(2)], of ?d' ?w "?w \<noteq> 0"] b by blast
  have x: "sub_at (stake_of (stakers s')) ?d' ?w = stake_of (stakers s)" using B(1) z by (cases ?d) auto
  let ?s = "s1 \<lparr> tx_log := tx_log s1 @ [l] \<rparr>"
  have t: "targets ?s (stake_of (stakers s)) (sub_at (count_of (stakers s')) ?d' 1)"
    using s1(2) x by (simp add: targets_frame)
  obtain s2 where s2: "on_delegation ?d (\<lambda>a. register_staker_on_validator a True) ?s = (Inr (), s2)"
    "targets s2 (stake_of (stakers s)) (count_of (stakers s))" "keeps ?s s2"
    using on_register [OF t, of ?d True] B(2) by auto
  have "keeps (s' \<lparr> tx_log := tx_log s' @ [l] \<rparr>) s2" using s1(3) s2(3) by (simp add: keeps_def static_def)
  then show ?thesis using s1(1) s2(1,2) by blast
qed

lemma update_staker_undo:
  assumes inv: "sc_inv s"
  shows "undoes (update_staker E k d all bn) (revert_update_staker k) s"
proof (rule undoesI, rule update_staker_spec [OF inv], unfold Let_def, elim conjE exE)
  fix r s' and st :: staker
  let ?st = "updated_staker st d all" and ?d = "s_delegation st"
  let ?l = "Log_UpdateStaker k ?d d (s_active_balance ?st) (s_inactive_from ?st)"
  assume inv': "sc_inv s'" and S: "fmlookup (stakers s) k = Some st"
    and z: "?d \<noteq> None \<longrightarrow> s_active_balance st = 0 \<and> released (env_policy E) s st bn"
    and r: "r = \<lparr> sr_delegation = ?d, sr_active_balance = s_active_balance st, sr_inactive_from = s_inactive_from st \<rparr>"
    and st: "static s' = (sc_balance s, fmmap vstat (validators s), fmupd k ?st (stakers s), punished s)"
    and l: "tx_log s' = tx_log s @ [?l]"
  have m: "stakers s' = fmupd k ?st (stakers s)" using st by (simp add: static_def)
  have z': "?d \<noteq> None \<longrightarrow> s_active_balance st = 0" using z by blast
  obtain s1 s2 where s1: "on_delegation (s_delegation ?st) (\<lambda>a. seq_eff (when_eff (s_active_balance ?st \<noteq> 0)
        (decrease_stake_from_validator a (s_active_balance ?st))) (unregister_staker_from_validator a)) s' = (Inr (), s1)"
    and s2: "on_delegation ?d (\<lambda>a. register_staker_on_validator a True) (s1 \<lparr> tx_log := tx_log s1 @ [?l] \<rparr>) = (Inr (), s2)"
      "targets s2 (stake_of (stakers s)) (count_of (stakers s))" "keeps (s' \<lparr> tx_log := tx_log s' @ [?l] \<rparr>) s2"
    using update_staker_back [OF inv inv' S z' m, of ?l] by blast
  note S2 = static_after [OF s2(3)]
  have f: "s2 \<lparr> stakers := fmupd k st (stakers s2) \<rparr> = s \<lparr> tx_log := tx_log s' @ [?l] \<rparr>"
    by (rule restored [OF inv]) (use S S2 m st s2(2) in \<open>simp_all add: static_def targets_frame\<close>)
  have b: "s_active_balance st + s_inactive_balance st \<le> MAX_SAFE_VALUE" "s_inactive_balance st \<le> MAX_SAFE_VALUE"
    using sc_inv_staker(3) [OF inv S] by (simp_all add: s_total_def)
  have n: "s_active_balance ?st + s_inactive_balance ?st = s_active_balance st + s_inactive_balance st"
    by (simp add: updated_staker_def)
  have e: "?st \<lparr> s_delegation := ?d, s_active_balance := s_active_balance st, s_inactive_balance := s_inactive_balance st,
      s_inactive_from := s_inactive_from st \<rparr> = st"
    by (rule staker.equality) (simp_all add: updated_staker_def)
  have "succeeds (revert_update_staker k r s') (\<lambda>_ s''. s'' = s \<lparr> tx_log := tx_log s' @ [?l] \<rparr>)"
    unfolding revert_update_staker_def Let_def succeeds_checks(5)
    by (rule exI [of _ ?st]) (use m b in \<open>simp add: succeeds_run(2) [where m' = "on_delegation _ _", OF s1 [unfolded updated_staker_simps]]
      succeeds_run(2) [where m' = "on_delegation _ _", OF s2(1)] succeeds_simps non_retired_balance_def n e f r
      del: neq0_conv\<close>)
  then show "\<exists>ls. tx_log s' = tx_log s @ ls \<and>
      succeeds (revert_update_staker k r s') (\<lambda>_ s''. s'' = s \<lparr> tx_log := tx_log s' @ rev ls \<rparr>)"
    by (intro exI [of _ "[?l]"]) (simp add: l)
qed

end
