(* ===== verification/StakingSafety.thy ===== *)
theory StakingSafety
  imports StakingContract StakingRevert
begin

text \<open>
  The staking contract as a whole: every transaction and every inherent keeps the ledger
  consistent, moves exactly the amount it carries, fails without a trace, and is undone by its
  revert.
\<close>

section \<open>Outcomes of composed handlers\<close>

lemma outcome_mono: "outcome r s Q \<Longrightarrow> (\<And>a s'. Q a s' \<Longrightarrow> R a s') \<Longrightarrow> outcome r s R"
  by (auto simp: outcome_def split: sum.splits error.splits)

lemma outcome_into_receipt:
  "outcome (into_receipt c m s) s Q \<longleftrightarrow> outcome (m s) s (\<lambda>x s'. Q (Some (serialize_to_vec c x)) s')"
  by (cases "m s"; cases "fst (m s)") (auto simp: into_receipt_def bind_eff_def ret_def outcome_def split: error.splits)

lemma outcome_no_receipt: "outcome (no_receipt m s) s Q \<longleftrightarrow> outcome (m s) s (\<lambda>x s'. Q None s')"
  by (cases "m s"; cases "fst (m s)") (auto simp: no_receipt_def seq_eff_def bind_eff_def ret_def outcome_def split: error.splits)

lemmas outcome_receipts = outcome_into_receipt outcome_no_receipt

lemma outcome_result: "outcome (bind_eff (of_result r) f s) s Q \<longleftrightarrow> (\<forall>x. r = Inr x \<longrightarrow> outcome (f x s) s Q)"
  by (cases r) (auto simp: of_result_def eff_simps bind_eff_def outcome_def)

text \<open>Up to the log, a failed handler leaves the state as it was.\<close>

definition safe :: "(error + 'a) \<times> staking_state \<Rightarrow> staking_state \<Rightarrow> ('a \<Rightarrow> staking_state \<Rightarrow> bool) \<Rightarrow> bool" where
  "safe r s Q = (case fst r of
     Inl (AccountErr e) \<Rightarrow> snd r = s \<lparr> tx_log := tx_log (snd r) \<rparr>
   | Inl Panic \<Rightarrow> False
   | Inr a \<Rightarrow> Q a (snd r))"

lemma safe_outcome: "outcome r (s \<lparr> tx_log := L \<rparr>) Q \<Longrightarrow> safe r s Q"
  by (auto simp: outcome_def safe_def split: sum.splits error.splits)

lemma safe_mono: "safe r s Q \<Longrightarrow> (\<And>a s'. Q a s' \<Longrightarrow> R a s') \<Longrightarrow> safe r s R"
  by (auto simp: safe_def split: sum.splits error.splits)

lemma safe_bind:
  assumes "safe (m s1) s P" and "\<And>a s'. P a s' \<Longrightarrow> safe (f a s') s Q"
  shows "safe (bind_eff m f s1) s Q"
proof (cases "m s1")
  case (Pair r s2)
  show ?thesis
  proof (cases r)
    case (Inl e)
    then show ?thesis using assms(1) Pair by (cases e) (simp_all add: safe_def bind_eff_def)
  next
    case (Inr a)
    then have "P a s2" using assms(1) Pair by (simp add: safe_def)
    then show ?thesis using assms(2) [of a s2] Pair Inr by (simp add: bind_eff_def)
  qed
qed

lemma safe_run:
  "m s1 = (Inr a, s2) \<Longrightarrow> safe (bind_eff m f s1) s Q = safe (f a s2) s Q"
  "m' s1 = (Inr (), s2) \<Longrightarrow> safe (seq_eff m' n s1) s Q = safe (n s2) s Q"
  by (simp_all add: bind_eff_def seq_eff_def)

lemma safe_result:
  "s1 = s \<lparr> tx_log := tx_log s1 \<rparr> \<Longrightarrow>
   safe (bind_eff (of_result r) f s1) s Q \<longleftrightarrow> (\<forall>x. r = Inr x \<longrightarrow> safe (f x s1) s Q)"
  by (cases r) (auto simp: of_result_def eff_simps bind_eff_def safe_def)

lemma sc_inv_log [simp]: "sc_inv (s \<lparr> tx_log := L \<rparr>) = sc_inv s"
proof -
  have "targets (s \<lparr> tx_log := L \<rparr>) = targets s" by (intro ext) (rule targets_frame)
  then show ?thesis by (simp add: sc_inv_def)
qed

section \<open>Incoming transactions\<close>

definition incoming_post :: "transaction \<Rightarrow> staking_state \<Rightarrow> 'r \<Rightarrow> staking_state \<Rightarrow> bool" where
  "incoming_post tx s r s' \<longleftrightarrow> sc_inv s' \<and> sc_balance s' = sc_balance s + tx_value tx \<and> punished s' = punished s"

lemmas incoming_specs = create_validator_spec update_validator_spec deactivate_validator_spec reactivate_validator_spec
  retire_validator_spec create_staker_spec add_stake_spec update_staker_spec set_active_stake_spec retire_stake_spec
  set_signal_data_spec

lemma incoming_op_safe:
  assumes inv: "sc_inv s" and v: "value_ok data (tx_value tx)" and b: "sc_balance s + tx_value tx \<le> MAX_SAFE_VALUE"
  shows "outcome (incoming_op E tx bs data s) s (incoming_post tx s)"
proof (cases data)
  case (CreateValidator sk vk ra sd pok p)
  show ?thesis
    unfolding CreateValidator incoming_op.simps outcome_receipts
    by (rule outcome_mono, rule create_validator_spec [OF inv b]) (auto simp: incoming_post_def Let_def)
next
  case (CreateStaker d p)
  have "sc_balance s + (tx_value tx + 0) \<le> MAX_SAFE_VALUE" "MINIMUM_STAKE \<le> tx_value tx + 0"
    using b v CreateStaker by simp_all
  from create_staker_spec [OF inv this] show ?thesis
    unfolding CreateStaker incoming_op.simps outcome_receipts
    by (rule outcome_mono) (auto simp: incoming_post_def static_def)
next
  case (AddStake a)
  show ?thesis
    unfolding AddStake incoming_op.simps outcome_receipts
    by (rule outcome_mono, rule add_stake_spec [OF inv b]) (auto simp: incoming_post_def static_def)
next
  case (UpdateStaker d all p)
  show ?thesis
    using v unfolding UpdateStaker incoming_op.simps outcome_receipts
    by (intro outcome_mono [OF update_staker_spec [OF inv]]) (auto simp: incoming_post_def static_def Let_def)
next
  case (SetActiveStake c p)
  show ?thesis
    using v unfolding SetActiveStake incoming_op.simps outcome_receipts
    by (intro outcome_mono [OF set_active_stake_spec [OF inv]]) (auto simp: incoming_post_def static_def Let_def)
qed (use v in \<open>simp only: incoming_op.simps outcome_receipts,
    auto intro!: outcome_mono [OF update_validator_spec [OF inv]] outcome_mono [OF deactivate_validator_spec [OF inv]]
      outcome_mono [OF reactivate_validator_spec [OF inv]] outcome_mono [OF retire_validator_spec [OF inv]]
      outcome_mono [OF retire_stake_spec [OF inv]] outcome_mono [OF set_signal_data_spec [OF inv]]
      simp: incoming_post_def\<close>)+

lemma commit_incoming_safe:
  assumes inv: "sc_inv s" and v: "verify_incoming_transaction E tx version = Some (Inr ())"
    and b: "sc_balance s + tx_value tx \<le> MAX_SAFE_VALUE"
  shows "outcome (sc_commit_incoming E tx bs s) s (incoming_post tx s)"
proof -
  obtain data where d: "parse_incoming E tx = Inr data" "value_ok data (tx_value tx)"
    using verified_value [OF v] by blast
  then show ?thesis
    using incoming_op_safe [OF inv d(2) b]
    by (simp add: sc_commit_incoming_def parse_incoming_tx_def outcome_result)
qed

section \<open>Reverting incoming transactions\<close>

lemma codecD: "codec_ok c \<Longrightarrow> deserialize_from_vec c (serialize_to_vec c x) = Inr x"
  by (simp add: codec_ok_def)

lemma expect_receipt_run:
  "codec_ok c \<Longrightarrow> bind_eff (expect_receipt c (Some (serialize_to_vec c x))) f s = f x s"
  by (simp add: expect_receipt_def try_into_receipt_def codecD of_result_def eff_simps bind_eff_def)

lemma undoes_into_receipt:
  assumes "codec_ok c" "undoes m rv s"
  shows "undoes (into_receipt c m) (\<lambda>r. bind_eff (expect_receipt c r) rv) s"
  unfolding undoes_def
proof (intro allI impI)
  fix r s'
  assume "into_receipt c m s = (Inr r, s')"
  then obtain x where "m s = (Inr x, s')" "r = Some (serialize_to_vec c x)"
    by (auto simp: into_receipt_def bind_eff_Inr eff_leaf_iff)
  then show "\<exists>ls. tx_log s' = tx_log s @ ls \<and>
      bind_eff (expect_receipt c r) rv s' = (Inr (), s \<lparr> tx_log := tx_log s' @ rev ls \<rparr>)"
    using assms(2) by (simp add: undoes_def expect_receipt_run [OF assms(1)])
qed

lemma undoes_no_receipt:
  assumes "undoes m (\<lambda>_. rv) s"
  shows "undoes (no_receipt m) (\<lambda>_. rv) s"
  using assms unfolding undoes_def by (auto simp: no_receipt_def seq_eff_Inr eff_leaf_iff)

lemma incoming_op_undo:
  assumes inv: "sc_inv s" and c: "codecs_ok E" and v: "value_ok data (tx_value tx)"
    and b: "sc_balance s + tx_value tx \<le> MAX_SAFE_VALUE"
  shows "undoes (incoming_op E tx bs data) (\<lambda>r. revert_incoming_op E tx r data) s"
proof -
  note C = c [unfolded codecs_ok_def]
  show ?thesis
  proof (cases data)
    case (CreateStaker d p)
    have "sc_balance s + (tx_value tx + 0) \<le> MAX_SAFE_VALUE" "MINIMUM_STAKE \<le> tx_value tx + 0"
      using b v CreateStaker by simp_all
    from create_staker_undo [OF inv this] show ?thesis
      unfolding CreateStaker incoming_op.simps revert_incoming_op.simps by (rule undoes_no_receipt)
  qed (use C b in \<open>simp only: incoming_op.simps revert_incoming_op.simps,
      intro undoes_no_receipt undoes_into_receipt create_validator_undo [OF inv] update_validator_undo [OF inv]
        deactivate_validator_undo [OF inv] reactivate_validator_undo [OF inv] retire_validator_undo [OF inv]
        add_stake_undo [OF inv] update_staker_undo [OF inv] set_active_stake_undo [OF inv] retire_stake_undo [OF inv]
        set_signal_data_undo [OF inv]; simp\<close>)+
qed

lemma of_result_run: "bind_eff (of_result (Inr x)) f s = f x s"
  by (simp add: of_result_def eff_simps bind_eff_def)

lemma commit_incoming_undo:
  assumes inv: "sc_inv s" and c: "codecs_ok E" and v: "verify_incoming_transaction E tx version = Some (Inr ())"
    and b: "sc_balance s + tx_value tx \<le> MAX_SAFE_VALUE"
  shows "undoes (sc_commit_incoming E tx bs) (sc_revert_incoming E tx) s"
proof -
  obtain data where d: "parse_incoming E tx = Inr data" "value_ok data (tx_value tx)"
    using verified_value [OF v] by blast
  then show ?thesis
    using incoming_op_undo [OF inv c d(2) b]
    by (simp add: undoes_def sc_commit_incoming_def sc_revert_incoming_def parse_incoming_tx_def of_result_run)
qed

section \<open>Outgoing transactions\<close>

text \<open>What an outgoing transaction leaves of the validators.\<close>

definition thins :: "staking_state \<Rightarrow> staking_state \<Rightarrow> bool" where
  "thins s s' \<longleftrightarrow> (\<forall>a v'. fmlookup (validators s') a = Some v' \<longrightarrow> (\<exists>v. fmlookup (validators s) a = Some v \<and>
     v_jailed_from v' = v_jailed_from v \<and> v_inactive_from v' = v_inactive_from v))"

lemma thins_static:
  assumes "fmmap vstat (validators s') = fmmap vstat (validators s)"
  shows "thins s s'"
  unfolding thins_def
proof (intro allI impI)
  fix a v'
  assume "fmlookup (validators s') a = Some v'"
  from static_lookup [OF assms this] obtain v where v: "fmlookup (validators s) a = Some v" "vstat v = vstat v'" by blast
  then show "\<exists>v. fmlookup (validators s) a = Some v \<and> v_jailed_from v' = v_jailed_from v \<and> v_inactive_from v' = v_inactive_from v"
    using vstat_eqD(2,4) [OF v(2)] by auto
qed

lemma thins_log [simp]: "thins (s \<lparr> tx_log := L \<rparr>) = thins s" "thins s (s' \<lparr> tx_log := L \<rparr>) = thins s s'"
  by (simp_all add: thins_def fun_eq_iff)

definition outgoing_post :: "coin \<Rightarrow> staking_state \<Rightarrow> staking_state \<Rightarrow> bool" where
  "outgoing_post c s s' \<longleftrightarrow> sc_inv s' \<and> c \<le> sc_balance s \<and> sc_balance s' = sc_balance s - c \<and> punished s' = punished s \<and>
     thins s s'"

lemma outgoing_post_log [simp]: "outgoing_post c (s \<lparr> tx_log := L \<rparr>) = outgoing_post c s"
  by (simp add: fun_eq_iff outgoing_post_def)

lemma delete_validator_post:
  assumes inv: "sc_inv s"
  shows "outcome (delete_validator E a bn value s) s (\<lambda>_. outgoing_post value s)"
proof (rule outcome_mono, rule delete_validator_spec [OF inv], elim conjE exE)
  fix r s' x and v :: validator
  assume v: "sc_inv s'" "fmlookup (validators s) a = Some v" "value = v_deposit v"
    "s' = deleted_state s a v (tx_log s @ [Log_DeleteValidator a (v_reward_address v)])"
  then show "outgoing_post value s s'"
    using sc_invD(2) [OF inv, of a] by (simp add: outgoing_post_def deleted_state_def dep_def thins_def)
qed

lemma remove_stake_post:
  assumes inv: "sc_inv s"
  shows "outcome (remove_stake k value s) s (\<lambda>_. outgoing_post value s)"
  by (rule outcome_mono, rule remove_stake_spec [OF inv]) (auto simp: outgoing_post_def static_def intro: thins_static split: if_splits)

lemma parse_outgoing_cases:
  obtains e where "parse_outgoing_tx E tx = throw (AccountErr e)"
  | data pf where "parse_outgoing_tx E tx = ret (data, pf)"
proof (cases "parse_outgoing E tx")
  case (Inl e)
  then have "parse_outgoing_tx E tx = throw (AccountErr (InvalidTransaction e))"
    by (intro ext) (simp add: parse_outgoing_tx_def of_result_def eff_simps bind_eff_def)
  then show ?thesis by (rule that(1))
next
  case (Inr data)
  show ?thesis
  proof (cases "deserialize_proof E (tx_proof tx)")
    case (Inl e)
    then have "parse_outgoing_tx E tx = throw (AccountErr (InvalidSerialization e))"
      using Inr by (intro ext) (simp add: parse_outgoing_tx_def of_result_def eff_simps bind_eff_def)
    then show ?thesis by (rule that(1))
  next
    case (Inr pf)
    then have "parse_outgoing_tx E tx = ret (data, pf)"
      using \<open>parse_outgoing E tx = Inr data\<close>
      by (intro ext) (simp add: parse_outgoing_tx_def of_result_def eff_simps bind_eff_def)
    then show ?thesis by (rule that(2))
  qed
qed

lemma outcome_then_ret:
  "outcome (m s) s (\<lambda>a. Q (g a)) \<Longrightarrow> outcome (bind_eff m (\<lambda>a. ret (g a)) s) s Q"
  by (cases "m s"; cases "fst (m s)") (auto simp: bind_eff_def ret_def outcome_def split: error.splits)

lemma remove_stake_checked:
  assumes inv: "sc_inv s"
  shows "outcome (bind_eff (expect_staker k) (\<lambda>st. seq_eff (can_remove_stake st value)
    (bind_eff (remove_stake k value) (\<lambda>r. ret (g r)))) s) s (\<lambda>_. outgoing_post value s)"
proof -
  have "outcome (bind_eff (remove_stake k value) (\<lambda>r. ret (g r)) s) s (\<lambda>_. outgoing_post value s)"
    by (rule outcome_then_ret) (rule remove_stake_post [OF inv])
  then show ?thesis by (auto simp: outcome_simps can_remove_stake_def)
qed

lemma commit_outgoing_safe:
  assumes inv: "sc_inv s"
  shows "safe (sc_commit_outgoing E tx bs s) s (\<lambda>_. outgoing_post (total_value tx) s)"
proof (rule parse_outgoing_cases [of E tx])
  fix e
  assume "parse_outgoing_tx E tx = throw (AccountErr e)"
  then show ?thesis by (simp add: sc_commit_outgoing_def eff_simps safe_def)
next
  fix data pf
  assume p: "parse_outgoing_tx E tx = ret (data, pf)"
  let ?L = "tx_log s @ [pay_fee_log tx, transfer_log tx]"
  let ?s = "s \<lparr> tx_log := ?L \<rparr>"
  have i: "sc_inv ?s" using inv by simp
  have "outcome ((case data of
       DeleteValidator \<Rightarrow> into_receipt (delete_validator_codec E)
           (delete_validator E (compute_signer E pf) (bs_number bs) (total_value tx))
     | RemoveStake \<Rightarrow>
         bind_eff (expect_staker (compute_signer E pf)) (\<lambda>staker.
         seq_eff (can_remove_stake staker (total_value tx))
         (bind_eff (remove_stake (compute_signer E pf) (total_value tx)) (\<lambda>receipt.
          ret (map_option (serialize_to_vec (delete_staker_codec E)) receipt))))) ?s) ?s (\<lambda>_. outgoing_post (total_value tx) ?s)"
    using delete_validator_post [OF i, of E "compute_signer E pf" "bs_number bs" "total_value tx"]
      remove_stake_checked [OF i]
    by (cases data) (simp_all add: outcome_receipts)
  then show ?thesis
    using p by (intro safe_outcome [where L = ?L])
      (simp add: sc_commit_outgoing_def eff_simps store_defs seq_eff_def bind_eff_def ret_def)
qed

lemma undoes_remove_stake_checked:
  assumes inv: "sc_inv s" and c: "codec_ok c"
  shows "undoes (bind_eff (expect_staker k) (\<lambda>st. seq_eff (can_remove_stake st value)
      (bind_eff (remove_stake k value) (\<lambda>r. ret (map_option (serialize_to_vec c) r)))))
    (\<lambda>r. bind_eff (optional_receipt c r) (revert_remove_stake k value)) s"
  unfolding undoes_def
proof (intro allI impI)
  fix r s'
  assume "bind_eff (expect_staker k) (\<lambda>st. seq_eff (can_remove_stake st value)
      (bind_eff (remove_stake k value) (\<lambda>r. ret (map_option (serialize_to_vec c) r)))) s = (Inr r, s')"
  then obtain x where x: "remove_stake k value s = (Inr x, s')" "r = map_option (serialize_to_vec c) x"
    by (auto simp: bind_eff_Inr seq_eff_Inr eff_leaf_iff can_remove_stake_def store_Inr expect_staker_Inr)
  have "bind_eff (optional_receipt c r) (revert_remove_stake k value) s' = revert_remove_stake k value x s'"
    using x(2) by (cases x) (simp_all add: optional_receipt_def try_into_receipt_def codecD [OF c] of_result_def eff_simps bind_eff_def)
  then show "\<exists>ls. tx_log s' = tx_log s @ ls \<and> bind_eff (optional_receipt c r) (revert_remove_stake k value) s' =
      (Inr (), s \<lparr> tx_log := tx_log s' @ rev ls \<rparr>)"
    using remove_stake_undo [OF inv, of k "value"] x(1) by (simp add: undoes_def)
qed

text \<open>Logs around an operation that its revert undoes.\<close>

lemma undoes_framed:
  assumes u: "undoes m (\<lambda>r. bind_eff (c r) (\<lambda>x. rv x)) (s \<lparr> tx_log := tx_log s @ [l1, l2] \<rparr>)"
  shows "undoes (seq_eff (push_log l1) (seq_eff (push_log l2) m))
    (\<lambda>r. bind_eff (c r) (\<lambda>x. finally_eff (rv x) (seq_eff (push_log l2) (push_log l1)))) s"
  unfolding undoes_def
proof (intro allI impI)
  fix r s'
  let ?s = "s \<lparr> tx_log := tx_log s @ [l1, l2] \<rparr>"
  assume "seq_eff (push_log l1) (seq_eff (push_log l2) m) s = (Inr r, s')"
  then have "m ?s = (Inr r, s')" by (simp add: seq_eff_Inr store_Inr)
  then obtain ls where ls: "tx_log s' = tx_log ?s @ ls"
    "bind_eff (c r) rv s' = (Inr (), ?s \<lparr> tx_log := tx_log s' @ rev ls \<rparr>)"
    using u unfolding undoes_def by blast
  obtain x s1 where "c r s' = (Inr x, s1)" "rv x s1 = (Inr (), ?s \<lparr> tx_log := tx_log s' @ rev ls \<rparr>)"
    using ls(2) by (auto simp: bind_eff_Inr)
  then show "\<exists>ls. tx_log s' = tx_log s @ ls \<and>
      bind_eff (c r) (\<lambda>x. finally_eff (rv x) (seq_eff (push_log l2) (push_log l1))) s' =
        (Inr (), s \<lparr> tx_log := tx_log s' @ rev ls \<rparr>)"
    using ls(1) by (intro exI [of _ "[l1, l2] @ ls"]) (simp add: finally_eff_def eff_simps store_defs bind_eff_def)
qed

lemma commit_outgoing_undo:
  assumes inv: "sc_inv s" and c: "codecs_ok E"
  shows "undoes (sc_commit_outgoing E tx bs) (sc_revert_outgoing E tx) s"
proof (rule parse_outgoing_cases [of E tx])
  fix e
  assume "parse_outgoing_tx E tx = throw (AccountErr e)"
  then show ?thesis by (simp add: sc_commit_outgoing_def eff_simps undoes_def)
next
  fix data pf
  assume p: "parse_outgoing_tx E tx = ret (data, pf)"
  note C = c [unfolded codecs_ok_def]
  let ?a = "compute_signer E pf" and ?v = "total_value tx"
  let ?s = "s \<lparr> tx_log := tx_log s @ [pay_fee_log tx, transfer_log tx] \<rparr>"
  have i: "sc_inv ?s" using inv by simp
  have d: "undoes (into_receipt (delete_validator_codec E) (delete_validator E ?a (bs_number bs) ?v))
      (\<lambda>r. bind_eff (expect_receipt (delete_validator_codec E) r) (revert_delete_validator ?a ?v)) ?s"
    using C by (intro undoes_into_receipt delete_validator_undo [OF i]) simp
  have r: "undoes (bind_eff (expect_staker ?a) (\<lambda>st. seq_eff (can_remove_stake st ?v)
      (bind_eff (remove_stake ?a ?v) (\<lambda>r. ret (map_option (serialize_to_vec (delete_staker_codec E)) r)))))
    (\<lambda>r. bind_eff (optional_receipt (delete_staker_codec E) r) (revert_remove_stake ?a ?v)) ?s"
    using C by (intro undoes_remove_stake_checked [OF i]) simp
  show ?thesis
    using undoes_framed [OF d] undoes_framed [OF r] p
    by (cases data) (simp_all add: sc_commit_outgoing_def sc_revert_outgoing_def [abs_def] seq_eff_ret Let_def)
qed

section \<open>Failed transactions\<close>

lemma safe_steps:
  "safe (bind_eff (expect_validator a) f1 (s \<lparr> tx_log := L \<rparr>)) s Q \<longleftrightarrow>
     (\<forall>v. fmlookup (validators s) a = Some v \<longrightarrow> safe (f1 v (s \<lparr> tx_log := L \<rparr>)) s Q)"
  "safe (bind_eff (of_result r) f2 (s \<lparr> tx_log := L \<rparr>)) s Q \<longleftrightarrow>
     (\<forall>x. r = Inr x \<longrightarrow> safe (f2 x (s \<lparr> tx_log := L \<rparr>)) s Q)"
  "safe (seq_eff (push_log l) n s1) s Q = safe (n (s1 \<lparr> tx_log := tx_log s1 @ [l] \<rparr>)) s Q"
  "safe (seq_eff (put_validator a v') n s1) s Q = safe (n (s1 \<lparr> validators := fmupd a v' (validators s1) \<rparr>)) s Q"
  "safe (ret x s1) s Q = Q x s1"
  "safe (seq_eff (ret u) n s1) s Q = safe (n s1) s Q"
proof -
  show "safe (bind_eff (expect_validator a) f1 (s \<lparr> tx_log := L \<rparr>)) s Q \<longleftrightarrow>
     (\<forall>v. fmlookup (validators s) a = Some v \<longrightarrow> safe (f1 v (s \<lparr> tx_log := L \<rparr>)) s Q)"
    by (cases "fmlookup (validators s) a") (auto simp: store_defs eff_simps bind_eff_def safe_def)
  show "safe (bind_eff (of_result r) f2 (s \<lparr> tx_log := L \<rparr>)) s Q \<longleftrightarrow>
     (\<forall>x. r = Inr x \<longrightarrow> safe (f2 x (s \<lparr> tx_log := L \<rparr>)) s Q)"
    by (rule safe_result) simp
qed (simp_all add: store_defs eff_simps seq_eff_def bind_eff_def safe_def)

lemma safe_sub_balance:
  "safe (seq_eff (sub_balance c) n s1) s Q \<longleftrightarrow> c \<le> sc_balance s1 \<and> sc_balance s1 - c \<le> MAX_SAFE_VALUE \<and>
     safe (n (s1 \<lparr> sc_balance := sc_balance s1 - c \<rparr>)) s Q"
proof (cases "c \<le> sc_balance s1 \<and> sc_balance s1 - c \<le> MAX_SAFE_VALUE")
  case True
  then have "sub_balance c s1 = (Inr (), s1 \<lparr> sc_balance := sc_balance s1 - c \<rparr>)" by (simp add: sub_balance_Inr)
  then show ?thesis using True by (simp add: safe_run)
next
  case False
  then have "sub_balance c s1 = (Inl Panic, s1)" by (simp add: sub_balance_Inl)
  then show ?thesis using False by (auto simp: safe_def seq_eff_def bind_eff_def)
qed

lemma safe_seq_check:
  assumes "(\<exists>e. m (s \<lparr> tx_log := L \<rparr>) = (Inl (AccountErr e), s \<lparr> tx_log := L \<rparr>)) \<or>
    m (s \<lparr> tx_log := L \<rparr>) = (Inr (), s \<lparr> tx_log := L \<rparr>)"
  shows "safe (seq_eff m n (s \<lparr> tx_log := L \<rparr>)) s Q \<longleftrightarrow>
    (m (s \<lparr> tx_log := L \<rparr>) = (Inr (), s \<lparr> tx_log := L \<rparr>) \<longrightarrow> safe (n (s \<lparr> tx_log := L \<rparr>)) s Q)"
  using assms
proof
  assume "m (s \<lparr> tx_log := L \<rparr>) = (Inr (), s \<lparr> tx_log := L \<rparr>)"
  then show ?thesis by (simp add: safe_run)
qed (auto simp: seq_eff_def bind_eff_def safe_def)

lemma sc_inv_fee:
  assumes inv: "sc_inv s" and v: "fmlookup (validators s) a = Some v" and i: "\<not> is_active v"
    and f: "fee \<le> v_deposit v"
  shows "sc_inv (s \<lparr> tx_log := L, sc_balance := sc_balance s - fee,
    validators := fmupd a (v \<lparr> v_deposit := v_deposit v - fee, v_total_stake := v_total_stake v - fee \<rparr>) (validators s) \<rparr>)"
    (is "sc_inv ?s")
proof -
  note t = sc_invD(1) [OF inv] and D = target_okD [OF sc_invD(1) [OF inv] v]
  let ?v = "v \<lparr> v_deposit := v_deposit v - fee, v_total_stake := v_total_stake v - fee \<rparr>"
  have "target_ok ?s a (stake_of (stakers s) a) (count_of (stakers s) a)"
    using D f i by (auto simp: target_ok_def is_active_def)
  then have "targets ?s (stake_of (stakers s)) (count_of (stakers s))" by (rule targets_upd [OF t]) auto
  moreover have "fsum v_deposit (fmupd a ?v (validators s)) + fee = fsum v_deposit (validators s)"
    using fsum_upd_old [OF v, of v_deposit ?v] fsum_member [OF v, of v_deposit] f by simp
  moreover have "retired_ok (validators ?s)" using inv i by (auto simp: retired_ok_def sc_inv_def is_active_def)
  ultimately show ?thesis using inv by (auto simp: sc_inv_def)
qed

lemma map_sum_Inr: "map_sum f id r = Inr x \<longleftrightarrow> r = Inr x"
  by (cases r) auto

lemma commit_failed_delete:
  assumes inv: "sc_inv s" and v: "fmlookup (validators s) a = Some v" and f: "fee \<le> v_deposit v"
    and r: "\<not> is_active v" and L: "c = delete_validator_codec E"
  shows "safe ((if v_deposit v - fee = 0 then into_receipt c (delete_validator E a bn fee)
    else bind_eff (of_result (map_sum from_coin_underflow id (safe_sub (v_total_stake v) fee))) (\<lambda>total.
      seq_eff (sub_balance fee) (seq_eff (put_validator a (v \<lparr> v_deposit := v_deposit v - fee, v_total_stake := total \<rparr>))
      (ret None)))) (s \<lparr> tx_log := L \<rparr>)) s (\<lambda>_. outgoing_post fee s)"
proof (cases "v_deposit v - fee = 0")
  case True
  have "sc_inv (s \<lparr> tx_log := L \<rparr>)" using inv by simp
  from delete_validator_post [OF this, of E a bn fee] show ?thesis
    using True by (intro safe_outcome [where L = L]) (simp add: outcome_receipts)
next
  case False
  have "v_deposit v \<le> v_total_stake v" "v_total_stake v \<le> MAX_SAFE_VALUE" "v_deposit v \<le> sc_balance s"
    using target_okD(2) [OF sc_invD(1) [OF inv] v] stake_bound [OF inv, of a] v sc_invD(2) [OF inv, of a]
    by (simp_all add: dep_def)
  moreover have "thins s (s \<lparr> tx_log := L, sc_balance := sc_balance s - fee,
      validators := fmupd a (v \<lparr> v_deposit := v_deposit v - fee, v_total_stake := v_total_stake v - fee \<rparr>) (validators s) \<rparr>)"
    using v by (simp add: thins_def)
  ultimately show ?thesis
    using False f sc_inv_fee [OF inv v r f] sc_invD(3) [OF inv] by (auto simp: safe_steps safe_sub_balance outgoing_post_def map_sum_Inr)
qed

lemma safe_with_empty_logger:
  assumes m: "outcome (m (s \<lparr> tx_log := [] \<rparr>)) (s \<lparr> tx_log := [] \<rparr>) P"
    and f: "\<And>a s'. P a s' \<Longrightarrow> safe (f a (s' \<lparr> tx_log := L \<rparr>)) s Q"
  shows "safe (bind_eff (with_empty_logger m) f (s \<lparr> tx_log := L \<rparr>)) s Q"
proof (cases "m (s \<lparr> tx_log := [] \<rparr>)")
  case (Pair r s')
  show ?thesis
  proof (cases r)
    case (Inl e)
    then show ?thesis using m Pair by (cases e) (auto simp: outcome_def safe_def with_empty_logger_def bind_eff_def)
  next
    case (Inr a)
    then show ?thesis using m Pair f [of a s'] by (simp add: outcome_def with_empty_logger_def bind_eff_def)
  qed
qed

lemma commit_failed_safe:
  assumes inv: "sc_inv s"
  shows "safe (sc_commit_failed E tx bs s) s (\<lambda>_. outgoing_post (tx_fee tx) s)"
proof (rule parse_outgoing_cases [of E tx])
  fix e
  assume "parse_outgoing_tx E tx = throw (AccountErr e)"
  then show ?thesis by (simp add: sc_commit_failed_def eff_simps safe_def)
next
  fix data pf
  assume p: "parse_outgoing_tx E tx = ret (data, pf)"
  let ?a = "compute_signer E pf" and ?fee = "tx_fee tx" and ?L = "tx_log s @ [pay_fee_log tx]"
  show ?thesis
  proof (cases data)
    case DeleteValidator
    have "safe (bind_eff (of_result (map_sum from_coin_underflow id (safe_sub (v_deposit v) ?fee))) (\<lambda>new_deposit.
        seq_eff (enforce_retire_and_release (env_policy E) v (bs_number bs))
        (seq_eff (push_log (Log_ValidatorFeeDeduction ?a ?fee))
        (if new_deposit = 0 then into_receipt (delete_validator_codec E) (delete_validator E ?a (bs_number bs) ?fee)
         else bind_eff (of_result (map_sum from_coin_underflow id (safe_sub (v_total_stake v) ?fee))) (\<lambda>total.
           seq_eff (sub_balance ?fee) (seq_eff (put_validator ?a (v \<lparr> v_deposit := new_deposit, v_total_stake := total \<rparr>))
           (ret None)))))) (s \<lparr> tx_log := ?L \<rparr>)) s (\<lambda>_. outgoing_post ?fee s)"
      if v: "fmlookup (validators s) ?a = Some v" for v
    proof -
      have rel: "v_retired v \<longrightarrow> v_inactive_from v \<noteq> None" using inv v by (simp add: sc_inv_def retired_ok_def)
      show ?thesis
        using commit_failed_delete [OF inv v _ _ refl, of ?fee]
        by (auto simp: safe_steps safe_seq_check [where m = "enforce_retire_and_release _ _ _", OF release_fails(1) [OF rel]] enforce_release_Inr is_active_def map_sum_Inr)
    qed
    then show ?thesis
      using p DeleteValidator by (simp add: sc_commit_failed_def seq_eff_ret safe_steps Let_def)
  next
    case RemoveStake
    have "outcome (remove_stake ?a ?fee (s \<lparr> tx_log := [] \<rparr>)) (s \<lparr> tx_log := [] \<rparr>) (\<lambda>_. outgoing_post ?fee s)"
      using remove_stake_post [of "s \<lparr> tx_log := [] \<rparr>" ?a ?fee] inv by simp
    then have "safe (bind_eff (with_empty_logger (remove_stake ?a ?fee)) (\<lambda>receipt.
        seq_eff (push_log (Log_StakerFeeDeduction ?a ?fee))
        (seq_eff (case receipt of Some r \<Rightarrow> push_log (Log_DeleteStaker ?a (ds_delegation r)) | None \<Rightarrow> ret ())
        (ret (map_option (serialize_to_vec (delete_staker_codec E)) receipt)))) (s \<lparr> tx_log := ?L \<rparr>)) s
        (\<lambda>_. outgoing_post ?fee s)"
      by (rule safe_with_empty_logger) (auto simp: safe_steps outgoing_post_def split: option.splits)
    then show ?thesis
      using p RemoveStake by (simp add: sc_commit_failed_def seq_eff_ret safe_steps Let_def)
  qed
qed

end
