(* ===== verification/StakingInherents.thy ===== *)
theory StakingInherents
  imports StakingSafety
begin

text \<open>
  Failed transactions and inherents: what their reverts restore, and that an inherent keeps the
  ledger consistent. The handlers here run operations on a fresh log, so the first section shows
  that an operation only ever appends to the log it is given.
\<close>

section \<open>Operations only append to the log\<close>

definition prepend_log :: "log list \<Rightarrow> staking_state \<Rightarrow> staking_state" where
  "prepend_log L s = s \<lparr> tx_log := L @ tx_log s \<rparr>"

definition logging :: "'a sc \<Rightarrow> bool" where
  "logging m \<longleftrightarrow> (\<forall>L s. m (prepend_log L s) = map_prod id (prepend_log L) (m s))"

named_theorems logging_intros \<open>operations that only append to the log\<close>

lemma logging_bind [logging_intros]:
  assumes "logging m" "\<And>x. logging (f x)"
  shows "logging (bind_eff m f)"
  unfolding logging_def
proof (intro allI)
  fix L s
  have m: "m (prepend_log L s) = map_prod id (prepend_log L) (m s)" using assms(1) by (simp add: logging_def)
  have f: "f x (prepend_log L t) = map_prod id (prepend_log L) (f x t)" for x t using assms(2) by (simp add: logging_def)
  show "bind_eff m f (prepend_log L s) = map_prod id (prepend_log L) (bind_eff m f s)"
    by (cases "m s"; cases "fst (m s)") (simp_all add: bind_eff_def m f)
qed

lemma logging_seq [logging_intros]: "logging m \<Longrightarrow> logging n \<Longrightarrow> logging (seq_eff m n)"
  unfolding seq_eff_def by (intro logging_bind)

lemma logging_gets: "(\<And>L s. g (prepend_log L s) = g s) \<Longrightarrow> logging (gets g)"
  by (simp add: logging_def gets_def)

lemma logging_modify: "(\<And>L s. h (prepend_log L s) = prepend_log L (h s)) \<Longrightarrow> logging (modify h)"
  by (simp add: logging_def modify_def)

lemma logging_ret [logging_intros]: "logging (ret x)" and logging_throw [logging_intros]: "logging (throw e)"
  by (simp_all add: logging_def ret_def throw_def)

lemma logging_control [logging_intros]:
  "logging (ensure b e)" "logging m \<Longrightarrow> logging (when_eff b m)" "logging (some_or e x)" "logging (of_sum r)"
  by (auto simp: ensure_def when_eff_def some_or_def of_sum_def intro: logging_intros split: option.splits sum.splits)

lemma logging_option [logging_intros]:
  "logging m \<Longrightarrow> (\<And>x. logging (f x)) \<Longrightarrow> logging (case r of None \<Rightarrow> m | Some x \<Rightarrow> f x)"
  by (cases r) simp_all

lemma logging_if [logging_intros]: "logging m \<Longrightarrow> logging n \<Longrightarrow> logging (if b then m else n)"
  by simp

lemma logging_store [logging_intros]:
  "logging (get_validator a)" "logging (get_staker a)" "logging (get_tombstone a)" "logging (put_validator a v)"
  "logging (remove_validator a)" "logging (put_staker a st)" "logging (remove_staker a)" "logging (put_tombstone a t)"
  "logging (remove_tombstone a)" "logging (push_log l)" "logging (active_insert a c)"
  unfolding store_defs by (intro logging_gets logging_modify; simp add: prepend_log_def)+

lemma logging_access [logging_intros]:
  "logging (expect_validator a)" "logging (expect_staker a)" "logging (expect x)" "logging (fail_unless b e)"
  "logging (assert_that b)" "logging (of_result r)" "logging (active_remove a)" "logging (add_balance c)"
  "logging (sub_balance c)"
  unfolding expect_validator_def expect_staker_def expect_def fail_unless_def assert_that_def of_result_def
    active_remove_def add_balance_def sub_balance_def
  by (intro logging_intros logging_gets logging_modify; simp add: prepend_log_def)+

lemma logging_validator_ops [logging_intros]:
  "logging (deactivate_validator E a signer bn)" "logging (revert_deactivate_validator a)"
  "logging (jail_validator E a bn)" "logging (revert_jail_validator a jr)" "logging (revert_delete_validator a c dr)"
  unfolding deactivate_validator_def revert_deactivate_validator_def jail_validator_def revert_jail_validator_def
    revert_delete_validator_def Let_def
  by (intro logging_intros)+

lemma logging_remove_stake [logging_intros]: "logging (revert_remove_stake k c r)"
  unfolding revert_remove_stake_def on_delegation_def register_staker_on_validator_def by (intro logging_intros)

lemma prepend_log_eq:
  assumes "logging m" "m s = (r, s')"
  shows "\<exists>ls. tx_log s' = tx_log s @ ls \<and> m (s \<lparr> tx_log := L \<rparr>) = (r, s' \<lparr> tx_log := L @ ls \<rparr>)"
proof -
  let ?s = "s \<lparr> tx_log := [] \<rparr>"
  obtain r0 s0 where r0: "m ?s = (r0, s0)" by fastforce
  have m: "m (s \<lparr> tx_log := K \<rparr>) = (r0, s0 \<lparr> tx_log := K @ tx_log s0 \<rparr>)" for K
    using assms(1) [unfolded logging_def, rule_format, of K ?s] r0 by (simp add: prepend_log_def)
  then show ?thesis using assms(2) m [of "tx_log s"] by auto
qed

lemma with_tx_logger_run:
  assumes "logging m" "m s = (Inr r, s')"
  shows "with_tx_logger m s = (Inr r, s')"
  using prepend_log_eq [OF assms, of "[]"] by (auto simp: with_tx_logger_def)

lemma with_tx_logger_inv:
  assumes "logging m" "with_tx_logger m s = (Inr r, s')"
  shows "m s = (Inr r, s')"
proof (cases "m s")
  case (Pair q t)
  then show ?thesis using prepend_log_eq [OF assms(1) Pair, of "[]"] assms(2)
    by (auto simp: with_tx_logger_def split: sum.splits)
qed

lemma with_empty_logger_run:
  assumes "logging m" "m s = (Inr r, s')"
  shows "with_empty_logger m s = (Inr r, s' \<lparr> tx_log := tx_log s \<rparr>)"
  using prepend_log_eq [OF assms, of "[]"] by (auto simp: with_empty_logger_def)

lemma with_empty_logger_at:
  assumes "logging m" "m t = (Inr r, t')"
  shows "with_empty_logger m (t \<lparr> tx_log := L \<rparr>) = (Inr r, t' \<lparr> tx_log := L \<rparr>)"
  using prepend_log_eq [OF assms, of "[]"] by (auto simp: with_empty_logger_def)

section \<open>Reverting failed transactions\<close>

text \<open>Up to the log, the revert restores the state.\<close>

definition restores :: "'r sc \<Rightarrow> ('r \<Rightarrow> unit sc) \<Rightarrow> staking_state \<Rightarrow> bool" where
  "restores m rv s \<longleftrightarrow> (\<forall>r s'. m s = (Inr r, s') \<longrightarrow> (\<exists>L. rv r s' = (Inr (), s \<lparr> tx_log := L \<rparr>)))"

lemma undoes_restores: "undoes m rv s \<Longrightarrow> restores m rv s"
  unfolding undoes_def restores_def by blast

lemma failed_remove_restores:
  assumes inv: "sc_inv s" and c: "codec_ok (delete_staker_codec E)" and p: "parse_outgoing_tx E tx = ret (RemoveStake, pf)"
  shows "restores (sc_commit_failed E tx bs) (sc_revert_failed E tx) s"
  unfolding restores_def
proof (intro allI impI)
  fix r s'
  let ?a = "compute_signer E pf" and ?fee = "tx_fee tx" and ?s = "s \<lparr> tx_log := [] \<rparr>"
  assume "sc_commit_failed E tx bs s = (Inr r, s')"
  then obtain x t L where x: "remove_stake ?a ?fee ?s = (Inr x, t)" "r = map_option (serialize_to_vec (delete_staker_codec E)) x"
      "s' = t \<lparr> tx_log := L \<rparr>"
    using p by (auto simp: sc_commit_failed_def seq_eff_ret Let_def with_empty_logger_def eff_inv store_Inr bind_eff_Inr
        split: prod.splits option.splits)
  obtain K where K: "revert_remove_stake ?a ?fee x t = (Inr (), s \<lparr> tx_log := K \<rparr>)"
    using remove_stake_undo [of ?s ?a ?fee] inv x(1) by (auto simp: undoes_def)
  have w: "with_empty_logger (revert_remove_stake ?a ?fee x) (t \<lparr> tx_log := M \<rparr>) = (Inr (), s \<lparr> tx_log := M \<rparr>)" for M
    using with_empty_logger_at [OF logging_remove_stake K] by simp
  show "\<exists>L. sc_revert_failed E tx r s' = (Inr (), s \<lparr> tx_log := L \<rparr>)"
    using p x(2,3) w
    by (cases x) (auto simp: sc_revert_failed_def Let_def optional_receipt_def try_into_receipt_def codecD [OF c] of_result_def
        eff_simps store_defs bind_eff_def seq_eff_def)
qed

lemma validator_repaid:
  "fee \<le> v_deposit v \<Longrightarrow> fee \<le> v_total_stake v \<Longrightarrow>
   v \<lparr> v_deposit := v_deposit v - fee + fee, v_total_stake := v_total_stake v - fee + fee \<rparr> = v"
  "v_deposit v = d \<Longrightarrow> v_total_stake v = t \<Longrightarrow> v \<lparr> v_deposit := d, v_total_stake := t \<rparr> = v"
  by (cases v; simp)+

lemma failed_delete_kept:
  assumes inv: "sc_inv s" and v: "fmlookup (validators s) a = Some v" and f: "fee \<le> v_deposit v"
    and p: "parse_outgoing_tx E tx = ret (DeleteValidator, pf)" and a: "a = compute_signer E pf" "fee = tx_fee tx"
    and s': "s' = s \<lparr> tx_log := L, sc_balance := sc_balance s - fee,
      validators := fmupd a (v \<lparr> v_deposit := v_deposit v - fee, v_total_stake := v_total_stake v - fee \<rparr>) (validators s) \<rparr>"
  shows "\<exists>L. sc_revert_failed E tx r s' = (Inr (), s \<lparr> tx_log := L \<rparr>)"
proof -
  have le: "v_deposit v \<le> v_total_stake v" "v_total_stake v \<le> MAX_SAFE_VALUE" "v_deposit v \<le> sc_balance s"
    using target_okD(2) [OF sc_invD(1) [OF inv] v] stake_bound [OF inv, of a] v sc_invD(2) [OF inv, of a]
    by (simp_all add: dep_def)
  have "succeeds (sc_revert_failed E tx r s')
      (\<lambda>_ s''. s'' = s \<lparr> tx_log := L @ [Log_ValidatorFeeDeduction a fee, pay_fee_log tx] \<rparr>)"
    using p a v f le sc_invD(3) [OF inv]
    by (simp add: sc_revert_failed_def Let_def succeeds_simps s' validator_repaid state_eqI)
  then show ?thesis unfolding succeeds_eq by auto
qed

lemma succeeds_receipt:
  "codec_ok c \<Longrightarrow> succeeds (bind_eff (try_into_receipt c (serialize_to_vec c x)) f s1) Q = succeeds (f x s1) Q"
  by (simp add: try_into_receipt_def codecD of_result_run)

lemma failed_delete_deleted:
  assumes inv: "sc_inv s" and v: "fmlookup (validators s) a = Some v" "v_retired v" "v_inactive_from v = Some x"
    and f: "fee = v_deposit v" and c: "codec_ok (delete_validator_codec E)"
    and p: "parse_outgoing_tx E tx = ret (DeleteValidator, pf)" and a: "a = compute_signer E pf" "fee = tx_fee tx"
    and r: "r = Some (serialize_to_vec (delete_validator_codec E) \<lparr> dv_signing_key = v_signing_key v,
      dv_voting_key = v_voting_key v, dv_reward_address = v_reward_address v,
      dv_signal_data = v_signal_data v, dv_inactive_from = x, dv_jailed_from = v_jailed_from v \<rparr>)"
  shows "\<exists>L. sc_revert_failed E tx r (deleted_state s a v l) = (Inr (), s \<lparr> tx_log := L \<rparr>)"
proof -
  note D = target_okD [OF sc_invD(1) [OF inv] v(1)]
  have le: "v_deposit v \<le> v_total_stake v" "v_total_stake v \<le> MAX_SAFE_VALUE" "v_deposit v \<le> sc_balance s"
    using D(2) stake_bound [OF inv, of a] v sc_invD(2) [OF inv, of a] by (simp_all add: dep_def)
  have z: "v_num_stakers v = 0 \<Longrightarrow> v_total_stake v = v_deposit v"
    using D(2,3) of_nat_u64_0 [OF sc_invD(6) [OF inv], of a] count_of_zero [of "stakers s" a] by simp
  have g: "v_num_stakers v \<noteq> 0 \<longleftrightarrow> 0 < v_num_stakers v" by (simp add: word_greater_zero_iff)
  have b: "sc_balance s - v_deposit v \<le> MAX_SAFE_VALUE" "v_total_stake v - v_deposit v \<le> MAX_SAFE_VALUE"
    using le sc_invD(3) [OF inv] by auto
  have "succeeds (sc_revert_failed E tx r (deleted_state s a v l)) (\<lambda>_ s''. s'' = s \<lparr> tx_log := l @
      [Log_ValidatorFeeDeduction a fee, Log_DeleteValidator a (v_reward_address v), pay_fee_log tx] \<rparr>)"
    using p a v f le b sc_invD(3) [OF inv] D(1,4) z g
    by (cases "v_num_stakers v = 0")
      (simp_all add: sc_revert_failed_def revert_delete_validator_def Let_def succeeds_simps r deleted_state_def
        succeeds_receipt [OF c])
  then show ?thesis unfolding succeeds_eq by auto
qed

lemma commit_failed_restores:
  assumes inv: "sc_inv s" and c: "codecs_ok E"
  shows "restores (sc_commit_failed E tx bs) (sc_revert_failed E tx) s"
proof (rule parse_outgoing_cases [of E tx])
  fix e
  assume "parse_outgoing_tx E tx = throw (AccountErr e)"
  then show ?thesis by (simp add: sc_commit_failed_def eff_simps restores_def)
next
  fix data pf
  assume p: "parse_outgoing_tx E tx = ret (data, pf)"
  note C = c [unfolded codecs_ok_def]
  show ?thesis
  proof (cases data)
    case RemoveStake
    then show ?thesis using p C by (intro failed_remove_restores [OF inv]) auto
  next
    case DeleteValidator
    let ?a = "compute_signer E pf" and ?fee = "tx_fee tx" and ?c = "delete_validator_codec E"
    let ?L = "tx_log s @ [pay_fee_log tx, Log_ValidatorFeeDeduction ?a ?fee]"
    show ?thesis
      unfolding restores_def
    proof (intro allI impI)
      fix r s'
      assume "sc_commit_failed E tx bs s = (Inr r, s')"
      then obtain v where v: "fmlookup (validators s) ?a = Some v" "?fee \<le> v_deposit v" and
        d: "(if v_deposit v - ?fee = 0 then into_receipt ?c (delete_validator E ?a (bs_number bs) ?fee)
          else bind_eff (of_result (map_sum from_coin_underflow id (safe_sub (v_total_stake v) ?fee))) (\<lambda>total.
            seq_eff (sub_balance ?fee) (seq_eff (put_validator ?a (v \<lparr> v_deposit := v_deposit v - ?fee, v_total_stake := total \<rparr>))
            (ret None)))) (s \<lparr> tx_log := ?L \<rparr>) = (Inr r, s')"
        using p DeleteValidator
        by (auto simp: sc_commit_failed_def seq_eff_ret Let_def bind_eff_Inr seq_eff_Inr store_Inr of_result_Inr map_sum_Inr
            expect_validator_Inr enforce_release_Inr simp del: if_split)
      let ?s = "s \<lparr> tx_log := ?L \<rparr>"
      show "\<exists>L. sc_revert_failed E tx r s' = (Inr (), s \<lparr> tx_log := L \<rparr>)"
      proof (cases "v_deposit v - ?fee = 0")
        case False
        then have "s' = s \<lparr> tx_log := ?L, sc_balance := sc_balance s - ?fee, validators := fmupd ?a
            (v \<lparr> v_deposit := v_deposit v - ?fee, v_total_stake := v_total_stake v - ?fee \<rparr>) (validators s) \<rparr>"
          using d by (auto simp: bind_eff_Inr seq_eff_Inr store_Inr of_result_Inr map_sum_Inr sub_balance_Inr eff_leaf_iff)
        then show ?thesis using p DeleteValidator by (intro failed_delete_kept [OF inv v _ refl refl]) simp_all
      next
        case True
        then obtain q where q: "delete_validator E ?a (bs_number bs) ?fee ?s = (Inr q, s')" "r = Some (serialize_to_vec ?c q)"
          using d by (auto simp: into_receipt_def bind_eff_Inr eff_leaf_iff)
        have i: "sc_inv ?s" using inv by simp
        from delete_validator_spec [OF i, of E ?a "bs_number bs" ?fee] obtain x l where
          x: "v_retired v" "v_inactive_from v = Some x" "?fee = v_deposit v" "s' = deleted_state ?s ?a v l" and
          q': "q = \<lparr> dv_signing_key = v_signing_key v, dv_voting_key = v_voting_key v, dv_reward_address = v_reward_address v,
            dv_signal_data = v_signal_data v, dv_inactive_from = x, dv_jailed_from = v_jailed_from v \<rparr>"
          using q(1) v(1) by (auto simp: outcome_Inr)
        have "\<exists>L. sc_revert_failed E tx r s' = (Inr (), ?s \<lparr> tx_log := L \<rparr>)"
          unfolding x(4) using x v(1) p DeleteValidator C q(2) q' by (intro failed_delete_deleted [OF i _ _ _ _ _ _ refl]) auto
        then show ?thesis by simp
      qed
    qed
  qed
qed

end
