(* ===== verification/StakingUpgrade.thy ===== *)
theory StakingUpgrade
  imports StakingInherents
begin

text \<open>
  Inherents of the staking contract: jailing, penalties, the end of a batch and the upgrade to a new
  version, which deactivates every validator that does not signal support for it.
\<close>

section \<open>Deactivating a list of validators\<close>

definition deactivated :: "u32 \<Rightarrow> validator \<Rightarrow> validator" where
  "deactivated eb v = v \<lparr> v_inactive_from := Some eb \<rparr>"

lemma deactivated_simps [simp]:
  "v_address (deactivated eb v) = v_address v" "v_signing_key (deactivated eb v) = v_signing_key v"
  "v_jailed_from (deactivated eb v) = v_jailed_from v" "v_inactive_from (deactivated eb v) = Some eb"
  "v_signal_data (deactivated eb v) = v_signal_data v" "\<not> is_active (deactivated eb v)"
  by (simp_all add: deactivated_def is_active_def)

lemma deactivate_run:
  assumes inv: "sc_inv s" and v: "fmlookup (validators s) a = Some v" "is_active v"
  shows "\<exists>s'. deactivate_validator E a (addr_of_key E (v_signing_key v)) bn s = (Inr (), s') \<and> sc_inv s' \<and>
    sc_balance s' = sc_balance s \<and> punished s' = punished s \<and> stakers s' = stakers s \<and>
    validators s' = fmupd a (deactivated (election_block_after (env_policy E) bn) v) (validators s) \<and>
    active_validators s' = fmdrop a (active_validators s)"
proof -
  let ?m = "deactivate_validator E a (addr_of_key E (v_signing_key v)) bn s"
  have a: "fmlookup (active_validators s) a = Some (v_total_stake v)" using active_lookup [OF inv v(1)] v(2) by simp
  obtain s' where m: "?m = (Inr (), s')"
    using v a by (auto simp: deactivate_validator_def store_defs active_remove_def eff_simps bind_eff_def seq_eff_def Let_def)
  show ?thesis
    using deactivate_validator_spec [OF inv, of E a "addr_of_key E (v_signing_key v)" bn] v
    unfolding m outcome_Inr by (auto simp: deactivated_def)
qed

lemma deactivate_all:
  assumes "sc_inv s" "distinct (map fst xs)"
    and "\<forall>x\<in>set xs. \<exists>v. fmlookup (validators s) (fst x) = Some v \<and> is_active v \<and> snd x = addr_of_key E (v_signing_key v)"
  shows "\<exists>s'. for_eff (\<lambda>(a, signer). deactivate_validator E a signer bn) xs s = (Inr (), s') \<and> sc_inv s' \<and>
    sc_balance s' = sc_balance s \<and> punished s' = punished s \<and> stakers s' = stakers s \<and>
    (\<forall>a. fmlookup (validators s') a = (if a \<in> fst ` set xs
       then map_option (deactivated (election_block_after (env_policy E) bn)) (fmlookup (validators s) a)
       else fmlookup (validators s) a)) \<and>
    (\<forall>a. fmlookup (active_validators s') a = (if a \<in> fst ` set xs then None else fmlookup (active_validators s) a))"
  using assms
proof (induction xs arbitrary: s)
  case Nil
  then show ?case by (simp add: eff_simps)
next
  case (Cons x xs)
  obtain a signer where x: "x = (a, signer)" by fastforce
  then obtain v where v: "fmlookup (validators s) a = Some v" "is_active v" "signer = addr_of_key E (v_signing_key v)"
    using Cons.prems(3) by auto
  obtain s1 where s1: "deactivate_validator E a signer bn s = (Inr (), s1)" "sc_inv s1"
      "sc_balance s1 = sc_balance s" "punished s1 = punished s" "stakers s1 = stakers s"
      "validators s1 = fmupd a (deactivated (election_block_after (env_policy E) bn) v) (validators s)"
      "active_validators s1 = fmdrop a (active_validators s)"
    using deactivate_run [OF Cons.prems(1) v(1,2), of E bn] v(3) by auto
  have "a \<notin> fst ` set xs" using Cons.prems(2) x by auto
  then have "\<forall>x\<in>set xs. \<exists>v. fmlookup (validators s1) (fst x) = Some v \<and> is_active v \<and> snd x = addr_of_key E (v_signing_key v)"
    using Cons.prems(3) s1(6) by (metis (no_types, lifting) fmupd_lookup image_eqI list.set_intros(2))
  moreover have "distinct (map fst xs)" using Cons.prems(2) by simp
  ultimately show ?case
    using Cons.IH [OF s1(2)] s1 x v(1) \<open>a \<notin> fst ` set xs\<close>
    by (auto simp: seq_eff_def bind_eff_def)
qed

section \<open>The version upgrade\<close>

definition unsupporting :: "(blake2b_hash option \<Rightarrow> bool) \<Rightarrow> staking_state \<Rightarrow> address \<Rightarrow> bool" where
  "unsupporting support_check s a \<longleftrightarrow>
     (\<exists>v. fmlookup (validators s) a = Some v \<and> is_active v \<and> \<not> support_check (v_signal_data v))"

lemma map_eff_pure: "(\<And>x. x \<in> set xs \<Longrightarrow> f x s = (Inr (g x), s)) \<Longrightarrow> map_eff f xs s = (Inr (map g xs), s)"
  by (induction xs) (simp_all add: eff_simps bind_eff_def)

lemma active_domain:
  assumes "sc_inv s"
  shows "a |\<in>| fmdom (active_validators s) \<longleftrightarrow> (\<exists>v. fmlookup (validators s) a = Some v \<and> is_active v)"
proof (cases "fmlookup (validators s) a")
  case None
  then show ?thesis using target_okD_novalidator [OF sc_invD(1) [OF assms] None] by (simp add: fmlookup_dom_iff)
next
  case (Some v)
  then show ?thesis using active_lookup [OF assms Some] by (simp add: fmlookup_dom_iff)
qed

lemma distinct_concat_singletons:
  "distinct ks \<Longrightarrow> distinct (map fst (concat (map (\<lambda>a. if P a then [(a, h a)] else []) ks)))"
  by (induction ks) auto

lemma deactivate_unsupporting_run:
  assumes inv: "sc_inv s"
  shows "\<exists>s'. deactivate_unsupporting_validators E support_check bn s = (Inr (), s') \<and> sc_inv s' \<and>
    sc_balance s' = sc_balance s \<and> punished s' = punished s \<and> stakers s' = stakers s \<and>
    (\<forall>a. fmlookup (validators s') a = (if unsupporting support_check s a
       then map_option (deactivated (election_block_after (env_policy E) (bn - 1))) (fmlookup (validators s) a)
       else fmlookup (validators s) a)) \<and>
    (\<forall>a. fmlookup (active_validators s') a =
       (if unsupporting support_check s a then None else fmlookup (active_validators s) a))"
proof -
  let ?ks = "sorted_list_of_fset (fmdom (active_validators s))" and ?v = "\<lambda>a. the (fmlookup (validators s) a)"
  let ?g = "\<lambda>a. if \<not> support_check (v_signal_data (?v a)) then [(a, addr_of_key E (v_signing_key (?v a)))] else []"
  let ?xs = "concat (map ?g ?ks)"
  have k: "a \<in> set ?ks \<longleftrightarrow> (\<exists>v. fmlookup (validators s) a = Some v \<and> is_active v)" for a
    using active_domain [OF inv] by simp
  have m: "map_eff (\<lambda>a. bind_eff (get_validator a) (\<lambda>v. bind_eff (expect v) (\<lambda>v.
      ret (if \<not> support_check (v_signal_data v) then [(v_address v, addr_of_key E (v_signing_key v))] else [])))) ?ks s =
      (Inr (map ?g ?ks), s)"
  proof (rule map_eff_pure)
    fix a
    assume "a \<in> set ?ks"
    then obtain v where v: "fmlookup (validators s) a = Some v" using k by blast
    have "v_address v = a" by (rule target_okD(1) [OF sc_invD(1) [OF inv] v])
    then show "bind_eff (get_validator a) (\<lambda>v. bind_eff (expect v) (\<lambda>v.
      ret (if \<not> support_check (v_signal_data v) then [(v_address v, addr_of_key E (v_signing_key v))] else []))) s =
      (Inr (?g a), s)"
      using v by (simp add: store_defs eff_simps some_or_def)
  qed
  have d: "distinct (map fst ?xs)" by (rule distinct_concat_singletons) (simp add: sorted_list_of_fset.rep_eq)
  have ok: "\<forall>x\<in>set ?xs. \<exists>v. fmlookup (validators s) (fst x) = Some v \<and> is_active v \<and> snd x = addr_of_key E (v_signing_key v)"
    using k by (auto split: if_splits)
  have u: "a \<in> fst ` set ?xs \<longleftrightarrow> unsupporting support_check s a" for a
    using k by (force simp: unsupporting_def split: if_splits)
  have "deactivate_unsupporting_validators E support_check bn s =
      for_eff (\<lambda>(a, signer). deactivate_validator E a signer (bn - 1)) ?xs s"
    unfolding deactivate_unsupporting_validators_def by (subst bind_eff_def, simp add: gets_def, subst bind_eff_def, simp add: m)
  then show ?thesis using deactivate_all [OF inv d ok, of "bn - 1"] unfolding u by simp
qed

section \<open>Inherents\<close>

lemma outcome_bind: "outcome (bind_eff m f s1) s Q = outcome (m s1) s (\<lambda>a s'. outcome (f a s') s Q)"
proof (cases "m s1")
  case (Pair r t)
  show ?thesis
  proof (cases r)
    case (Inl e)
    then show ?thesis using Pair by (cases e) (simp_all add: bind_eff_def outcome_def)
  next
    case (Inr a)
    then show ?thesis using Pair by (simp add: bind_eff_def outcome_Inr)
  qed
qed

lemma outcome_seq: "outcome (seq_eff m n s1) s Q = outcome (m s1) s (\<lambda>_ s'. outcome (n s') s Q)"
  by (simp add: seq_eff_def outcome_bind)

lemma outcome_with_tx_logger:
  assumes "logging m" "outcome (m s) s Q"
  shows "outcome (with_tx_logger m s) s Q"
proof (cases "m s")
  case (Pair r s')
  show ?thesis
  proof (cases r)
    case (Inl e)
    then show ?thesis using prepend_log_eq [OF assms(1) Pair, of "[]"] assms(2) Pair
      by (cases e) (auto simp: outcome_def with_tx_logger_def)
  next
    case (Inr a)
    then show ?thesis using with_tx_logger_run [OF assms(1)] assms(2) Pair by simp
  qed
qed

definition inherent_ok :: "policy \<Rightarrow> u32 \<Rightarrow> inherent \<Rightarrow> bool" where
  "inherent_ok p bn i \<longleftrightarrow> (case i of
     Jail_Inherent jv rng \<Rightarrow> wf_range (jv_slots jv) \<and> (\<forall>r. rng = Some r \<longrightarrow> wf_range r) \<and>
       (batch_at p (jv_offense_event_block jv) < batch_at p bn \<longrightarrow> epoch_at p bn - epoch_at p (jv_offense_event_block jv) \<le> 1)
   | FinalizeBatch \<Rightarrow> is_macro_block_at p bn \<or> is_election_block_at p bn
   | _ \<Rightarrow> True)"

definition inherent_post :: "staking_state \<Rightarrow> 'r \<Rightarrow> staking_state \<Rightarrow> bool" where
  "inherent_post s r s' \<longleftrightarrow> sc_inv s' \<and> sc_balance s' = sc_balance s \<and> stakers s' = stakers s \<and> wf_punished (punished s')"

lemma sc_inv_punished [simp]: "sc_inv (s \<lparr> punished := ps \<rparr>) = sc_inv s"
proof -
  have "targets (s \<lparr> punished := ps \<rparr>) = targets s" by (intro ext) (rule targets_cong; simp)
  then show ?thesis by (simp add: sc_inv_def)
qed

lemma jail_commit_safe:
  assumes inv: "sc_inv s" and w: "wf_punished (punished s)" and k: "inherent_ok (env_policy E) (bs_number bs) (Jail_Inherent jv rng)"
  shows "outcome (sc_commit_inherent E bs (Jail_Inherent jv rng) s) s (inherent_post s)"
proof -
  let ?a = "jv_validator_address jv" and ?bn = "bs_number bs"
  have "register_jail (env_policy E) (punished s) jv ?bn rng \<noteq> None"
    using k by (simp add: inherent_ok_def register_jail_def Let_def)
  then obtain pr cr ps' where r: "register_jail (env_policy E) (punished s) jv ?bn rng = Some ((pr, cr), ps')" by auto
  have w': "wf_punished ps'" by (rule wf_jail [OF w _ _ r]) (use k in \<open>auto simp: inherent_ok_def\<close>)
  have "outcome (with_tx_logger (jail_validator E ?a ?bn) s) s (\<lambda>_ s'. sc_inv s' \<and> sc_balance s' = sc_balance s \<and>
      stakers s' = stakers s \<and> punished s' = punished s)"
    by (rule outcome_with_tx_logger [OF logging_validator_ops(3)])
      (rule outcome_mono [OF jail_validator_spec [OF inv]], auto)
  then show ?thesis
    unfolding sc_commit_inherent.simps outcome_bind
    by (rule outcome_mono) (simp add: eff_simps r store_defs some_or_def put_punished_def bind_eff_def outcome_Inr inherent_post_def w')
qed

lemma penalize_commit_safe:
  assumes inv: "sc_inv s" and w: "wf_punished (punished s)"
  shows "outcome (sc_commit_inherent E bs (Penalize slot) s) s (inherent_post s)"
proof -
  let ?a = "ps_validator_address slot" and ?bn = "bs_number bs" and ?p = "env_policy E"
  obtain np nc ps' where r: "register_penalty ?p (punished s) slot ?bn = ((np, nc), ps')" by (metis prod.exhaust)
  have w': "wf_punished ps'" by (rule wf_penalty [OF w r])
  have q: "outcome (when_eff (is_active v) (with_tx_logger (deactivate_validator E ?a (addr_of_key E (v_signing_key v)) ?bn)) s) s
      (\<lambda>_ s'. sc_inv s' \<and> sc_balance s' = sc_balance s \<and> stakers s' = stakers s \<and> punished s' = punished s)" for v
  proof (cases "is_active v")
    case True
    show ?thesis
      unfolding when_eff_def if_P [OF True]
      by (rule outcome_with_tx_logger [OF logging_validator_ops(1)])
        (rule outcome_mono [OF deactivate_validator_spec [OF inv]], auto)
  qed (use inv in \<open>simp add: when_eff_def ret_def outcome_Inr\<close>)
  show ?thesis
    unfolding sc_commit_inherent.simps Let_def outcome_checks outcome_seq
    by (intro allI impI) (rule outcome_mono [OF q], auto simp: eff_simps r store_defs put_punished_def bind_eff_def outcome_Inr inherent_post_def w')
qed

lemma wf_finalize: "finalize_batch p ps bn active = Some ps' \<Longrightarrow> wf_punished ps \<Longrightarrow> wf_punished ps'"
  by (auto simp: finalize_batch_def wf_punished_def Let_def current_batch_punished_slots_spec split: if_splits)

lemma finalize_commit_safe:
  assumes inv: "sc_inv s" and w: "wf_punished (punished s)" and k: "inherent_ok (env_policy E) (bs_number bs) FinalizeBatch"
  shows "outcome (sc_commit_inherent E bs FinalizeBatch s) s (inherent_post s)"
proof -
  have "finalize_batch (env_policy E) (punished s) (bs_number bs) (active_validators s) \<noteq> None"
    using k by (auto simp: finalize_batch_def inherent_ok_def Let_def)
  then obtain ps' where f: "finalize_batch (env_policy E) (punished s) (bs_number bs) (active_validators s) = Some ps'" by auto
  show ?thesis
    using inv wf_finalize [OF f w]
    by (simp add: eff_simps f store_defs some_or_def put_punished_def bind_eff_def outcome_Inr inherent_post_def)
qed

lemma logging_for [logging_intros]: "(\<And>x. logging (f x)) \<Longrightarrow> logging (for_eff f xs)"
  by (induction xs) (auto intro: logging_intros)

lemma logging_map [logging_intros]: "(\<And>x. logging (f x)) \<Longrightarrow> logging (map_eff f xs)"
  by (induction xs) (auto intro!: logging_intros)

lemma logging_deactivate_unsupporting: "logging (deactivate_unsupporting_validators E chk bn)"
  unfolding deactivate_unsupporting_validators_def case_prod_beta
  by (intro logging_intros logging_gets) (simp add: prepend_log_def)

lemma upgrade_commit_run:
  assumes inv: "sc_inv s" and chk_def: "chk = (\<lambda>data. supports_upgrade data ver)"
  shows "\<exists>s'. sc_commit_inherent E bs (VersionUpgrade ver) s = (Inr None, s') \<and> sc_inv s' \<and>
    sc_balance s' = sc_balance s \<and> punished s' = punished s \<and> stakers s' = stakers s \<and>
    (\<forall>a. fmlookup (validators s') a = (if unsupporting chk s a
       then map_option (deactivated (election_block_after (env_policy E) (bs_number bs - 1))) (fmlookup (validators s) a)
       else fmlookup (validators s) a)) \<and>
    (\<forall>a. fmlookup (active_validators s') a = (if unsupporting chk s a then None else fmlookup (active_validators s) a))"
proof -
  obtain s' where s': "deactivate_unsupporting_validators E chk (bs_number bs) s = (Inr (), s')" "sc_inv s'"
    "sc_balance s' = sc_balance s" "punished s' = punished s" "stakers s' = stakers s"
    "\<forall>a. fmlookup (validators s') a = (if unsupporting chk s a
       then map_option (deactivated (election_block_after (env_policy E) (bs_number bs - 1))) (fmlookup (validators s) a)
       else fmlookup (validators s) a)"
    "\<forall>a. fmlookup (active_validators s') a = (if unsupporting chk s a then None else fmlookup (active_validators s) a)"
    using deactivate_unsupporting_run [OF inv, of E chk "bs_number bs"] by auto
  have "sc_commit_inherent E bs (VersionUpgrade ver) s = (Inr None, s')"
    using with_tx_logger_run [OF logging_deactivate_unsupporting s'(1)] by (simp add: chk_def seq_eff_def bind_eff_def ret_def)
  then show ?thesis using s'(2-) by blast
qed

lemma commit_inherent_safe:
  assumes inv: "sc_inv s" and w: "wf_punished (punished s)" and k: "inherent_ok (env_policy E) (bs_number bs) i"
  shows "outcome (sc_commit_inherent E bs i s) s (inherent_post s)"
proof (cases i)
  case (Penalize slot)
  then show ?thesis using penalize_commit_safe [OF inv w] by simp
next
  case (Jail_Inherent jv rng)
  then show ?thesis using jail_commit_safe [OF inv w] k by blast
next
  case FinalizeBatch
  then show ?thesis using finalize_commit_safe [OF inv w] k by blast
next
  case (VersionUpgrade ver)
  then show ?thesis using upgrade_commit_run [OF inv refl, of E bs ver] w by (auto simp: outcome_Inr inherent_post_def)
qed (use inv w in \<open>simp_all add: ret_def throw_def outcome_def inherent_post_def\<close>)

section \<open>Reverting inherents\<close>

lemma jail_commit_inv:
  assumes "sc_inv s" "sc_commit_inherent E bs (Jail_Inherent jv rng) s = (Inr r, s')"
  obtains jr s1 pr cr ps' where "jail_validator E (jv_validator_address jv) (bs_number bs) s = (Inr jr, s1)"
    "register_jail (env_policy E) (punished s) jv (bs_number bs) rng = Some ((pr, cr), ps')"
    "punished s1 = punished s" "s' = s1 \<lparr> punished := ps' \<rparr>"
    "r = Some (serialize_to_vec (jail_codec E)
      \<lparr> jr_newly_deactivated = jvr_newly_deactivated jr, jr_old_previous_batch_punished_slots = pr,
        jr_old_current_batch_punished_slots = cr, jr_old_jailed_from = jvr_old_jailed_from jr \<rparr>)"
proof -
  obtain jr s1 where j: "with_tx_logger (jail_validator E (jv_validator_address jv) (bs_number bs)) s = (Inr jr, s1)"
    using assms(2) by (auto simp: bind_eff_Inr)
  have m: "jail_validator E (jv_validator_address jv) (bs_number bs) s = (Inr jr, s1)"
    by (rule with_tx_logger_inv [OF logging_validator_ops(3) j])
  have p: "punished s1 = punished s"
    using jail_validator_spec [OF assms(1), of E "jv_validator_address jv" "bs_number bs"] unfolding m outcome_Inr by auto
  show ?thesis
    using assms(2) j p that [OF m]
    by (auto simp: bind_eff_Inr seq_eff_Inr store_Inr eff_leaf_iff put_punished_def)
qed

lemma jail_inherent_undo:
  assumes inv: "sc_inv s" and c: "codec_ok (jail_codec E)"
  shows "undoes (sc_commit_inherent E bs (Jail_Inherent jv rng)) (\<lambda>r. sc_revert_inherent E r (Jail_Inherent jv rng)) s"
  unfolding undoes_def
proof (intro allI impI)
  fix r s'
  assume "sc_commit_inherent E bs (Jail_Inherent jv rng) s = (Inr r, s')"
  from jail_commit_inv [OF inv this] obtain jr s1 pr cr ps' where
    j: "jail_validator E (jv_validator_address jv) (bs_number bs) s = (Inr jr, s1)"
    "register_jail (env_policy E) (punished s) jv (bs_number bs) rng = Some ((pr, cr), ps')"
    "punished s1 = punished s" "s' = s1 \<lparr> punished := ps' \<rparr>"
    "r = Some (serialize_to_vec (jail_codec E)
      \<lparr> jr_newly_deactivated = jvr_newly_deactivated jr, jr_old_previous_batch_punished_slots = pr,
        jr_old_current_batch_punished_slots = cr, jr_old_jailed_from = jvr_old_jailed_from jr \<rparr>)" by blast
  obtain ls where ls: "tx_log s1 = tx_log s @ ls"
    "revert_jail_validator (jv_validator_address jv) jr s1 = (Inr (), s \<lparr> tx_log := tx_log s1 @ rev ls \<rparr>)"
    using jail_validator_undo [OF inv] j(1) unfolding undoes_def by blast
  have "s' \<lparr> punished := punished s \<rparr> = s1" using j(3,4) by (intro state_eqI) simp_all
  then have "sc_revert_inherent E r (Jail_Inherent jv rng) s' =
      with_tx_logger (revert_jail_validator (jv_validator_address jv) jr) s1"
    unfolding sc_revert_inherent.simps j(5) expect_receipt_run [OF c]
    using revert_jail [OF j(2)] j(4) by (cases jr) (simp add: eff_simps put_punished_def jail_validator_receipt_from_def bind_eff_def)
  then show "\<exists>ls. tx_log s' = tx_log s @ ls \<and>
      sc_revert_inherent E r (Jail_Inherent jv rng) s' = (Inr (), s \<lparr> tx_log := tx_log s' @ rev ls \<rparr>)"
    using ls j(4) with_tx_logger_run [OF logging_validator_ops(4) ls(2)] by auto
qed

lemma penalize_inherent_undo:
  assumes inv: "sc_inv s" and w: "wf_punished (punished s)" and c: "codec_ok (penalize_codec E)"
  shows "undoes (sc_commit_inherent E bs (Penalize slot)) (\<lambda>r. sc_revert_inherent E r (Penalize slot)) s"
  unfolding undoes_def
proof (intro allI impI)
  fix r s'
  let ?a = "ps_validator_address slot" and ?bn = "bs_number bs"
  let ?d = "\<lambda>v. deactivate_validator E ?a (addr_of_key E (v_signing_key v)) ?bn"
  let ?log = "\<lambda>v. Log_Penalize ?a (ps_offense_event_block slot) (ps_slot slot) (is_active v)"
  obtain np nc ps' where r: "register_penalty (env_policy E) (punished s) slot ?bn = ((np, nc), ps')" by (metis prod.exhaust)
  assume m: "sc_commit_inherent E bs (Penalize slot) s = (Inr r, s')"
  then obtain v s1 where v: "fmlookup (validators s) ?a = Some v"
    "when_eff (is_active v) (with_tx_logger (?d v)) s = (Inr (), s1)"
    by (auto simp: bind_eff_Inr seq_eff_Inr expect_validator_Inr Let_def)
  have d: "if is_active v then ?d v s = (Inr (), s1) else s1 = s"
    using v(2) with_tx_logger_inv [OF logging_validator_ops(1)] by (auto simp: when_eff_def ret_def split: if_splits)
  have p: "punished s1 = punished s"
    using d deactivate_validator_spec [OF inv, of E ?a "addr_of_key E (v_signing_key v)" ?bn]
    by (auto simp: outcome_Inr split: if_splits)
  have s': "s' = s1 \<lparr> punished := ps', tx_log := tx_log s1 @ [?log v] \<rparr>"
    "r = Some (serialize_to_vec (penalize_codec E) \<lparr> pr_newly_deactivated = is_active v,
       pr_newly_punished_previous_batch = np, pr_newly_punished_current_batch = nc \<rparr>)"
    using m v p r by (auto simp: bind_eff_Inr seq_eff_Inr store_Inr eff_leaf_iff put_punished_def expect_validator_Inr Let_def)
  let ?t = "s1 \<lparr> tx_log := tx_log s1 @ [?log v, ?log v] \<rparr>"
  have t: "s' \<lparr> punished := punished s, tx_log := tx_log s' @ [?log v] \<rparr> = ?t" using p s'(1) by (intro state_eqI) simp_all
  have rv: "sc_revert_inherent E r (Penalize slot) s' = when_eff (is_active v) (with_tx_logger (revert_deactivate_validator ?a)) ?t"
    unfolding sc_revert_inherent.simps s'(2) expect_receipt_run [OF c]
    using revert_penalty [OF w r] s'(1) t
    by (cases "is_active v") (simp_all add: eff_simps store_defs some_or_def put_punished_def bind_eff_def)
  show "\<exists>ls. tx_log s' = tx_log s @ ls \<and>
      sc_revert_inherent E r (Penalize slot) s' = (Inr (), s \<lparr> tx_log := tx_log s' @ rev ls \<rparr>)"
  proof (cases "is_active v")
    case False
    then show ?thesis using rv d s'(1) by (intro exI [of _ "[?log v]"]) (simp add: when_eff_def ret_def)
  next
    case True
    obtain ls where ls: "tx_log s1 = tx_log s @ ls"
      "revert_deactivate_validator ?a s1 = (Inr (), s \<lparr> tx_log := tx_log s1 @ rev ls \<rparr>)"
      using deactivate_validator_undo [OF inv] d True unfolding undoes_def by fastforce
    have "revert_deactivate_validator ?a ?t = (Inr (), s \<lparr> tx_log := tx_log ?t @ rev ls \<rparr>)"
      using prepend_log_eq [OF logging_validator_ops(2) ls(2), of "tx_log ?t"] by auto
    then have "sc_revert_inherent E r (Penalize slot) s' = (Inr (), s \<lparr> tx_log := tx_log ?t @ rev ls \<rparr>)"
      unfolding rv using True with_tx_logger_run [OF logging_validator_ops(2)] by (simp add: when_eff_def)
    then show ?thesis using ls(1) s'(1) by (intro exI [of _ "ls @ [?log v]"]) simp
  qed
qed

end
