(* ===== verification/Wire.thy ===== *)
theory Wire
  imports AccountTypes
begin

text \<open>
  The binary form of fixed-size data: \<open>deserialize_take\<close> and \<open>deserialize_all\<close> of
  \<^verbatim>\<open>serde/src/lib.rs\<close> on byte arrays, big-endian integers (\<open>fixint::be\<close>) and coins. A reader takes its
  value from the front of the bytes and returns the rest.
\<close>

section \<open>Readers\<close>

type_synonym 'a reader = "u8 list \<Rightarrow> deserialize_error + 'a \<times> u8 list"

definition take_bytes :: "nat \<Rightarrow> u8 list reader" where
  "take_bytes n bs = (if n \<le> length bs then Inr (take n bs, drop n bs) else Inl ''DeserializeUnexpectedEnd'')"

definition bind_reader :: "'a reader \<Rightarrow> ('a \<Rightarrow> 'b reader) \<Rightarrow> 'b reader" where
  "bind_reader p f bs = (case p bs of Inl e \<Rightarrow> Inl e | Inr (a, rest) \<Rightarrow> f a rest)"

definition ret_reader :: "'a \<Rightarrow> 'a reader" where
  "ret_reader a bs = Inr (a, bs)"

definition deserialize_all :: "'a reader \<Rightarrow> u8 list \<Rightarrow> deserialize_error + 'a" where
  "deserialize_all p bs = (case p bs of
     Inl e \<Rightarrow> Inl e
   | Inr (a, rest) \<Rightarrow> if rest \<noteq> [] then Inl ''ExtraData'' else Inr a)"

fun be_nat :: "u8 list \<Rightarrow> nat" where
  "be_nat [] = 0"
| "be_nat (b # bs) = unat b * 256 ^ length bs + be_nat bs"

fun be_bytes :: "nat \<Rightarrow> nat \<Rightarrow> u8 list" where
  "be_bytes 0 n = []"
| "be_bytes (Suc k) n = of_nat (n div 256 ^ k) # be_bytes k (n mod 256 ^ k)"

definition take_be :: "nat \<Rightarrow> 'w::len word reader" where
  "take_be k = bind_reader (take_bytes k) (\<lambda>bs. ret_reader (of_nat (be_nat bs)))"

definition put_be :: "nat \<Rightarrow> 'w::len word \<Rightarrow> u8 list" where
  "put_be k w = be_bytes k (unat w)"

definition take_coin :: "coin reader" where
  "take_coin = bind_reader (take_be 8) (\<lambda>v :: u64. case coin_try_from (unat v) of
     Inl _ \<Rightarrow> (\<lambda>_. Inl ''SerdeDeCustom'') | Inr c \<Rightarrow> ret_reader c)"

definition put_coin :: "coin \<Rightarrow> u8 list" where
  "put_coin c = be_bytes 8 c"

section \<open>Round trips\<close>

lemma length_be_bytes [simp]: "length (be_bytes k n) = k"
  by (induction k arbitrary: n) simp_all

lemma be_nat_bytes: "n < 256 ^ k \<Longrightarrow> be_nat (be_bytes k n) = n"
proof (induction k arbitrary: n)
  case (Suc k)
  have q: "n div 256 ^ k < 256" using Suc.prems by (simp add: less_mult_imp_div_less)
  have "be_nat (be_bytes k (n mod 256 ^ k)) = n mod 256 ^ k" by (rule Suc.IH) simp
  then show ?case using q by (simp add: take_bit_nat_eq_self unsigned_of_nat div_mult_mod_eq)
qed simp

text \<open>A writer and the reader that undoes it on the values they are meant for.\<close>

locale wire =
  fixes ok :: "'a \<Rightarrow> bool" and put :: "'a \<Rightarrow> u8 list" and get :: "'a reader"
  assumes get_put: "ok x \<Longrightarrow> get (put x @ rest) = Inr (x, rest)"
begin

lemma bind_get_put: "ok x \<Longrightarrow> bind_reader get f (put x @ rest) = f x rest"
  by (simp add: bind_reader_def get_put)

lemma all_get_put: "ok x \<Longrightarrow> deserialize_all get (put x) = Inr x"
  using get_put [of x "[]"] by (simp add: deserialize_all_def)

lemma put_inj: "ok x \<Longrightarrow> ok y \<Longrightarrow> put x = put y \<Longrightarrow> x = y"
  by (metis all_get_put sum.inject(2))

end

lemma take_bytes_append: "length bs = n \<Longrightarrow> take_bytes n (bs @ rest) = Inr (bs, rest)"
  by (simp add: take_bytes_def)

lemma take_be_put:
  assumes "LENGTH('w::len) = 8 * k"
  shows "take_be k (put_be k w @ rest) = Inr ((w :: 'w word), rest)"
proof -
  have "unat w < 256 ^ k" using unsigned_less [of w] assms by (simp add: power_mult)
  then show ?thesis
    by (simp add: take_be_def put_be_def bind_reader_def take_bytes_append ret_reader_def be_nat_bytes)
qed

interpretation w64: wire "\<lambda>_. True" "put_be 8 :: u64 \<Rightarrow> u8 list" "take_be 8"
  by unfold_locales (rule take_be_put, simp)

interpretation w32: wire "\<lambda>_. True" "put_be 4 :: u32 \<Rightarrow> u8 list" "take_be 4"
  by unfold_locales (rule take_be_put, simp)

interpretation w8: wire "\<lambda>_. True" "put_be 1 :: u8 \<Rightarrow> u8 list" "take_be 1"
  by unfold_locales (rule take_be_put, simp)

interpretation waddr: wire "\<lambda>_. True" "put_be 20 :: address \<Rightarrow> u8 list" "take_be 20"
  by unfold_locales (rule take_be_put, simp)

interpretation wcoin: wire "\<lambda>c. c \<le> MAX_SAFE_VALUE" put_coin take_coin
proof
  fix c :: coin and rest
  assume c: "c \<le> MAX_SAFE_VALUE"
  then have "c < 256 ^ 8" by (simp add: MAX_SAFE_VALUE_def)
  moreover have "unat (of_nat c :: u64) = c"
    using c by (simp add: unat_of_nat take_bit_nat_eq_self MAX_SAFE_VALUE_def)
  ultimately show "take_coin (put_coin c @ rest) = Inr (c, rest)"
    using c
    by (simp add: take_coin_def put_coin_def take_be_def bind_reader_def take_bytes_append ret_reader_def be_nat_bytes
        coin_try_from_def)
qed

interpretation wbytes: wire "\<lambda>bs. length bs = n" "\<lambda>bs. bs" "take_bytes n" for n
  by unfold_locales (rule take_bytes_append)

end
