(* ===== verification/TransactionData.thy ===== *)
theory TransactionData
  imports Wire StakingTransaction
begin

text \<open>
  Transactions and what makes them valid on their own: the creation data of vesting contracts and of
  hash-time-locked contracts (HTLCs), the proofs that spend from them, the verification per account
  type (\<^verbatim>\<open>primitives/transaction/src/account\<close>) and \<open>Transaction::verify\<close>
  (\<^verbatim>\<open>primitives/transaction/src/lib.rs\<close>). Signature proofs, hash functions and the
  deserialization of proofs are functions of the environment.
\<close>

section \<open>The environment\<close>

type_synonym pow_signature_proof = "u8 list"

datatype htlc_proof =
    RegularTransfer u8 any_hash pre_image signature_proof
  | EarlyResolve signature_proof signature_proof
  | TimeoutResolve signature_proof

datatype pow_htlc_proof =
    DummyZero
  | PoWRegularTransfer u8 any_hash pre_image pow_signature_proof
  | PoWEarlyResolve pow_signature_proof pow_signature_proof
  | PoWTimeoutResolve pow_signature_proof

record pruned_vesting_contract =
  pv_owner :: address
  pv_start_time :: u64
  pv_time_step :: u64
  pv_step_amount :: coin
  pv_total_amount :: coin

record pruned_htlc =
  ph_sender :: address
  ph_recipient :: address
  ph_hash_root :: any_hash
  ph_hash_count :: u8
  ph_timeout :: u64
  ph_total_amount :: coin

record 'r acc_env = "'r sc_env" +
  deserialize_pow_proof :: "u8 list \<Rightarrow> deserialize_error + pow_signature_proof"
  pow_into_pos :: "pow_signature_proof \<Rightarrow> signature_proof"
  pow_verify :: "pow_signature_proof \<Rightarrow> u8 list \<Rightarrow> bool"
  deserialize_htlc_proof :: "u8 list \<Rightarrow> deserialize_error + htlc_proof"
  deserialize_pow_htlc_proof :: "u8 list \<Rightarrow> deserialize_error + pow_htlc_proof"
  blake2b :: "u8 list \<Rightarrow> u8 list"
  sha256 :: "u8 list \<Rightarrow> u8 list"
  sha512 :: "u8 list \<Rightarrow> u8 list"
  address_of_hash :: "transaction \<Rightarrow> address"
  pruned_vesting_codec :: "('r, pruned_vesting_contract) codec"
  pruned_htlc_codec :: "('r, pruned_htlc) codec"

definition is_signed_by :: "('r, 'z) sc_env_scheme \<Rightarrow> signature_proof \<Rightarrow> address \<Rightarrow> bool" where
  "is_signed_by E proof address = (compute_signer E proof = address)"

definition contract_creation_address :: "('r, 'z) acc_env_scheme \<Rightarrow> transaction \<Rightarrow> address" where
  "contract_creation_address E tx = address_of_hash E (tx \<lparr> tx_recipient := 0 \<rparr>)"

section \<open>Vesting contracts\<close>

definition MAX_TIME_VALUE :: nat where
  "MAX_TIME_VALUE = MAX_SAFE_VALUE"

record vesting_data =
  vd_owner :: address
  vd_start_time :: u64
  vd_time_step :: u64
  vd_step_amount :: coin
  vd_total_amount :: coin

text \<open>The three wire formats, of 28, 44 and 52 bytes.\<close>

definition get_vesting8 :: "(address \<times> u64) reader" where
  "get_vesting8 = bind_reader (take_be 20) (\<lambda>owner.
     bind_reader (take_be 8) (\<lambda>time_step. ret_reader (owner, time_step)))"

definition get_vesting24 :: "(address \<times> u64 \<times> u64 \<times> coin) reader" where
  "get_vesting24 = bind_reader (take_be 20) (\<lambda>owner.
     bind_reader (take_be 8) (\<lambda>start_time.
     bind_reader (take_be 8) (\<lambda>time_step.
     bind_reader take_coin (\<lambda>step_amount. ret_reader (owner, start_time, time_step, step_amount)))))"

definition get_vesting32 :: "(address \<times> u64 \<times> u64 \<times> coin \<times> coin) reader" where
  "get_vesting32 = bind_reader (take_be 20) (\<lambda>owner.
     bind_reader (take_be 8) (\<lambda>start_time.
     bind_reader (take_be 8) (\<lambda>time_step.
     bind_reader take_coin (\<lambda>step_amount.
     bind_reader take_coin (\<lambda>total_amount.
       ret_reader (owner, start_time, time_step, step_amount, total_amount))))))"

definition parse_vesting_data :: "u8 list \<Rightarrow> coin \<Rightarrow> transaction_error + vesting_data" where
  "parse_vesting_data data amount =
    (if length data = 28 then
       case deserialize_all get_vesting8 data of
         Inl e \<Rightarrow> Inl (TxInvalidSerialization e)
       | Inr (owner, time_step) \<Rightarrow>
           if unat time_step > MAX_TIME_VALUE then Inl InvalidData
           else Inr \<lparr> vd_owner = owner, vd_start_time = 0, vd_time_step = time_step,
             vd_step_amount = amount, vd_total_amount = amount \<rparr>
     else if length data = 44 then
       case deserialize_all get_vesting24 data of
         Inl e \<Rightarrow> Inl (TxInvalidSerialization e)
       | Inr (owner, start_time, time_step, step_amount) \<Rightarrow>
           if unat start_time > MAX_TIME_VALUE \<or> unat time_step > MAX_TIME_VALUE then Inl InvalidData
           else Inr \<lparr> vd_owner = owner, vd_start_time = start_time, vd_time_step = time_step,
             vd_step_amount = step_amount, vd_total_amount = amount \<rparr>
     else if length data = 52 then
       case deserialize_all get_vesting32 data of
         Inl e \<Rightarrow> Inl (TxInvalidSerialization e)
       | Inr (owner, start_time, time_step, step_amount, total_amount) \<Rightarrow>
           if unat start_time > MAX_TIME_VALUE \<or> unat time_step > MAX_TIME_VALUE then Inl InvalidData
           else if total_amount > amount then Inl InvalidData
           else if step_amount > total_amount then Inl InvalidData
           else Inr \<lparr> vd_owner = owner, vd_start_time = start_time, vd_time_step = time_step,
             vd_step_amount = step_amount, vd_total_amount = total_amount \<rparr>
     else Inl InvalidData)"

definition parse_vesting :: "transaction \<Rightarrow> transaction_error + vesting_data" where
  "parse_vesting tx = parse_vesting_data (tx_recipient_data tx) (tx_value tx)"

definition vesting_to_tx_data :: "vesting_data \<Rightarrow> u8 list" where
  "vesting_to_tx_data d =
    (if vd_step_amount d = vd_total_amount d then
       if vd_start_time d = 0 then put_be 20 (vd_owner d) @ put_be 8 (vd_time_step d)
       else put_be 20 (vd_owner d) @ put_be 8 (vd_start_time d) @ put_be 8 (vd_time_step d) @ put_coin (vd_step_amount d)
     else put_be 20 (vd_owner d) @ put_be 8 (vd_start_time d) @ put_be 8 (vd_time_step d) @ put_coin (vd_step_amount d) @
       put_coin (vd_total_amount d))"

text \<open>Creation data of the proof-of-work chain, with block heights in place of timestamps.\<close>

record pow_vesting_data =
  pvd_owner :: address
  pvd_start_block :: u32
  pvd_step_blocks :: u32
  pvd_step_amount :: coin
  pvd_total_amount :: coin

definition get_pow_vesting4 :: "(address \<times> u32) reader" where
  "get_pow_vesting4 = bind_reader (take_be 20) (\<lambda>owner.
     bind_reader (take_be 4) (\<lambda>step_blocks. ret_reader (owner, step_blocks)))"

definition get_pow_vesting16 :: "(address \<times> u32 \<times> u32 \<times> coin) reader" where
  "get_pow_vesting16 = bind_reader (take_be 20) (\<lambda>owner.
     bind_reader (take_be 4) (\<lambda>start_block.
     bind_reader (take_be 4) (\<lambda>step_blocks.
     bind_reader take_coin (\<lambda>step_amount. ret_reader (owner, start_block, step_blocks, step_amount)))))"

definition get_pow_vesting24 :: "(address \<times> u32 \<times> u32 \<times> coin \<times> coin) reader" where
  "get_pow_vesting24 = bind_reader (take_be 20) (\<lambda>owner.
     bind_reader (take_be 4) (\<lambda>start_block.
     bind_reader (take_be 4) (\<lambda>step_blocks.
     bind_reader take_coin (\<lambda>step_amount.
     bind_reader take_coin (\<lambda>total_amount.
       ret_reader (owner, start_block, step_blocks, step_amount, total_amount))))))"

definition parse_pow_vesting_data :: "u8 list \<Rightarrow> coin \<Rightarrow> transaction_error + pow_vesting_data" where
  "parse_pow_vesting_data data amount =
    (if length data = 24 then
       case deserialize_all get_pow_vesting4 data of
         Inl e \<Rightarrow> Inl (TxInvalidSerialization e)
       | Inr (owner, step_blocks) \<Rightarrow>
           Inr \<lparr> pvd_owner = owner, pvd_start_block = 1, pvd_step_blocks = step_blocks,
             pvd_step_amount = amount, pvd_total_amount = amount \<rparr>
     else if length data = 36 then
       case deserialize_all get_pow_vesting16 data of
         Inl e \<Rightarrow> Inl (TxInvalidSerialization e)
       | Inr (owner, start_block, step_blocks, step_amount) \<Rightarrow>
           Inr \<lparr> pvd_owner = owner, pvd_start_block = start_block, pvd_step_blocks = step_blocks,
             pvd_step_amount = step_amount, pvd_total_amount = amount \<rparr>
     else if length data = 44 then
       case deserialize_all get_pow_vesting24 data of
         Inl e \<Rightarrow> Inl (TxInvalidSerialization e)
       | Inr (owner, start_block, step_blocks, step_amount, total_amount) \<Rightarrow>
           Inr \<lparr> pvd_owner = owner, pvd_start_block = start_block, pvd_step_blocks = step_blocks,
             pvd_step_amount = step_amount, pvd_total_amount = total_amount \<rparr>
     else Inl InvalidData)"

definition parse_pow_vesting :: "transaction \<Rightarrow> transaction_error + pow_vesting_data" where
  "parse_pow_vesting tx = parse_pow_vesting_data (tx_recipient_data tx) (tx_value tx)"

definition pow_time :: "u32 \<Rightarrow> u64 \<Rightarrow> u32 \<Rightarrow> u64" where
  "pow_time genesis_number genesis_timestamp block =
    (if block \<le> genesis_number
     then genesis_timestamp - ucast (genesis_number - block) * 60000
     else genesis_timestamp + ucast (block - genesis_number) * 60000)"

definition pow_vesting_into_pos :: "pow_vesting_data \<Rightarrow> u32 \<Rightarrow> u64 \<Rightarrow> vesting_data" where
  "pow_vesting_into_pos d genesis_number genesis_timestamp =
    \<lparr> vd_owner = pvd_owner d, vd_start_time = pow_time genesis_number genesis_timestamp (pvd_start_block d),
      vd_time_step = ucast (pvd_step_blocks d) * 60000, vd_step_amount = pvd_step_amount d,
      vd_total_amount = pvd_total_amount d \<rparr>"

definition vesting_verify_incoming ::
  "('r, 'z) acc_env_scheme \<Rightarrow> transaction \<Rightarrow> (transaction_error + unit) option" where
  "vesting_verify_incoming E tx =
    (if tx_recipient_type tx \<noteq> Vesting then None
     else Some
      (if \<not> tx_contract_creation tx then Inl TxInvalidForRecipient
       else if tx_signaling tx then Inl TxInvalidForRecipient
       else if tx_recipient tx \<noteq> contract_creation_address E tx then Inl TxInvalidForRecipient
       else if is_albatross (tx_network_id tx) then map_sum id (\<lambda>_. ()) (parse_vesting tx)
       else map_sum id (\<lambda>_. ()) (parse_pow_vesting tx)))"

text \<open>The proof of a transaction, in the format of its network.\<close>

definition parse_signature_proof ::
  "('r, 'z) acc_env_scheme \<Rightarrow> transaction \<Rightarrow> deserialize_error + signature_proof" where
  "parse_signature_proof E tx =
    (if is_albatross (tx_network_id tx) then deserialize_proof E (tx_proof tx)
     else map_sum id (pow_into_pos E) (deserialize_pow_proof E (tx_proof tx)))"

definition vesting_verify_outgoing ::
  "('r, 'z) acc_env_scheme \<Rightarrow> transaction \<Rightarrow> (transaction_error + unit) option" where
  "vesting_verify_outgoing E tx =
    (if tx_sender_type tx \<noteq> Vesting then None
     else Some
      (if tx_sender_data tx \<noteq> [] then Inl Overflow
       else case parse_signature_proof E tx of
         Inl e \<Rightarrow> Inl (TxInvalidSerialization e)
       | Inr proof \<Rightarrow> if \<not> verify_proof E proof (serialize_content E tx) then Inl InvalidProof else Inr ()))"

section \<open>Basic accounts\<close>

definition basic_verify_incoming :: "transaction \<Rightarrow> (transaction_error + unit) option" where
  "basic_verify_incoming tx =
    (if tx_recipient_type tx \<noteq> Basic then None
     else Some
      (if tx_value tx = 0 then Inl ZeroValue
       else if length (tx_recipient_data tx) > MAX_BASIC_TX_RECIPIENT_DATA_SIZE then Inl Overflow
       else if tx_contract_creation tx \<or> tx_signaling tx then Inl TxInvalidForRecipient
       else Inr ()))"

definition basic_verify_outgoing ::
  "('r, 'z) acc_env_scheme \<Rightarrow> transaction \<Rightarrow> (transaction_error + unit) option" where
  "basic_verify_outgoing E tx =
    (if tx_sender_type tx \<noteq> Basic then None
     else Some
      (if tx_sender_data tx \<noteq> [] then Inl Overflow
       else case parse_signature_proof E tx of
         Inl e \<Rightarrow> Inl (TxInvalidSerialization e)
       | Inr proof \<Rightarrow>
           if \<not> is_signed_by E proof (tx_sender tx) \<or> \<not> verify_proof E proof (serialize_content E tx)
           then Inl InvalidProof else Inr ()))"

section \<open>Hash-time-locked contracts\<close>

record htlc_data =
  hd_sender :: address
  hd_recipient :: address
  hd_hash_root :: any_hash
  hd_hash_count :: u8
  hd_timeout :: u64

record pow_htlc_data =
  phd_sender :: address
  phd_recipient :: address
  phd_hash_root :: any_hash
  phd_hash_count :: u8
  phd_timeout :: u32

definition get_any_hash :: "any_hash reader" where
  "get_any_hash = bind_reader (take_be 1) (\<lambda>algorithm :: u8.
     if algorithm = 1 then bind_reader (take_bytes 32) (\<lambda>hash. ret_reader (AnyBlake2b hash))
     else if algorithm = 3 then bind_reader (take_bytes 32) (\<lambda>hash. ret_reader (AnySha256 hash))
     else if algorithm = 4 then bind_reader (take_bytes 64) (\<lambda>hash. ret_reader (AnySha512 hash))
     else (\<lambda>_. Inl ''SerdeDeCustom''))"

fun put_any_hash :: "any_hash \<Rightarrow> u8 list" where
  "put_any_hash (AnyBlake2b hash) = 1 # hash"
| "put_any_hash (AnySha256 hash) = 3 # hash"
| "put_any_hash (AnySha512 hash) = 4 # hash"

definition get_htlc_data :: "htlc_data reader" where
  "get_htlc_data = bind_reader (take_be 20) (\<lambda>sender.
     bind_reader (take_be 20) (\<lambda>recipient.
     bind_reader get_any_hash (\<lambda>hash_root.
     bind_reader (take_be 1) (\<lambda>hash_count.
     bind_reader (take_be 8) (\<lambda>timeout.
       ret_reader \<lparr> hd_sender = sender, hd_recipient = recipient, hd_hash_root = hash_root,
         hd_hash_count = hash_count, hd_timeout = timeout \<rparr>)))))"

definition put_htlc_data :: "htlc_data \<Rightarrow> u8 list" where
  "put_htlc_data d = put_be 20 (hd_sender d) @ put_be 20 (hd_recipient d) @ put_any_hash (hd_hash_root d) @
     put_be 1 (hd_hash_count d) @ put_be 8 (hd_timeout d)"

definition get_pow_htlc_data :: "pow_htlc_data reader" where
  "get_pow_htlc_data = bind_reader (take_be 20) (\<lambda>sender.
     bind_reader (take_be 20) (\<lambda>recipient.
     bind_reader get_any_hash (\<lambda>hash_root.
     bind_reader (take_be 1) (\<lambda>hash_count.
     bind_reader (take_be 4) (\<lambda>timeout.
       ret_reader \<lparr> phd_sender = sender, phd_recipient = recipient, phd_hash_root = hash_root,
         phd_hash_count = hash_count, phd_timeout = timeout \<rparr>)))))"

definition parse_htlc :: "transaction \<Rightarrow> transaction_error + htlc_data" where
  "parse_htlc tx = map_sum TxInvalidSerialization id (deserialize_all get_htlc_data (tx_recipient_data tx))"

definition parse_pow_htlc :: "transaction \<Rightarrow> transaction_error + pow_htlc_data" where
  "parse_pow_htlc tx = map_sum TxInvalidSerialization id (deserialize_all get_pow_htlc_data (tx_recipient_data tx))"

definition verify_htlc_data :: "htlc_data \<Rightarrow> transaction_error + unit" where
  "verify_htlc_data d = (if hd_hash_count d = 0 then Inl InvalidData else Inr ())"

definition verify_pow_htlc_data :: "pow_htlc_data \<Rightarrow> transaction_error + unit" where
  "verify_pow_htlc_data d = (if phd_hash_count d = 0 then Inl InvalidData else Inr ())"

definition pow_htlc_into_pos :: "pow_htlc_data \<Rightarrow> u32 \<Rightarrow> u64 \<Rightarrow> htlc_data" where
  "pow_htlc_into_pos d genesis_number genesis_timestamp =
    \<lparr> hd_sender = phd_sender d, hd_recipient = phd_recipient d, hd_hash_root = phd_hash_root d,
      hd_hash_count = phd_hash_count d, hd_timeout = pow_time genesis_number genesis_timestamp (phd_timeout d) \<rparr>"

definition htlc_verify_incoming ::
  "('r, 'z) acc_env_scheme \<Rightarrow> transaction \<Rightarrow> (transaction_error + unit) option" where
  "htlc_verify_incoming E tx =
    (if tx_recipient_type tx \<noteq> HTLC then None
     else Some
      (if \<not> tx_contract_creation tx then Inl TxInvalidForRecipient
       else if tx_signaling tx then Inl TxInvalidForRecipient
       else if tx_recipient tx \<noteq> contract_creation_address E tx then Inl TxInvalidForRecipient
       else if is_albatross (tx_network_id tx) then
         if length (tx_recipient_data tx) \<noteq> 20 * 2 + 1 + 32 + 1 + 8 \<and> length (tx_recipient_data tx) \<noteq> 20 * 2 + 1 + 64 + 1 + 8
         then Inl InvalidData
         else case parse_htlc tx of Inl e \<Rightarrow> Inl e | Inr d \<Rightarrow> verify_htlc_data d
       else
         if length (tx_recipient_data tx) \<noteq> 20 * 2 + 1 + 32 + 1 + 4 \<and> length (tx_recipient_data tx) \<noteq> 20 * 2 + 1 + 64 + 1 + 4
         then Inl InvalidData
         else case parse_pow_htlc tx of Inl e \<Rightarrow> Inl e | Inr d \<Rightarrow> verify_pow_htlc_data d))"

fun digest :: "('r, 'z) acc_env_scheme \<Rightarrow> any_hash \<Rightarrow> pre_image \<Rightarrow> pre_image" where
  "digest E (AnyBlake2b _) p = PreImage32 (blake2b E (pre_image_bytes p))"
| "digest E (AnySha256 _) p = PreImage32 (sha256 E (pre_image_bytes p))"
| "digest E (AnySha512 _) p = PreImage64 (sha512 E (pre_image_bytes p))"

fun hash_chain :: "('r, 'z) acc_env_scheme \<Rightarrow> any_hash \<Rightarrow> nat \<Rightarrow> pre_image \<Rightarrow> pre_image" where
  "hash_chain E root 0 tmp_hash = tmp_hash"
| "hash_chain E root (Suc n) tmp_hash = hash_chain E root n (digest E root tmp_hash)"

fun verify_htlc_proof ::
  "('r, 'z) acc_env_scheme \<Rightarrow> htlc_proof \<Rightarrow> transaction \<Rightarrow> transaction_error + unit" where
  "verify_htlc_proof E (RegularTransfer hash_depth hash_root pre_image signature_proof) tx =
    (if any_hash_bytes hash_root \<noteq> pre_image_bytes (hash_chain E hash_root (unat hash_depth) pre_image) then Inl InvalidProof
     else if \<not> verify_proof E signature_proof (serialize_content E tx) then Inl InvalidProof
     else Inr ())"
| "verify_htlc_proof E (EarlyResolve recipient_proof sender_proof) tx =
    (if \<not> verify_proof E recipient_proof (serialize_content E tx) \<or> \<not> verify_proof E sender_proof (serialize_content E tx)
     then Inl InvalidProof else Inr ())"
| "verify_htlc_proof E (TimeoutResolve sender_proof) tx =
    (if \<not> verify_proof E sender_proof (serialize_content E tx) then Inl InvalidProof else Inr ())"

fun verify_pow_htlc_proof ::
  "('r, 'z) acc_env_scheme \<Rightarrow> pow_htlc_proof \<Rightarrow> transaction \<Rightarrow> transaction_error + unit" where
  "verify_pow_htlc_proof E DummyZero tx = Inl InvalidProof"
| "verify_pow_htlc_proof E (PoWRegularTransfer hash_depth hash_root pre_image signature_proof) tx =
    (if any_hash_bytes hash_root \<noteq> pre_image_bytes (hash_chain E hash_root (unat hash_depth) pre_image) then Inl InvalidProof
     else if \<not> pow_verify E signature_proof (serialize_content E tx) then Inl InvalidProof
     else Inr ())"
| "verify_pow_htlc_proof E (PoWEarlyResolve recipient_proof sender_proof) tx =
    (if \<not> pow_verify E recipient_proof (serialize_content E tx) \<or> \<not> pow_verify E sender_proof (serialize_content E tx)
     then Inl InvalidProof else Inr ())"
| "verify_pow_htlc_proof E (PoWTimeoutResolve sender_proof) tx =
    (if \<not> pow_verify E sender_proof (serialize_content E tx) then Inl InvalidProof else Inr ())"

text \<open>\<open>None\<close> is the panic on the dummy variant.\<close>

fun pow_htlc_proof_into_pos :: "('r, 'z) acc_env_scheme \<Rightarrow> pow_htlc_proof \<Rightarrow> htlc_proof option" where
  "pow_htlc_proof_into_pos E DummyZero = None"
| "pow_htlc_proof_into_pos E (PoWRegularTransfer hash_depth hash_root pre_image signature_proof) =
    Some (RegularTransfer hash_depth hash_root pre_image (pow_into_pos E signature_proof))"
| "pow_htlc_proof_into_pos E (PoWEarlyResolve recipient_proof sender_proof) =
    Some (EarlyResolve (pow_into_pos E recipient_proof) (pow_into_pos E sender_proof))"
| "pow_htlc_proof_into_pos E (PoWTimeoutResolve sender_proof) = Some (TimeoutResolve (pow_into_pos E sender_proof))"

definition htlc_verify_outgoing ::
  "('r, 'z) acc_env_scheme \<Rightarrow> transaction \<Rightarrow> (transaction_error + unit) option" where
  "htlc_verify_outgoing E tx =
    (if tx_sender_type tx \<noteq> HTLC then None
     else Some
      (if tx_sender_data tx \<noteq> [] then Inl Overflow
       else if is_albatross (tx_network_id tx) then
         case deserialize_htlc_proof E (tx_proof tx) of
           Inl e \<Rightarrow> Inl (TxInvalidSerialization e) | Inr proof \<Rightarrow> verify_htlc_proof E proof tx
       else
         case deserialize_pow_htlc_proof E (tx_proof tx) of
           Inl e \<Rightarrow> Inl (TxInvalidSerialization e) | Inr proof \<Rightarrow> verify_pow_htlc_proof E proof tx))"

section \<open>Transactions\<close>

definition account_verify_incoming ::
  "('r, 'z) acc_env_scheme \<Rightarrow> transaction \<Rightarrow> u16 \<Rightarrow> (transaction_error + unit) option" where
  "account_verify_incoming E tx version = (case tx_recipient_type tx of
     Basic \<Rightarrow> basic_verify_incoming tx
   | Vesting \<Rightarrow> vesting_verify_incoming E tx
   | HTLC \<Rightarrow> htlc_verify_incoming E tx
   | Staking \<Rightarrow> verify_incoming_transaction E tx version)"

definition account_verify_outgoing ::
  "('r, 'z) acc_env_scheme \<Rightarrow> transaction \<Rightarrow> u16 \<Rightarrow> (transaction_error + unit) option" where
  "account_verify_outgoing E tx version = (case tx_sender_type tx of
     Basic \<Rightarrow> basic_verify_outgoing E tx
   | Vesting \<Rightarrow> vesting_verify_outgoing E tx
   | HTLC \<Rightarrow> htlc_verify_outgoing E tx
   | Staking \<Rightarrow> verify_outgoing_transaction E tx version)"

text \<open>\<open>valid\<close> is the cached result of an earlier verification.\<close>

definition transaction_verify ::
  "('r, 'z) acc_env_scheme \<Rightarrow> bool \<Rightarrow> transaction \<Rightarrow> network_id \<Rightarrow> u16 \<Rightarrow> (transaction_error + unit) option" where
  "transaction_verify E valid tx network version =
    (if valid then Some (Inr ())
     else if tx_sender tx = tx_recipient tx then Some (Inl SenderEqualsRecipient)
     else if tx_network_id tx \<noteq> network then Some (Inl ForeignNetwork)
     else if tx_signaling tx \<and> tx_value tx \<noteq> 0 then Some (Inl TxInvalidForRecipient)
     else if \<not> tx_signaling tx \<and> tx_value tx = 0 then Some (Inl ZeroValue)
     else case checked_add (tx_value tx) (tx_fee tx) of
       None \<Rightarrow> Some (Inl Overflow)
     | Some coin \<Rightarrow>
         (case from_u64_unchecked TOTAL_SUPPLY of
            None \<Rightarrow> None
          | Some supply \<Rightarrow>
              if coin > supply then Some (Inl Overflow)
              else case account_verify_outgoing E tx version of
                None \<Rightarrow> None
              | Some (Inl e) \<Rightarrow> Some (Inl e)
              | Some (Inr _) \<Rightarrow> account_verify_incoming E tx version))"

definition is_valid_at :: "policy \<Rightarrow> transaction \<Rightarrow> u32 \<Rightarrow> bool option" where
  "is_valid_at p tx block_height = map_option (\<lambda>window.
     w_saturating_sub (tx_validity_start_height tx) (blocks_per_batch p) \<le> block_height \<and>
     block_height < w_saturating_add (tx_validity_start_height tx) window) (transaction_validity_window_blocks p)"

section \<open>Lemmas\<close>

lemma supply_small: "TOTAL_SUPPLY \<le> MAX_SAFE_VALUE"
  by (simp add: TOTAL_SUPPLY_def MAX_SAFE_VALUE_def)

lemma supply_unchecked [simp]: "from_u64_unchecked TOTAL_SUPPLY = Some TOTAL_SUPPLY"
  using supply_small by (simp add: from_u64_unchecked_def coin_try_from_def)

lemma transaction_verified:
  assumes "transaction_verify E False tx network version = Some (Inr ())"
  shows "tx_sender tx \<noteq> tx_recipient tx" "tx_network_id tx = network" "tx_signaling tx \<longleftrightarrow> tx_value tx = 0"
    "tx_value tx + tx_fee tx \<le> TOTAL_SUPPLY" "account_verify_outgoing E tx version = Some (Inr ())"
    "account_verify_incoming E tx version = Some (Inr ())"
  using assms
  by (auto simp: transaction_verify_def checked_add_eq split: if_splits option.splits sum.splits)

lemma verified_total:
  assumes "transaction_verify E False tx network version = Some (Inr ())"
  shows "total_value tx = tx_value tx + tx_fee tx"
  using transaction_verified(4) [OF assms] supply_small by (simp add: total_value_def coin_saturating_add_eq)

lemma verify_total: "\<exists>r. transaction_verify E valid tx network version = Some r"
proof -
  have "\<exists>r. account_verify_outgoing E tx version = Some r"
    by (simp add: account_verify_outgoing_def basic_verify_outgoing_def vesting_verify_outgoing_def htlc_verify_outgoing_def
        verify_outgoing_transaction_def split: account_type.splits)
  moreover have "\<exists>r. account_verify_incoming E tx version = Some r"
    by (simp add: account_verify_incoming_def basic_verify_incoming_def vesting_verify_incoming_def htlc_verify_incoming_def
        verify_incoming_transaction_def split: account_type.splits)
  ultimately show ?thesis
    by (auto simp: transaction_verify_def split: option.splits sum.splits)
qed

text \<open>Creation data that the wire formats can express.\<close>

definition vesting_ok :: "vesting_data \<Rightarrow> coin \<Rightarrow> bool" where
  "vesting_ok d amount \<longleftrightarrow> unat (vd_start_time d) \<le> MAX_TIME_VALUE \<and> unat (vd_time_step d) \<le> MAX_TIME_VALUE \<and>
     vd_step_amount d \<le> vd_total_amount d \<and> vd_total_amount d \<le> amount \<and> amount \<le> MAX_SAFE_VALUE"

lemma length_put [simp]: "length (put_be k w) = k" "length (put_coin c) = 8"
  by (simp_all add: put_be_def put_coin_def)

lemma get_vesting8_put: "deserialize_all get_vesting8 (put_be 20 owner @ put_be 8 ts) = Inr (owner, ts)"
  using w64.get_put [of ts "[]"]
  by (simp add: deserialize_all_def get_vesting8_def waddr.bind_get_put) (simp add: bind_reader_def ret_reader_def)

lemma get_vesting24_put:
  "c \<le> MAX_SAFE_VALUE \<Longrightarrow>
   deserialize_all get_vesting24 (put_be 20 owner @ put_be 8 st @ put_be 8 ts @ put_coin c) = Inr (owner, st, ts, c)"
  using wcoin.get_put [of c "[]"]
  by (simp add: deserialize_all_def get_vesting24_def waddr.bind_get_put w64.bind_get_put) (simp add: bind_reader_def ret_reader_def)

lemma get_vesting32_put:
  "c \<le> MAX_SAFE_VALUE \<Longrightarrow> t \<le> MAX_SAFE_VALUE \<Longrightarrow>
   deserialize_all get_vesting32 (put_be 20 owner @ put_be 8 st @ put_be 8 ts @ put_coin c @ put_coin t) = Inr (owner, st, ts, c, t)"
  using wcoin.get_put [of t "[]"]
  by (simp add: deserialize_all_def get_vesting32_def waddr.bind_get_put w64.bind_get_put wcoin.bind_get_put)
    (simp add: bind_reader_def ret_reader_def)

fun any_hash_ok :: "any_hash \<Rightarrow> bool" where
  "any_hash_ok (AnySha512 hash) \<longleftrightarrow> length hash = 64"
| "any_hash_ok (AnyBlake2b hash) \<longleftrightarrow> length hash = 32"
| "any_hash_ok (AnySha256 hash) \<longleftrightarrow> length hash = 32"

lemma take_be_1: "take_be 1 (b # bs) = Inr (b :: u8, bs)"
  by (simp add: take_be_def bind_reader_def take_bytes_def ret_reader_def)

interpretation whash: wire any_hash_ok put_any_hash get_any_hash
proof
  fix h rest
  assume "any_hash_ok h"
  then show "get_any_hash (put_any_hash h @ rest) = Inr (h, rest)"
    by (cases h) (simp_all add: get_any_hash_def bind_reader_def [of "take_be 1"] take_be_1 wbytes.bind_get_put ret_reader_def
        del: One_nat_def)
qed

interpretation whtlc: wire "\<lambda>d. any_hash_ok (hd_hash_root d)" put_htlc_data get_htlc_data
  by unfold_locales (simp add: get_htlc_data_def put_htlc_data_def waddr.bind_get_put whash.bind_get_put w8.bind_get_put
      w64.bind_get_put ret_reader_def del: One_nat_def)

end
