(* ===== verification/Interaction.thy ===== *)
theory Interaction
  imports TransactionData
begin

text \<open>
  What every kind of account offers the accounts tree: the traits of
  \<^verbatim>\<open>primitives/account/src/interaction_traits.rs\<close>, and the balances a block producer reserves
  (\<^verbatim>\<open>reserved_balance.rs\<close>). A handler with \<open>&mut self\<close> and a log is a computation over both.
\<close>

section \<open>Reserved balances\<close>

record reserved_balance =
  rb_address :: address
  rb_balances :: "(address, coin) fmap"

type_synonym 'x rb = "(reserved_balance, error, 'x) eff"

definition reserved_new :: "address \<Rightarrow> reserved_balance" where
  "reserved_new address = \<lparr> rb_address = address, rb_balances = fmempty \<rparr>"

definition balance_for :: "reserved_balance \<Rightarrow> address \<Rightarrow> coin" where
  "balance_for rb address = (case fmlookup (rb_balances rb) address of Some c \<Rightarrow> c | None \<Rightarrow> 0)"

definition reserved_balance_of :: "reserved_balance \<Rightarrow> coin" where
  "reserved_balance_of rb = balance_for rb (rb_address rb)"

definition reserve_for :: "address \<Rightarrow> coin \<Rightarrow> coin \<Rightarrow> unit rb" where
  "reserve_for address funds amount =
    bind_eff (gets (\<lambda>rb. balance_for rb address)) (\<lambda>reserved.
    bind_eff (some_or (AccountErr InvalidCoinValue) (checked_add reserved amount)) (\<lambda>total_needed.
    if total_needed > funds then throw (AccountErr (InsufficientFunds total_needed funds))
    else modify (\<lambda>rb. rb \<lparr> rb_balances := fmupd address total_needed (rb_balances rb) \<rparr>)))"

definition reserve :: "coin \<Rightarrow> coin \<Rightarrow> unit rb" where
  "reserve funds amount = bind_eff (gets rb_address) (\<lambda>address. reserve_for address funds amount)"

definition release_for :: "address \<Rightarrow> coin \<Rightarrow> unit rb" where
  "release_for address amount =
    bind_eff (gets (\<lambda>rb. balance_for rb address)) (\<lambda>reserved.
    bind_eff (some_or Panic (checked_sub reserved amount)) (\<lambda>reserved.
    modify (\<lambda>rb. rb \<lparr> rb_balances := fmupd address reserved (rb_balances rb) \<rparr>)))"

definition release :: "coin \<Rightarrow> unit rb" where
  "release amount = bind_eff (gets rb_address) (\<lambda>address. release_for address amount)"

section \<open>Handlers of an account\<close>

type_synonym ('a, 'x) act = "('a \<times> log list, error, 'x) eff"

definition log_event :: "log \<Rightarrow> ('a, unit) act" where
  "log_event l = modify (\<lambda>(a, logs). (a, logs @ [l]))"

definition self :: "('a, 'a) act" where
  "self = gets fst"

definition set_self :: "'a \<Rightarrow> ('a, unit) act" where
  "set_self a = modify (\<lambda>(_, logs). (a, logs))"

text \<open>A handler run with a log that is thrown away.\<close>

definition unlogged :: "('a, 'x) act \<Rightarrow> ('a, 'x) act" where
  "unlogged m s = (case m (fst s, []) of (r, a, _) \<Rightarrow> (r, a, snd s))"

text \<open>The result of a checked coin operation, and of \<open>safe_sub\<close> with its error converted.\<close>

definition coin_or_panic :: "coin option \<Rightarrow> ('s, error, coin) eff" where
  "coin_or_panic c = some_or Panic c"

definition coin_or_error :: "coin_underflow_error + coin \<Rightarrow> ('s, error, coin) eff" where
  "coin_or_error r = of_sum (map_sum (AccountErr \<circ> from_coin_underflow) id r)"

definition result_of :: "account_error + 'x \<Rightarrow> ('s, error, 'x) eff" where
  "result_of r = of_sum (map_sum AccountErr id r)"

lemmas act_defs = log_event_def self_def set_self_def coin_or_panic_def coin_or_error_def result_of_def

section \<open>The contract of a kind of account\<close>

text \<open>
  A handler and its revert: the handler does not panic, an error leaves the account as it was, and
  the revert undoes a success, whatever the log is then.
\<close>

definition undone :: "('s \<Rightarrow> 's \<Rightarrow> bool) \<Rightarrow> 's \<Rightarrow> ('s, error, unit) eff \<Rightarrow> 's \<Rightarrow> bool" where
  "undone same s rv s' \<longleftrightarrow> (\<forall>t. same s' t \<longrightarrow> (\<exists>u. rv t = (Inr (), u) \<and> same s u))"

definition commits ::
  "('s \<Rightarrow> 's \<Rightarrow> bool) \<Rightarrow> ('s, error, 'r) eff \<Rightarrow> ('r \<Rightarrow> ('s, error, unit) eff) \<Rightarrow> bool \<Rightarrow> 's \<Rightarrow> ('s \<Rightarrow> bool) \<Rightarrow> bool" where
  "commits same m rv reverts s Q \<longleftrightarrow> (case m s of
     (Inl e, s') \<Rightarrow> e \<noteq> Panic \<and> same s s'
   | (Inr r, s') \<Rightarrow> Q s' \<and> (reverts \<longrightarrow> undone same s (rv r) s'))"

fun inherent_value :: "inherent \<Rightarrow> coin" where
  "inherent_value (Reward _ _ value) = value"
| "inherent_value _ = 0"

fun revertible :: "inherent \<Rightarrow> bool" where
  "revertible (Reward _ _ _) = True"
| "revertible (Penalize _) = True"
| "revertible (Jail_Inherent _ _) = True"
| "revertible _ = False"

locale account_kind =
  fixes same :: "'s \<Rightarrow> 's \<Rightarrow> bool" and ok :: "'s \<Rightarrow> bool" and bal :: "'s \<Rightarrow> coin" and tag :: "'s \<Rightarrow> account_type"
    and codecs :: bool and vin :: "'s \<Rightarrow> transaction \<Rightarrow> bool" and iok :: "block_state \<Rightarrow> inherent \<Rightarrow> bool"
    and inc out failed :: "transaction \<Rightarrow> block_state \<Rightarrow> ('s, error, 'r option) eff"
    and rinc rout rfailed :: "transaction \<Rightarrow> 'r option \<Rightarrow> ('s, error, unit) eff"
    and inh :: "block_state \<Rightarrow> inherent \<Rightarrow> ('s, error, 'r option) eff"
    and rinh :: "inherent \<Rightarrow> 'r option \<Rightarrow> ('s, error, unit) eff"
  assumes same_refl: "same s s"
    and same_sym: "same s t \<Longrightarrow> same t s"
    and same_trans: "same s t \<Longrightarrow> same t u \<Longrightarrow> same s u"
    and same_ok: "same s t \<Longrightarrow> ok s \<Longrightarrow> ok t"
    and same_bal: "same s t \<Longrightarrow> bal s = bal t"
    and same_tag: "same s t \<Longrightarrow> tag s = tag t"
    and inc_law: "ok s \<Longrightarrow> vin s tx \<Longrightarrow> bal s + tx_value tx \<le> MAX_SAFE_VALUE \<Longrightarrow>
      commits same (inc tx bs) (rinc tx) codecs s (\<lambda>s'. ok s' \<and> bal s' = bal s + tx_value tx \<and> tag s' = tag s)"
    and out_law: "ok s \<Longrightarrow>
      commits same (out tx bs) (rout tx) codecs s (\<lambda>s'. ok s' \<and> bal s' + total_value tx = bal s \<and> tag s' = tag s)"
    and failed_law: "ok s \<Longrightarrow>
      commits same (failed tx bs) (rfailed tx) codecs s (\<lambda>s'. ok s' \<and> bal s' + tx_fee tx = bal s \<and> tag s' = tag s)"
    and inh_law: "ok s \<Longrightarrow> iok bs i \<Longrightarrow> bal s + inherent_value i \<le> MAX_SAFE_VALUE \<Longrightarrow>
      commits same (inh bs i) (rinh i) (codecs \<and> revertible i) s
        (\<lambda>s'. ok s' \<and> bal s' = bal s + inherent_value i \<and> tag s' = tag s)"
begin

lemma out_run:
  assumes "ok s" "out tx bs s = (Inr r, s')"
  shows "ok s'" "bal s' + total_value tx = bal s" "tag s' = tag s"
    "codecs \<Longrightarrow> same s' t \<Longrightarrow> \<exists>u. rout tx r t = (Inr (), u) \<and> same s u"
  using out_law [OF assms(1), of tx bs] assms(2) by (auto simp: commits_def undone_def)

lemma out_error:
  assumes "ok s" "out tx bs s = (Inl e, s')"
  shows "e \<noteq> Panic" "same s s'"
  using out_law [OF assms(1), of tx bs] assms(2) by (auto simp: commits_def)

lemma inc_run:
  assumes "ok s" "vin s tx" "bal s + tx_value tx \<le> MAX_SAFE_VALUE" "inc tx bs s = (Inr r, s')"
  shows "ok s'" "bal s' = bal s + tx_value tx" "tag s' = tag s"
    "codecs \<Longrightarrow> same s' t \<Longrightarrow> \<exists>u. rinc tx r t = (Inr (), u) \<and> same s u"
  using inc_law [OF assms(1-3), of bs] assms(4) by (auto simp: commits_def undone_def)

lemma inc_error:
  assumes "ok s" "vin s tx" "bal s + tx_value tx \<le> MAX_SAFE_VALUE" "inc tx bs s = (Inl e, s')"
  shows "e \<noteq> Panic" "same s s'"
  using inc_law [OF assms(1-3), of bs] assms(4) by (auto simp: commits_def)

lemma failed_run:
  assumes "ok s" "failed tx bs s = (Inr r, s')"
  shows "ok s'" "bal s' + tx_fee tx = bal s" "tag s' = tag s"
    "codecs \<Longrightarrow> same s' t \<Longrightarrow> \<exists>u. rfailed tx r t = (Inr (), u) \<and> same s u"
  using failed_law [OF assms(1), of tx bs] assms(2) by (auto simp: commits_def undone_def)

lemma failed_error:
  assumes "ok s" "failed tx bs s = (Inl e, s')"
  shows "e \<noteq> Panic" "same s s'"
  using failed_law [OF assms(1), of tx bs] assms(2) by (auto simp: commits_def)

lemma inh_run:
  assumes "ok s" "iok bs i" "bal s + inherent_value i \<le> MAX_SAFE_VALUE" "inh bs i s = (Inr r, s')"
  shows "ok s'" "bal s' = bal s + inherent_value i" "tag s' = tag s"
    "codecs \<Longrightarrow> revertible i \<Longrightarrow> same s' t \<Longrightarrow> \<exists>u. rinh i r t = (Inr (), u) \<and> same s u"
  using inh_law [OF assms(1-3)] assms(4) by (auto simp: commits_def undone_def)

lemma inh_error:
  assumes "ok s" "iok bs i" "bal s + inherent_value i \<le> MAX_SAFE_VALUE" "inh bs i s = (Inl e, s')"
  shows "e \<noteq> Panic" "same s s'"
  using inh_law [OF assms(1-3)] assms(4) by (auto simp: commits_def)

end

section \<open>Lemmas\<close>

text \<open>Accounts with a log of their own are the same when they differ in the log only.\<close>

definition same_self :: "'a \<times> log list \<Rightarrow> 'a \<times> log list \<Rightarrow> bool" where
  "same_self s t \<longleftrightarrow> fst s = fst t"

lemma same_self_equiv:
  "same_self s s" "same_self s t \<Longrightarrow> same_self t s" "same_self s t \<Longrightarrow> same_self t u \<Longrightarrow> same_self s u"
  by (simp_all add: same_self_def)

lemma reserve_for_Inr:
  "reserve_for a funds amount rb = (Inr (), rb') \<longleftrightarrow>
     balance_for rb a + amount \<le> MAX_SAFE_VALUE \<and> balance_for rb a + amount \<le> funds \<and>
     rb' = rb \<lparr> rb_balances := fmupd a (balance_for rb a + amount) (rb_balances rb) \<rparr>"
  by (auto simp: reserve_for_def eff_inv checked_add_eq split: if_splits)

lemma release_for_Inr:
  "release_for a amount rb = (Inr (), rb') \<longleftrightarrow>
     amount \<le> balance_for rb a \<and> balance_for rb a - amount \<le> MAX_SAFE_VALUE \<and>
     rb' = rb \<lparr> rb_balances := fmupd a (balance_for rb a - amount) (rb_balances rb) \<rparr>"
  by (auto simp: release_for_def eff_inv checked_sub_Some)

lemma commitsI:
  assumes "\<And>e s'. m s = (Inl e, s') \<Longrightarrow> e \<noteq> Panic \<and> same s s'"
    and "\<And>r s'. m s = (Inr r, s') \<Longrightarrow> Q s'"
    and "\<And>r s' t. reverts \<Longrightarrow> m s = (Inr r, s') \<Longrightarrow> same s' t \<Longrightarrow> \<exists>u. rv r t = (Inr (), u) \<and> same s u"
  shows "commits same m rv reverts s Q"
  using assms by (auto simp: commits_def undone_def split: sum.splits prod.splits)

lemma act_Inr:
  "log_event l s = (Inr u, s') \<longleftrightarrow> s' = (fst s, snd s @ [l])"
  "self s = (Inr a, s') \<longleftrightarrow> a = fst s \<and> s' = s"
  "set_self b s = (Inr u, s') \<longleftrightarrow> s' = (b, snd s)"
  "coin_or_panic c t = (Inr d, t') \<longleftrightarrow> c = Some d \<and> t' = t"
  "coin_or_error r t = (Inr d, t') \<longleftrightarrow> r = Inr d \<and> t' = t"
  "result_of q t = (Inr z, t') \<longleftrightarrow> q = Inr z \<and> t' = t"
  by (auto simp: act_defs eff_inv split_beta map_sum_def split: sum.splits)

lemma act_Inl:
  "log_event l s = (Inl e, s') \<longleftrightarrow> False" "self s = (Inl e, s') \<longleftrightarrow> False" "set_self b s = (Inl e, s') \<longleftrightarrow> False"
  "coin_or_panic c t = (Inl e, t') \<longleftrightarrow> c = None \<and> e = Panic \<and> t' = t"
  "coin_or_error r t = (Inl e, t') \<longleftrightarrow> (\<exists>x. r = Inl x \<and> e = AccountErr (from_coin_underflow x)) \<and> t' = t"
  "result_of q t = (Inl e, t') \<longleftrightarrow> (\<exists>x. q = Inl x \<and> e = AccountErr x) \<and> t' = t"
  by (auto simp: act_defs eff_inv split_beta map_sum_def split: sum.splits)

lemmas act_inv = bind_eff_Inr bind_eff_Inl seq_eff_Inr seq_eff_Inl when_eff_Inr when_eff_Inl eff_leaf_iff act_Inr act_Inl

lemma act_run:
  "bind_eff self f s = f (fst s) s" "seq_eff (log_event l) n s = n (fst s, snd s @ [l])"
  "seq_eff (set_self b) n s = n (b, snd s)" "bind_eff (coin_or_panic (Some c)) g t = g c t"
  "log_event l s = (Inr (), fst s, snd s @ [l])" "set_self b s = (Inr (), b, snd s)"
  by (simp_all add: act_defs eff_simps bind_eff_def split_beta)

end
