(* ===== verification/BasicAccount.thy ===== *)
theory BasicAccount
  imports Interaction
begin

text \<open>
  Basic accounts, which hold a balance and nothing else
  (\<^verbatim>\<open>primitives/account/src/account/basic_account.rs\<close>).
\<close>

record basic_account =
  ba_balance :: coin

type_synonym 'x ba = "(basic_account, 'x) act"

definition basic_default :: basic_account where
  "basic_default = \<lparr> ba_balance = 0 \<rparr>"

definition ba_add :: "coin \<Rightarrow> unit ba" where
  "ba_add c = bind_eff self (\<lambda>acc.
     bind_eff (coin_or_panic (coin_add (ba_balance acc) c)) (\<lambda>b. set_self (acc \<lparr> ba_balance := b \<rparr>)))"

definition ba_sub :: "coin \<Rightarrow> unit ba" where
  "ba_sub c = bind_eff self (\<lambda>acc.
     bind_eff (coin_or_panic (coin_sub (ba_balance acc) c)) (\<lambda>b. set_self (acc \<lparr> ba_balance := b \<rparr>)))"

definition ba_safe_sub :: "coin \<Rightarrow> unit ba" where
  "ba_safe_sub c = bind_eff self (\<lambda>acc.
     bind_eff (coin_or_error (safe_sub (ba_balance acc) c)) (\<lambda>b. set_self (acc \<lparr> ba_balance := b \<rparr>)))"

definition basic_create_new_contract :: "transaction \<Rightarrow> coin \<Rightarrow> (log list, error, basic_account) eff" where
  "basic_create_new_contract tx initial_balance = throw (AccountErr InvalidForRecipient)"

definition basic_revert_new_contract :: "transaction \<Rightarrow> unit ba" where
  "basic_revert_new_contract tx = throw (AccountErr InvalidForRecipient)"

definition basic_commit_incoming :: "transaction \<Rightarrow> block_state \<Rightarrow> 'r option ba" where
  "basic_commit_incoming tx bs = seq_eff (ba_add (tx_value tx)) (ret None)"

definition basic_revert_incoming :: "transaction \<Rightarrow> 'r option \<Rightarrow> unit ba" where
  "basic_revert_incoming tx receipt = ba_sub (tx_value tx)"

definition basic_commit_outgoing :: "transaction \<Rightarrow> block_state \<Rightarrow> 'r option ba" where
  "basic_commit_outgoing tx bs =
    seq_eff (ba_safe_sub (total_value tx))
    (seq_eff (log_event (pay_fee_log tx))
    (seq_eff (log_event (transfer_log tx))
    (ret None)))"

definition basic_revert_outgoing :: "transaction \<Rightarrow> 'r option \<Rightarrow> unit ba" where
  "basic_revert_outgoing tx receipt =
    seq_eff (ba_add (total_value tx))
    (seq_eff (log_event (transfer_log tx))
    (log_event (pay_fee_log tx)))"

definition basic_commit_failed :: "transaction \<Rightarrow> block_state \<Rightarrow> 'r option ba" where
  "basic_commit_failed tx bs =
    seq_eff (ba_safe_sub (tx_fee tx)) (seq_eff (log_event (pay_fee_log tx)) (ret None))"

definition basic_revert_failed :: "transaction \<Rightarrow> 'r option \<Rightarrow> unit ba" where
  "basic_revert_failed tx receipt = seq_eff (ba_add (tx_fee tx)) (log_event (pay_fee_log tx))"

definition basic_reserve_balance :: "basic_account \<Rightarrow> transaction \<Rightarrow> unit rb" where
  "basic_reserve_balance acc tx = reserve (ba_balance acc) (total_value tx)"

definition basic_release_balance :: "basic_account \<Rightarrow> transaction \<Rightarrow> unit rb" where
  "basic_release_balance acc tx = release (total_value tx)"

fun basic_commit_inherent :: "block_state \<Rightarrow> inherent \<Rightarrow> 'r option ba" where
  "basic_commit_inherent bs (Reward _ target reward) =
    seq_eff (ba_add reward) (seq_eff (log_event (Log_PayoutReward target reward)) (ret None))"
| "basic_commit_inherent bs _ = throw (AccountErr InvalidForTarget)"

fun basic_revert_inherent :: "inherent \<Rightarrow> 'r option \<Rightarrow> unit ba" where
  "basic_revert_inherent (Reward _ target reward) receipt =
    seq_eff (ba_sub reward) (log_event (Log_PayoutReward target reward))"
| "basic_revert_inherent _ receipt = throw (AccountErr InvalidForTarget)"

definition basic_can_be_pruned :: "basic_account \<Rightarrow> bool" where
  "basic_can_be_pruned acc \<longleftrightarrow> ba_balance acc = 0"

definition basic_prune :: "basic_account \<Rightarrow> 'r option" where
  "basic_prune acc = None"

definition basic_restore :: "'r option \<Rightarrow> account_error + basic_account" where
  "basic_restore pruned_account = Inr basic_default"

section \<open>Lemmas\<close>

lemma ba_Inr:
  "ba_add c s = (Inr u, s') \<longleftrightarrow> ba_balance (fst s) + c \<le> MAX_SAFE_VALUE \<and>
     s' = (fst s \<lparr> ba_balance := ba_balance (fst s) + c \<rparr>, snd s)"
  "ba_safe_sub c s = (Inr u, s') \<longleftrightarrow> c \<le> ba_balance (fst s) \<and> ba_balance (fst s) - c \<le> MAX_SAFE_VALUE \<and>
     s' = (fst s \<lparr> ba_balance := ba_balance (fst s) - c \<rparr>, snd s)"
  by (auto simp: ba_add_def ba_safe_sub_def act_inv)

lemma ba_Inl:
  "ba_add c s = (Inl e, s') \<longleftrightarrow> MAX_SAFE_VALUE < ba_balance (fst s) + c \<and> e = Panic \<and> s' = s"
  "ba_balance (fst s) \<le> MAX_SAFE_VALUE \<Longrightarrow>
   ba_safe_sub c s = (Inl e, s') \<longleftrightarrow> ba_balance (fst s) < c \<and> e = AccountErr (InsufficientFunds c (ba_balance (fst s))) \<and> s' = s"
  by (auto simp: ba_add_def ba_safe_sub_def act_inv coin_add_None safe_sub_Inl)

lemma ba_run:
  "ba_balance (fst s) + c \<le> MAX_SAFE_VALUE \<Longrightarrow>
   ba_add c s = (Inr (), fst s \<lparr> ba_balance := ba_balance (fst s) + c \<rparr>, snd s)"
  "c \<le> ba_balance (fst s) \<Longrightarrow> ba_balance (fst s) \<le> MAX_SAFE_VALUE \<Longrightarrow>
   ba_sub c s = (Inr (), fst s \<lparr> ba_balance := ba_balance (fst s) - c \<rparr>, snd s)"
  by (auto simp: ba_add_def ba_sub_def act_inv)

definition basic_ok :: "basic_account \<times> log list \<Rightarrow> bool" where
  "basic_ok s \<longleftrightarrow> ba_balance (fst s) \<le> MAX_SAFE_VALUE"

lemmas ba_defs = basic_ok_def same_self_def basic_commit_incoming_def basic_revert_incoming_def
  basic_commit_outgoing_def basic_revert_outgoing_def basic_commit_failed_def basic_revert_failed_def

lemma seq_at: "m s = (Inr (), s1) \<Longrightarrow> seq_eff m n s = n s1"
  by (simp add: seq_eff_def bind_eff_def)

interpretation basic: account_kind same_self basic_ok "\<lambda>s. ba_balance (fst s)" "\<lambda>_. Basic" True "\<lambda>_ _. True" "\<lambda>_ _. True"
  basic_commit_incoming basic_commit_outgoing basic_commit_failed basic_revert_incoming basic_revert_outgoing
  basic_revert_failed basic_commit_inherent basic_revert_inherent
proof (unfold_locales, goal_cases)
  case (7 s tx bs)
  then show ?case by (intro commitsI) (auto simp: ba_defs act_inv ba_Inr ba_Inl ba_run)
next
  case (8 s tx bs)
  then show ?case by (intro commitsI) (auto simp: ba_defs act_inv ba_Inr ba_Inl ba_run seq_at act_run)
next
  case (9 s tx bs)
  then show ?case by (intro commitsI) (auto simp: ba_defs act_inv ba_Inr ba_Inl ba_run seq_at act_run)
next
  case (10 s bs i)
  then show ?case
    by (cases i; intro commitsI) (auto simp: ba_defs act_inv ba_Inr ba_Inl ba_run seq_at act_run)
qed (auto simp: same_self_def basic_ok_def)

end
