(* ===== verification/VestingContract.thy ===== *)
theory VestingContract
  imports BasicAccount
begin

text \<open>
  Vesting contracts, whose funds become available to their owner step by step
  (\<^verbatim>\<open>primitives/account/src/account/vesting_contract.rs\<close>). The cap is computed in \<open>i128\<close>; a lemma
  below shows that the unbounded integers used here stay within it.
\<close>

record vesting_contract =
  vc_balance :: coin
  vc_owner :: address
  vc_start_time :: u64
  vc_time_step :: u64
  vc_step_amount :: coin
  vc_total_amount :: coin

type_synonym 'x vc = "(vesting_contract, 'x) act"

text \<open>Division of Rust, which truncates towards zero.\<close>

definition trunc_div :: "int \<Rightarrow> int \<Rightarrow> int" where
  "trunc_div a b = sgn a * sgn b * (\<bar>a\<bar> div \<bar>b\<bar>)"

definition vesting_min_cap :: "vesting_contract \<Rightarrow> u64 \<Rightarrow> coin" where
  "vesting_min_cap vc time =
    (if vc_time_step vc > 0 \<and> vc_step_amount vc > 0 then
       let total = int (vc_total_amount vc);
           steps = trunc_div (uint time - uint (vc_start_time vc)) (uint (vc_time_step vc));
           min_cap = total - steps * int (vc_step_amount vc)
       in nat (max 0 (min total min_cap))
     else 0)"

definition vesting_can_change_balance ::
  "('r, 'z) sc_env_scheme \<Rightarrow> vesting_contract \<Rightarrow> transaction \<Rightarrow> coin \<Rightarrow> block_state \<Rightarrow> account_error + unit" where
  "vesting_can_change_balance E vc tx new_balance bs =
    (let min_cap = vesting_min_cap vc (bs_time bs) in
     if new_balance < min_cap then
       Inl (InsufficientFunds (coin_saturating_sub (vc_balance vc) new_balance) (coin_saturating_sub (vc_balance vc) min_cap))
     else case deserialize_proof E (tx_proof tx) of
       Inl e \<Rightarrow> Inl (InvalidSerialization e)
     | Inr signature_proof \<Rightarrow>
         if \<not> is_signed_by E signature_proof (vc_owner vc) then Inl InvalidSignature else Inr ())"

definition vc_add :: "coin \<Rightarrow> unit vc" where
  "vc_add c = bind_eff self (\<lambda>vc.
     bind_eff (coin_or_panic (coin_add (vc_balance vc) c)) (\<lambda>b. set_self (vc \<lparr> vc_balance := b \<rparr>)))"

definition vc_sub :: "coin \<Rightarrow> unit vc" where
  "vc_sub c = bind_eff self (\<lambda>vc.
     bind_eff (coin_or_panic (coin_sub (vc_balance vc) c)) (\<lambda>b. set_self (vc \<lparr> vc_balance := b \<rparr>)))"

definition vesting_create_new_contract :: "transaction \<Rightarrow> coin \<Rightarrow> (log list, error, vesting_contract) eff" where
  "vesting_create_new_contract tx initial_balance =
    bind_eff (result_of (map_sum InvalidTransaction id (parse_vesting tx))) (\<lambda>data.
    seq_eff (modify (\<lambda>logs. logs @ [Log_VestingCreate (tx_recipient tx) (vd_owner data) (vd_start_time data)
      (vd_time_step data) (vd_step_amount data) (vd_total_amount data)]))
    (bind_eff (coin_or_panic (coin_add initial_balance (tx_value tx))) (\<lambda>balance.
    ret \<lparr> vc_balance = balance, vc_owner = vd_owner data, vc_start_time = vd_start_time data,
      vc_time_step = vd_time_step data, vc_step_amount = vd_step_amount data, vc_total_amount = vd_total_amount data \<rparr>)))"

definition vesting_revert_new_contract :: "transaction \<Rightarrow> unit vc" where
  "vesting_revert_new_contract tx =
    seq_eff (vc_sub (tx_value tx))
    (bind_eff self (\<lambda>vc. log_event (Log_VestingCreate (tx_recipient tx) (vc_owner vc) (vc_start_time vc)
      (vc_time_step vc) (vc_step_amount vc) (vc_total_amount vc))))"

definition vesting_commit_incoming :: "transaction \<Rightarrow> block_state \<Rightarrow> 'r option vc" where
  "vesting_commit_incoming tx bs = throw (AccountErr InvalidForRecipient)"

definition vesting_revert_incoming :: "transaction \<Rightarrow> 'r option \<Rightarrow> unit vc" where
  "vesting_revert_incoming tx receipt = throw (AccountErr InvalidForRecipient)"

text \<open>The checks that outgoing and failed transactions share.\<close>

definition vc_spend :: "('r, 'z) sc_env_scheme \<Rightarrow> transaction \<Rightarrow> coin \<Rightarrow> block_state \<Rightarrow> unit vc" where
  "vc_spend E tx amount bs = bind_eff self (\<lambda>vc.
     bind_eff (coin_or_error (safe_sub (vc_balance vc) amount)) (\<lambda>new_balance.
     seq_eff (result_of (vesting_can_change_balance E vc tx new_balance bs))
     (set_self (vc \<lparr> vc_balance := new_balance \<rparr>))))"

definition vesting_commit_outgoing ::
  "('q, 'z) sc_env_scheme \<Rightarrow> transaction \<Rightarrow> block_state \<Rightarrow> 'r option vc" where
  "vesting_commit_outgoing E tx bs =
    seq_eff (vc_spend E tx (total_value tx) bs)
    (seq_eff (log_event (pay_fee_log tx)) (seq_eff (log_event (transfer_log tx)) (ret None)))"

definition vesting_revert_outgoing :: "transaction \<Rightarrow> 'r option \<Rightarrow> unit vc" where
  "vesting_revert_outgoing tx receipt =
    seq_eff (vc_add (total_value tx)) (seq_eff (log_event (transfer_log tx)) (log_event (pay_fee_log tx)))"

definition vesting_commit_failed ::
  "('q, 'z) sc_env_scheme \<Rightarrow> transaction \<Rightarrow> block_state \<Rightarrow> 'r option vc" where
  "vesting_commit_failed E tx bs =
    seq_eff (vc_spend E tx (tx_fee tx) bs) (seq_eff (log_event (pay_fee_log tx)) (ret None))"

definition vesting_revert_failed :: "transaction \<Rightarrow> 'r option \<Rightarrow> unit vc" where
  "vesting_revert_failed tx receipt = seq_eff (vc_add (tx_fee tx)) (log_event (pay_fee_log tx))"

definition vesting_reserve_balance ::
  "('r, 'z) sc_env_scheme \<Rightarrow> vesting_contract \<Rightarrow> transaction \<Rightarrow> block_state \<Rightarrow> unit rb" where
  "vesting_reserve_balance E vc tx bs =
    bind_eff (gets reserved_balance_of) (\<lambda>reserved.
    bind_eff (some_or (AccountErr InvalidCoinValue) (checked_add reserved (total_value tx))) (\<lambda>total_needed.
    bind_eff (coin_or_error (safe_sub (vc_balance vc) total_needed)) (\<lambda>new_balance.
    seq_eff (result_of (vesting_can_change_balance E vc tx new_balance bs))
    (reserve (vc_balance vc) (total_value tx)))))"

definition vesting_release_balance :: "vesting_contract \<Rightarrow> transaction \<Rightarrow> unit rb" where
  "vesting_release_balance vc tx = release (total_value tx)"

definition vesting_commit_inherent :: "block_state \<Rightarrow> inherent \<Rightarrow> 'r option vc" where
  "vesting_commit_inherent bs i = throw (AccountErr InvalidForTarget)"

definition vesting_revert_inherent :: "inherent \<Rightarrow> 'r option \<Rightarrow> unit vc" where
  "vesting_revert_inherent i receipt = throw (AccountErr InvalidForTarget)"

definition vesting_can_be_pruned :: "vesting_contract \<Rightarrow> bool" where
  "vesting_can_be_pruned vc \<longleftrightarrow> vc_balance vc = 0"

definition pruned_vesting_from :: "vesting_contract \<Rightarrow> pruned_vesting_contract" where
  "pruned_vesting_from vc = \<lparr> pv_owner = vc_owner vc, pv_start_time = vc_start_time vc, pv_time_step = vc_time_step vc,
     pv_step_amount = vc_step_amount vc, pv_total_amount = vc_total_amount vc \<rparr>"

definition vesting_from_pruned :: "pruned_vesting_contract \<Rightarrow> vesting_contract" where
  "vesting_from_pruned pv = \<lparr> vc_balance = 0, vc_owner = pv_owner pv, vc_start_time = pv_start_time pv,
     vc_time_step = pv_time_step pv, vc_step_amount = pv_step_amount pv, vc_total_amount = pv_total_amount pv \<rparr>"

definition vesting_prune :: "('r, 'z) acc_env_scheme \<Rightarrow> vesting_contract \<Rightarrow> 'r option" where
  "vesting_prune E vc = Some (serialize_to_vec (pruned_vesting_codec E) (pruned_vesting_from vc))"

definition vesting_restore :: "('r, 'z) acc_env_scheme \<Rightarrow> 'r option \<Rightarrow> account_error + vesting_contract" where
  "vesting_restore E pruned_account = (case pruned_account of
     None \<Rightarrow> Inl InvalidReceipt
   | Some receipt \<Rightarrow> map_sum InvalidSerialization vesting_from_pruned (deserialize_from_vec (pruned_vesting_codec E) receipt))"

section \<open>The release schedule\<close>

lemma trunc_div_nonneg: "0 \<le> a \<Longrightarrow> 0 \<le> b \<Longrightarrow> trunc_div a b = a div b"
  by (auto simp: trunc_div_def sgn_if)

lemma trunc_div_mono: "a \<le> b \<Longrightarrow> 0 < d \<Longrightarrow> trunc_div a d \<le> trunc_div b d"
proof -
  assume ab: "a \<le> b" and d: "0 < d"
  have neg: "trunc_div x d \<le> 0" if "x \<le> 0" for x
    using that d by (auto simp: trunc_div_def sgn_if pos_imp_zdiv_nonneg_iff)
  have pos: "0 \<le> trunc_div x d" if "0 \<le> x" for x
    using that d by (simp add: trunc_div_nonneg pos_imp_zdiv_nonneg_iff)
  consider "0 \<le> a" | "a < 0" "0 \<le> b" | "b < 0" by linarith
  then show ?thesis
  proof cases
    case 1
    then show ?thesis using ab d by (simp add: trunc_div_nonneg zdiv_mono1)
  next
    case 2
    then show ?thesis using neg [of a] pos [of b] by simp
  next
    case 3
    then have "(- b) div d \<le> (- a) div d" using ab d by (intro zdiv_mono1) auto
    then show ?thesis using 3 ab d by (simp add: trunc_div_def sgn_if)
  qed
qed

lemma trunc_div_bound: "0 < d \<Longrightarrow> \<bar>trunc_div a d\<bar> \<le> \<bar>a\<bar>"
proof -
  assume d: "0 < d"
  have "\<bar>a\<bar> div d \<le> \<bar>a\<bar>" using d zdiv_mono2 [of "\<bar>a\<bar>" 1 d] by simp
  then show ?thesis using d by (auto simp: trunc_div_def abs_mult sgn_if pos_imp_zdiv_nonneg_iff)
qed

lemma vesting_cap_bound: "vesting_min_cap vc time \<le> vc_total_amount vc"
  by (auto simp: vesting_min_cap_def Let_def)

lemma vesting_cap_mono:
  assumes "time \<le> time'"
  shows "vesting_min_cap vc time' \<le> vesting_min_cap vc time"
proof (cases "vc_time_step vc > 0 \<and> vc_step_amount vc > 0")
  case True
  let ?d = "\<lambda>t. trunc_div (uint t - uint (vc_start_time vc)) (uint (vc_time_step vc))"
  have "0 < uint (vc_time_step vc)" using True by (simp add: word_less_def)
  then have "?d time \<le> ?d time'" using assms by (intro trunc_div_mono) (simp_all add: word_le_def)
  then have "?d time * int (vc_step_amount vc) \<le> ?d time' * int (vc_step_amount vc)" by (rule mult_right_mono) simp
  then show ?thesis
    unfolding vesting_min_cap_def Let_def if_P [OF True] by (intro nat_mono max.mono min.mono diff_mono order_refl)
next
  case False
  then show ?thesis by (simp only: vesting_min_cap_def if_False)
qed

lemma vesting_cap_start: "time \<le> vc_start_time vc \<Longrightarrow> 0 < vc_time_step vc \<Longrightarrow> 0 < vc_step_amount vc \<Longrightarrow>
  vesting_min_cap vc time = vc_total_amount vc"
proof -
  assume a: "time \<le> vc_start_time vc" "0 < vc_time_step vc" "0 < vc_step_amount vc"
  let ?d = "trunc_div (uint time - uint (vc_start_time vc)) (uint (vc_time_step vc))"
  have "0 < uint (vc_time_step vc)" using a(2) by (simp add: word_less_def)
  moreover have "uint time - uint (vc_start_time vc) \<le> 0" using a(1) by (simp add: word_le_def)
  ultimately have "?d \<le> trunc_div 0 (uint (vc_time_step vc))" by (intro trunc_div_mono)
  then have "?d \<le> 0" by (simp add: trunc_div_def)
  then have "?d * int (vc_step_amount vc) \<le> 0" using a(3) by (simp add: mult_nonpos_nonneg)
  then show ?thesis using a(2,3) by (simp add: vesting_min_cap_def Let_def)
qed

lemma vesting_cap_steps:
  assumes "vc_start_time vc \<le> time" "0 < vc_time_step vc" "0 < vc_step_amount vc"
  shows "vesting_min_cap vc time = vc_total_amount vc -
    (unat time - unat (vc_start_time vc)) div unat (vc_time_step vc) * vc_step_amount vc"
proof -
  have le: "unat (vc_start_time vc) \<le> unat time" using assms(1) by (simp add: word_le_nat_alt)
  have "trunc_div (uint time - uint (vc_start_time vc)) (uint (vc_time_step vc)) =
      int ((unat time - unat (vc_start_time vc)) div unat (vc_time_step vc))"
    using le assms(1) by (simp add: trunc_div_nonneg of_nat_diff zdiv_int word_le_def)
  then show ?thesis
    using assms(2,3) by (simp add: vesting_min_cap_def Let_def nat_minus_as_int)
qed

text \<open>The intermediate values of the cap fit into an \<open>i128\<close>.\<close>

lemma vesting_cap_i128:
  fixes time :: u64
  assumes "vc_total_amount vc \<le> MAX_SAFE_VALUE" "vc_step_amount vc \<le> MAX_SAFE_VALUE" "0 < vc_time_step vc"
  defines "steps \<equiv> trunc_div (uint time - uint (vc_start_time vc)) (uint (vc_time_step vc))"
  shows "\<bar>steps * int (vc_step_amount vc)\<bar> < 2 ^ 126" "\<bar>int (vc_total_amount vc) - steps * int (vc_step_amount vc)\<bar> < 2 ^ 127"
proof -
  have t: "0 < uint (vc_time_step vc)" using assms(3) by (simp add: word_less_def)
  have b: "0 \<le> uint w" "uint w < 2 ^ 64" for w :: u64 using uint_lt2p [of w] by simp_all
  have "\<bar>uint time - uint (vc_start_time vc)\<bar> < 2 ^ 64" using b [of time] b [of "vc_start_time vc"] by linarith
  then have s: "\<bar>steps\<bar> \<le> 2 ^ 64" using trunc_div_bound [OF t] unfolding steps_def by (meson less_imp_le order_trans)
  have "int (vc_step_amount vc) \<le> 2 ^ 53" "int (vc_total_amount vc) \<le> 2 ^ 53"
    using assms(1,2) by (simp_all add: MAX_SAFE_VALUE_def)
  then have m: "\<bar>steps * int (vc_step_amount vc)\<bar> \<le> 2 ^ 64 * 2 ^ 53"
    unfolding abs_mult by (intro mult_mono) (use s in auto)
  then show "\<bar>steps * int (vc_step_amount vc)\<bar> < 2 ^ 126" by simp
  show "\<bar>int (vc_total_amount vc) - steps * int (vc_step_amount vc)\<bar> < 2 ^ 127"
    using m \<open>int (vc_total_amount vc) \<le> 2 ^ 53\<close> by simp
qed

section \<open>The handlers\<close>

definition vesting_state_ok :: "vesting_contract \<times> log list \<Rightarrow> bool" where
  "vesting_state_ok s \<longleftrightarrow> vc_balance (fst s) \<le> MAX_SAFE_VALUE"

lemma vc_run:
  "vc_balance (fst s) + c \<le> MAX_SAFE_VALUE \<Longrightarrow>
   vc_add c s = (Inr (), fst s \<lparr> vc_balance := vc_balance (fst s) + c \<rparr>, snd s)"
  "c \<le> vc_balance (fst s) \<Longrightarrow> vc_balance (fst s) \<le> MAX_SAFE_VALUE \<Longrightarrow>
   vc_sub c s = (Inr (), fst s \<lparr> vc_balance := vc_balance (fst s) - c \<rparr>, snd s)"
  by (auto simp: vc_add_def vc_sub_def act_inv)

lemma vc_spend_Inr:
  "vc_spend E tx c bs s = (Inr u, s') \<longleftrightarrow> c \<le> vc_balance (fst s) \<and> vc_balance (fst s) - c \<le> MAX_SAFE_VALUE \<and>
     vesting_can_change_balance E (fst s) tx (vc_balance (fst s) - c) bs = Inr () \<and>
     s' = (fst s \<lparr> vc_balance := vc_balance (fst s) - c \<rparr>, snd s)"
  by (auto simp: vc_spend_def act_inv)

lemma vc_spend_Inl:
  "vc_spend E tx c bs s = (Inl e, s') \<Longrightarrow> e \<noteq> Panic \<and> s' = s"
  by (auto simp: vc_spend_def act_inv)

lemma vesting_allowed:
  "vesting_can_change_balance E vc tx b bs = Inr () \<longleftrightarrow> vesting_min_cap vc (bs_time bs) \<le> b \<and>
     (\<exists>pf. deserialize_proof E (tx_proof tx) = Inr pf \<and> compute_signer E pf = vc_owner vc)"
  by (auto simp: vesting_can_change_balance_def Let_def is_signed_by_def split: sum.splits)

lemmas vc_defs = vesting_state_ok_def same_self_def vesting_commit_incoming_def vesting_revert_incoming_def
  vesting_commit_outgoing_def vesting_revert_outgoing_def vesting_commit_failed_def vesting_revert_failed_def
  vesting_commit_inherent_def vesting_revert_inherent_def

interpretation vesting: account_kind same_self vesting_state_ok "\<lambda>s. vc_balance (fst s)" "\<lambda>_. Vesting" True "\<lambda>_ _. True" "\<lambda>_ _. True"
  vesting_commit_incoming "vesting_commit_outgoing E" "vesting_commit_failed E" vesting_revert_incoming vesting_revert_outgoing
  vesting_revert_failed vesting_commit_inherent vesting_revert_inherent
proof (unfold_locales, goal_cases)
  case (8 s tx bs)
  then show ?case by (intro commitsI) (auto simp: vc_defs act_inv vc_spend_Inr vc_run seq_at act_run dest: vc_spend_Inl)
next
  case (9 s tx bs)
  then show ?case by (intro commitsI) (auto simp: vc_defs act_inv vc_spend_Inr vc_run seq_at act_run dest: vc_spend_Inl)
qed (auto simp: vc_defs commits_def eff_simps)

lemma vesting_restored:
  assumes "codec_ok (pruned_vesting_codec E)" "vc_balance vc = 0"
  shows "vesting_restore E (vesting_prune E vc) = Inr vc"
  using assms by (simp add: vesting_restore_def vesting_prune_def codec_ok_def vesting_from_pruned_def pruned_vesting_from_def)

end
