(* ===== verification/Double.thy ===== *)
theory Double
  imports Complex_Main Prelude
begin

text \<open>
  Double-precision arithmetic as the hash-time-locked contract and the rewards use it: a finite double
  is the rational number it stands for, and the result of an operation is the exact result rounded to
  53 significant bits, to the nearest value and to the even one on a tie. The operands are far from the
  largest doubles, so overflow to infinity does not occur. \<open>f64_powi\<close> is exponentiation by squaring
  (\<^verbatim>\<open>utils/src/math.rs\<close>).
\<close>

definition rne :: "rat \<Rightarrow> int" where
  "rne x = (let f = \<lfloor>x\<rfloor>; r = x - of_int f in
     if r < 1 / 2 then f else if r > 1 / 2 then f + 1 else if even f then f else f + 1)"

fun shift_up :: "nat \<Rightarrow> rat \<Rightarrow> nat" where
  "shift_up 0 x = 0"
| "shift_up (Suc fuel) x = (if 2 ^ 52 \<le> x then 0 else Suc (shift_up fuel (2 * x)))"

fun shift_down :: "nat \<Rightarrow> rat \<Rightarrow> nat" where
  "shift_down 0 x = 0"
| "shift_down (Suc fuel) x = (if x < 2 ^ 53 then 0 else Suc (shift_down fuel (x / 2)))"

text \<open>
  The smallest positive double is \<open>2 ^ -1074\<close>, so scaling up stops there and numbers below the normal
  range lose bits as subnormal doubles do; the largest doubles are below \<open>2 ^ 1024\<close>.
\<close>

definition round_pos :: "rat \<Rightarrow> rat" where
  "round_pos x = (let d = shift_down 1100 x; y = x / 2 ^ d; k = shift_up 1074 y in of_int (rne (y * 2 ^ k)) * 2 ^ d / 2 ^ k)"

definition f64_round :: "rat \<Rightarrow> rat" where
  "f64_round x = (if x = 0 then 0 else if x < 0 then - round_pos (- x) else round_pos x)"

definition f64_mul :: "rat \<Rightarrow> rat \<Rightarrow> rat" where
  "f64_mul x y = f64_round (x * y)"

function powi_loop :: "rat \<Rightarrow> rat \<Rightarrow> nat \<Rightarrow> rat" where
  "powi_loop x y n =
    (if n > 1 then
       let y' = (if n mod 2 = 1 then f64_mul y x else y); n' = (if n mod 2 = 1 then n - 1 else n)
       in powi_loop (f64_mul x x) y' (n' div 2)
     else f64_mul x y)"
  by pat_completeness auto
termination
  by (relation "measure (\<lambda>(x, y, n). n)") auto

declare powi_loop.simps [simp del]

definition f64_powi :: "rat \<Rightarrow> u64 \<Rightarrow> rat" where
  "f64_powi x n = (if n = 0 then 1 else powi_loop x 1 (unat n))"

section \<open>Lemmas\<close>

lemma rne_int [simp]: "rne (of_int n) = n"
  by (simp add: rne_def)

lemma rne_le: "x \<le> of_int n \<Longrightarrow> rne x \<le> n"
proof -
  assume x: "x \<le> of_int n"
  show ?thesis
  proof (cases "x = of_int n")
    case True
    then show ?thesis by simp
  next
    case False
    then have "\<lfloor>x\<rfloor> < n" using x by (simp add: floor_less_iff)
    then show ?thesis by (auto simp: rne_def Let_def)
  qed
qed

lemma rne_nonneg: "0 \<le> x \<Longrightarrow> 0 \<le> rne x"
  by (auto simp: rne_def Let_def)

lemma shift_down_small [simp]: "x < 2 ^ 53 \<Longrightarrow> shift_down fuel x = 0"
  by (cases fuel) simp_all

lemma round_pos_small: "x < 2 ^ 53 \<Longrightarrow> round_pos x = of_int (rne (x * 2 ^ shift_up 1074 x)) / 2 ^ shift_up 1074 x"
  by (simp add: round_pos_def Let_def)

lemma round_pos_int: "n < 2 ^ 53 \<Longrightarrow> round_pos (of_int n) = of_int n"
proof -
  assume n: "n < 2 ^ 53"
  then have "(of_int n :: rat) < of_int (2 ^ 53)" by (simp only: of_int_less_iff)
  then have s: "(of_int n :: rat) < 2 ^ 53" by simp
  have "(of_int n :: rat) * 2 ^ k = of_int (n * 2 ^ k)" for k by simp
  then have "rne (of_int n * 2 ^ k) = n * 2 ^ k" for k by (metis rne_int)
  then show ?thesis by (simp add: round_pos_small [OF s])
qed

lemma round_pos_le:
  assumes "x \<le> of_int n" "n < 2 ^ 53"
  shows "round_pos x \<le> of_int n"
proof -
  let ?k = "shift_up 1074 x"
  have "(of_int n :: rat) < of_int (2 ^ 53)" using assms(2) by (simp only: of_int_less_iff)
  then have s: "x < 2 ^ 53" using assms(1) by simp
  have "x * 2 ^ ?k \<le> of_int n * 2 ^ ?k" by (rule mult_right_mono [OF assms(1)]) simp
  then have "x * 2 ^ ?k \<le> of_int (n * 2 ^ ?k)" by simp
  then have "rne (x * 2 ^ ?k) \<le> n * 2 ^ ?k" by (rule rne_le)
  then have "(of_int (rne (x * 2 ^ ?k)) :: rat) \<le> of_int (n * 2 ^ ?k)" by (simp only: of_int_le_iff)
  then show ?thesis by (simp add: round_pos_small [OF s] divide_le_eq)
qed

lemma rne_ge: "of_int n \<le> x \<Longrightarrow> n \<le> rne x"
proof -
  assume "of_int n \<le> x"
  then have "n \<le> \<lfloor>x\<rfloor>" by (simp add: le_floor_iff)
  then show ?thesis by (auto simp: rne_def Let_def)
qed

lemma round_pos_ge:
  assumes "of_int n \<le> x" "x < 2 ^ 53"
  shows "of_int n \<le> round_pos x"
proof -
  let ?k = "shift_up 1074 x"
  have "of_int n * 2 ^ ?k \<le> x * 2 ^ ?k" by (rule mult_right_mono [OF assms(1)]) simp
  then have "of_int (n * 2 ^ ?k) \<le> x * 2 ^ ?k" by simp
  then have "n * 2 ^ ?k \<le> rne (x * 2 ^ ?k)" by (rule rne_ge)
  then have "(of_int (n * 2 ^ ?k) :: rat) \<le> of_int (rne (x * 2 ^ ?k))" by (simp only: of_int_le_iff)
  then show ?thesis by (simp add: round_pos_small [OF assms(2)] le_divide_eq)
qed

lemma round_pos_nonneg: "0 \<le> x \<Longrightarrow> 0 \<le> round_pos x"
  by (simp add: round_pos_def Let_def rne_nonneg)

lemma f64_round_int: "\<bar>n\<bar> < 2 ^ 53 \<Longrightarrow> f64_round (of_int n) = of_int n"
proof -
  assume n: "\<bar>n\<bar> < 2 ^ 53"
  have "round_pos (- of_int n) = - of_int n" using round_pos_int [of "- n"] n by simp
  then show ?thesis using round_pos_int [of n] n by (simp add: f64_round_def)
qed

lemma f64_round_nat: "n < 2 ^ 53 \<Longrightarrow> f64_round (of_nat n) = of_nat n"
proof -
  assume "n < 2 ^ 53"
  then have "\<bar>int n\<bar> < 2 ^ 53" by simp
  from f64_round_int [OF this] show ?thesis by simp
qed

lemma f64_round_le: "x \<le> of_int n \<Longrightarrow> 0 \<le> n \<Longrightarrow> n < 2 ^ 53 \<Longrightarrow> f64_round x \<le> of_int n"
  using round_pos_le [of x n] round_pos_nonneg [of "- x"] by (auto simp: f64_round_def)

lemma f64_round_ge: "of_int n \<le> x \<Longrightarrow> 0 < n \<Longrightarrow> x < 2 ^ 53 \<Longrightarrow> of_int n \<le> f64_round x"
  using round_pos_ge [of n x] by (auto simp: f64_round_def)

lemma f64_round_sign: "0 \<le> x \<Longrightarrow> 0 \<le> f64_round x" "x \<le> 0 \<Longrightarrow> f64_round x \<le> 0"
  using round_pos_nonneg [of x] round_pos_nonneg [of "- x"] by (auto simp: f64_round_def)

section \<open>Rounding is monotone\<close>

lemma rne_mono: "x \<le> y \<Longrightarrow> rne x \<le> rne y"
proof -
  assume "x \<le> y"
  then have f: "\<lfloor>x\<rfloor> \<le> \<lfloor>y\<rfloor>" by (rule floor_mono)
  show ?thesis
  proof (cases "\<lfloor>x\<rfloor> = \<lfloor>y\<rfloor>")
    case True
    then show ?thesis using \<open>x \<le> y\<close> by (auto simp: rne_def Let_def)
  next
    case False
    then have "\<lfloor>x\<rfloor> + 1 \<le> \<lfloor>y\<rfloor>" using f by simp
    then show ?thesis by (auto simp: rne_def Let_def)
  qed
qed

lemma shift_up_less: "x < 2 ^ 53 \<Longrightarrow> x * 2 ^ shift_up fuel x < 2 ^ 53"
proof (induction fuel arbitrary: x)
  case (Suc fuel)
  then show ?case using Suc.IH [of "2 * x"] by (auto simp: algebra_simps not_le)
qed simp

lemma shift_up_ge: "shift_up fuel x < fuel \<Longrightarrow> 2 ^ 52 \<le> x * 2 ^ shift_up fuel x"
proof (induction fuel arbitrary: x)
  case (Suc fuel)
  then show ?case using Suc.IH [of "2 * x"] by (auto simp: algebra_simps)
qed simp

lemma shift_up_le: "shift_up fuel x \<le> fuel"
  by (induction fuel arbitrary: x) auto

lemma shift_up_anti: "x \<le> y \<Longrightarrow> shift_up fuel y \<le> shift_up fuel x"
proof (induction fuel arbitrary: x y)
  case (Suc fuel)
  then show ?case using Suc.IH [of "2 * x" "2 * y"] by auto
qed simp

lemma round_pos_mono:
  assumes "x \<le> y" "y < 2 ^ 53"
  shows "round_pos x \<le> round_pos y"
proof -
  let ?k = "shift_up 1074 x" and ?l = "shift_up 1074 y"
  have x: "x < 2 ^ 53" using assms by simp
  have "(of_int (rne (x * 2 ^ ?k)) :: rat) / 2 ^ ?k \<le> of_int (rne (y * 2 ^ ?l)) / 2 ^ ?l"
  proof (cases "?k = ?l")
    case True
    have "x * 2 ^ ?l \<le> y * 2 ^ ?l" by (rule mult_right_mono [OF assms(1)]) simp
    then have "rne (x * 2 ^ ?l) \<le> rne (y * 2 ^ ?l)" by (rule rne_mono)
    then have "(of_int (rne (x * 2 ^ ?l)) :: rat) \<le> of_int (rne (y * 2 ^ ?l))" by (simp only: of_int_le_iff)
    then show ?thesis unfolding True by (rule divide_right_mono) simp
  next
    case False
    then have lk: "Suc ?l \<le> ?k" using shift_up_anti [OF assms(1), of 1074] by linarith
    have "x * 2 ^ ?k \<le> of_int (2 ^ 53)" using shift_up_less [OF x, of 1074] by simp
    then have "rne (x * 2 ^ ?k) \<le> 2 ^ 53" by (rule rne_le)
    then have "(of_int (rne (x * 2 ^ ?k)) :: rat) \<le> of_int (2 ^ 53)" by (simp only: of_int_le_iff)
    then have "(of_int (rne (x * 2 ^ ?k)) :: rat) / 2 ^ ?k \<le> 2 ^ 53 / 2 ^ ?k" by (intro divide_right_mono) simp_all
    also have "\<dots> \<le> 2 ^ 53 / 2 ^ Suc ?l" using power_increasing [OF lk, of "2 :: rat"] by (intro divide_left_mono) simp_all
    also have "\<dots> = 2 ^ 52 / 2 ^ ?l" by simp
    also have "\<dots> \<le> of_int (rne (y * 2 ^ ?l)) / 2 ^ ?l"
    proof (rule divide_right_mono)
      have "of_int (2 ^ 52) \<le> y * 2 ^ ?l" using shift_up_ge [of 1074 y] lk shift_up_le [of 1074 x] by simp
      then have "2 ^ 52 \<le> rne (y * 2 ^ ?l)" by (rule rne_ge)
      then have "of_int (2 ^ 52) \<le> (of_int (rne (y * 2 ^ ?l)) :: rat)" by (simp only: of_int_le_iff)
      then show "2 ^ 52 \<le> (of_int (rne (y * 2 ^ ?l)) :: rat)" by simp
    qed simp
    finally show ?thesis .
  qed
  then show ?thesis by (simp add: round_pos_small [OF x] round_pos_small [OF assms(2)])
qed

lemma f64_round_mono:
  assumes "x \<le> y" "\<bar>x\<bar> < 2 ^ 53" "\<bar>y\<bar> < 2 ^ 53"
  shows "f64_round x \<le> f64_round y"
proof -
  consider "0 < x" | "x \<le> 0" "0 \<le> y" | "y < 0" using assms(1) by linarith
  then show ?thesis
  proof cases
    case 1
    then show ?thesis using assms round_pos_mono [of x y] by (simp add: f64_round_def)
  next
    case 2
    then show ?thesis using f64_round_sign order_trans by blast
  next
    case 3
    then show ?thesis using assms round_pos_mono [of "- y" "- x"] by (simp add: f64_round_def)
  qed
qed

end
