(* ===== verification/HtlcContract.thy ===== *)
theory HtlcContract
  imports VestingContract Double
begin

text \<open>
  Hash-time-locked contracts (\<^verbatim>\<open>primitives/account/src/account/htlc_contract.rs\<close>): until the timeout
  the recipient may spend the share of the funds for which it shows pre-images, afterwards the sender
  may take back the rest, and both together may spend at any time.
\<close>

record htlc =
  hc_balance :: coin
  hc_sender :: address
  hc_recipient :: address
  hc_hash_root :: any_hash
  hc_hash_count :: u8
  hc_timeout :: u64
  hc_total_amount :: coin

type_synonym 'x hc = "(htlc, 'x) act"

text \<open>
  The cap \<open>(1 - hash_depth / hash_count) * total_amount\<close> in double precision, rounded down. With a
  \<open>hash_count\<close> of zero the quotient is infinite or not a number, and \<open>max(0)\<close> makes both zero.
\<close>

definition htlc_min_cap :: "u8 \<Rightarrow> u8 \<Rightarrow> coin \<Rightarrow> nat" where
  "htlc_min_cap hash_depth hash_count total_amount =
    (if hash_count = 0 then 0
     else let cap_ratio = f64_round (1 - f64_round (of_nat (unat hash_depth) / of_nat (unat hash_count)))
       in nat (max 0 \<lfloor>f64_round (cap_ratio * f64_round (of_nat total_amount))\<rfloor>))"

definition htlc_can_change_balance ::
  "('r, 'z) acc_env_scheme \<Rightarrow> transaction \<Rightarrow> coin \<Rightarrow> block_state \<Rightarrow> unit hc" where
  "htlc_can_change_balance E tx new_balance bs = bind_eff self (\<lambda>hc.
    bind_eff (result_of (map_sum InvalidSerialization id (deserialize_htlc_proof E (tx_proof tx)))) (\<lambda>pf.
    case pf of
      RegularTransfer hash_depth hash_root pre_image signature_proof \<Rightarrow>
        if hc_timeout hc < bs_time bs then throw (AccountErr InvalidForSender)
        else if hash_root \<noteq> hc_hash_root hc then throw (AccountErr InvalidForSender)
        else if \<not> is_signed_by E signature_proof (hc_recipient hc) then throw (AccountErr InvalidSignature)
        else bind_eff (result_of (map_sum CoinConvert id
            (coin_try_from (htlc_min_cap hash_depth (hc_hash_count hc) (hc_total_amount hc))))) (\<lambda>min_cap.
          if new_balance < min_cap then
            throw (AccountErr (InsufficientFunds (coin_saturating_sub (hc_balance hc) new_balance)
              (coin_saturating_sub (hc_balance hc) min_cap)))
          else log_event (Log_HTLCRegularTransfer (tx_sender tx) pre_image hash_depth))
    | EarlyResolve signature_proof_recipient signature_proof_sender \<Rightarrow>
        if \<not> is_signed_by E signature_proof_recipient (hc_recipient hc) \<or> \<not> is_signed_by E signature_proof_sender (hc_sender hc)
        then throw (AccountErr InvalidSignature)
        else log_event (Log_HTLCEarlyResolve (tx_sender tx))
    | TimeoutResolve signature_proof_sender \<Rightarrow>
        if hc_timeout hc \<ge> bs_time bs then throw (AccountErr InvalidForSender)
        else if \<not> is_signed_by E signature_proof_sender (hc_sender hc) then throw (AccountErr InvalidSignature)
        else log_event (Log_HTLCTimeoutResolve (tx_sender tx))))"

definition hc_add :: "coin \<Rightarrow> unit hc" where
  "hc_add c = bind_eff self (\<lambda>hc.
     bind_eff (coin_or_panic (coin_add (hc_balance hc) c)) (\<lambda>b. set_self (hc \<lparr> hc_balance := b \<rparr>)))"

definition hc_sub :: "coin \<Rightarrow> unit hc" where
  "hc_sub c = bind_eff self (\<lambda>hc.
     bind_eff (coin_or_panic (coin_sub (hc_balance hc) c)) (\<lambda>b. set_self (hc \<lparr> hc_balance := b \<rparr>)))"

definition htlc_create_new_contract :: "transaction \<Rightarrow> coin \<Rightarrow> (log list, error, htlc) eff" where
  "htlc_create_new_contract tx initial_balance =
    bind_eff (result_of (map_sum InvalidTransaction id (parse_htlc tx))) (\<lambda>data.
    seq_eff (modify (\<lambda>logs. logs @ [Log_HTLCCreate (tx_recipient tx) (hd_sender data) (hd_recipient data)
      (hd_hash_root data) (hd_hash_count data) (hd_timeout data) (tx_value tx)]))
    (bind_eff (coin_or_panic (coin_add initial_balance (tx_value tx))) (\<lambda>balance.
    ret \<lparr> hc_balance = balance, hc_sender = hd_sender data, hc_recipient = hd_recipient data,
      hc_hash_root = hd_hash_root data, hc_hash_count = hd_hash_count data, hc_timeout = hd_timeout data,
      hc_total_amount = tx_value tx \<rparr>)))"

definition htlc_revert_new_contract :: "transaction \<Rightarrow> unit hc" where
  "htlc_revert_new_contract tx =
    seq_eff (hc_sub (tx_value tx))
    (bind_eff self (\<lambda>hc. log_event (Log_HTLCCreate (tx_recipient tx) (hc_sender hc) (hc_recipient hc)
      (hc_hash_root hc) (hc_hash_count hc) (hc_timeout hc) (tx_value tx))))"

definition htlc_commit_incoming :: "transaction \<Rightarrow> block_state \<Rightarrow> 'r option hc" where
  "htlc_commit_incoming tx bs = throw (AccountErr InvalidForRecipient)"

definition htlc_revert_incoming :: "transaction \<Rightarrow> 'r option \<Rightarrow> unit hc" where
  "htlc_revert_incoming tx receipt = throw (AccountErr InvalidForRecipient)"

definition htlc_commit_outgoing ::
  "('q, 'z) acc_env_scheme \<Rightarrow> transaction \<Rightarrow> block_state \<Rightarrow> 'r option hc" where
  "htlc_commit_outgoing E tx bs =
    seq_eff (log_event (pay_fee_log tx))
    (seq_eff (log_event (transfer_log tx))
    (bind_eff self (\<lambda>hc.
     bind_eff (coin_or_error (safe_sub (hc_balance hc) (total_value tx))) (\<lambda>new_balance.
     seq_eff (htlc_can_change_balance E tx new_balance bs)
     (seq_eff (set_self (hc \<lparr> hc_balance := new_balance \<rparr>)) (ret None))))))"

definition htlc_revert_outgoing :: "('q, 'z) acc_env_scheme \<Rightarrow> transaction \<Rightarrow> 'r option \<Rightarrow> unit hc" where
  "htlc_revert_outgoing E tx receipt =
    seq_eff (hc_add (total_value tx))
    (bind_eff (result_of (map_sum InvalidSerialization id (deserialize_htlc_proof E (tx_proof tx)))) (\<lambda>pf.
     seq_eff (log_event (case pf of
         RegularTransfer hash_depth _ pre_image _ \<Rightarrow> Log_HTLCRegularTransfer (tx_sender tx) pre_image hash_depth
       | EarlyResolve _ _ \<Rightarrow> Log_HTLCEarlyResolve (tx_sender tx)
       | TimeoutResolve _ \<Rightarrow> Log_HTLCTimeoutResolve (tx_sender tx)))
     (seq_eff (log_event (transfer_log tx)) (log_event (pay_fee_log tx)))))"

definition htlc_commit_failed ::
  "('q, 'z) acc_env_scheme \<Rightarrow> transaction \<Rightarrow> block_state \<Rightarrow> 'r option hc" where
  "htlc_commit_failed E tx bs =
    bind_eff self (\<lambda>hc.
    bind_eff (coin_or_error (safe_sub (hc_balance hc) (tx_fee tx))) (\<lambda>new_balance.
    seq_eff (unlogged (htlc_can_change_balance E tx new_balance bs))
    (seq_eff (set_self (hc \<lparr> hc_balance := new_balance \<rparr>))
    (seq_eff (log_event (pay_fee_log tx)) (ret None)))))"

definition htlc_revert_failed :: "transaction \<Rightarrow> 'r option \<Rightarrow> unit hc" where
  "htlc_revert_failed tx receipt = seq_eff (hc_add (tx_fee tx)) (log_event (pay_fee_log tx))"

definition htlc_reserve_balance ::
  "('r, 'z) acc_env_scheme \<Rightarrow> htlc \<Rightarrow> transaction \<Rightarrow> block_state \<Rightarrow> unit rb" where
  "htlc_reserve_balance E hc tx bs =
    bind_eff (gets reserved_balance_of) (\<lambda>reserved.
    bind_eff (some_or (AccountErr InvalidCoinValue) (checked_add reserved (total_value tx))) (\<lambda>total_needed.
    bind_eff (coin_or_error (safe_sub (hc_balance hc) total_needed)) (\<lambda>new_balance.
    seq_eff (of_sum (fst (htlc_can_change_balance E tx new_balance bs (hc, []))))
    (reserve (hc_balance hc) (total_value tx)))))"

definition htlc_release_balance :: "htlc \<Rightarrow> transaction \<Rightarrow> unit rb" where
  "htlc_release_balance hc tx = release (total_value tx)"

definition htlc_commit_inherent :: "block_state \<Rightarrow> inherent \<Rightarrow> 'r option hc" where
  "htlc_commit_inherent bs i = throw (AccountErr InvalidForTarget)"

definition htlc_revert_inherent :: "inherent \<Rightarrow> 'r option \<Rightarrow> unit hc" where
  "htlc_revert_inherent i receipt = throw (AccountErr InvalidForTarget)"

definition htlc_can_be_pruned :: "htlc \<Rightarrow> bool" where
  "htlc_can_be_pruned hc \<longleftrightarrow> hc_balance hc = 0"

definition pruned_htlc_from :: "htlc \<Rightarrow> pruned_htlc" where
  "pruned_htlc_from hc = \<lparr> ph_sender = hc_sender hc, ph_recipient = hc_recipient hc, ph_hash_root = hc_hash_root hc,
     ph_hash_count = hc_hash_count hc, ph_timeout = hc_timeout hc, ph_total_amount = hc_total_amount hc \<rparr>"

definition htlc_from_pruned :: "pruned_htlc \<Rightarrow> htlc" where
  "htlc_from_pruned ph = \<lparr> hc_balance = 0, hc_sender = ph_sender ph, hc_recipient = ph_recipient ph,
     hc_hash_root = ph_hash_root ph, hc_hash_count = ph_hash_count ph, hc_timeout = ph_timeout ph,
     hc_total_amount = ph_total_amount ph \<rparr>"

definition htlc_prune :: "('r, 'z) acc_env_scheme \<Rightarrow> htlc \<Rightarrow> 'r option" where
  "htlc_prune E hc = Some (serialize_to_vec (pruned_htlc_codec E) (pruned_htlc_from hc))"

definition htlc_restore :: "('r, 'z) acc_env_scheme \<Rightarrow> 'r option \<Rightarrow> account_error + htlc" where
  "htlc_restore E pruned_account = (case pruned_account of
     None \<Rightarrow> Inl InvalidReceipt
   | Some receipt \<Rightarrow> map_sum InvalidSerialization htlc_from_pruned (deserialize_from_vec (pruned_htlc_codec E) receipt))"

section \<open>The cap\<close>

definition f64_cap :: "nat \<Rightarrow> nat \<Rightarrow> coin \<Rightarrow> int" where
  "f64_cap d c amount = \<lfloor>f64_round (f64_round (1 - f64_round (of_nat d / of_nat c)) * f64_round (of_nat amount))\<rfloor>"

lemma htlc_min_cap_eq: "htlc_min_cap d c amount = (if c = 0 then 0 else nat (max 0 (f64_cap (unat d) (unat c) amount)))"
  by (simp only: htlc_min_cap_def f64_cap_def Let_def)

lemma f64_amount: "amount \<le> MAX_SAFE_VALUE \<Longrightarrow> f64_round (of_nat amount) = of_nat amount"
  by (intro f64_round_nat) (simp add: MAX_SAFE_VALUE_def)

lemma f64_cap_bound:
  assumes "amount \<le> MAX_SAFE_VALUE"
  shows "f64_cap d c amount \<le> int amount"
proof -
  let ?r = "f64_round (1 - f64_round (of_nat d / of_nat c))"
  have "0 \<le> f64_round (of_nat d / of_nat c)" by (rule f64_round_sign) simp
  then have "?r \<le> of_int 1" by (intro f64_round_le) simp_all
  then have "?r * of_nat amount \<le> 1 * of_nat amount" by (intro mult_right_mono) simp_all
  then have "f64_round (?r * of_nat amount) \<le> of_int (int amount)"
    using assms by (intro f64_round_le) (simp_all add: MAX_SAFE_VALUE_def)
  then have "f64_round (?r * of_nat amount) < of_int (int amount) + 1" by (rule order_le_less_trans) simp
  then show ?thesis unfolding f64_cap_def f64_amount [OF assms] by (simp only: floor_le_iff)
qed

lemma f64_cap_over:
  assumes "0 < c" "c \<le> d" "d < 2 ^ 8"
  shows "f64_cap d c amount \<le> 0"
proof -
  let ?q = "of_nat d / of_nat c :: rat"
  have "d < 2 ^ 8 * c" using assms by simp
  then have "(of_nat d :: rat) < of_nat (2 ^ 8 * c)" by (simp only: of_nat_less_iff)
  then have "?q < 2 ^ 53" using assms(1) by (simp add: divide_less_eq)
  then have "of_int 1 \<le> f64_round ?q" using assms(1,2) by (intro f64_round_ge) simp_all
  then have "f64_round (1 - f64_round ?q) \<le> 0" by (intro f64_round_sign) simp
  moreover have "0 \<le> f64_round (of_nat amount)" by (intro f64_round_sign) simp
  ultimately have "f64_round (f64_round (1 - f64_round ?q) * f64_round (of_nat amount)) \<le> 0"
    by (intro f64_round_sign(2) [OF mult_nonpos_nonneg])
  then show ?thesis by (simp add: f64_cap_def floor_le_iff)
qed

lemma htlc_cap_bound: "amount \<le> MAX_SAFE_VALUE \<Longrightarrow> htlc_min_cap d c amount \<le> amount"
  using f64_cap_bound [of amount "unat d" "unat c"] by (simp add: htlc_min_cap_eq nat_le_iff)

lemma htlc_cap_over: "c \<le> d \<Longrightarrow> htlc_min_cap d c amount = 0"
  using f64_cap_over [of "unat c" "unat d" amount] unat_bound [of d]
  by (simp add: htlc_min_cap_eq unat_gt_0 word_le_nat_alt)

lemma htlc_cap_none:
  assumes "amount \<le> MAX_SAFE_VALUE" "c \<noteq> 0"
  shows "htlc_min_cap 0 c amount = amount"
proof -
  have "f64_round 1 = 1" using f64_round_int [of 1] by simp
  moreover have "f64_round 0 = 0" by (simp add: f64_round_def)
  ultimately show ?thesis using assms(2) by (simp add: htlc_min_cap_def f64_amount [OF assms(1)])
qed

section \<open>The handlers\<close>

definition htlc_ok :: "htlc \<times> log list \<Rightarrow> bool" where
  "htlc_ok s \<longleftrightarrow> hc_balance (fst s) \<le> MAX_SAFE_VALUE"

lemma hc_run:
  "hc_balance (fst s) + c \<le> MAX_SAFE_VALUE \<Longrightarrow>
   hc_add c s = (Inr (), fst s \<lparr> hc_balance := hc_balance (fst s) + c \<rparr>, snd s)"
  "c \<le> hc_balance (fst s) \<Longrightarrow> hc_balance (fst s) \<le> MAX_SAFE_VALUE \<Longrightarrow>
   hc_sub c s = (Inr (), fst s \<lparr> hc_balance := hc_balance (fst s) - c \<rparr>, snd s)"
  by (auto simp: hc_add_def hc_sub_def act_inv)

text \<open>What lets the balance of a contract change.\<close>

definition htlc_allowed :: "('r, 'z) acc_env_scheme \<Rightarrow> htlc \<Rightarrow> transaction \<Rightarrow> coin \<Rightarrow> block_state \<Rightarrow> htlc_proof \<Rightarrow> bool" where
  "htlc_allowed E hc tx b bs pf \<longleftrightarrow> (case pf of
     RegularTransfer hash_depth hash_root _ sp \<Rightarrow> bs_time bs \<le> hc_timeout hc \<and> hash_root = hc_hash_root hc \<and>
       compute_signer E sp = hc_recipient hc \<and> htlc_min_cap hash_depth (hc_hash_count hc) (hc_total_amount hc) \<le> b
   | EarlyResolve spr sps \<Rightarrow> compute_signer E spr = hc_recipient hc \<and> compute_signer E sps = hc_sender hc
   | TimeoutResolve sps \<Rightarrow> hc_timeout hc < bs_time bs \<and> compute_signer E sps = hc_sender hc)"

lemma map_sum_id_Inr: "map_sum f id r = Inr x \<longleftrightarrow> r = Inr x"
  by (cases r) simp_all

lemma htlc_can_change_Inr:
  assumes "htlc_can_change_balance E tx b bs s = (Inr u, s')"
  shows "fst s' = fst s" "\<exists>pf. deserialize_htlc_proof E (tx_proof tx) = Inr pf \<and> htlc_allowed E (fst s) tx b bs pf"
proof -
  from assms obtain pf where pf: "deserialize_htlc_proof E (tx_proof tx) = Inr pf"
    by (auto simp: htlc_can_change_balance_def act_inv map_sum_id_Inr)
  have "fst s' = fst s \<and> htlc_allowed E (fst s) tx b bs pf"
    using assms
    by (cases pf) (auto simp: htlc_can_change_balance_def act_inv map_sum_id_Inr pf htlc_allowed_def is_signed_by_def not_less
        not_le coin_try_from_def split: if_splits)
  then show "fst s' = fst s" "\<exists>pf. deserialize_htlc_proof E (tx_proof tx) = Inr pf \<and> htlc_allowed E (fst s) tx b bs pf"
    using pf by auto
qed

lemma htlc_can_change_Inl:
  assumes "htlc_can_change_balance E tx b bs s = (Inl e, s')"
  shows "e \<noteq> Panic \<and> fst s' = fst s"
proof (cases "deserialize_htlc_proof E (tx_proof tx)")
  case (Inl x)
  then show ?thesis using assms by (auto simp: htlc_can_change_balance_def act_inv)
next
  case (Inr pf)
  then show ?thesis
    using assms by (cases pf) (auto simp: htlc_can_change_balance_def act_inv split: if_splits)
qed

lemma unlogged_Inr: "unlogged m s = (Inr x, s') \<longleftrightarrow> (\<exists>a L. m (fst s, []) = (Inr x, a, L) \<and> s' = (a, snd s))"
  and unlogged_Inl: "unlogged m s = (Inl e, s') \<longleftrightarrow> (\<exists>a L. m (fst s, []) = (Inl e, a, L) \<and> s' = (a, snd s))"
  by (auto simp: unlogged_def split: prod.splits)

lemmas hc_defs = htlc_ok_def same_self_def htlc_commit_incoming_def htlc_revert_incoming_def
  htlc_commit_outgoing_def htlc_revert_outgoing_def htlc_commit_failed_def htlc_revert_failed_def
  htlc_commit_inherent_def htlc_revert_inherent_def

lemma htlc_outgoing_Inr:
  assumes "htlc_commit_outgoing E tx bs s = (Inr r, s')"
  shows "total_value tx \<le> hc_balance (fst s)" "fst s' = fst s \<lparr> hc_balance := hc_balance (fst s) - total_value tx \<rparr>"
    "\<exists>pf. deserialize_htlc_proof E (tx_proof tx) = Inr pf \<and>
       htlc_allowed E (fst s) tx (hc_balance (fst s) - total_value tx) bs pf"
  using assms by (auto simp: htlc_commit_outgoing_def act_inv dest!: htlc_can_change_Inr)

lemma htlc_failed_Inr:
  assumes "htlc_commit_failed E tx bs s = (Inr r, s')"
  shows "tx_fee tx \<le> hc_balance (fst s)" "fst s' = fst s \<lparr> hc_balance := hc_balance (fst s) - tx_fee tx \<rparr>"
    "\<exists>pf. deserialize_htlc_proof E (tx_proof tx) = Inr pf \<and>
       htlc_allowed E (fst s) tx (hc_balance (fst s) - tx_fee tx) bs pf"
  using assms by (auto simp: htlc_commit_failed_def act_inv unlogged_Inr dest!: htlc_can_change_Inr)

lemma htlc_Inl:
  "htlc_commit_outgoing E tx bs s = (Inl e, s') \<Longrightarrow> e \<noteq> Panic \<and> fst s' = fst s"
  "htlc_commit_failed E tx bs s = (Inl e, s') \<Longrightarrow> e \<noteq> Panic \<and> fst s' = fst s"
  by (auto simp: htlc_commit_outgoing_def htlc_commit_failed_def act_inv unlogged_Inl unlogged_Inr
      dest!: htlc_can_change_Inr htlc_can_change_Inl)

interpretation htlc: account_kind same_self htlc_ok "\<lambda>s. hc_balance (fst s)" "\<lambda>_. HTLC" True "\<lambda>_ _. True" "\<lambda>_ _. True"
  htlc_commit_incoming "htlc_commit_outgoing E" "htlc_commit_failed E" htlc_revert_incoming "htlc_revert_outgoing E"
  htlc_revert_failed htlc_commit_inherent htlc_revert_inherent
proof (unfold_locales, goal_cases)
  case (8 s tx bs)
  show ?case
  proof (rule commitsI, goal_cases)
    case (3 r s' t)
    note c = htlc_outgoing_Inr [OF 3(2)]
    from c(3) obtain pf where pf: "deserialize_htlc_proof E (tx_proof tx) = Inr pf" by blast
    have "fst t = fst s \<lparr> hc_balance := hc_balance (fst s) - total_value tx \<rparr>" using 3(3) c(2) by (simp add: same_self_def)
    then have "hc_add (total_value tx) t = (Inr (), fst s, snd t)"
      using 8 c(1) hc_run(1) [of t "total_value tx"] by (simp add: htlc_ok_def)
    then show ?case
      by (simp add: htlc_revert_outgoing_def same_self_def seq_at pf result_of_def of_sum_def eff_simps(8) act_run)
  next
    case (2 r s')
    then show ?case using 8 htlc_outgoing_Inr(1,2) [OF 2] by (simp add: htlc_ok_def)
  qed (auto simp: same_self_def dest: htlc_Inl)
next
  case (9 s tx bs)
  show ?case
  proof (rule commitsI, goal_cases)
    case (3 r s' t)
    note c = htlc_failed_Inr [OF 3(2)]
    have "fst t = fst s \<lparr> hc_balance := hc_balance (fst s) - tx_fee tx \<rparr>" using 3(3) c(2) by (simp add: same_self_def)
    then have "hc_add (tx_fee tx) t = (Inr (), fst s, snd t)"
      using 9 c(1) hc_run(1) [of t "tx_fee tx"] by (simp add: htlc_ok_def)
    then show ?case by (simp add: htlc_revert_failed_def same_self_def seq_at act_run)
  next
    case (2 r s')
    then show ?case using 9 htlc_failed_Inr(1,2) [OF 2] by (simp add: htlc_ok_def)
  qed (auto simp: same_self_def dest: htlc_Inl)
qed (auto simp: hc_defs commits_def eff_simps)

lemma htlc_restored:
  assumes "codec_ok (pruned_htlc_codec E)" "hc_balance hc = 0"
  shows "htlc_restore E (htlc_prune E hc) = Inr hc"
  using assms by (simp add: htlc_restore_def htlc_prune_def codec_ok_def htlc_from_pruned_def pruned_htlc_from_def)

end
