(* ===== verification/StakingAccount.thy ===== *)
theory StakingAccount
  imports StakingUpgrade HtlcContract
begin

text \<open>
  The staking contract as one of the kinds of accounts: the balances a block producer reserves for
  its outgoing transactions, and the proof that its handlers keep the contract of an account.
\<close>

section \<open>Reserving balances\<close>

text \<open>A check of the contract, run on its state.\<close>

definition check_on :: "staking_state \<Rightarrow> 'x sc \<Rightarrow> 'x rb" where
  "check_on s m = of_sum (fst (m s))"

definition sc_reserve_balance ::
  "('r, 'z) sc_env_scheme \<Rightarrow> staking_state \<Rightarrow> transaction \<Rightarrow> block_state \<Rightarrow> unit rb" where
  "sc_reserve_balance E s tx bs =
    bind_eff (check_on s (parse_outgoing_tx E tx)) (\<lambda>(data, proof).
    case data of
      DeleteValidator \<Rightarrow>
        let validator_address = compute_signer E proof in
        bind_eff (check_on s (expect_validator validator_address)) (\<lambda>validator.
        seq_eff (check_on s (can_delete_validator (env_policy E) validator (total_value tx) (bs_number bs)))
        (reserve_for validator_address (v_deposit validator) (total_value tx)))
    | RemoveStake \<Rightarrow>
        let staker_address = compute_signer E proof in
        bind_eff (check_on s (expect_staker staker_address)) (\<lambda>staker.
        seq_eff (check_on s (can_remove_stake staker (total_value tx)))
        (bind_eff (coin_or_panic (coin_sub (s_retired_balance staker) (tx_fee tx))) (\<lambda>retired.
         seq_eff (check_on s (enforce_min_stake (s_active_balance staker) (s_inactive_balance staker) retired))
         (reserve_for staker_address (s_retired_balance staker) (total_value tx))))))"

definition sc_release_balance :: "('r, 'z) sc_env_scheme \<Rightarrow> staking_state \<Rightarrow> transaction \<Rightarrow> unit rb" where
  "sc_release_balance E s tx =
    bind_eff (check_on s (parse_outgoing_tx E tx)) (\<lambda>(data, proof).
    release_for (compute_signer E proof) (total_value tx))"

section \<open>The reverts only append to the log\<close>

lemma logging_loggers [logging_intros]: "logging (with_empty_logger m)" "logging (with_tx_logger m)"
  by (auto simp: logging_def with_empty_logger_def with_tx_logger_def prepend_log_def split: prod.splits sum.splits)

lemma logging_finally [logging_intros]:
  assumes "logging m" "logging n"
  shows "logging (finally_eff m n)"
  unfolding logging_def
proof (intro allI)
  fix L s
  have m: "m (prepend_log L s) = map_prod id (prepend_log L) (m s)" using assms(1) by (simp add: logging_def)
  have n: "n (prepend_log L t) = map_prod id (prepend_log L) (n t)" for t using assms(2) by (simp add: logging_def)
  show "finally_eff m n (prepend_log L s) = map_prod id (prepend_log L) (finally_eff m n s)"
    by (simp add: finally_eff_def m n split_beta split: sum.splits)
qed

lemma logging_prod [logging_intros]: "(\<And>x y. logging (f x y)) \<Longrightarrow> logging (case p of (x, y) \<Rightarrow> f x y)"
  by (cases p) simp

lemma logging_outgoing_data [logging_intros]:
  "logging m \<Longrightarrow> logging n \<Longrightarrow> logging (case d of DeleteValidator \<Rightarrow> m | RemoveStake \<Rightarrow> n)"
  by (cases d) simp_all

lemma logging_receipts [logging_intros]:
  "logging (try_into_receipt c r')" "logging (expect_receipt c r)" "logging (optional_receipt c r)" "logging (put_punished ps)"
  "logging (gets punished)"
  unfolding try_into_receipt_def expect_receipt_def optional_receipt_def put_punished_def
  by (intro logging_intros logging_modify logging_gets; simp add: prepend_log_def)+

lemma logging_parse [logging_intros]: "logging (parse_incoming_tx E tx)" "logging (parse_outgoing_tx E tx)"
  unfolding parse_incoming_tx_def parse_outgoing_tx_def by (intro logging_intros)+

lemma logging_revert_validator [logging_intros]:
  "logging (revert_create_validator a c)" "logging (revert_update_validator a ur)" "logging (revert_reactivate_validator a rr)"
  "logging (revert_retire_validator a tr)" "logging (revert_set_signal_data a sr)"
  unfolding revert_create_validator_def revert_update_validator_def revert_reactivate_validator_def
    revert_retire_validator_def revert_set_signal_data_def Let_def
  by (intro logging_intros)+

lemma logging_delegation [logging_intros]: "(\<And>a. logging (f a)) \<Longrightarrow> logging (on_delegation d f)"
  unfolding on_delegation_def by (intro logging_intros)

lemma logging_targets [logging_intros]:
  "logging (register_staker_on_validator a b)" "logging (unregister_staker_from_validator a)"
  "logging (increase_stake_to_validator a c)" "logging (decrease_stake_from_validator a c)"
  unfolding register_staker_on_validator_def unregister_staker_from_validator_def increase_stake_to_validator_def
    decrease_stake_from_validator_def Let_def
  by (intro logging_intros)+

lemma logging_update_target [logging_intros]: "logging (update_stake_for_validator a c d)"
  unfolding update_stake_for_validator_def by (intro logging_intros)

lemma logging_revert_staker [logging_intros]:
  "logging (revert_create_staker a c)" "logging (revert_add_stake a c)" "logging (revert_update_staker a ur)"
  "logging (revert_set_active_stake a c sr)" "logging (revert_retire_stake a c rr)"
  unfolding revert_create_staker_def revert_add_stake_def revert_update_staker_def revert_set_active_stake_def
    revert_retire_stake_def Let_def
  by (intro logging_intros)+

lemma logging_revert_incoming: "logging (sc_revert_incoming E tx receipt)"
  unfolding sc_revert_incoming_def
proof (intro logging_intros)
  fix data
  show "logging (revert_incoming_op E tx receipt data)" by (cases data) (simp_all, (intro logging_intros)+)
qed

lemma logging_revert_outgoing: "logging (sc_revert_outgoing E tx receipt)"
  unfolding sc_revert_outgoing_def Let_def by (intro logging_intros)

lemma logging_revert_failed: "logging (sc_revert_failed E tx receipt)"
  unfolding sc_revert_failed_def Let_def by (intro logging_intros)

lemma logging_revert_inherent: "logging (sc_revert_inherent E receipt i)"
  by (cases i) (simp_all, (intro logging_intros)+)

section \<open>The contract of an account\<close>

definition same_staking :: "staking_state \<Rightarrow> staking_state \<Rightarrow> bool" where
  "same_staking s t \<longleftrightarrow> t = s \<lparr> tx_log := tx_log t \<rparr>"

definition staking_ok :: "staking_state \<Rightarrow> bool" where
  "staking_ok s \<longleftrightarrow> sc_inv s \<and> wf_punished (punished s)"

definition staking_verified :: "('r, 'z) sc_env_scheme \<Rightarrow> transaction \<Rightarrow> bool" where
  "staking_verified E tx \<longleftrightarrow> (\<exists>version. verify_incoming_transaction E tx version = Some (Inr ()))"

lemma same_staking_iff:
  "same_staking s t \<longleftrightarrow> sc_balance t = sc_balance s \<and> active_validators t = active_validators s \<and> punished t = punished s \<and>
     validators t = validators s \<and> stakers t = stakers s \<and> tombstones t = tombstones s"
  by (cases s; cases t) (auto simp: same_staking_def)

lemma restores_undone:
  assumes "restores m rv s" "m s = (Inr r, s')" "logging (rv r)"
  shows "undone same_staking s (rv r) s'"
  unfolding undone_def
proof (intro allI impI)
  fix t
  assume "same_staking s' t"
  then have t: "t = s' \<lparr> tx_log := tx_log t \<rparr>" by (simp add: same_staking_def)
  from assms(1,2) obtain L where "rv r s' = (Inr (), s \<lparr> tx_log := L \<rparr>)" unfolding restores_def by blast
  from prepend_log_eq [OF assms(3) this, of "tx_log t"] t
  show "\<exists>u. rv r t = (Inr (), u) \<and> same_staking s u" by (auto simp: same_staking_def)
qed

lemma outcome_commits:
  assumes "outcome (m s) s P" "reverts \<Longrightarrow> restores m rv s" "\<And>r. logging (rv r)" "\<And>r s'. P r s' \<Longrightarrow> Q s'"
  shows "commits same_staking m rv reverts s Q"
  using assms(1,4) restores_undone [OF assms(2) _ assms(3)]
  by (auto simp: commits_def outcome_def same_staking_def split: sum.splits prod.splits error.splits)

lemma safe_commits:
  assumes "safe (m s) s P" "reverts \<Longrightarrow> restores m rv s" "\<And>r. logging (rv r)" "\<And>r s'. P r s' \<Longrightarrow> Q s'"
  shows "commits same_staking m rv reverts s Q"
  using assms(1,4) restores_undone [OF assms(2) _ assms(3)]
  by (auto simp: commits_def safe_def same_staking_def split: sum.splits prod.splits error.splits)

lemma revert_inherent_restores:
  assumes "sc_inv s" "wf_punished (punished s)" "codecs_ok E" "revertible i"
  shows "restores (sc_commit_inherent E bs i) (\<lambda>r. sc_revert_inherent E r i) s"
proof (cases i)
  case (Penalize slot)
  then show ?thesis
    using undoes_restores [OF penalize_inherent_undo [OF assms(1,2)], of E bs slot] assms(3) by (simp add: codecs_ok_def)
next
  case (Jail_Inherent jv rng)
  then show ?thesis
    using undoes_restores [OF jail_inherent_undo [OF assms(1)], of E bs jv rng] assms(3) by (simp add: codecs_ok_def)
qed (use assms(4) in \<open>simp_all add: restores_def throw_def\<close>)

interpretation staking: account_kind same_staking staking_ok sc_balance "\<lambda>_. Staking" "codecs_ok E" "\<lambda>_. staking_verified E"
  "\<lambda>bs. inherent_ok (env_policy E) (bs_number bs)"
  "sc_commit_incoming E" "sc_commit_outgoing E" "sc_commit_failed E"
  "sc_revert_incoming E" "sc_revert_outgoing E" "sc_revert_failed E"
  "sc_commit_inherent E" "\<lambda>i receipt. sc_revert_inherent E receipt i"
proof (unfold_locales, goal_cases)
  case (4 s t)
  then have "sc_inv t = sc_inv s" unfolding same_staking_def by (metis sc_inv_log)
  then show ?case using 4 by (simp add: staking_ok_def same_staking_iff)
next
  case (7 s tx bs)
  then obtain version where v: "verify_incoming_transaction E tx version = Some (Inr ())" by (auto simp: staking_verified_def)
  note i = 7(1) [unfolded staking_ok_def]
  show ?case
    by (rule outcome_commits, rule commit_incoming_safe [OF conjunct1 [OF i] v 7(3)],
      rule undoes_restores [OF commit_incoming_undo [OF conjunct1 [OF i] _ v 7(3)]], assumption, rule logging_revert_incoming)
      (use i in \<open>auto simp: incoming_post_def staking_ok_def\<close>)
next
  case (8 s tx bs)
  note i = 8 [unfolded staking_ok_def]
  show ?case
    by (rule safe_commits, rule commit_outgoing_safe [OF conjunct1 [OF i]],
      rule undoes_restores [OF commit_outgoing_undo [OF conjunct1 [OF i]]], assumption, rule logging_revert_outgoing)
      (use i in \<open>auto simp: outgoing_post_def staking_ok_def\<close>)
next
  case (9 s tx bs)
  note i = 9 [unfolded staking_ok_def]
  show ?case
    by (rule safe_commits, rule commit_failed_safe [OF conjunct1 [OF i]],
      rule commit_failed_restores [OF conjunct1 [OF i]], assumption, rule logging_revert_failed)
      (use i in \<open>auto simp: outgoing_post_def staking_ok_def\<close>)
next
  case (10 s bs i)
  then have i: "sc_inv s" "wf_punished (punished s)" by (simp_all add: staking_ok_def)
  show ?case
  proof (cases "\<exists>v a c. i = Reward v a c")
    case True
    then show ?thesis by (auto simp: commits_def throw_def same_staking_def)
  next
    case False
    then have "inherent_value i = 0" by (cases i) auto
    then show ?thesis
      by (intro outcome_commits [OF commit_inherent_safe [OF i 10(2)] revert_inherent_restores [OF i] logging_revert_inherent])
        (auto simp: inherent_post_def staking_ok_def)
  qed
qed (auto simp: same_staking_iff)

end
