(* ===== verification/Account.thy ===== *)
theory Account
  imports StakingAccount
begin

text \<open>
  An account of any kind (\<^verbatim>\<open>primitives/account/src/account/mod.rs\<close>): every handler dispatches on the
  kind. A handler has the account, the data store under its address and a log to work on; only the
  staking contract uses the store.
\<close>

section \<open>Accounts and their stores\<close>

record staking_contract =
  stk_balance :: coin
  stk_active_validators :: "(address, coin) fmap"
  stk_punished_slots :: punished_slots

record sc_store =
  st_validators :: "(address, validator) fmap"
  st_stakers :: "(address, staker) fmap"
  st_tombstones :: "(address, tombstone) fmap"

datatype account =
    Account_Basic basic_account
  | Account_Vesting vesting_contract
  | Account_HTLC htlc
  | Account_Staking staking_contract

type_synonym cell = "account \<times> sc_store \<times> log list"
type_synonym 'x ac = "(cell, error, 'x) eff"

definition join_staking :: "staking_contract \<Rightarrow> sc_store \<Rightarrow> log list \<Rightarrow> staking_state" where
  "join_staking c st logs = \<lparr> sc_balance = stk_balance c, active_validators = stk_active_validators c,
     punished = stk_punished_slots c, validators = st_validators st, stakers = st_stakers st,
     tombstones = st_tombstones st, tx_log = logs \<rparr>"

definition contract_of :: "staking_state \<Rightarrow> staking_contract" where
  "contract_of s = \<lparr> stk_balance = sc_balance s, stk_active_validators = active_validators s, stk_punished_slots = punished s \<rparr>"

definition store_of :: "staking_state \<Rightarrow> sc_store" where
  "store_of s = \<lparr> st_validators = validators s, st_stakers = stakers s, st_tombstones = tombstones s \<rparr>"

fun account_type_of :: "account \<Rightarrow> account_type" where
  "account_type_of (Account_Basic _) = Basic"
| "account_type_of (Account_Vesting _) = Vesting"
| "account_type_of (Account_HTLC _) = HTLC"
| "account_type_of (Account_Staking _) = Staking"

fun account_balance :: "account \<Rightarrow> coin" where
  "account_balance (Account_Basic acc) = ba_balance acc"
| "account_balance (Account_Vesting acc) = vc_balance acc"
| "account_balance (Account_HTLC acc) = hc_balance acc"
| "account_balance (Account_Staking acc) = stk_balance acc"

definition default_with_balance :: "coin \<Rightarrow> account" where
  "default_with_balance balance = Account_Basic \<lparr> ba_balance = balance \<rparr>"

definition account_default :: account where
  "account_default = Account_Basic basic_default"

section \<open>Dispatch\<close>

fun gen_account_match :: "'x ba \<Rightarrow> 'x vc \<Rightarrow> 'x hc \<Rightarrow> 'x sc \<Rightarrow> 'x ac" where
  "gen_account_match f g h k (Account_Basic acc, st, logs) =
    (case f (acc, logs) of (r, acc', logs') \<Rightarrow> (r, Account_Basic acc', st, logs'))"
| "gen_account_match f g h k (Account_Vesting acc, st, logs) =
    (case g (acc, logs) of (r, acc', logs') \<Rightarrow> (r, Account_Vesting acc', st, logs'))"
| "gen_account_match f g h k (Account_HTLC acc, st, logs) =
    (case h (acc, logs) of (r, acc', logs') \<Rightarrow> (r, Account_HTLC acc', st, logs'))"
| "gen_account_match f g h k (Account_Staking acc, st, logs) =
    (case k (join_staking acc st logs) of (r, s') \<Rightarrow> (r, Account_Staking (contract_of s'), store_of s', tx_log s'))"

definition map_result :: "('a \<Rightarrow> 'b) \<Rightarrow> ('s, 'e, 'a) eff \<Rightarrow> ('s, 'e, 'b) eff" where
  "map_result f m = bind_eff m (\<lambda>x. ret (f x))"

definition account_create_new_contract :: "transaction \<Rightarrow> coin \<Rightarrow> (log list, error, account) eff" where
  "account_create_new_contract tx initial_balance =
    seq_eff (ensure (tx_contract_creation tx) Panic)
    (case tx_recipient_type tx of
       Basic \<Rightarrow> map_result Account_Basic (basic_create_new_contract tx initial_balance)
     | Vesting \<Rightarrow> map_result Account_Vesting (vesting_create_new_contract tx initial_balance)
     | HTLC \<Rightarrow> map_result Account_HTLC (htlc_create_new_contract tx initial_balance)
     | Staking \<Rightarrow> throw (AccountErr InvalidForRecipient))"

definition account_revert_new_contract :: "transaction \<Rightarrow> unit ac" where
  "account_revert_new_contract tx = gen_account_match (basic_revert_new_contract tx) (vesting_revert_new_contract tx)
     (htlc_revert_new_contract tx) (throw (AccountErr InvalidForRecipient))"

definition account_commit_incoming :: "('r, 'z) acc_env_scheme \<Rightarrow> transaction \<Rightarrow> block_state \<Rightarrow> 'r option ac" where
  "account_commit_incoming E tx bs = gen_account_match (basic_commit_incoming tx bs) (vesting_commit_incoming tx bs)
     (htlc_commit_incoming tx bs) (sc_commit_incoming E tx bs)"

definition account_revert_incoming :: "('r, 'z) acc_env_scheme \<Rightarrow> transaction \<Rightarrow> 'r option \<Rightarrow> unit ac" where
  "account_revert_incoming E tx receipt = gen_account_match (basic_revert_incoming tx receipt)
     (vesting_revert_incoming tx receipt) (htlc_revert_incoming tx receipt) (sc_revert_incoming E tx receipt)"

definition account_commit_outgoing :: "('r, 'z) acc_env_scheme \<Rightarrow> transaction \<Rightarrow> block_state \<Rightarrow> 'r option ac" where
  "account_commit_outgoing E tx bs = gen_account_match (basic_commit_outgoing tx bs) (vesting_commit_outgoing E tx bs)
     (htlc_commit_outgoing E tx bs) (sc_commit_outgoing E tx bs)"

definition account_revert_outgoing :: "('r, 'z) acc_env_scheme \<Rightarrow> transaction \<Rightarrow> 'r option \<Rightarrow> unit ac" where
  "account_revert_outgoing E tx receipt = gen_account_match (basic_revert_outgoing tx receipt)
     (vesting_revert_outgoing tx receipt) (htlc_revert_outgoing E tx receipt) (sc_revert_outgoing E tx receipt)"

definition account_commit_failed :: "('r, 'z) acc_env_scheme \<Rightarrow> transaction \<Rightarrow> block_state \<Rightarrow> 'r option ac" where
  "account_commit_failed E tx bs = gen_account_match (basic_commit_failed tx bs) (vesting_commit_failed E tx bs)
     (htlc_commit_failed E tx bs) (sc_commit_failed E tx bs)"

definition account_revert_failed :: "('r, 'z) acc_env_scheme \<Rightarrow> transaction \<Rightarrow> 'r option \<Rightarrow> unit ac" where
  "account_revert_failed E tx receipt = gen_account_match (basic_revert_failed tx receipt)
     (vesting_revert_failed tx receipt) (htlc_revert_failed tx receipt) (sc_revert_failed E tx receipt)"

fun account_reserve_balance ::
  "('r, 'z) acc_env_scheme \<Rightarrow> account \<Rightarrow> sc_store \<Rightarrow> transaction \<Rightarrow> block_state \<Rightarrow> unit rb" where
  "account_reserve_balance E (Account_Basic acc) st tx bs = basic_reserve_balance acc tx"
| "account_reserve_balance E (Account_Vesting acc) st tx bs = vesting_reserve_balance E acc tx bs"
| "account_reserve_balance E (Account_HTLC acc) st tx bs = htlc_reserve_balance E acc tx bs"
| "account_reserve_balance E (Account_Staking acc) st tx bs = sc_reserve_balance E (join_staking acc st []) tx bs"

fun account_release_balance ::
  "('r, 'z) acc_env_scheme \<Rightarrow> account \<Rightarrow> sc_store \<Rightarrow> transaction \<Rightarrow> unit rb" where
  "account_release_balance E (Account_Basic acc) st tx = basic_release_balance acc tx"
| "account_release_balance E (Account_Vesting acc) st tx = vesting_release_balance acc tx"
| "account_release_balance E (Account_HTLC acc) st tx = htlc_release_balance acc tx"
| "account_release_balance E (Account_Staking acc) st tx = sc_release_balance E (join_staking acc st []) tx"

definition account_commit_inherent :: "('r, 'z) acc_env_scheme \<Rightarrow> block_state \<Rightarrow> inherent \<Rightarrow> 'r option ac" where
  "account_commit_inherent E bs i = gen_account_match (basic_commit_inherent bs i) (vesting_commit_inherent bs i)
     (htlc_commit_inherent bs i) (sc_commit_inherent E bs i)"

definition account_revert_inherent :: "('r, 'z) acc_env_scheme \<Rightarrow> inherent \<Rightarrow> 'r option \<Rightarrow> unit ac" where
  "account_revert_inherent E i receipt = gen_account_match (basic_revert_inherent i receipt)
     (vesting_revert_inherent i receipt) (htlc_revert_inherent i receipt) (sc_revert_inherent E receipt i)"

fun can_be_pruned :: "account \<Rightarrow> bool" where
  "can_be_pruned (Account_Basic acc) = basic_can_be_pruned acc"
| "can_be_pruned (Account_Vesting acc) = vesting_can_be_pruned acc"
| "can_be_pruned (Account_HTLC acc) = htlc_can_be_pruned acc"
| "can_be_pruned (Account_Staking acc) = False"

fun account_prune :: "('r, 'z) acc_env_scheme \<Rightarrow> account \<Rightarrow> error + 'r option" where
  "account_prune E (Account_Basic acc) = Inr (basic_prune acc)"
| "account_prune E (Account_Vesting acc) = Inr (vesting_prune E acc)"
| "account_prune E (Account_HTLC acc) = Inr (htlc_prune E acc)"
| "account_prune E (Account_Staking acc) = Inl Panic"

fun account_restore :: "('r, 'z) acc_env_scheme \<Rightarrow> account_type \<Rightarrow> 'r option \<Rightarrow> error + account" where
  "account_restore E Basic pruned = map_sum AccountErr Account_Basic (basic_restore pruned)"
| "account_restore E Vesting pruned = map_sum AccountErr Account_Vesting (vesting_restore E pruned)"
| "account_restore E HTLC pruned = map_sum AccountErr Account_HTLC (htlc_restore E pruned)"
| "account_restore E Staking pruned = Inl Panic"

section \<open>The contract of an account\<close>

definition same_cell :: "cell \<Rightarrow> cell \<Rightarrow> bool" where
  "same_cell c d \<longleftrightarrow> fst c = fst d \<and> fst (snd c) = fst (snd d)"

fun cell_ok :: "cell \<Rightarrow> bool" where
  "cell_ok (Account_Basic acc, st, logs) = basic_ok (acc, logs)"
| "cell_ok (Account_Vesting acc, st, logs) = vesting_state_ok (acc, logs)"
| "cell_ok (Account_HTLC acc, st, logs) = htlc_ok (acc, logs)"
| "cell_ok (Account_Staking acc, st, logs) = staking_ok (join_staking acc st logs)"

definition acc_codecs_ok :: "('r, 'z) acc_env_scheme \<Rightarrow> bool" where
  "acc_codecs_ok E \<longleftrightarrow> codecs_ok E \<and> codec_ok (pruned_vesting_codec E) \<and> codec_ok (pruned_htlc_codec E)"

definition incoming_verified :: "('r, 'z) acc_env_scheme \<Rightarrow> cell \<Rightarrow> transaction \<Rightarrow> bool" where
  "incoming_verified E c tx \<longleftrightarrow> (account_type_of (fst c) = Staking \<longrightarrow> staking_verified E tx)"

lemma join_split: "join_staking (contract_of s) (store_of s) (tx_log s) = s"
  by (simp add: join_staking_def contract_of_def store_of_def)

lemma join_parts [simp]:
  "contract_of (join_staking c st logs) = c" "store_of (join_staking c st logs) = st" "tx_log (join_staking c st logs) = logs"
  "sc_balance (join_staking c st logs) = stk_balance c" "stk_balance (contract_of s) = sc_balance s"
  by (simp_all add: join_staking_def contract_of_def store_of_def)

lemma same_staking_parts: "same_staking s t \<longleftrightarrow> contract_of s = contract_of t \<and> store_of s = store_of t"
  by (auto simp: same_staking_iff contract_of_def store_of_def)

lemma same_staking_join: "same_staking (join_staking c st logs) (join_staking c st logs')"
  by (simp add: same_staking_parts)

lemma cell_ok_log: "cell_ok (acc, st, logs) \<Longrightarrow> cell_ok (acc, st, logs')"
  by (cases acc) (auto simp: basic_ok_def vesting_state_ok_def htlc_ok_def
      intro: staking.same_ok [OF same_staking_join])

text \<open>The dispatch of a handler and of its revert, from their parts.\<close>

lemma match_simple:
  assumes "commits same_self m rv reverts (a, logs) P"
    and "\<And>a' logs'. P (a', logs') \<Longrightarrow> Q (C a', st, logs')"
    and "\<And>a logs. M (C a, st, logs) = (case m (a, logs) of (r, a', logs') \<Rightarrow> (r, C a', st, logs'))"
    and "\<And>r a logs. R r (C a, st, logs) = (case rv r (a, logs) of (r, a', logs') \<Rightarrow> (r, C a', st, logs'))"
  shows "commits same_cell M R reverts (C a, st, logs) Q"
proof (rule commitsI, goal_cases)
  case (1 e s')
  then show ?case using assms(1) by (auto simp: assms(3) commits_def same_cell_def same_self_def split: prod.splits)
next
  case (2 r s')
  then show ?case using assms(1,2) by (auto simp: assms(3) commits_def split: prod.splits)
next
  case (3 r s' t)
  then obtain a' logs' where m: "m (a, logs) = (Inr r, a', logs')" "s' = (C a', st, logs')"
    by (auto simp: assms(3) split: prod.splits)
  obtain L where t: "t = (C a', st, L)" using 3(3) m(2) by (cases t) (auto simp: same_cell_def)
  have "undone same_self (a, logs) (rv r) (a', logs')" using assms(1) m(1) 3(1) by (simp add: commits_def)
  then have "\<exists>u. rv r (a', L) = (Inr (), u) \<and> same_self (a, logs) u" by (simp add: undone_def same_self_def)
  then show ?case by (auto simp: t assms(4) same_cell_def same_self_def)
qed

lemma match_staking:
  assumes "commits same_staking m rv reverts (join_staking c st logs) P"
    and "\<And>s'. P s' \<Longrightarrow> Q (Account_Staking (contract_of s'), store_of s', tx_log s')"
    and "\<And>c st logs. M (Account_Staking c, st, logs) =
      (case m (join_staking c st logs) of (r, s') \<Rightarrow> (r, Account_Staking (contract_of s'), store_of s', tx_log s'))"
    and "\<And>r c st logs. R r (Account_Staking c, st, logs) =
      (case rv r (join_staking c st logs) of (r, s') \<Rightarrow> (r, Account_Staking (contract_of s'), store_of s', tx_log s'))"
  shows "commits same_cell M R reverts (Account_Staking c, st, logs) Q"
proof (rule commitsI, goal_cases)
  case (1 e s')
  then show ?case
    using assms(1) by (auto simp: assms(3) commits_def same_cell_def same_staking_parts split: prod.splits)
next
  case (2 r s')
  then show ?case using assms(1,2) by (auto simp: assms(3) commits_def split: prod.splits)
next
  case (3 r s' t)
  then obtain x where m: "m (join_staking c st logs) = (Inr r, x)"
    "s' = (Account_Staking (contract_of x), store_of x, tx_log x)"
    by (auto simp: assms(3) split: prod.splits)
  obtain L where t: "t = (Account_Staking (contract_of x), store_of x, L)" using 3(3) m(2) by (cases t) (auto simp: same_cell_def)
  have "undone same_staking (join_staking c st logs) (rv r) x" using assms(1) m(1) 3(1) by (simp add: commits_def)
  then have "\<exists>u. rv r (join_staking (contract_of x) (store_of x) L) = (Inr (), u) \<and> same_staking (join_staking c st logs) u"
    by (simp add: undone_def same_staking_parts)
  then show ?case by (auto simp: t assms(4) same_cell_def same_staking_parts)
qed

lemma commits_mono:
  "commits same m rv b s P \<Longrightarrow> (b' \<Longrightarrow> b) \<Longrightarrow> (\<And>s'. P s' \<Longrightarrow> Q s') \<Longrightarrow> commits same m rv b' s Q"
  by (auto simp: commits_def split: sum.splits prod.splits)

text \<open>A handler that takes \<open>x\<close> coins from the account and gives it \<open>y\<close>.\<close>

lemma match_commits:
  assumes "cell_ok c"
    and "\<And>a st L. c = (Account_Basic a, st, L) \<Longrightarrow> basic_ok (a, L) \<Longrightarrow>
      commits same_self f rf reverts (a, L) (\<lambda>s. basic_ok s \<and> ba_balance (fst s) + x = ba_balance a + y)"
    and "\<And>a st L. c = (Account_Vesting a, st, L) \<Longrightarrow> vesting_state_ok (a, L) \<Longrightarrow>
      commits same_self g rg reverts (a, L) (\<lambda>s. vesting_state_ok s \<and> vc_balance (fst s) + x = vc_balance a + y)"
    and "\<And>a st L. c = (Account_HTLC a, st, L) \<Longrightarrow> htlc_ok (a, L) \<Longrightarrow>
      commits same_self h rh reverts (a, L) (\<lambda>s. htlc_ok s \<and> hc_balance (fst s) + x = hc_balance a + y)"
    and "\<And>a st L. c = (Account_Staking a, st, L) \<Longrightarrow> staking_ok (join_staking a st L) \<Longrightarrow>
      commits same_staking k rk reverts (join_staking a st L) (\<lambda>s. staking_ok s \<and> sc_balance s + x = stk_balance a + y)"
  shows "commits same_cell (gen_account_match f g h k) (\<lambda>r. gen_account_match (rf r) (rg r) (rh r) (rk r)) reverts c
    (\<lambda>c'. cell_ok c' \<and> account_balance (fst c') + x = account_balance (fst c) + y \<and>
      account_type_of (fst c') = account_type_of (fst c))"
proof -
  obtain acc st L where c: "c = (acc, st, L)" by (cases c)
  show ?thesis
  proof (cases acc)
    case (Account_Basic a)
    show ?thesis unfolding c Account_Basic
      by (rule match_simple, rule assms(2)) (use assms(1) in \<open>simp_all add: c Account_Basic\<close>)
  next
    case (Account_Vesting a)
    show ?thesis unfolding c Account_Vesting
      by (rule match_simple, rule assms(3)) (use assms(1) in \<open>simp_all add: c Account_Vesting\<close>)
  next
    case (Account_HTLC a)
    show ?thesis unfolding c Account_HTLC
      by (rule match_simple, rule assms(4)) (use assms(1) in \<open>simp_all add: c Account_HTLC\<close>)
  next
    case (Account_Staking a)
    have "commits same_staking k rk reverts (join_staking a st L) (\<lambda>s. staking_ok s \<and> sc_balance s + x = stk_balance a + y)"
      using assms(5) [of a st L] assms(1) by (simp add: c Account_Staking)
    then show ?thesis unfolding c Account_Staking
      by (rule match_staking) (simp_all add: c Account_Staking join_split)
  qed
qed

lemma cell_ok_same: "same_cell c d \<Longrightarrow> cell_ok c \<Longrightarrow> cell_ok d"
  by (cases c; cases d) (auto simp: same_cell_def intro: cell_ok_log)

lemma account_inc:
  assumes "cell_ok c" "incoming_verified E c tx" "account_balance (fst c) + tx_value tx \<le> MAX_SAFE_VALUE"
  shows "commits same_cell (account_commit_incoming E tx bs) (account_revert_incoming E tx) (acc_codecs_ok E) c
    (\<lambda>c'. cell_ok c' \<and> account_balance (fst c') + 0 = account_balance (fst c) + tx_value tx \<and>
      account_type_of (fst c') = account_type_of (fst c))"
  unfolding account_commit_incoming_def account_revert_incoming_def
proof (rule match_commits [OF assms(1)], goal_cases)
  case (1 a st L)
  show ?case by (rule commits_mono, rule basic.inc_law [OF 1(2)]) (use assms(3) in \<open>simp_all add: 1(1)\<close>)
next
  case (2 a st L)
  show ?case by (rule commits_mono, rule vesting.inc_law [OF 2(2)]) (use assms(3) in \<open>simp_all add: 2(1)\<close>)
next
  case (3 a st L)
  show ?case by (rule commits_mono, rule htlc.inc_law [OF 3(2)]) (use assms(3) in \<open>simp_all add: 3(1)\<close>)
next
  case (4 a st L)
  show ?case by (rule commits_mono, rule staking.inc_law [OF 4(2)])
      (use assms(2,3) in \<open>simp_all add: 4(1) incoming_verified_def acc_codecs_ok_def\<close>)
qed

lemma account_out:
  assumes "cell_ok c"
  shows "commits same_cell (account_commit_outgoing E tx bs) (account_revert_outgoing E tx) (acc_codecs_ok E) c
    (\<lambda>c'. cell_ok c' \<and> account_balance (fst c') + total_value tx = account_balance (fst c) + 0 \<and>
      account_type_of (fst c') = account_type_of (fst c))"
  unfolding account_commit_outgoing_def account_revert_outgoing_def
proof (rule match_commits [OF assms], goal_cases)
  case (1 a st L)
  show ?case by (rule commits_mono, rule basic.out_law [OF 1(2)]) simp_all
next
  case (2 a st L)
  show ?case by (rule commits_mono, rule vesting.out_law [OF 2(2)]) simp_all
next
  case (3 a st L)
  show ?case by (rule commits_mono, rule htlc.out_law [OF 3(2)]) simp_all
next
  case (4 a st L)
  show ?case by (rule commits_mono, rule staking.out_law [OF 4(2)]) (simp_all add: acc_codecs_ok_def)
qed

lemma account_failed:
  assumes "cell_ok c"
  shows "commits same_cell (account_commit_failed E tx bs) (account_revert_failed E tx) (acc_codecs_ok E) c
    (\<lambda>c'. cell_ok c' \<and> account_balance (fst c') + tx_fee tx = account_balance (fst c) + 0 \<and>
      account_type_of (fst c') = account_type_of (fst c))"
  unfolding account_commit_failed_def account_revert_failed_def
proof (rule match_commits [OF assms], goal_cases)
  case (1 a st L)
  show ?case by (rule commits_mono, rule basic.failed_law [OF 1(2)]) simp_all
next
  case (2 a st L)
  show ?case by (rule commits_mono, rule vesting.failed_law [OF 2(2)]) simp_all
next
  case (3 a st L)
  show ?case by (rule commits_mono, rule htlc.failed_law [OF 3(2)]) simp_all
next
  case (4 a st L)
  show ?case by (rule commits_mono, rule staking.failed_law [OF 4(2)]) (simp_all add: acc_codecs_ok_def)
qed

lemma account_inh:
  assumes "cell_ok c" "inherent_ok (env_policy E) (bs_number bs) i" "account_balance (fst c) + inherent_value i \<le> MAX_SAFE_VALUE"
  shows "commits same_cell (account_commit_inherent E bs i) (account_revert_inherent E i) (acc_codecs_ok E \<and> revertible i) c
    (\<lambda>c'. cell_ok c' \<and> account_balance (fst c') + 0 = account_balance (fst c) + inherent_value i \<and>
      account_type_of (fst c') = account_type_of (fst c))"
  unfolding account_commit_inherent_def account_revert_inherent_def
proof (rule match_commits [OF assms(1)], goal_cases)
  case (1 a st L)
  show ?case by (rule commits_mono, rule basic.inh_law [OF 1(2)]) (use assms(3) in \<open>simp_all add: 1(1)\<close>)
next
  case (2 a st L)
  show ?case by (rule commits_mono, rule vesting.inh_law [OF 2(2)]) (use assms(3) in \<open>simp_all add: 2(1)\<close>)
next
  case (3 a st L)
  show ?case by (rule commits_mono, rule htlc.inh_law [OF 3(2)]) (use assms(3) in \<open>simp_all add: 3(1)\<close>)
next
  case (4 a st L)
  show ?case by (rule commits_mono, rule staking.inh_law [OF 4(2) assms(2)])
      (use assms(3) in \<open>simp_all add: 4(1) acc_codecs_ok_def\<close>)
qed

interpretation account: account_kind same_cell cell_ok "\<lambda>c. account_balance (fst c)" "\<lambda>c. account_type_of (fst c)" "acc_codecs_ok E"
  "incoming_verified E" "\<lambda>bs. inherent_ok (env_policy E) (bs_number bs)"
  "account_commit_incoming E" "account_commit_outgoing E" "account_commit_failed E"
  "account_revert_incoming E" "account_revert_outgoing E" "account_revert_failed E"
  "account_commit_inherent E" "account_revert_inherent E"
proof (unfold_locales, goal_cases)
  case (4 c d)
  then show ?case by (rule cell_ok_same)
next
  case (7 c tx bs)
  then show ?case using account_inc [of c E tx bs] by simp
next
  case (8 c tx bs)
  then show ?case using account_out [of c E tx bs] by simp
next
  case (9 c tx bs)
  then show ?case using account_failed [of c E tx bs] by simp
next
  case (10 c bs i)
  then show ?case using account_inh [of c E bs i] by simp
qed (auto simp: same_cell_def)

end
