(* ===== verification/Accounts.thy ===== *)
theory Accounts
  imports Account
begin

text \<open>
  The accounts tree (\<^verbatim>\<open>primitives/account/src/accounts.rs\<close>): transactions, inherents and batches of
  both, committed and reverted. The trie is a finite map of the accounts and a data store per
  address; it is complete, which \<open>commit_batch\<close> asserts, so no account is ever missing. The state also
  holds the log of the transaction or of the inherents in progress.
\<close>

section \<open>The tree\<close>

record accounts =
  acc_tree :: "(address, account) fmap"
  acc_store :: "address \<Rightarrow> sc_store"
  acc_log :: "log list"
  acc_failed :: bool

type_synonym 'x as = "(accounts, error, 'x) eff"

text \<open>An error of a part as a value, and an error of a part that panics.\<close>

definition attempt :: "'x as \<Rightarrow> (account_error + 'x) as" where
  "attempt m s = (case m s of
     (Inl (AccountErr e), s') \<Rightarrow> (Inr (Inl e), s')
   | (Inl Panic, s') \<Rightarrow> (Inl Panic, s')
   | (Inr x, s') \<Rightarrow> (Inr (Inr x), s'))"

definition expect_ok :: "'x as \<Rightarrow> 'x as" where
  "expect_ok m s = (case m s of (Inl e, s') \<Rightarrow> (Inl Panic, s') | (Inr x, s') \<Rightarrow> (Inr x, s'))"

definition accounts_get :: "accounts \<Rightarrow> address \<Rightarrow> account" where
  "accounts_get s address = (case fmlookup (acc_tree s) address of Some acc \<Rightarrow> acc | None \<Rightarrow> account_default)"

definition get_with_type :: "address \<Rightarrow> account_type \<Rightarrow> account as" where
  "get_with_type address ty =
    bind_eff (gets (\<lambda>s. accounts_get s address)) (\<lambda>acc.
    if account_type_of acc \<noteq> ty then throw (AccountErr (TypeMismatch ty (account_type_of acc))) else ret acc)"

definition get_or_restore :: "('r, 'z) acc_env_scheme \<Rightarrow> address \<Rightarrow> account_type \<Rightarrow> 'r option \<Rightarrow> account as" where
  "get_or_restore E address ty pruned_account =
    bind_eff (gets (\<lambda>s. fmlookup (acc_tree s) address)) (\<lambda>found.
    case found of
      Some acc \<Rightarrow>
        if account_type_of acc \<noteq> ty then throw (AccountErr (TypeMismatch ty (account_type_of acc))) else ret acc
    | None \<Rightarrow> of_sum (account_restore E ty pruned_account))"

definition put_account :: "address \<Rightarrow> account \<Rightarrow> unit as" where
  "put_account address acc =
    seq_eff (ensure (\<not> can_be_pruned acc) Panic)
    (modify (\<lambda>s. s \<lparr> acc_tree := fmupd address acc (acc_tree s) \<rparr>))"

definition prune_account :: "address \<Rightarrow> unit as" where
  "prune_account address = modify (\<lambda>s. s \<lparr> acc_tree := fmdrop address (acc_tree s) \<rparr>)"

definition put_or_prune :: "('r, 'z) acc_env_scheme \<Rightarrow> address \<Rightarrow> account \<Rightarrow> 'r option as" where
  "put_or_prune E address acc =
    (if can_be_pruned acc then
       bind_eff (of_sum (account_prune E acc)) (\<lambda>pruned_account.
       seq_eff (prune_account address) (ret pruned_account))
     else seq_eff (put_account address acc) (ret None))"

text \<open>A handler of an account, with the data store under the address and the log.\<close>

definition on_account :: "address \<Rightarrow> account \<Rightarrow> 'x ac \<Rightarrow> ('x \<times> account) as" where
  "on_account address acc m s = (case m (acc, acc_store s address, acc_log s) of
     (r, acc', st', logs') \<Rightarrow>
       (map_sum id (\<lambda>x. (x, acc')) r, s \<lparr> acc_store := (acc_store s)(address := st'), acc_log := logs' \<rparr>))"

definition on_log :: "(log list, error, 'x) eff \<Rightarrow> 'x as" where
  "on_log m = zoom_eff acc_log (\<lambda>logs s. s \<lparr> acc_log := logs \<rparr>) m"

definition accounts_reserve_balance ::
  "('r, 'z) acc_env_scheme \<Rightarrow> accounts \<Rightarrow> account \<Rightarrow> transaction \<Rightarrow> block_state \<Rightarrow> unit rb" where
  "accounts_reserve_balance E s acc tx bs =
    (if account_type_of acc \<noteq> tx_sender_type tx
     then throw (AccountErr (TypeMismatch (tx_sender_type tx) (account_type_of acc)))
     else account_reserve_balance E acc (acc_store s (tx_sender tx)) tx bs)"

definition accounts_release_balance ::
  "('r, 'z) acc_env_scheme \<Rightarrow> accounts \<Rightarrow> account \<Rightarrow> transaction \<Rightarrow> unit rb" where
  "accounts_release_balance E s acc tx = account_release_balance E acc (acc_store s (tx_sender tx)) tx"

section \<open>Receipts\<close>

record 'r transaction_receipt =
  trc_sender :: "'r option"
  trc_recipient :: "'r option"
  trc_pruned :: "'r option"

datatype 'x operation_receipt = Receipt_Ok 'x | Receipt_Err 'x fail_reason

section \<open>Transactions\<close>

definition commit_recipient ::
  "('r, 'z) acc_env_scheme \<Rightarrow> transaction \<Rightarrow> block_state \<Rightarrow> ('r option \<times> account) as" where
  "commit_recipient E tx bs =
    (if tx_contract_creation tx then
       bind_eff (expect_ok (get_with_type (tx_recipient tx) Basic)) (\<lambda>recipient_account.
       bind_eff (on_log (account_create_new_contract tx (account_balance recipient_account))) (\<lambda>acc.
       ret (None, acc)))
     else
       bind_eff (get_with_type (tx_recipient tx) (tx_recipient_type tx)) (\<lambda>acc.
       on_account (tx_recipient tx) acc (account_commit_incoming E tx bs)))"

definition try_commit_transaction ::
  "('r, 'z) acc_env_scheme \<Rightarrow> transaction \<Rightarrow> block_state \<Rightarrow> 'r transaction_receipt as" where
  "try_commit_transaction E tx bs =
    bind_eff (get_with_type (tx_sender tx) (tx_sender_type tx)) (\<lambda>acc.
    bind_eff (on_account (tx_sender tx) acc (account_commit_outgoing E tx bs)) (\<lambda>(sender_receipt, sender_account).
    bind_eff (attempt (commit_recipient E tx bs)) (\<lambda>recipient_result.
    case recipient_result of
      Inl e \<Rightarrow>
        bind_eff (expect_ok (on_account (tx_sender tx) sender_account (account_revert_outgoing E tx sender_receipt)))
          (\<lambda>_. throw (AccountErr e))
    | Inr (recipient_receipt, recipient_account) \<Rightarrow>
        bind_eff (put_or_prune E (tx_sender tx) sender_account) (\<lambda>pruned_account.
        seq_eff (put_account (tx_recipient tx) recipient_account)
        (ret \<lparr> trc_sender = sender_receipt, trc_recipient = recipient_receipt,
           trc_pruned = pruned_account \<rparr>)))))"

definition accounts_commit_failed ::
  "('r, 'z) acc_env_scheme \<Rightarrow> transaction \<Rightarrow> block_state \<Rightarrow> 'r transaction_receipt as" where
  "accounts_commit_failed E tx bs =
    bind_eff (get_with_type (tx_sender tx) (tx_sender_type tx)) (\<lambda>acc.
    bind_eff (on_account (tx_sender tx) acc (account_commit_failed E tx bs)) (\<lambda>(sender_receipt, sender_account).
    bind_eff (put_or_prune E (tx_sender tx) sender_account) (\<lambda>pruned_account.
    ret \<lparr> trc_sender = sender_receipt, trc_recipient = None, trc_pruned = pruned_account \<rparr>)))"

definition push_failed_log :: "transaction \<Rightarrow> fail_reason \<Rightarrow> unit as" where
  "push_failed_log tx reason = modify (\<lambda>s. s \<lparr> acc_failed := True,
     acc_log := acc_log s @ [Log_FailedTransaction (tx_sender tx) (tx_recipient tx) reason] \<rparr>)"

definition commit_transaction ::
  "('r, 'z) acc_env_scheme \<Rightarrow> block_state \<Rightarrow> transaction \<Rightarrow> 'r transaction_receipt operation_receipt as" where
  "commit_transaction E bs tx =
    bind_eff (attempt (try_commit_transaction E tx bs)) (\<lambda>result.
    case result of
      Inr receipt \<Rightarrow> ret (Receipt_Ok receipt)
    | Inl e \<Rightarrow>
        let reason = fail_reason_from e in
        seq_eff (modify (\<lambda>s. s \<lparr> acc_log := [] \<rparr>))
        (seq_eff (push_failed_log tx reason)
        (bind_eff (accounts_commit_failed E tx bs) (\<lambda>receipt.
         ret (Receipt_Err receipt reason)))))"

definition accounts_commit_inherent ::
  "('r, 'z) acc_env_scheme \<Rightarrow> block_state \<Rightarrow> inherent \<Rightarrow> 'r option operation_receipt as" where
  "accounts_commit_inherent E bs i =
    bind_eff (gets (\<lambda>s. accounts_get s (inherent_target i))) (\<lambda>acc.
    bind_eff (attempt (on_account (inherent_target i) acc (account_commit_inherent E bs i))) (\<lambda>result.
    case result of
      Inr (receipt, acc') \<Rightarrow> seq_eff (put_account (inherent_target i) acc') (ret (Receipt_Ok receipt))
    | Inl e \<Rightarrow> ret (Receipt_Err None (fail_reason_from e))))"

section \<open>Reverts\<close>

definition revert_successful_transaction ::
  "('r, 'z) acc_env_scheme \<Rightarrow> transaction \<Rightarrow> 'r transaction_receipt \<Rightarrow> unit as" where
  "revert_successful_transaction E tx receipt =
    bind_eff (get_with_type (tx_recipient tx) (tx_recipient_type tx)) (\<lambda>acc.
    bind_eff (if tx_contract_creation tx then
        bind_eff (on_account (tx_recipient tx) acc (account_revert_new_contract tx)) (\<lambda>(_, acc').
        ret (default_with_balance (account_balance acc')))
      else
        bind_eff (on_account (tx_recipient tx) acc (account_revert_incoming E tx (trc_recipient receipt)))
          (\<lambda>(_, acc'). ret acc')) (\<lambda>recipient_account.
    bind_eff (put_or_prune E (tx_recipient tx) recipient_account) (\<lambda>_.
    bind_eff (get_or_restore E (tx_sender tx) (tx_sender_type tx) (trc_pruned receipt)) (\<lambda>acc.
    bind_eff (on_account (tx_sender tx) acc (account_revert_outgoing E tx (trc_sender receipt))) (\<lambda>(_, sender_account).
    bind_eff (put_or_prune E (tx_sender tx) sender_account) (\<lambda>_. ret ()))))))"

definition accounts_revert_failed ::
  "('r, 'z) acc_env_scheme \<Rightarrow> transaction \<Rightarrow> 'r transaction_receipt \<Rightarrow> unit as" where
  "accounts_revert_failed E tx receipt =
    bind_eff (get_or_restore E (tx_sender tx) (tx_sender_type tx) (trc_pruned receipt)) (\<lambda>acc.
    bind_eff (on_account (tx_sender tx) acc (account_revert_failed E tx (trc_sender receipt))) (\<lambda>(_, sender_account).
    bind_eff (put_or_prune E (tx_sender tx) sender_account) (\<lambda>_. ret ())))"

text \<open>The failure is logged also when the revert fails.\<close>

definition revert_transaction ::
  "('r, 'z) acc_env_scheme \<Rightarrow> transaction \<Rightarrow> 'r transaction_receipt operation_receipt \<Rightarrow> unit as" where
  "revert_transaction E tx receipt = (case receipt of
     Receipt_Ok receipt \<Rightarrow> revert_successful_transaction E tx receipt
   | Receipt_Err receipt reason \<Rightarrow>
       bind_eff (attempt (accounts_revert_failed E tx receipt)) (\<lambda>result.
       seq_eff (push_failed_log tx reason) (of_sum (map_sum AccountErr id result))))"

definition accounts_revert_inherent ::
  "('r, 'z) acc_env_scheme \<Rightarrow> inherent \<Rightarrow> 'r option operation_receipt \<Rightarrow> unit as" where
  "accounts_revert_inherent E i receipt = (case receipt of
     Receipt_Ok receipt \<Rightarrow>
       bind_eff (gets (\<lambda>s. accounts_get s (inherent_target i))) (\<lambda>acc.
       bind_eff (on_account (inherent_target i) acc (account_revert_inherent E i receipt)) (\<lambda>(_, acc').
       bind_eff (put_or_prune E (inherent_target i) acc') (\<lambda>_. ret ())))
   | Receipt_Err _ _ \<Rightarrow> ret ())"

section \<open>Batches\<close>

record transaction_log =
  tl_logs :: "log list"
  tl_failed :: bool

record batch =
  bt_accounts :: accounts
  bt_tx_logs :: "transaction_log list"
  bt_inherent_logs :: "log list"

datatype accounts_error =
    InvalidTransactionIn account_error transaction
  | InvalidInherentIn account_error inherent
  | AccountsPanic

type_synonym 'x bt = "(batch, accounts_error, 'x) eff"

text \<open>A transaction gets a log of its own, and the inherents share one.\<close>

definition in_tx_log :: "transaction \<Rightarrow> 'x as \<Rightarrow> 'x bt" where
  "in_tx_log tx m b = (case m (bt_accounts b \<lparr> acc_log := [], acc_failed := False \<rparr>) of
     (r, s') \<Rightarrow> (case r of
        Inl (AccountErr e) \<Rightarrow> Inl (InvalidTransactionIn e tx) | Inl Panic \<Rightarrow> Inl AccountsPanic | Inr x \<Rightarrow> Inr x,
      b \<lparr> bt_accounts := s', bt_tx_logs := bt_tx_logs b @ [\<lparr> tl_logs = acc_log s', tl_failed = acc_failed s' \<rparr>] \<rparr>))"

definition in_inherent_log :: "inherent \<Rightarrow> 'x as \<Rightarrow> 'x bt" where
  "in_inherent_log i m b = (case m (bt_accounts b \<lparr> acc_log := bt_inherent_logs b \<rparr>) of
     (r, s') \<Rightarrow> (case r of
        Inl (AccountErr e) \<Rightarrow> Inl (InvalidInherentIn e i) | Inl Panic \<Rightarrow> Inl AccountsPanic | Inr x \<Rightarrow> Inr x,
      b \<lparr> bt_accounts := s', bt_inherent_logs := acc_log s' \<rparr>))"

record 'r receipts =
  receipts_transactions :: "'r transaction_receipt operation_receipt list"
  receipts_inherents :: "'r option operation_receipt list"

definition commit_batch ::
  "('r, 'z) acc_env_scheme \<Rightarrow> transaction list \<Rightarrow> inherent list \<Rightarrow> block_state \<Rightarrow> 'r receipts bt" where
  "commit_batch E transactions inherents bs =
    bind_eff (map_eff (\<lambda>tx. in_tx_log tx (commit_transaction E bs tx)) transactions) (\<lambda>trs.
    bind_eff (map_eff (\<lambda>i. in_inherent_log i (accounts_commit_inherent E bs i)) inherents) (\<lambda>irs.
    ret \<lparr> receipts_transactions = trs, receipts_inherents = irs \<rparr>))"

definition revert_batch ::
  "('r, 'z) acc_env_scheme \<Rightarrow> transaction list \<Rightarrow> inherent list \<Rightarrow> 'r receipts \<Rightarrow> unit bt" where
  "revert_batch E transactions inherents receipts =
    seq_eff (ensure (length inherents = length (receipts_inherents receipts)) AccountsPanic)
    (seq_eff (for_eff (\<lambda>(i, receipt). in_inherent_log i (accounts_revert_inherent E i receipt))
       (rev (zip inherents (receipts_inherents receipts))))
    (seq_eff (ensure (length transactions = length (receipts_transactions receipts)) AccountsPanic)
    (for_eff (\<lambda>(tx, receipt). in_tx_log tx (revert_transaction E tx receipt))
       (rev (zip transactions (receipts_transactions receipts))))))"

datatype executed_transaction = Executed_Ok transaction | Executed_Err transaction

definition executed_transactions ::
  "transaction list \<Rightarrow> 'r receipts \<Rightarrow> executed_transaction list option" where
  "executed_transactions transactions receipts =
    (if length transactions \<noteq> length (receipts_transactions receipts) then None
     else Some (map (\<lambda>(tx, receipt). case receipt of
       Receipt_Ok _ \<Rightarrow> Executed_Ok tx | Receipt_Err _ _ \<Rightarrow> Executed_Err tx)
       (zip transactions (receipts_transactions receipts))))"

end
