(* ===== verification/AccountsSafety.thy ===== *)
theory AccountsSafety
  imports Accounts
begin

text \<open>
  The accounts tree keeps its books: what a transaction or an inherent does to the tree and to the
  amount of coins in it, and that every revert restores the tree. The proofs rest on the contract of
  an account; the sender and the recipient of a transaction are two of its cells.
\<close>

section \<open>The tree\<close>

definition lookup_acc :: "(address, account) fmap \<Rightarrow> address \<Rightarrow> account" where
  "lookup_acc T a = (case fmlookup T a of Some acc \<Rightarrow> acc | None \<Rightarrow> account_default)"

definition place :: "address \<Rightarrow> account \<Rightarrow> (address, account) fmap \<Rightarrow> (address, account) fmap" where
  "place a acc T = (if can_be_pruned acc then fmdrop a T else fmupd a acc T)"

definition kept :: "(address, account) fmap \<Rightarrow> bool" where
  "kept T \<longleftrightarrow> (\<forall>a acc. fmlookup T a = Some acc \<longrightarrow> \<not> can_be_pruned acc)"

definition acc_total :: "accounts \<Rightarrow> coin" where
  "acc_total s = fsum account_balance (acc_tree s)"

definition acc_inv :: "accounts \<Rightarrow> bool" where
  "acc_inv s \<longleftrightarrow> kept (acc_tree s) \<and> acc_total s \<le> MAX_SAFE_VALUE \<and>
     (\<forall>a acc. fmlookup (acc_tree s) a = Some acc \<longrightarrow> cell_ok (acc, acc_store s a, []))"

definition same_acc :: "accounts \<Rightarrow> accounts \<Rightarrow> bool" where
  "same_acc s t \<longleftrightarrow> acc_tree s = acc_tree t \<and> acc_store s = acc_store t"

lemma accounts_get_lookup: "accounts_get s a = lookup_acc (acc_tree s) a"
  by (simp add: accounts_get_def lookup_acc_def)

lemma pruned_empty: "can_be_pruned acc \<Longrightarrow> account_balance acc = 0"
  by (cases acc) (auto simp: basic_can_be_pruned_def vesting_can_be_pruned_def htlc_can_be_pruned_def)

lemma pruned_default: "can_be_pruned account_default" "account_balance account_default = 0"
  by (simp_all add: account_default_def basic_can_be_pruned_def basic_default_def)

lemma kept_place: "kept T \<Longrightarrow> kept (place a acc T)"
  by (auto simp: kept_def place_def split: if_splits)

lemma lookup_place_other: "a \<noteq> b \<Longrightarrow> lookup_acc (place a acc T) b = lookup_acc T b"
  by (simp add: lookup_acc_def place_def)

lemma fmlookup_place: "fmlookup (place a acc T) a = (if can_be_pruned acc then None else Some acc)"
  by (simp add: place_def)

lemma place_back: "kept T \<Longrightarrow> place a (lookup_acc T a) (place a acc T) = T"
proof (rule fmap_ext)
  fix b
  assume "kept T"
  then show "fmlookup (place a (lookup_acc T a) (place a acc T)) b = fmlookup T b"
    by (cases "fmlookup T a") (auto simp: place_def lookup_acc_def pruned_default kept_def)
qed

lemma place_swap: "a \<noteq> b \<Longrightarrow> place a x (place b y T) = place b y (place a x T)"
  by (rule fmap_ext) (auto simp: place_def)

lemma lookup_balance: "account_balance (lookup_acc T a) \<le> fsum account_balance T"
  by (auto simp: lookup_acc_def pruned_default fsum_member split: option.splits)

lemma total_place:
  "fsum account_balance (place a acc T) + account_balance (lookup_acc T a) = fsum account_balance T + account_balance acc"
proof (cases "fmlookup T a")
  case None
  then show ?thesis by (simp add: place_def lookup_acc_def pruned_default pruned_empty)
next
  case (Some x)
  then show ?thesis
    using fsum_drop [OF Some, of account_balance] fsum_upd_old [OF Some, of account_balance acc]
    by (auto simp: place_def lookup_acc_def pruned_empty)
qed

lemma cell_ok_default: "cell_ok (account_default, st, L)"
  by (simp add: account_default_def basic_ok_def basic_default_def)

lemma acc_inv_cell: "acc_inv s \<Longrightarrow> cell_ok (lookup_acc (acc_tree s) a, acc_store s a, L)"
  by (auto simp: acc_inv_def lookup_acc_def cell_ok_default intro: cell_ok_log split: option.splits)

lemma two_balances:
  assumes "a \<noteq> b"
  shows "account_balance (lookup_acc T a) + account_balance (lookup_acc T b) \<le> fsum account_balance T"
  using total_place [of a account_default T] lookup_balance [of "place a account_default T" b] lookup_place_other [OF assms, of account_default T]
  by (simp add: pruned_default)

lemma restore_pruned:
  assumes "acc_codecs_ok E" "can_be_pruned acc" "account_prune E acc = Inr p"
  shows "account_restore E (account_type_of acc) p = Inr acc"
  using assms
  by (cases acc) (auto simp: basic_can_be_pruned_def vesting_can_be_pruned_def htlc_can_be_pruned_def acc_codecs_ok_def
      vesting_restored htlc_restored basic_restore_def basic_default_def)

section \<open>Recipients\<close>

text \<open>The part of a transaction at its recipient, over the cell of the recipient.\<close>

definition receive :: "('r, 'z) acc_env_scheme \<Rightarrow> transaction \<Rightarrow> block_state \<Rightarrow> 'r option ac" where
  "receive E tx bs c = (if tx_contract_creation tx then
     (if account_type_of (fst c) \<noteq> Basic then (Inl Panic, c)
      else case account_create_new_contract tx (account_balance (fst c)) (snd (snd c)) of
        (Inl e, L) \<Rightarrow> (Inl e, fst c, fst (snd c), L) | (Inr acc, L) \<Rightarrow> (Inr None, acc, fst (snd c), L))
   else if account_type_of (fst c) \<noteq> tx_recipient_type tx
     then (Inl (AccountErr (TypeMismatch (tx_recipient_type tx) (account_type_of (fst c)))), c)
   else account_commit_incoming E tx bs c)"

definition unreceive :: "('r, 'z) acc_env_scheme \<Rightarrow> transaction \<Rightarrow> 'r option \<Rightarrow> unit ac" where
  "unreceive E tx receipt c =
    (if account_type_of (fst c) \<noteq> tx_recipient_type tx
     then (Inl (AccountErr (TypeMismatch (tx_recipient_type tx) (account_type_of (fst c)))), c)
     else if tx_contract_creation tx then
       (case account_revert_new_contract tx c of
          (Inl e, c') \<Rightarrow> (Inl e, c') | (Inr _, c') \<Rightarrow> (Inr (), default_with_balance (account_balance (fst c')), snd c'))
     else account_revert_incoming E tx receipt c)"

lemma create_contract_Inr:
  assumes "account_create_new_contract tx b L = (Inr acc, L')"
  shows "tx_contract_creation tx" "account_type_of acc = tx_recipient_type tx" "account_balance acc = b + tx_value tx"
    "b + tx_value tx \<le> MAX_SAFE_VALUE" "account_type_of acc = Vesting \<or> account_type_of acc = HTLC"
  using assms
  by (auto simp: account_create_new_contract_def eff_inv act_inv map_result_def basic_create_new_contract_def
      vesting_create_new_contract_def htlc_create_new_contract_def split: account_type.splits)

lemma create_contract_Inl:
  assumes "account_create_new_contract tx b L = (Inl e, L')" "tx_contract_creation tx" "b + tx_value tx \<le> MAX_SAFE_VALUE"
  shows "e \<noteq> Panic"
  using assms
  by (auto simp: account_create_new_contract_def eff_inv act_inv map_result_def basic_create_new_contract_def coin_add_None
      vesting_create_new_contract_def htlc_create_new_contract_def split: account_type.splits)

lemma revert_new_contract_run:
  assumes "account_type_of acc = Vesting \<or> account_type_of acc = HTLC" "account_balance acc = b + tx_value tx"
    "b + tx_value tx \<le> MAX_SAFE_VALUE"
  shows "\<exists>acc' L'. account_revert_new_contract tx (acc, st, L) = (Inr (), acc', st, L') \<and> account_balance acc' = b"
  using assms
  by (cases acc) (auto simp: account_revert_new_contract_def vesting_revert_new_contract_def htlc_revert_new_contract_def
      seq_at vc_run hc_run act_run)

lemma receive_commits:
  assumes ok: "cell_ok c" and v: "tx_recipient_type tx = Staking \<Longrightarrow> staking_verified E tx"
    and b: "account_balance (fst c) + tx_value tx \<le> MAX_SAFE_VALUE"
    and cr: "tx_contract_creation tx \<Longrightarrow> account_type_of (fst c) = Basic"
  shows "commits same_cell (receive E tx bs) (unreceive E tx) (acc_codecs_ok E) c
    (\<lambda>c'. cell_ok c' \<and> account_balance (fst c') = account_balance (fst c) + tx_value tx \<and>
      account_type_of (fst c') = tx_recipient_type tx \<and>
      (account_type_of (fst c') = account_type_of (fst c) \<or> tx_contract_creation tx))"
proof (cases "tx_contract_creation tx")
  case False
  show ?thesis
  proof (cases "account_type_of (fst c) = tx_recipient_type tx")
    case True
    have i: "incoming_verified E c tx" using v True by (simp add: incoming_verified_def)
    show ?thesis
    proof (rule commitsI, goal_cases)
      case (1 e s')
      then have "account_commit_incoming E tx bs c = (Inl e, s')" using True False by (simp add: receive_def)
      from account.inc_error [OF ok i b this] show ?case by simp
    next
      case (2 r s')
      then have "account_commit_incoming E tx bs c = (Inr r, s')" using True False by (simp add: receive_def)
      from account.inc_run(1-3) [OF ok i b this] show ?case using True by simp
    next
      case (3 r s' t)
      then have r: "account_commit_incoming E tx bs c = (Inr r, s')" using True False by (simp add: receive_def)
      have "account_type_of (fst t) = tx_recipient_type tx"
        using account.inc_run(3) [OF ok i b r] account.same_tag [OF 3(3)] True by simp
      then show ?case using account.inc_run(4) [OF ok i b r 3(1,3)] False by (simp add: unreceive_def)
    qed
  next
    case False
    then show ?thesis
      using \<open>\<not> tx_contract_creation tx\<close> by (auto simp: receive_def commits_def account.same_refl)
  qed
next
  case True
  obtain bal st L where c: "c = (Account_Basic bal, st, L)" using cr [OF True] by (cases c; cases "fst c") auto
  obtain r L' where r: "account_create_new_contract tx (ba_balance bal) L = (r, L')" by fastforce
  have b': "ba_balance bal + tx_value tx \<le> MAX_SAFE_VALUE" using b c by simp
  show ?thesis
  proof (cases r)
    case (Inl e)
    then show ?thesis
      using create_contract_Inl [OF r [unfolded Inl] True b'] True
      by (simp add: c receive_def r commits_def same_cell_def)
  next
    case (Inr acc)
    note k = create_contract_Inr [OF r [unfolded Inr]]
    have "cell_ok (acc, st, L')" using k(3,4,5) by (cases acc) (auto simp: vesting_state_ok_def htlc_ok_def)
    moreover have "undone same_cell c (unreceive E tx None) (acc, st, L')"
      unfolding undone_def
    proof (intro allI impI)
      fix t
      assume "same_cell (acc, st, L') t"
      then obtain K where t: "t = (acc, st, K)" by (cases t) (auto simp: same_cell_def)
      from revert_new_contract_run [OF k(5) k(3,4), of st K] obtain acc' K'
        where "account_revert_new_contract tx (acc, st, K) = (Inr (), acc', st, K')" "account_balance acc' = ba_balance bal" by blast
      then show "\<exists>u. unreceive E tx None t = (Inr (), u) \<and> same_cell c u"
        using True k(2) by (simp add: t c unreceive_def default_with_balance_def same_cell_def)
    qed
    ultimately show ?thesis
      using k True by (simp add: c receive_def r Inr commits_def)
  qed
qed

end
