(* ===== verification/AccountsCommit.thy ===== *)
theory AccountsCommit
  imports AccountsSafety
begin

text \<open>
  Transactions and inherents on the tree: they never panic, a rejected one changes nothing but the
  log, the tree keeps its invariant and the coins in it change by the fee or the reward, and a revert
  with the receipt restores the tree.
\<close>

section \<open>Transactions that passed verification\<close>

definition tx_valid :: "('r, 'z) acc_env_scheme \<Rightarrow> transaction \<Rightarrow> bool" where
  "tx_valid E tx \<longleftrightarrow> tx_sender tx \<noteq> tx_recipient tx \<and> total_value tx = tx_value tx + tx_fee tx \<and>
     (tx_value tx > 0 \<or> tx_recipient_type tx = Staking \<and> \<not> tx_contract_creation tx) \<and>
     (tx_recipient_type tx = Staking \<longrightarrow> staking_verified E tx)"

lemma verified_valid:
  assumes "transaction_verify E False tx network version = Some (Inr ())"
  shows "tx_valid E tx"
proof -
  note t = transaction_verified [OF assms]
  have "tx_value tx > 0 \<or> tx_recipient_type tx = Staking \<and> \<not> tx_contract_creation tx"
    using t(3,6)
    by (cases "tx_recipient_type tx") (auto simp: account_verify_incoming_def basic_verify_incoming_def vesting_verify_incoming_def
        htlc_verify_incoming_def verify_incoming_transaction_def split: if_splits)
  moreover have "tx_recipient_type tx = Staking \<Longrightarrow> staking_verified E tx"
    using t(6) by (auto simp: account_verify_incoming_def staking_verified_def)
  ultimately show ?thesis using t(1) verified_total [OF assms] by (simp add: tx_valid_def)
qed

definition creatable :: "accounts \<Rightarrow> transaction \<Rightarrow> bool" where
  "creatable s tx \<longleftrightarrow> (tx_contract_creation tx \<longrightarrow> account_type_of (accounts_get s (tx_recipient tx)) = Basic)"

section \<open>The steps of a transaction\<close>

lemma on_account_run:
  assumes "m (acc, acc_store s a, acc_log s) = (r, acc', st', L')"
  shows "on_account a acc m s = (map_sum id (\<lambda>x. (x, acc')) r, s \<lparr> acc_store := (acc_store s)(a := st'), acc_log := L' \<rparr>)"
  by (simp add: on_account_def assms)

lemma get_with_type_run:
  "get_with_type a ty s = (if account_type_of (lookup_acc (acc_tree s) a) = ty then (Inr (lookup_acc (acc_tree s) a), s)
     else (Inl (AccountErr (TypeMismatch ty (account_type_of (lookup_acc (acc_tree s) a)))), s))"
  by (simp add: get_with_type_def eff_simps accounts_get_lookup)

lemma put_or_prune_run:
  "put_or_prune E a acc s = (if can_be_pruned acc then (case account_prune E acc of
       Inl e \<Rightarrow> (Inl e, s) | Inr p \<Rightarrow> (Inr p, s \<lparr> acc_tree := place a acc (acc_tree s) \<rparr>))
     else (Inr None, s \<lparr> acc_tree := place a acc (acc_tree s) \<rparr>))"
  by (auto simp: put_or_prune_def put_account_def prune_account_def place_def of_sum_def seq_eff_def bind_eff_def eff_simps
      split: sum.splits)

lemma prune_total: "can_be_pruned acc \<Longrightarrow> \<exists>p. account_prune E acc = Inr p"
  by (cases acc) simp_all

definition pruning :: "('r, 'z) acc_env_scheme \<Rightarrow> account \<Rightarrow> 'r option" where
  "pruning E acc = (if can_be_pruned acc then projr (account_prune E acc) else None)"

lemma put_or_prune_eq: "put_or_prune E a acc s = (Inr (pruning E acc), s \<lparr> acc_tree := place a acc (acc_tree s) \<rparr>)"
  using prune_total [of acc E] by (auto simp: put_or_prune_run pruning_def)

lemma put_account_run: "\<not> can_be_pruned acc \<Longrightarrow> put_account a acc s = (Inr (), s \<lparr> acc_tree := place a acc (acc_tree s) \<rparr>)"
  by (simp add: put_account_def place_def seq_eff_def bind_eff_def eff_simps)

lemma get_or_restore_placed:
  assumes "acc_codecs_ok E" "fmlookup (acc_tree s) a = (if can_be_pruned acc then None else Some acc)"
  shows "get_or_restore E a (account_type_of acc) (pruning E acc) s = (Inr acc, s)"
  using assms prune_total [of acc E]
  by (auto simp: get_or_restore_def eff_simps bind_eff_def gets_def pruning_def restore_pruned)

lemma commit_recipient_eq:
  "commit_recipient E tx bs s =
    on_account (tx_recipient tx) (lookup_acc (acc_tree s) (tx_recipient tx)) (receive E tx bs) s"
proof (cases "tx_contract_creation tx")
  case True
  let ?acc = "lookup_acc (acc_tree s) (tx_recipient tx)"
  obtain r L where r: "account_create_new_contract tx (account_balance ?acc) (acc_log s) = (r, L)" by fastforce
  show ?thesis
    using True r
    by (cases r; cases "account_type_of ?acc = Basic")
      (simp_all add: commit_recipient_def receive_def on_account_def bind_eff_def expect_ok_def get_with_type_run on_log_def
        zoom_eff_def ret_def)
next
  case False
  then show ?thesis
    by (simp add: commit_recipient_def receive_def bind_eff_def get_with_type_run on_account_def)
qed

lemma attempt_run:
  "m s = (Inr x, s') \<Longrightarrow> attempt m s = (Inr (Inr x), s')"
  "m s = (Inl (AccountErr e), s') \<Longrightarrow> attempt m s = (Inr (Inl e), s')"
  by (simp_all add: attempt_def)

text \<open>What a successful transaction did.\<close>

definition moved ::
  "('r, 'z) acc_env_scheme \<Rightarrow> transaction \<Rightarrow> block_state \<Rightarrow> accounts \<Rightarrow> 'r transaction_receipt \<Rightarrow> accounts \<Rightarrow> bool" where
  "moved E tx bs s rc s' \<longleftrightarrow> (\<exists>sacc sst L racc rst L'.
     account_type_of (lookup_acc (acc_tree s) (tx_sender tx)) = tx_sender_type tx \<and>
     account_commit_outgoing E tx bs (lookup_acc (acc_tree s) (tx_sender tx), acc_store s (tx_sender tx), acc_log s) =
       (Inr (trc_sender rc), sacc, sst, L) \<and>
     receive E tx bs (lookup_acc (acc_tree s) (tx_recipient tx), acc_store s (tx_recipient tx), L) =
       (Inr (trc_recipient rc), racc, rst, L') \<and>
     trc_pruned rc = pruning E sacc \<and> \<not> can_be_pruned racc \<and>
     acc_tree s' = place (tx_recipient tx) racc (place (tx_sender tx) sacc (acc_tree s)) \<and>
     acc_store s' = (acc_store s)(tx_sender tx := sst, tx_recipient tx := rst))"

lemma receive_ok:
  assumes inv: "acc_inv s" and v: "tx_valid E tx" and cr: "creatable s tx"
    and out: "account_commit_outgoing E tx bs (lookup_acc (acc_tree s) (tx_sender tx), acc_store s (tx_sender tx), L0) = (Inr r, c)"
  shows "commits same_cell (receive E tx bs) (unreceive E tx) (acc_codecs_ok E)
    (lookup_acc (acc_tree s) (tx_recipient tx), acc_store s (tx_recipient tx), L)
    (\<lambda>c'. cell_ok c' \<and>
      account_balance (fst c') = account_balance (lookup_acc (acc_tree s) (tx_recipient tx)) + tx_value tx \<and>
      account_type_of (fst c') = tx_recipient_type tx \<and>
      (account_type_of (fst c') = account_type_of (lookup_acc (acc_tree s) (tx_recipient tx)) \<or> tx_contract_creation tx))"
proof -
  let ?T = "acc_tree s" and ?a = "tx_sender tx" and ?b = "tx_recipient tx"
  have "total_value tx \<le> account_balance (lookup_acc ?T ?a)"
    using account.out_run(2) [OF acc_inv_cell [OF inv] out] by simp
  moreover have "account_balance (lookup_acc ?T ?a) + account_balance (lookup_acc ?T ?b) \<le> MAX_SAFE_VALUE"
    using two_balances [of ?a ?b ?T] v inv by (simp add: tx_valid_def acc_inv_def acc_total_def)
  ultimately have b: "account_balance (fst (lookup_acc ?T ?b, acc_store s ?b, L)) + tx_value tx \<le> MAX_SAFE_VALUE"
    using v by (simp add: tx_valid_def)
  show ?thesis
    using receive_commits [where E = E and bs = bs, OF acc_inv_cell [OF inv] _ b] v cr by (simp add: tx_valid_def creatable_def accounts_get_lookup)
qed

lemma received_kept:
  assumes "tx_valid E tx" "account_balance acc = b + tx_value tx" "account_type_of acc = tx_recipient_type tx"
  shows "\<not> can_be_pruned acc"
  using assms pruned_empty [of acc] by (cases acc) (auto simp: tx_valid_def)

lemma try_commit_cases:
  assumes inv: "acc_inv s" and v: "tx_valid E tx" and k: "acc_codecs_ok E"
  shows "case try_commit_transaction E tx bs s of
      (Inl e, s') \<Rightarrow> (if e = Panic then \<not> creatable s tx else same_acc s s')
    | (Inr rc, s') \<Rightarrow> moved E tx bs s rc s'"
proof (cases "account_type_of (lookup_acc (acc_tree s) (tx_sender tx)) = tx_sender_type tx")
  case False
  then show ?thesis by (simp add: try_commit_transaction_def bind_eff_def get_with_type_run same_acc_def)
next
  case ty: True
  let ?T = "acc_tree s" and ?a = "tx_sender tx" and ?b = "tx_recipient tx"
  let ?ca = "(lookup_acc ?T ?a, acc_store s ?a, acc_log s)"
  obtain r sacc sst L where out: "account_commit_outgoing E tx bs ?ca = (r, sacc, sst, L)" by (metis prod_cases4)
  have oa: "on_account ?a (lookup_acc ?T ?a) (account_commit_outgoing E tx bs) s =
      (map_sum id (\<lambda>x. (x, sacc)) r, s \<lparr> acc_store := (acc_store s)(?a := sst), acc_log := L \<rparr>)"
    by (simp add: on_account_def out)
  note oka = acc_inv_cell [OF inv, of ?a "acc_log s"]
  show ?thesis
  proof (cases r)
    case (Inl e)
    have "try_commit_transaction E tx bs s = (Inl e, s \<lparr> acc_store := (acc_store s)(?a := sst), acc_log := L \<rparr>)"
      by (simp add: try_commit_transaction_def bind_eff_def get_with_type_run ty oa Inl)
    moreover have "e \<noteq> Panic \<and> acc_store s ?a = sst"
      using account.out_error [OF oka out [unfolded Inl]] by (simp add: same_cell_def)
    ultimately show ?thesis by (auto simp: same_acc_def)
  next
    case (Inr sr)
    note out' = out [unfolded Inr]
    let ?s1 = "s \<lparr> acc_store := (acc_store s)(?a := sst), acc_log := L \<rparr>"
    have ab: "?a \<noteq> ?b" using v by (simp add: tx_valid_def)
    let ?cb = "(lookup_acc ?T ?b, acc_store s ?b, L)"
    obtain q racc rst L' where rcv: "receive E tx bs ?cb = (q, racc, rst, L')" by (metis prod_cases4)
    have rec: "commit_recipient E tx bs ?s1 = (map_sum id (\<lambda>x. (x, racc)) q,
        s \<lparr> acc_store := (acc_store s)(?a := sst, ?b := rst), acc_log := L' \<rparr>)"
      using rcv ab by (subst commit_recipient_eq) (simp add: on_account_def)
    have pre: "try_commit_transaction E tx bs s = (case commit_recipient E tx bs ?s1 of
        (Inl (AccountErr e), s2) \<Rightarrow> bind_eff (expect_ok (on_account ?a sacc (account_revert_outgoing E tx sr)))
           (\<lambda>_. throw (AccountErr e)) s2
      | (Inl Panic, s2) \<Rightarrow> (Inl Panic, s2)
      | (Inr (rr, racc), s2) \<Rightarrow> bind_eff (put_or_prune E ?a sacc) (\<lambda>p. seq_eff (put_account ?b racc)
           (ret \<lparr> trc_sender = sr, trc_recipient = rr, trc_pruned = p \<rparr>)) s2)"
      by (simp add: try_commit_transaction_def bind_eff_def [of "get_with_type _ _"] bind_eff_def [of "on_account _ _ (account_commit_outgoing _ _ _)"]
          bind_eff_def [of "attempt _"] get_with_type_run ty oa Inr attempt_def split: sum.splits prod.splits error.splits)
    show ?thesis
    proof (cases "creatable s tx")
      case False
      then have "q = Inl Panic" using rcv by (auto simp: creatable_def receive_def accounts_get_lookup)
      then show ?thesis using rec False by (simp add: pre)
    next
      case cr: True
      note rk = receive_ok [OF inv v cr out', of L, unfolded commits_def rcv]
      show ?thesis
      proof (cases q)
        case (Inl e)
        then have e: "e \<noteq> Panic" "racc = lookup_acc ?T ?b" "rst = acc_store s ?b" using rk by (simp_all add: same_cell_def)
        let ?s2 = "s \<lparr> acc_store := (acc_store s)(?a := sst), acc_log := L' \<rparr>"
        have s2: "s \<lparr> acc_store := (acc_store s)(?a := sst, ?b := rst), acc_log := L' \<rparr> = ?s2"
          using ab by (simp add: e(3) fun_upd_def fun_eq_iff)
        obtain u where u: "account_revert_outgoing E tx sr (sacc, sst, L') = (Inr (), u)" "same_cell ?ca u"
          using account.out_run(4) [OF oka out' k, of "(sacc, sst, L')"] by (auto simp: same_cell_def)
        obtain L3 where u': "u = (lookup_acc ?T ?a, acc_store s ?a, L3)" using u(2) by (cases u) (auto simp: same_cell_def)
        have rv: "on_account ?a sacc (account_revert_outgoing E tx sr) ?s2 =
            (Inr ((), lookup_acc ?T ?a), s \<lparr> acc_log := L3 \<rparr>)"
          using u(1) by (simp add: on_account_def u')
        obtain e' where "e = AccountErr e'" using e(1) by (cases e) auto
        then show ?thesis
          using rec rv by (simp add: pre Inl s2 bind_eff_def expect_ok_def throw_def same_acc_def)
      next
        case (Inr rr)
        then have racc: "\<not> can_be_pruned racc" using rk received_kept [OF v] by auto
        have "try_commit_transaction E tx bs s = (Inr \<lparr> trc_sender = sr, trc_recipient = rr, trc_pruned = pruning E sacc \<rparr>,
            s \<lparr> acc_tree := place ?b racc (place ?a sacc ?T), acc_store := (acc_store s)(?a := sst, ?b := rst), acc_log := L' \<rparr>)"
          using rec by (simp add: pre Inr bind_eff_def seq_eff_def put_or_prune_eq put_account_run [OF racc] ret_def)
        then show ?thesis
          using ty out' rcv Inr racc by (simp add: moved_def)
      qed
    qed
  qed
qed

section \<open>The books\<close>

lemma acc_inv_place:
  assumes "acc_inv s" "cell_ok (acc, st, L)" "acc_tree s' = place a acc (acc_tree s)" "acc_store s' = (acc_store s)(a := st)"
    "acc_total s' \<le> MAX_SAFE_VALUE"
  shows "acc_inv s'"
  using assms kept_place [of "acc_tree s" a acc] cell_ok_log [OF assms(2), of "[]"]
  by (auto simp: acc_inv_def place_def split: if_splits)

lemma receive_creatable: "receive E tx bs (lookup_acc (acc_tree s) (tx_recipient tx), st, L) = (Inr r, c) \<Longrightarrow> creatable s tx"
  by (auto simp: receive_def creatable_def accounts_get_lookup split: if_splits)

lemma moved_books:
  assumes inv: "acc_inv s" and v: "tx_valid E tx" and m: "moved E tx bs s rc s'"
  shows "acc_inv s'" "acc_total s' + tx_fee tx = acc_total s"
proof -
  let ?T = "acc_tree s" and ?a = "tx_sender tx" and ?b = "tx_recipient tx"
  from m obtain sacc sst L racc rst L' where
    out: "account_commit_outgoing E tx bs (lookup_acc ?T ?a, acc_store s ?a, acc_log s) = (Inr (trc_sender rc), sacc, sst, L)"
    and rcv: "receive E tx bs (lookup_acc ?T ?b, acc_store s ?b, L) = (Inr (trc_recipient rc), racc, rst, L')"
    and s': "acc_tree s' = place ?b racc (place ?a sacc ?T)" "acc_store s' = (acc_store s)(?a := sst, ?b := rst)"
    unfolding moved_def by blast
  have ab: "?a \<noteq> ?b" and tv: "total_value tx = tx_value tx + tx_fee tx" using v by (simp_all add: tx_valid_def)
  note o = account.out_run [OF acc_inv_cell [OF inv] out]
  have r: "cell_ok (racc, rst, L')" "account_balance racc = account_balance (lookup_acc ?T ?b) + tx_value tx"
    using receive_ok [OF inv v receive_creatable [OF rcv] out, of L] rcv by (simp_all add: commits_def)
  define s1 where "s1 = s \<lparr> acc_tree := place ?a sacc ?T, acc_store := (acc_store s)(?a := sst) \<rparr>"
  have t1: "acc_total s1 + total_value tx = acc_total s"
    using total_place [of ?a sacc ?T] o(2) by (simp add: s1_def acc_total_def)
  have i1: "acc_inv s1"
    by (rule acc_inv_place [OF inv o(1)]) (use t1 inv in \<open>simp_all add: s1_def acc_inv_def\<close>)
  have t2: "acc_total s' = acc_total s1 + tx_value tx"
    using total_place [of ?b racc "place ?a sacc ?T"] r(2) lookup_place_other [OF ab, of sacc ?T]
    by (simp add: acc_total_def s' s1_def)
  then show t: "acc_total s' + tx_fee tx = acc_total s" using t1 tv by simp
  show "acc_inv s'"
    by (rule acc_inv_place [OF i1 r(1)]) (use t inv in \<open>simp_all add: s1_def s' acc_inv_def\<close>)
qed

text \<open>What a failed transaction did.\<close>

definition charged ::
  "('r, 'z) acc_env_scheme \<Rightarrow> transaction \<Rightarrow> block_state \<Rightarrow> accounts \<Rightarrow> 'r transaction_receipt \<Rightarrow> accounts \<Rightarrow> bool" where
  "charged E tx bs s rc s' \<longleftrightarrow> (\<exists>sacc sst L.
     account_type_of (lookup_acc (acc_tree s) (tx_sender tx)) = tx_sender_type tx \<and>
     account_commit_failed E tx bs (lookup_acc (acc_tree s) (tx_sender tx), acc_store s (tx_sender tx), acc_log s) =
       (Inr (trc_sender rc), sacc, sst, L) \<and>
     trc_pruned rc = pruning E sacc \<and>
     acc_tree s' = place (tx_sender tx) sacc (acc_tree s) \<and> acc_store s' = (acc_store s)(tx_sender tx := sst))"

lemma commit_failed_cases:
  assumes inv: "acc_inv s"
  shows "case accounts_commit_failed E tx bs s of
      (Inl e, s') \<Rightarrow> e \<noteq> Panic \<and> same_acc s s'
    | (Inr rc, s') \<Rightarrow> charged E tx bs s rc s'"
proof (cases "account_type_of (lookup_acc (acc_tree s) (tx_sender tx)) = tx_sender_type tx")
  case False
  then show ?thesis by (simp add: accounts_commit_failed_def bind_eff_def get_with_type_run same_acc_def)
next
  case ty: True
  let ?T = "acc_tree s" and ?a = "tx_sender tx"
  obtain r sacc sst L where
    f: "account_commit_failed E tx bs (lookup_acc ?T ?a, acc_store s ?a, acc_log s) = (r, sacc, sst, L)" by (metis prod_cases4)
  have oa: "on_account ?a (lookup_acc ?T ?a) (account_commit_failed E tx bs) s =
      (map_sum id (\<lambda>x. (x, sacc)) r, s \<lparr> acc_store := (acc_store s)(?a := sst), acc_log := L \<rparr>)"
    by (simp add: on_account_def f)
  show ?thesis
  proof (cases r)
    case (Inl e)
    have "e \<noteq> Panic \<and> acc_store s ?a = sst"
      using account.failed_error [OF acc_inv_cell [OF inv] f [unfolded Inl]] by (simp add: same_cell_def)
    moreover have "accounts_commit_failed E tx bs s = (Inl e, s \<lparr> acc_store := (acc_store s)(?a := sst), acc_log := L \<rparr>)"
      by (simp add: accounts_commit_failed_def bind_eff_def get_with_type_run ty oa Inl)
    ultimately show ?thesis by (auto simp: same_acc_def)
  next
    case (Inr sr)
    then show ?thesis
      using f by (simp add: accounts_commit_failed_def bind_eff_def get_with_type_run ty oa put_or_prune_eq ret_def charged_def)
  qed
qed

lemma charged_books:
  assumes inv: "acc_inv s" and m: "charged E tx bs s rc s'"
  shows "acc_inv s'" "acc_total s' + tx_fee tx = acc_total s"
proof -
  let ?T = "acc_tree s" and ?a = "tx_sender tx"
  from m obtain sacc sst L where
    f: "account_commit_failed E tx bs (lookup_acc ?T ?a, acc_store s ?a, acc_log s) = (Inr (trc_sender rc), sacc, sst, L)"
    and s': "acc_tree s' = place ?a sacc ?T" "acc_store s' = (acc_store s)(?a := sst)"
    unfolding charged_def by blast
  note o = account.failed_run [OF acc_inv_cell [OF inv] f]
  show t: "acc_total s' + tx_fee tx = acc_total s"
    using total_place [of ?a sacc ?T] o(2) by (simp add: s' acc_total_def)
  show "acc_inv s'"
    by (rule acc_inv_place [OF inv o(1) s']) (use t inv in \<open>simp add: acc_inv_def\<close>)
qed

section \<open>Transactions\<close>

lemma acc_inv_same: "same_acc s t \<Longrightarrow> acc_inv s \<Longrightarrow> acc_inv t" "same_acc s t \<Longrightarrow> acc_total s = acc_total t"
  by (simp_all add: same_acc_def acc_inv_def acc_total_def)

lemma same_acc_log [simp]: "same_acc s (t \<lparr> acc_log := L \<rparr>) = same_acc s t" "same_acc s (t \<lparr> acc_failed := b \<rparr>) = same_acc s t"
  "same_acc (s \<lparr> acc_log := L \<rparr>) t = same_acc s t" "same_acc (s \<lparr> acc_failed := b \<rparr>) t = same_acc s t"
  by (simp_all add: same_acc_def)

lemma same_acc_equiv: "same_acc s s" "same_acc s t \<Longrightarrow> same_acc t s" "same_acc s t \<Longrightarrow> same_acc t u \<Longrightarrow> same_acc s u"
  by (simp_all add: same_acc_def)

text \<open>A receipt tells what the transaction did, from a state that is the same as the one before.\<close>

definition performed ::
  "('r, 'z) acc_env_scheme \<Rightarrow> transaction \<Rightarrow> block_state \<Rightarrow> accounts \<Rightarrow> 'r transaction_receipt operation_receipt \<Rightarrow> accounts \<Rightarrow> bool" where
  "performed E tx bs s rc s' \<longleftrightarrow> (case rc of
     Receipt_Ok r \<Rightarrow> moved E tx bs s r s'
   | Receipt_Err r _ \<Rightarrow> (\<exists>t. same_acc s t \<and> charged E tx bs t r s'))"

lemma commit_transaction_cases:
  assumes inv: "acc_inv s" and v: "tx_valid E tx" and k: "acc_codecs_ok E"
  shows "case commit_transaction E bs tx s of
      (Inl e, s') \<Rightarrow> (if e = Panic then \<not> creatable s tx else same_acc s s')
    | (Inr rc, s') \<Rightarrow> performed E tx bs s rc s'"
proof -
  obtain r s1 where t: "try_commit_transaction E tx bs s = (r, s1)" by fastforce
  note tc = try_commit_cases [OF assms, of bs, unfolded t]
  show ?thesis
  proof (cases r)
    case (Inr rc)
    then show ?thesis
      using tc by (simp add: commit_transaction_def bind_eff_def attempt_def t ret_def performed_def)
  next
    case (Inl e)
    show ?thesis
    proof (cases e)
      case Panic
      then show ?thesis using tc Inl by (simp add: commit_transaction_def bind_eff_def attempt_def t)
    next
      case (AccountErr x)
      then have x: "e = AccountErr x" "same_acc s s1" using tc Inl by simp_all
      let ?s2 = "s1 \<lparr> acc_failed := True, acc_log := [Log_FailedTransaction (tx_sender tx) (tx_recipient tx) (fail_reason_from x)] \<rparr>"
      have s2: "same_acc s ?s2" using x(2) by simp
      have c: "commit_transaction E bs tx s = bind_eff (accounts_commit_failed E tx bs) (\<lambda>receipt.
          ret (Receipt_Err receipt (fail_reason_from x))) ?s2"
        by (simp add: commit_transaction_def bind_eff_def [of "attempt _"] attempt_def t Inl x(1) seq_eff_def Let_def push_failed_log_def
            bind_eff_def [of "modify _"] modify_def)
      obtain q s3 where q: "accounts_commit_failed E tx bs ?s2 = (q, s3)" by fastforce
      show ?thesis
        using commit_failed_cases [OF acc_inv_same(1) [OF s2 inv], of E tx bs] same_acc_equiv(3) [OF s2] s2
        by (cases q) (auto simp: c q bind_eff_def ret_def performed_def intro!: exI [of _ ?s2])
    qed
  qed
qed

lemma performed_books:
  assumes "acc_inv s" "tx_valid E tx" "performed E tx bs s rc s'"
  shows "acc_inv s'" "acc_total s' + tx_fee tx = acc_total s"
proof -
  have "acc_inv s' \<and> acc_total s' + tx_fee tx = acc_total s"
  proof (cases rc)
    case (Receipt_Ok r)
    then show ?thesis using moved_books [OF assms(1,2), of bs r s'] assms(3) by (simp add: performed_def)
  next
    case (Receipt_Err r x)
    then obtain t where t: "same_acc s t" "charged E tx bs t r s'" using assms(3) by (auto simp: performed_def)
    then show ?thesis using charged_books [OF acc_inv_same(1) [OF t(1) assms(1)] t(2)] acc_inv_same(2) [OF t(1)] by simp
  qed
  then show "acc_inv s'" "acc_total s' + tx_fee tx = acc_total s" by simp_all
qed

section \<open>Reverts\<close>

lemma revert_recipient_eq:
  "bind_eff (get_with_type (tx_recipient tx) (tx_recipient_type tx)) (\<lambda>acc.
    bind_eff (if tx_contract_creation tx then
        bind_eff (on_account (tx_recipient tx) acc (account_revert_new_contract tx)) (\<lambda>(_, acc').
        ret (default_with_balance (account_balance acc')))
      else
        bind_eff (on_account (tx_recipient tx) acc (account_revert_incoming E tx receipt)) (\<lambda>(_, acc'). ret acc')) K) t =
   bind_eff (on_account (tx_recipient tx) (lookup_acc (acc_tree t) (tx_recipient tx)) (unreceive E tx receipt)) (\<lambda>(_, acc). K acc) t"
proof (cases "account_type_of (lookup_acc (acc_tree t) (tx_recipient tx)) = tx_recipient_type tx")
  case False
  then show ?thesis by (simp add: bind_eff_def get_with_type_run on_account_def unreceive_def)
next
  case True
  let ?c = "(lookup_acc (acc_tree t) (tx_recipient tx), acc_store t (tx_recipient tx), acc_log t)"
  obtain r acc st L where r: "account_revert_new_contract tx ?c = (r, acc, st, L)" by (metis prod_cases4)
  obtain r' acc' st' L' where r': "account_revert_incoming E tx receipt ?c = (r', acc', st', L')" by (metis prod_cases4)
  show ?thesis
    using True by (cases r; cases r') (simp_all add: bind_eff_def get_with_type_run on_account_def unreceive_def r r' ret_def)
qed

lemma on_account_undone:
  assumes "undone same_cell (acc, acc_store s a, L) rv (acc', st', L')" "acc_store t a = st'"
  shows "\<exists>L''. on_account a acc' rv t = (Inr ((), acc), t \<lparr> acc_store := (acc_store t)(a := acc_store s a), acc_log := L'' \<rparr>)"
proof -
  have "same_cell (acc', st', L') (acc', acc_store t a, acc_log t)" using assms(2) by (simp add: same_cell_def)
  then obtain u where u: "rv (acc', acc_store t a, acc_log t) = (Inr (), u)" "same_cell (acc, acc_store s a, L) u"
    using assms(1) unfolding undone_def by blast
  obtain L'' where "u = (acc, acc_store s a, L'')" using u(2) by (cases u) (auto simp: same_cell_def)
  then show ?thesis using u(1) by (intro exI [of _ L'']) (simp add: on_account_def)
qed

lemma fun_upd_other_same: "a \<noteq> b \<Longrightarrow> f(a := x, b := f b) = f(a := x)"
  by (simp add: fun_eq_iff)

lemma moved_reverted:
  assumes inv: "acc_inv s" and v: "tx_valid E tx" and k: "acc_codecs_ok E" and m: "moved E tx bs s rc s'" and t: "same_acc s' t"
  shows "\<exists>u. revert_successful_transaction E tx rc t = (Inr (), u) \<and> same_acc s u"
proof -
  let ?T = "acc_tree s" and ?a = "tx_sender tx" and ?b = "tx_recipient tx"
  let ?A = "lookup_acc ?T ?a" and ?B = "lookup_acc ?T ?b"
  from m obtain sacc sst L racc rst L' where ty: "account_type_of ?A = tx_sender_type tx"
    and out: "account_commit_outgoing E tx bs (?A, acc_store s ?a, acc_log s) = (Inr (trc_sender rc), sacc, sst, L)"
    and rcv: "receive E tx bs (?B, acc_store s ?b, L) = (Inr (trc_recipient rc), racc, rst, L')"
    and p: "trc_pruned rc = pruning E sacc" "\<not> can_be_pruned racc"
    and s': "acc_tree s' = place ?b racc (place ?a sacc ?T)" "acc_store s' = (acc_store s)(?a := sst, ?b := rst)"
    unfolding moved_def by blast
  have ab: "?a \<noteq> ?b" using v by (simp add: tx_valid_def)
  have kept: "kept ?T" using inv by (simp add: acc_inv_def)
  have ub: "undone same_cell (?B, acc_store s ?b, L) (unreceive E tx (trc_recipient rc)) (racc, rst, L')"
    using receive_ok [OF inv v receive_creatable [OF rcv] out, of L] rcv k by (simp add: commits_def)
  have ua: "undone same_cell (?A, acc_store s ?a, acc_log s) (account_revert_outgoing E tx (trc_sender rc)) (sacc, sst, L)"
    using account.out_run(4) [OF acc_inv_cell [OF inv] out k] by (simp add: undone_def)
  have tt: "acc_tree t = place ?b racc (place ?a sacc ?T)" "acc_store t = (acc_store s)(?a := sst, ?b := rst)"
    using t s' by (simp_all add: same_acc_def)
  have lb: "lookup_acc (acc_tree t) ?b = racc" using p(2) by (simp add: tt lookup_acc_def fmlookup_place)
  obtain Lb where rb: "on_account ?b racc (unreceive E tx (trc_recipient rc)) t =
      (Inr ((), ?B), t \<lparr> acc_store := (acc_store t)(?b := acc_store s ?b), acc_log := Lb \<rparr>)"
    using on_account_undone [OF ub, of t] by (auto simp: tt)
  define t1 where "t1 = t \<lparr> acc_tree := place ?a sacc ?T, acc_store := (acc_store s)(?a := sst), acc_log := Lb \<rparr>"
  have "place ?b ?B (acc_tree t) = place ?a sacc ?T"
    using place_back [OF kept_place [OF kept], of ?b ?a sacc racc] lookup_place_other [OF ab, of sacc ?T] by (simp add: tt)
  then have "put_or_prune E ?b ?B (t \<lparr> acc_store := (acc_store t)(?b := acc_store s ?b), acc_log := Lb \<rparr>) = (Inr (pruning E ?B), t1)"
    using fun_upd_other_same [OF ab, of "acc_store s" sst] by (simp add: put_or_prune_eq t1_def tt)
  moreover have "get_or_restore E ?a (tx_sender_type tx) (trc_pruned rc) t1 = (Inr sacc, t1)"
    using get_or_restore_placed [OF k, of t1 ?a sacc] account.out_run(3) [OF acc_inv_cell [OF inv] out] ty
    by (simp add: t1_def fmlookup_place p(1))
  moreover obtain La where "on_account ?a sacc (account_revert_outgoing E tx (trc_sender rc)) t1 =
      (Inr ((), ?A), t1 \<lparr> acc_store := (acc_store t1)(?a := acc_store s ?a), acc_log := La \<rparr>)"
    using on_account_undone [OF ua, of t1] by (auto simp: t1_def)
  ultimately show ?thesis
    using place_back [OF kept, of ?a sacc]
    unfolding revert_successful_transaction_def revert_recipient_eq lb
    by (simp add: bind_eff_def rb put_or_prune_eq ret_def same_acc_def t1_def)
qed

lemma charged_reverted:
  assumes inv: "acc_inv s" and k: "acc_codecs_ok E" and m: "charged E tx bs s rc s'" and t: "same_acc s' t"
  shows "\<exists>u. accounts_revert_failed E tx rc t = (Inr (), u) \<and> same_acc s u"
proof -
  let ?T = "acc_tree s" and ?a = "tx_sender tx"
  let ?A = "lookup_acc ?T ?a"
  from m obtain sacc sst L where ty: "account_type_of ?A = tx_sender_type tx"
    and out: "account_commit_failed E tx bs (?A, acc_store s ?a, acc_log s) = (Inr (trc_sender rc), sacc, sst, L)"
    and p: "trc_pruned rc = pruning E sacc"
    and s': "acc_tree s' = place ?a sacc ?T" "acc_store s' = (acc_store s)(?a := sst)"
    unfolding charged_def by blast
  have ua: "undone same_cell (?A, acc_store s ?a, acc_log s) (account_revert_failed E tx (trc_sender rc)) (sacc, sst, L)"
    using account.failed_run(4) [OF acc_inv_cell [OF inv] out k] by (simp add: undone_def)
  have tt: "acc_tree t = place ?a sacc ?T" "acc_store t = (acc_store s)(?a := sst)" using t s' by (simp_all add: same_acc_def)
  have "get_or_restore E ?a (tx_sender_type tx) (trc_pruned rc) t = (Inr sacc, t)"
    using get_or_restore_placed [OF k, of t ?a sacc] account.failed_run(3) [OF acc_inv_cell [OF inv] out] ty
    by (simp add: tt fmlookup_place p)
  moreover obtain La where "on_account ?a sacc (account_revert_failed E tx (trc_sender rc)) t =
      (Inr ((), ?A), t \<lparr> acc_store := (acc_store t)(?a := acc_store s ?a), acc_log := La \<rparr>)"
    using on_account_undone [OF ua, of t] by (auto simp: tt)
  ultimately show ?thesis
    using place_back [of ?T ?a sacc] inv
    by (simp add: accounts_revert_failed_def bind_eff_def put_or_prune_eq ret_def same_acc_def tt acc_inv_def)
qed

lemma performed_reverted:
  assumes inv: "acc_inv s" and v: "tx_valid E tx" and k: "acc_codecs_ok E" and m: "performed E tx bs s rc s'" and t: "same_acc s' t"
  shows "\<exists>u. revert_transaction E tx rc t = (Inr (), u) \<and> same_acc s u"
proof (cases rc)
  case (Receipt_Ok r)
  then show ?thesis using moved_reverted [OF inv v k _ t] m by (simp add: performed_def revert_transaction_def)
next
  case (Receipt_Err r x)
  then obtain q where q: "same_acc s q" "charged E tx bs q r s'" using m by (auto simp: performed_def)
  obtain u where "accounts_revert_failed E tx r t = (Inr (), u)" "same_acc q u"
    using charged_reverted [OF acc_inv_same(1) [OF q(1) inv] k q(2) t] by blast
  then show ?thesis
    using same_acc_equiv(3) [OF q(1)]
    by (simp add: Receipt_Err revert_transaction_def bind_eff_def attempt_def seq_eff_def push_failed_log_def modify_def of_sum_def
        ret_def)
qed

end
