(* ===== verification/AccountsBatch.thy ===== *)
theory AccountsBatch
  imports AccountsCommit
begin

text \<open>
  Inherents and batches: what an inherent does to the tree, and how the effects of the transactions
  and the inherents of a block add up and are undone, last one first.
\<close>

section \<open>Inherents\<close>

text \<open>
  Inherents as the chain creates them: well-formed, without empty rewards and with rewards that the
  supply has room for.
\<close>

definition inherent_valid :: "('r, 'z) acc_env_scheme \<Rightarrow> block_state \<Rightarrow> inherent \<Rightarrow> bool" where
  "inherent_valid E bs i \<longleftrightarrow> inherent_ok (env_policy E) (bs_number bs) i \<and>
     (case i of Reward _ _ reward \<Rightarrow> reward > 0 | _ \<Rightarrow> True)"

definition minted :: "inherent \<Rightarrow> 'r operation_receipt \<Rightarrow> coin" where
  "minted i rc = (case rc of Receipt_Ok _ \<Rightarrow> inherent_value i | Receipt_Err _ _ \<Rightarrow> 0)"

definition inherited ::
  "('r, 'z) acc_env_scheme \<Rightarrow> block_state \<Rightarrow> inherent \<Rightarrow> accounts \<Rightarrow> 'r option operation_receipt \<Rightarrow> accounts \<Rightarrow> bool" where
  "inherited E bs i s rc s' \<longleftrightarrow> (case rc of
     Receipt_Err _ _ \<Rightarrow> same_acc s s'
   | Receipt_Ok r \<Rightarrow> (\<exists>acc st L.
       account_commit_inherent E bs i (lookup_acc (acc_tree s) (inherent_target i), acc_store s (inherent_target i), acc_log s) =
         (Inr r, acc, st, L) \<and> \<not> can_be_pruned acc \<and>
       acc_tree s' = place (inherent_target i) acc (acc_tree s) \<and> acc_store s' = (acc_store s)(inherent_target i := st)))"

lemma rewarded_kept:
  assumes "inherent_valid E bs i" "account_balance acc = account_balance acc0 + inherent_value i"
    "account_type_of acc = account_type_of acc0" "\<not> can_be_pruned acc0 \<or> acc0 = account_default"
    "account_commit_inherent E bs i (acc0, st, L) = (Inr r, acc, st', L')"
  shows "\<not> can_be_pruned acc"
proof (cases "inherent_value i > 0")
  case True
  then show ?thesis using assms(2) pruned_empty [of acc] by auto
next
  case False
  then have nr: "\<nexists>v t c. i = Reward v t c" using assms(1) by (auto simp: inherent_valid_def)
  have "account_type_of acc0 = Staking"
  proof (cases acc0)
    case (Account_Basic b)
    then show ?thesis using assms(5) nr by (cases i) (auto simp: account_commit_inherent_def eff_simps split: prod.splits)
  qed (use assms(5) in \<open>auto simp: account_commit_inherent_def vesting_commit_inherent_def htlc_commit_inherent_def eff_simps split: prod.splits\<close>)
  then show ?thesis using assms(3) by (cases acc) simp_all
qed

lemma lookup_kept: "kept T \<Longrightarrow> \<not> can_be_pruned (lookup_acc T a) \<or> lookup_acc T a = account_default"
  by (auto simp: kept_def lookup_acc_def split: option.splits)

lemma inherent_room:
  assumes "acc_inv s" "acc_total s + inherent_value i \<le> MAX_SAFE_VALUE"
  shows "account_balance (fst (lookup_acc (acc_tree s) a, acc_store s a, acc_log s)) + inherent_value i \<le> MAX_SAFE_VALUE"
  using lookup_balance [of "acc_tree s" a] assms(2) by (simp add: acc_total_def)

lemma commit_inherent_cases:
  assumes inv: "acc_inv s" and v: "inherent_valid E bs i" and b: "acc_total s + inherent_value i \<le> MAX_SAFE_VALUE"
  shows "case accounts_commit_inherent E bs i s of
      (Inl e, s') \<Rightarrow> False
    | (Inr rc, s') \<Rightarrow> inherited E bs i s rc s'"
proof -
  let ?T = "acc_tree s" and ?a = "inherent_target i"
  let ?c = "(lookup_acc ?T ?a, acc_store s ?a, acc_log s)"
  have k: "inherent_ok (env_policy E) (bs_number bs) i" using v by (simp add: inherent_valid_def)
  note ok = acc_inv_cell [OF inv, of ?a "acc_log s"]
  obtain r acc st L where f: "account_commit_inherent E bs i ?c = (r, acc, st, L)" by (metis prod_cases4)
  have oa: "on_account ?a (lookup_acc ?T ?a) (account_commit_inherent E bs i) s =
      (map_sum id (\<lambda>x. (x, acc)) r, s \<lparr> acc_store := (acc_store s)(?a := st), acc_log := L \<rparr>)"
    by (simp add: on_account_def f)
  show ?thesis
  proof (cases r)
    case (Inl e)
    have e: "e \<noteq> Panic \<and> acc_store s ?a = st"
      using account.inh_error [OF ok k inherent_room [OF inv b] f [unfolded Inl]] by (simp add: same_cell_def)
    then obtain x where "e = AccountErr x" by (cases e) auto
    then show ?thesis
      using e by (auto simp: accounts_commit_inherent_def bind_eff_def gets_def accounts_get_lookup attempt_def oa Inl ret_def
          inherited_def same_acc_def)
  next
    case (Inr x)
    note o = account.inh_run [OF ok k inherent_room [OF inv b] f [unfolded Inr]]
    have "\<not> can_be_pruned acc"
      using rewarded_kept [OF v _ _ lookup_kept f [unfolded Inr]] o(2,3) inv by (simp add: acc_inv_def)
    then show ?thesis
      using f Inr by (simp add: accounts_commit_inherent_def bind_eff_def gets_def accounts_get_lookup attempt_def oa ret_def
          seq_eff_def put_account_run inherited_def)
  qed
qed

lemma inherited_books:
  assumes inv: "acc_inv s" and v: "inherent_valid E bs i" and b: "acc_total s + inherent_value i \<le> MAX_SAFE_VALUE"
    and m: "inherited E bs i s rc s'"
  shows "acc_inv s'" "acc_total s' = acc_total s + minted i rc"
proof -
  have "acc_inv s' \<and> acc_total s' = acc_total s + minted i rc"
  proof (cases rc)
    case (Receipt_Err r x)
    then show ?thesis using acc_inv_same [of s s'] inv m by (simp add: inherited_def minted_def)
  next
    case (Receipt_Ok r)
    let ?T = "acc_tree s" and ?a = "inherent_target i"
    from m Receipt_Ok obtain acc st L where
      f: "account_commit_inherent E bs i (lookup_acc ?T ?a, acc_store s ?a, acc_log s) = (Inr r, acc, st, L)"
      and s': "acc_tree s' = place ?a acc ?T" "acc_store s' = (acc_store s)(?a := st)"
      unfolding inherited_def by auto
    have k: "inherent_ok (env_policy E) (bs_number bs) i" using v by (simp add: inherent_valid_def)
    note o = account.inh_run [OF acc_inv_cell [OF inv] k inherent_room [OF inv b] f]
    have t: "acc_total s' = acc_total s + inherent_value i"
      using total_place [of ?a acc ?T] o(2) by (simp add: s' acc_total_def)
    have "acc_inv s'" by (rule acc_inv_place [OF inv o(1) s']) (use t b in simp)
    then show ?thesis using t by (simp add: Receipt_Ok minted_def)
  qed
  then show "acc_inv s'" "acc_total s' = acc_total s + minted i rc" by simp_all
qed

lemma inherited_reverted:
  assumes inv: "acc_inv s" and v: "inherent_valid E bs i" and b: "acc_total s + inherent_value i \<le> MAX_SAFE_VALUE"
    and k: "acc_codecs_ok E" and rv: "revertible i" and m: "inherited E bs i s rc s'" and t: "same_acc s' t"
  shows "\<exists>u. accounts_revert_inherent E i rc t = (Inr (), u) \<and> same_acc s u"
proof (cases rc)
  case (Receipt_Err r x)
  then show ?thesis using m same_acc_equiv(3) [OF _ t] by (simp add: inherited_def accounts_revert_inherent_def ret_def)
next
  case (Receipt_Ok r)
  let ?T = "acc_tree s" and ?a = "inherent_target i"
  from m Receipt_Ok obtain acc st L where
    f: "account_commit_inherent E bs i (lookup_acc ?T ?a, acc_store s ?a, acc_log s) = (Inr r, acc, st, L)"
    and p: "\<not> can_be_pruned acc"
    and s': "acc_tree s' = place ?a acc ?T" "acc_store s' = (acc_store s)(?a := st)"
    unfolding inherited_def by auto
  have ok: "inherent_ok (env_policy E) (bs_number bs) i" using v by (simp add: inherent_valid_def)
  have ua: "undone same_cell (lookup_acc ?T ?a, acc_store s ?a, acc_log s) (account_revert_inherent E i r) (acc, st, L)"
    using account.inh_run(4) [OF acc_inv_cell [OF inv] ok inherent_room [OF inv b] f k rv] by (simp add: undone_def)
  have tt: "acc_tree t = place ?a acc ?T" "acc_store t = (acc_store s)(?a := st)" using t s' by (simp_all add: same_acc_def)
  have "lookup_acc (acc_tree t) ?a = acc" using p by (simp add: tt lookup_acc_def fmlookup_place)
  moreover obtain L' where "on_account ?a acc (account_revert_inherent E i r) t =
      (Inr ((), lookup_acc ?T ?a), t \<lparr> acc_store := (acc_store t)(?a := acc_store s ?a), acc_log := L' \<rparr>)"
    using on_account_undone [OF ua, of t] by (auto simp: tt)
  ultimately show ?thesis
    using place_back [of ?T ?a acc] inv
    by (simp add: Receipt_Ok accounts_revert_inherent_def bind_eff_def gets_def accounts_get_lookup put_or_prune_eq ret_def
        same_acc_def tt acc_inv_def)
qed

section \<open>Sequences that are undone\<close>

text \<open>
  An operation on a state and its revert, where states that differ in their logs only count as the
  same. A sequence of operations is undone by the reverts from the last one to the first.
\<close>

locale undoable =
  fixes same :: "'s \<Rightarrow> 's \<Rightarrow> bool" and inv :: "'i list \<Rightarrow> 's \<Rightarrow> bool"
    and com :: "'i \<Rightarrow> ('s, 'e, 'r) eff" and rv :: "'i \<Rightarrow> 'r \<Rightarrow> ('s, 'e, unit) eff"
  assumes refl: "same s s"
    and sym: "same s t \<Longrightarrow> same t s"
    and step: "inv (i # is) s \<Longrightarrow> com i s = (Inr r, s') \<Longrightarrow> inv is s'"
    and undo: "inv (i # is) s \<Longrightarrow> com i s = (Inr r, s') \<Longrightarrow> same s' t \<Longrightarrow> \<exists>u. rv i r t = (Inr (), u) \<and> same s u"
begin

lemma steps: "inv is s \<Longrightarrow> map_eff com is s = (Inr rs, s') \<Longrightarrow> inv [] s' \<and> length rs = length is"
proof (induction "is" arbitrary: s rs)
  case Nil
  then show ?case by (simp add: ret_def)
next
  case (Cons i "is")
  then obtain r s1 rs' where "com i s = (Inr r, s1)" "map_eff com is s1 = (Inr rs', s')" "rs = r # rs'"
    by (auto simp: bind_eff_Inr eff_leaf_iff)
  then show ?case using step [OF Cons.prems(1)] Cons.IH by simp
qed

lemma undo_all:
  "inv is s \<Longrightarrow> map_eff com is s = (Inr rs, s') \<Longrightarrow> same s' t \<Longrightarrow>
    \<exists>u. for_eff (\<lambda>(i, r). rv i r) (rev (zip is rs)) t = (Inr (), u) \<and> same s u"
proof (induction "is" arbitrary: s rs t)
  case Nil
  then show ?case by (simp add: ret_def)
next
  case (Cons i "is")
  then obtain r s1 rs' where c: "com i s = (Inr r, s1)" "map_eff com is s1 = (Inr rs', s')" "rs = r # rs'"
    by (auto simp: bind_eff_Inr eff_leaf_iff)
  obtain u1 where u1: "for_eff (\<lambda>(i, r). rv i r) (rev (zip is rs')) t = (Inr (), u1)" "same s1 u1"
    using Cons.IH [OF step [OF Cons.prems(1) c(1)] c(2) Cons.prems(3)] by blast
  obtain u where "rv i r u1 = (Inr (), u)" "same s u" using undo [OF Cons.prems(1) c(1) u1(2)] by blast
  then show ?case using u1(1) by (simp add: c(3) for_eff_append seq_eff_def bind_eff_def ret_def)
qed

end

section \<open>Batches\<close>

definition same_batch :: "batch \<Rightarrow> batch \<Rightarrow> bool" where
  "same_batch b c \<longleftrightarrow> same_acc (bt_accounts b) (bt_accounts c)"

definition batch_txs_ok :: "('r, 'z) acc_env_scheme \<Rightarrow> transaction list \<Rightarrow> batch \<Rightarrow> bool" where
  "batch_txs_ok E txs b \<longleftrightarrow> acc_inv (bt_accounts b) \<and> list_all (tx_valid E) txs \<and> acc_codecs_ok E"

definition batch_inherents_ok :: "('r, 'z) acc_env_scheme \<Rightarrow> block_state \<Rightarrow> inherent list \<Rightarrow> batch \<Rightarrow> bool" where
  "batch_inherents_ok E bs is b \<longleftrightarrow> acc_inv (bt_accounts b) \<and> list_all (inherent_valid E bs) is \<and>
     acc_total (bt_accounts b) + sum_list (map inherent_value is) \<le> MAX_SAFE_VALUE"

lemma in_tx_log_Inr:
  "in_tx_log tx m b = (Inr x, b') \<longleftrightarrow> (\<exists>s'. m (bt_accounts b \<lparr> acc_log := [], acc_failed := False \<rparr>) = (Inr x, s') \<and>
     b' = b \<lparr> bt_accounts := s', bt_tx_logs := bt_tx_logs b @ [\<lparr> tl_logs = acc_log s', tl_failed = acc_failed s' \<rparr>] \<rparr>)"
  by (auto simp: in_tx_log_def split: prod.splits sum.splits error.splits)

lemma in_tx_log_Inl:
  "in_tx_log tx m b = (Inl e, b') \<Longrightarrow>
   \<exists>x s'. m (bt_accounts b \<lparr> acc_log := [], acc_failed := False \<rparr>) = (Inl x, s') \<and> (e = AccountsPanic \<longleftrightarrow> x = Panic)"
  by (auto simp: in_tx_log_def split: prod.splits sum.splits error.splits)

lemma in_inherent_log_Inr:
  "in_inherent_log i m b = (Inr x, b') \<longleftrightarrow> (\<exists>s'. m (bt_accounts b \<lparr> acc_log := bt_inherent_logs b \<rparr>) = (Inr x, s') \<and>
     b' = b \<lparr> bt_accounts := s', bt_inherent_logs := acc_log s' \<rparr>)"
  by (auto simp: in_inherent_log_def split: prod.splits sum.splits error.splits)

lemma in_inherent_log_Inl:
  "in_inherent_log i m b = (Inl e, b') \<Longrightarrow> \<exists>x s'. m (bt_accounts b \<lparr> acc_log := bt_inherent_logs b \<rparr>) = (Inl x, s')"
  by (auto simp: in_inherent_log_def split: prod.splits sum.splits error.splits)

lemma acc_inv_logs [simp]:
  "acc_inv (s \<lparr> acc_log := L \<rparr>) = acc_inv s" "acc_inv (s \<lparr> acc_failed := b \<rparr>) = acc_inv s"
  "acc_total (s \<lparr> acc_log := L \<rparr>) = acc_total s" "acc_total (s \<lparr> acc_failed := b \<rparr>) = acc_total s"
  "creatable (s \<lparr> acc_log := L \<rparr>) tx = creatable s tx" "creatable (s \<lparr> acc_failed := b \<rparr>) tx = creatable s tx"
  by (simp_all add: acc_inv_def acc_total_def creatable_def accounts_get_def)

lemma commit_tx_performed:
  assumes "batch_txs_ok E (tx # txs) b" "in_tx_log tx (commit_transaction E bs tx) b = (Inr r, b')"
  shows "performed E tx bs (bt_accounts b \<lparr> acc_log := [], acc_failed := False \<rparr>) r (bt_accounts b')"
proof -
  obtain s' where s': "commit_transaction E bs tx (bt_accounts b \<lparr> acc_log := [], acc_failed := False \<rparr>) = (Inr r, s')"
    "bt_accounts b' = s'"
    using assms(2) by (auto simp: in_tx_log_Inr)
  show ?thesis
    using commit_transaction_cases [where E = E and bs = bs and tx = tx and s = "bt_accounts b \<lparr> acc_log := [], acc_failed := False \<rparr>"] assms(1) s'
    by (simp add: batch_txs_ok_def)
qed

lemma in_tx_log_rev:
  assumes "m (bt_accounts t \<lparr> acc_log := [], acc_failed := False \<rparr>) = (Inr (), u)" "same_acc s u"
  shows "\<exists>b. in_tx_log tx m t = (Inr (), b) \<and> same_acc s (bt_accounts b)"
  using assms by (simp add: in_tx_log_def)

interpretation txs: undoable same_batch "batch_txs_ok E" "\<lambda>tx. in_tx_log tx (commit_transaction E bs tx)"
  "\<lambda>tx receipt. in_tx_log tx (revert_transaction E tx receipt)"
proof (unfold_locales, goal_cases)
  case (3 tx txs b r b')
  have "acc_inv (bt_accounts b')"
    using performed_books(1) [OF _ _ commit_tx_performed [OF 3]] 3(1) by (simp add: batch_txs_ok_def)
  then show ?case using 3(1) by (simp add: batch_txs_ok_def)
next
  case (4 tx txs b r b' t)
  note p = commit_tx_performed [OF 4(1,2)]
  have t: "same_acc (bt_accounts b') (bt_accounts t \<lparr> acc_log := [], acc_failed := False \<rparr>)" using 4(3) by (simp add: same_batch_def)
  from performed_reverted [OF _ _ _ p t] 4(1)
  obtain u where u: "revert_transaction E tx r (bt_accounts t \<lparr> acc_log := [], acc_failed := False \<rparr>) = (Inr (), u)"
    "same_acc (bt_accounts b) u"
    by (auto simp: batch_txs_ok_def)
  from in_tx_log_rev [where m = "revert_transaction E tx r", OF u] show ?case by (simp add: same_batch_def)
qed (auto simp: same_batch_def same_acc_def)

lemma commit_inh_inherited:
  assumes "batch_inherents_ok E bs (i # is) b" "in_inherent_log i (accounts_commit_inherent E bs i) b = (Inr r, b')"
  shows "inherited E bs i (bt_accounts b \<lparr> acc_log := bt_inherent_logs b \<rparr>) r (bt_accounts b')"
proof -
  obtain s' where s': "accounts_commit_inherent E bs i (bt_accounts b \<lparr> acc_log := bt_inherent_logs b \<rparr>) = (Inr r, s')"
    "bt_accounts b' = s'"
    using assms(2) by (auto simp: in_inherent_log_Inr)
  show ?thesis
    using commit_inherent_cases [where E = E and bs = bs and i = i and s = "bt_accounts b \<lparr> acc_log := bt_inherent_logs b \<rparr>"] assms(1) s'
    by (simp add: batch_inherents_ok_def)
qed

lemma batch_inherents_step:
  assumes "batch_inherents_ok E bs (i # is) b" "in_inherent_log i (accounts_commit_inherent E bs i) b = (Inr r, b')"
  shows "batch_inherents_ok E bs is b'" "acc_total (bt_accounts b') = acc_total (bt_accounts b) + minted i r"
proof -
  let ?s = "bt_accounts b \<lparr> acc_log := bt_inherent_logs b \<rparr>"
  have h: "acc_inv ?s" "inherent_valid E bs i" "acc_total ?s + inherent_value i \<le> MAX_SAFE_VALUE"
    using assms(1) by (simp_all add: batch_inherents_ok_def)
  note k = inherited_books [OF h commit_inh_inherited [OF assms]]
  have "minted i r \<le> inherent_value i" by (simp add: minted_def split: operation_receipt.splits)
  then show "batch_inherents_ok E bs is b'" using k assms(1) by (simp add: batch_inherents_ok_def)
  show "acc_total (bt_accounts b') = acc_total (bt_accounts b) + minted i r" using k(2) by simp
qed

interpretation inhs: undoable same_batch
  "\<lambda>is b. batch_inherents_ok E bs is b \<and> list_all revertible is \<and> acc_codecs_ok E"
  "\<lambda>i. in_inherent_log i (accounts_commit_inherent E bs i)"
  "\<lambda>i receipt. in_inherent_log i (accounts_revert_inherent E i receipt)"
proof (unfold_locales, goal_cases)
  case (3 i "is" b r b')
  then show ?case using batch_inherents_step(1) [of E bs i "is" b r b'] by simp
next
  case (4 i "is" b r b' t)
  let ?s = "bt_accounts b \<lparr> acc_log := bt_inherent_logs b \<rparr>"
  have h: "acc_inv ?s" "inherent_valid E bs i" "acc_total ?s + inherent_value i \<le> MAX_SAFE_VALUE"
    using 4(1) by (simp_all add: batch_inherents_ok_def)
  have t: "same_acc (bt_accounts b') (bt_accounts t \<lparr> acc_log := bt_inherent_logs t \<rparr>)" using 4(3) by (simp add: same_batch_def)
  from inherited_reverted [OF h _ _ commit_inh_inherited [OF conjunct1 [OF 4(1)] 4(2)] t] 4(1)
  obtain u where "accounts_revert_inherent E i r (bt_accounts t \<lparr> acc_log := bt_inherent_logs t \<rparr>) = (Inr (), u)"
    "same_acc (bt_accounts b) u"
    by auto
  then show ?case by (simp add: in_inherent_log_def same_batch_def)
qed (auto simp: same_batch_def same_acc_def)

section \<open>The books of a batch\<close>

definition fresh_contracts :: "accounts \<Rightarrow> transaction list \<Rightarrow> bool" where
  "fresh_contracts s txs \<longleftrightarrow> distinct (map tx_recipient (filter tx_contract_creation txs)) \<and> list_all (creatable s) txs"

lemma type_place:
  "account_type_of (lookup_acc (place a acc T) b) =
    (if a = b then if can_be_pruned acc then Basic else account_type_of acc else account_type_of (lookup_acc T b))"
  by (auto simp: lookup_acc_def place_def account_default_def)

lemma performed_creatable:
  assumes inv: "acc_inv s" and v: "tx_valid E tx" and p: "performed E tx bs s rc s'" and c: "creatable s tx'"
    and d: "tx_contract_creation tx \<Longrightarrow> tx_contract_creation tx' \<Longrightarrow> tx_recipient tx \<noteq> tx_recipient tx'"
  shows "creatable s' tx'"
proof (cases rc)
  case (Receipt_Ok r)
  let ?T = "acc_tree s" and ?a = "tx_sender tx" and ?b = "tx_recipient tx"
  from p Receipt_Ok obtain sacc sst L racc rst L' where
    out: "account_commit_outgoing E tx bs (lookup_acc ?T ?a, acc_store s ?a, acc_log s) = (Inr (trc_sender r), sacc, sst, L)"
    and rcv: "receive E tx bs (lookup_acc ?T ?b, acc_store s ?b, L) = (Inr (trc_recipient r), racc, rst, L')"
    and s': "acc_tree s' = place ?b racc (place ?a sacc ?T)"
    unfolding performed_def moved_def by auto
  have "account_type_of sacc = account_type_of (lookup_acc ?T ?a)" using account.out_run(3) [OF acc_inv_cell [OF inv] out] by simp
  moreover have "account_type_of racc = account_type_of (lookup_acc ?T ?b) \<or> tx_contract_creation tx"
    using receive_ok [OF inv v receive_creatable [OF rcv] out, of L] rcv by (auto simp: commits_def)
  ultimately show ?thesis using c d by (auto simp: creatable_def accounts_get_lookup s' type_place)
next
  case (Receipt_Err r x)
  then obtain t sacc sst L where t: "same_acc s t"
    and f: "account_commit_failed E tx bs (lookup_acc (acc_tree t) (tx_sender tx), acc_store t (tx_sender tx), acc_log t) =
      (Inr (trc_sender r), sacc, sst, L)"
    and s': "acc_tree s' = place (tx_sender tx) sacc (acc_tree t)"
    using p unfolding performed_def charged_def by auto
  have "account_type_of sacc = account_type_of (lookup_acc (acc_tree t) (tx_sender tx))"
    using account.failed_run(3) [OF acc_inv_cell [OF acc_inv_same(1) [OF t inv]] f] by simp
  then show ?thesis using c t by (auto simp: creatable_def accounts_get_lookup s' type_place same_acc_def)
qed

lemma batch_txs_books:
  assumes "batch_txs_ok E txs b" "fresh_contracts (bt_accounts b) txs"
  shows "case map_eff (\<lambda>tx. in_tx_log tx (commit_transaction E bs tx)) txs b of
      (Inl e, b') \<Rightarrow> e \<noteq> AccountsPanic
    | (Inr rs, b') \<Rightarrow> acc_inv (bt_accounts b') \<and> acc_total (bt_accounts b') + sum_list (map tx_fee txs) = acc_total (bt_accounts b)"
  using assms
proof (induction txs arbitrary: b)
  case Nil
  then show ?case by (simp add: ret_def batch_txs_ok_def)
next
  case (Cons tx txs)
  let ?com = "\<lambda>tx. in_tx_log tx (commit_transaction E bs tx)"
  let ?s = "bt_accounts b \<lparr> acc_log := [], acc_failed := False \<rparr>"
  obtain r b1 where r: "?com tx b = (r, b1)" by fastforce
  have h: "acc_inv ?s" "tx_valid E tx" "acc_codecs_ok E" "creatable ?s tx"
    using Cons.prems by (simp_all add: batch_txs_ok_def fresh_contracts_def)
  show ?case
  proof (cases r)
    case (Inl e)
    from in_tx_log_Inl [OF r [unfolded Inl]] obtain x s' where
      x: "commit_transaction E bs tx ?s = (Inl x, s')" "e = AccountsPanic \<longleftrightarrow> x = Panic" by blast
    have "x \<noteq> Panic" using commit_transaction_cases [OF h(1-3), of bs] h(4) x(1) by auto
    then show ?thesis using x(2) by (simp add: bind_eff_def r Inl)
  next
    case (Inr y)
    note p = commit_tx_performed [OF Cons.prems(1) r [unfolded Inr]]
    note k = performed_books [OF h(1,2) p]
    have "list_all (creatable (bt_accounts b1)) txs"
      using Cons.prems(2) performed_creatable [OF h(1,2) p]
      by (auto simp: fresh_contracts_def list_all_iff split: if_splits)
    then have f: "fresh_contracts (bt_accounts b1) txs" using Cons.prems(2) by (auto simp: fresh_contracts_def split: if_splits)
    have o: "batch_txs_ok E txs b1" using k(1) Cons.prems(1) by (simp add: batch_txs_ok_def)
    show ?thesis
      using Cons.IH [OF o f] k(2)
      by (cases "map_eff ?com txs b1"; cases "fst (map_eff ?com txs b1)") (auto simp: bind_eff_def r Inr ret_def)
  qed
qed

lemma batch_inherents_books:
  assumes "batch_inherents_ok E bs is b"
  shows "case map_eff (\<lambda>i. in_inherent_log i (accounts_commit_inherent E bs i)) is b of
      (Inl e, b') \<Rightarrow> False
    | (Inr rs, b') \<Rightarrow> acc_inv (bt_accounts b') \<and> length rs = length is \<and>
        acc_total (bt_accounts b') = acc_total (bt_accounts b) + sum_list (map2 minted is rs)"
  using assms
proof (induction "is" arbitrary: b)
  case Nil
  then show ?case by (simp add: ret_def batch_inherents_ok_def)
next
  case (Cons i "is")
  let ?com = "\<lambda>i. in_inherent_log i (accounts_commit_inherent E bs i)"
  let ?s = "bt_accounts b \<lparr> acc_log := bt_inherent_logs b \<rparr>"
  obtain r b1 where r: "?com i b = (r, b1)" by fastforce
  have h: "acc_inv ?s" "inherent_valid E bs i" "acc_total ?s + inherent_value i \<le> MAX_SAFE_VALUE"
    using Cons.prems by (simp_all add: batch_inherents_ok_def)
  show ?case
  proof (cases r)
    case (Inl e)
    then show ?thesis using in_inherent_log_Inl [OF r [unfolded Inl]] commit_inherent_cases [OF h] by auto
  next
    case (Inr y)
    note k = batch_inherents_step [OF Cons.prems r [unfolded Inr]]
    show ?thesis
      using Cons.IH [OF k(1)] k(2)
      by (cases "map_eff ?com is b1"; cases "fst (map_eff ?com is b1)") (auto simp: bind_eff_def r Inr ret_def)
  qed
qed

end
