(* ===== verification/StakingReach.thy ===== *)
theory StakingReach
  imports StakingUpgrade
begin

text \<open>
  The runs of the staking contract: the states that genesis, transactions, failed transactions and
  inherents lead to, block after block. The invariant that involves the block number is that a
  validator is never active while it is jailed.
\<close>

section \<open>Jailed validators are inactive\<close>

definition jail_ok :: "policy \<Rightarrow> u32 \<Rightarrow> staking_state \<Rightarrow> bool" where
  "jail_ok p bn s \<longleftrightarrow> (\<forall>a v. fmlookup (validators s) a = Some v \<longrightarrow> is_jailed p v bn \<longrightarrow> \<not> is_active v)"

lemma jail_ok_upd:
  "jail_ok p bn s \<Longrightarrow> validators s' = fmupd a v (validators s) \<Longrightarrow> (is_jailed p v bn \<longrightarrow> \<not> is_active v) \<Longrightarrow> jail_ok p bn s'"
  by (auto simp: jail_ok_def split: if_splits)

lemma jail_ok_drop: "jail_ok p bn s \<Longrightarrow> validators s' = fmdrop a (validators s) \<Longrightarrow> jail_ok p bn s'"
  by (auto simp: jail_ok_def)

lemma jail_ok_same: "jail_ok p bn s \<Longrightarrow> validators s' = validators s \<Longrightarrow> jail_ok p bn s'"
  by (simp add: jail_ok_def)

lemma jail_ok_static:
  assumes j: "jail_ok p bn s" and st: "fmmap vstat (validators s') = fmmap vstat (validators s)"
  shows "jail_ok p bn s'"
  unfolding jail_ok_def
proof (intro allI impI)
  fix a v'
  assume v': "fmlookup (validators s') a = Some v'" "is_jailed p v' bn"
  obtain v where v: "fmlookup (validators s) a = Some v" "vstat v = vstat v'" using static_lookup [OF st v'(1)] by blast
  then have "is_jailed p v bn" using v'(2) vstat_eqD(4) [OF v(2)] by (simp add: is_jailed_def)
  then have "\<not> is_active v" using j v(1) by (simp add: jail_ok_def)
  then show "\<not> is_active v'" using vstat_eqD(2) [OF v(2)] by (simp add: is_active_def)
qed

lemma jail_ok_advance: "jail_ok p bn s \<Longrightarrow> bn \<le> bn' \<Longrightarrow> jail_ok p bn' s"
  by (fastforce simp: jail_ok_def is_jailed_def split: option.splits)

lemma is_jailed_frame [simp]:
  "is_jailed p (v \<lparr> v_inactive_from := x \<rparr>) bn = is_jailed p v bn" "is_jailed p (v \<lparr> v_retired := b \<rparr>) bn = is_jailed p v bn"
  "is_jailed p (v \<lparr> v_signal_data := d \<rparr>) bn = is_jailed p v bn"
  "is_jailed p (v \<lparr> v_deposit := c \<rparr>) bn = is_jailed p v bn" "is_jailed p (v \<lparr> v_total_stake := c \<rparr>) bn = is_jailed p v bn"
  "is_jailed p (v \<lparr> v_reward_address := ra \<rparr>) bn = is_jailed p v bn"
  "is_jailed p (v \<lparr> v_signing_key := sk \<rparr>) bn = is_jailed p v bn" "is_jailed p (v \<lparr> v_voting_key := vk \<rparr>) bn = is_jailed p v bn"
  by (simp_all add: is_jailed_def)

lemma jail_okD: "jail_ok p bn s \<Longrightarrow> fmlookup (validators s) a = Some v \<Longrightarrow> is_jailed p v bn \<Longrightarrow> \<not> is_active v"
  by (auto simp: jail_ok_def)

lemma outcome_conj: "outcome r s Q \<Longrightarrow> outcome r s R \<Longrightarrow> outcome r s (\<lambda>a s'. Q a s' \<and> R a s')"
  by (auto simp: outcome_def split: sum.splits error.splits)

lemma incoming_op_jail:
  assumes inv: "sc_inv s" and j: "jail_ok (env_policy E) (bs_number bs) s" and v: "value_ok data (tx_value tx)"
    and b: "sc_balance s + tx_value tx \<le> MAX_SAFE_VALUE"
  shows "outcome (incoming_op E tx bs data s) s (\<lambda>_. jail_ok (env_policy E) (bs_number bs))"
proof (cases data)
  case (CreateValidator sk vk ra sd pok p)
  show ?thesis
    unfolding CreateValidator incoming_op.simps outcome_receipts
    by (rule outcome_mono, rule create_validator_spec [OF inv b])
      (auto simp: Let_def is_jailed_def intro!: jail_ok_upd [OF j])
next
  case (UpdateValidator sk vk ra sd pok p)
  show ?thesis
    unfolding UpdateValidator incoming_op.simps outcome_receipts
    by (rule outcome_mono, rule update_validator_spec [OF inv])
      (auto simp: is_active_def intro!: jail_ok_upd [OF j] dest: jail_okD [OF j])
next
  case (CreateStaker d p)
  have "sc_balance s + (tx_value tx + 0) \<le> MAX_SAFE_VALUE" "MINIMUM_STAKE \<le> tx_value tx + 0"
    using b v CreateStaker by simp_all
  from create_staker_spec [OF inv this] show ?thesis
    unfolding CreateStaker incoming_op.simps outcome_receipts
    by (rule outcome_mono) (auto simp: static_def intro!: jail_ok_static [OF j])
next
  case (AddStake a)
  show ?thesis
    unfolding AddStake incoming_op.simps outcome_receipts
    by (rule outcome_mono, rule add_stake_spec [OF inv b]) (auto simp: static_def intro!: jail_ok_static [OF j])
next
  case (UpdateStaker d all p)
  show ?thesis
    unfolding UpdateStaker incoming_op.simps outcome_receipts
    by (rule outcome_mono, rule update_staker_spec [OF inv]) (auto simp: static_def Let_def intro!: jail_ok_static [OF j])
next
  case (SetActiveStake c p)
  show ?thesis
    unfolding SetActiveStake incoming_op.simps outcome_receipts
    by (rule outcome_mono, rule set_active_stake_spec [OF inv]) (auto simp: static_def Let_def intro!: jail_ok_static [OF j])
next
  case (RetireStake c p)
  show ?thesis
    unfolding RetireStake incoming_op.simps outcome_receipts
    by (rule outcome_mono, rule retire_stake_spec [OF inv]) (auto intro!: jail_ok_same [OF j])
qed (simp only: incoming_op.simps outcome_receipts,
    rule outcome_mono, (rule deactivate_validator_spec [OF inv] reactivate_validator_spec [OF inv]
      retire_validator_spec [OF inv] set_signal_data_spec [OF inv]),
    auto simp: is_active_def intro!: jail_ok_upd [OF j] dest: jail_okD [OF j] split: if_splits)+

lemma commit_incoming_jail:
  assumes "sc_inv s" "jail_ok (env_policy E) (bs_number bs) s" "verify_incoming_transaction E tx version = Some (Inr ())"
    "sc_balance s + tx_value tx \<le> MAX_SAFE_VALUE"
  shows "outcome (sc_commit_incoming E tx bs s) s (\<lambda>_. jail_ok (env_policy E) (bs_number bs))"
proof -
  obtain data where d: "parse_incoming E tx = Inr data" "value_ok data (tx_value tx)"
    using verified_value [OF assms(3)] by blast
  then show ?thesis
    using incoming_op_jail [OF assms(1,2) d(2) assms(4)]
    by (simp add: sc_commit_incoming_def parse_incoming_tx_def outcome_result)
qed

lemma thins_jail_ok:
  assumes "thins s s'" "jail_ok p bn s"
  shows "jail_ok p bn s'"
  unfolding jail_ok_def
proof (intro allI impI)
  fix a v'
  assume v': "fmlookup (validators s') a = Some v'" "is_jailed p v' bn"
  then obtain v where v: "fmlookup (validators s) a = Some v" "v_jailed_from v' = v_jailed_from v"
    "v_inactive_from v' = v_inactive_from v" using assms(1) by (auto simp: thins_def)
  then have "is_jailed p v bn" using v'(2) by (simp add: is_jailed_def)
  then show "\<not> is_active v'" using jail_okD [OF assms(2) v(1)] v(3) by (simp add: is_active_def)
qed

lemma jail_commit_jail:
  assumes inv: "sc_inv s" and j: "jail_ok (env_policy E) (bs_number bs) s"
    and m: "sc_commit_inherent E bs (Jail_Inherent jv rng) s = (Inr r, s')"
  shows "jail_ok (env_policy E) (bs_number bs) s'"
proof (rule jail_commit_inv [OF inv m])
  fix jr s1 ps'
  assume s1: "jail_validator E (jv_validator_address jv) (bs_number bs) s = (Inr jr, s1)" "s' = s1 \<lparr> punished := ps' \<rparr>"
  have "jail_ok (env_policy E) (bs_number bs) s1"
    using jail_validator_spec [OF inv, of E "jv_validator_address jv" "bs_number bs"]
    unfolding s1(1) outcome_Inr by (auto simp: is_active_def intro!: jail_ok_upd [OF j] split: if_splits)
  then show ?thesis by (simp add: s1(2) jail_ok_def)
qed

lemma penalize_commit_inv:
  assumes "sc_commit_inherent E bs (Penalize slot) s = (Inr r, s')"
  obtains v s1 where "fmlookup (validators s) (ps_validator_address slot) = Some v"
    "if is_active v then deactivate_validator E (ps_validator_address slot) (addr_of_key E (v_signing_key v)) (bs_number bs) s =
      (Inr (), s1) else s1 = s" "validators s' = validators s1"
proof -
  obtain v s1 where v: "fmlookup (validators s) (ps_validator_address slot) = Some v"
    "when_eff (is_active v) (with_tx_logger (deactivate_validator E (ps_validator_address slot)
      (addr_of_key E (v_signing_key v)) (bs_number bs))) s = (Inr (), s1)" "validators s' = validators s1"
    using assms
    by (auto simp: bind_eff_Inr seq_eff_Inr expect_validator_Inr Let_def store_Inr eff_leaf_iff put_punished_def
        case_prod_unfold)
  moreover from v(2) have "if is_active v then deactivate_validator E (ps_validator_address slot) (addr_of_key E (v_signing_key v))
      (bs_number bs) s = (Inr (), s1) else s1 = s"
    using with_tx_logger_inv [OF logging_validator_ops(1)] by (auto simp: when_eff_def ret_def split: if_splits)
  ultimately show ?thesis using that by blast
qed

lemma penalize_commit_jail:
  assumes inv: "sc_inv s" and j: "jail_ok (env_policy E) (bs_number bs) s"
    and m: "sc_commit_inherent E bs (Penalize slot) s = (Inr r, s')"
  shows "jail_ok (env_policy E) (bs_number bs) s'"
proof (rule penalize_commit_inv [OF m])
  fix v :: validator and s1
  let ?d = "deactivate_validator E (ps_validator_address slot) (addr_of_key E (v_signing_key v)) (bs_number bs) s"
  assume s1: "if is_active v then ?d = (Inr (), s1) else s1 = s" "validators s' = validators s1"
  have "jail_ok (env_policy E) (bs_number bs) s1"
  proof (cases "is_active v")
    case True
    then show ?thesis
      using s1(1) deactivate_validator_spec [OF inv, of E "ps_validator_address slot" "addr_of_key E (v_signing_key v)" "bs_number bs"]
      by (auto simp: outcome_Inr is_active_def intro!: jail_ok_upd [OF j])
  qed (use s1 j in simp)
  then show ?thesis by (rule jail_ok_same) (rule s1(2))
qed

lemma upgrade_commit_jail:
  assumes inv: "sc_inv s" and j: "jail_ok p bn s" and m: "sc_commit_inherent E bs (VersionUpgrade ver) s = (Inr r, s')"
  shows "jail_ok p bn s'"
proof -
  have v: "fmlookup (validators s') a = (if unsupporting (\<lambda>data. supports_upgrade data ver) s a
       then map_option (deactivated (election_block_after (env_policy E) (bs_number bs - 1))) (fmlookup (validators s) a)
       else fmlookup (validators s) a)" for a
    using upgrade_commit_run [OF inv refl, of E bs ver] m by auto
  show ?thesis using j by (auto simp: jail_ok_def v split: if_splits)
qed

lemma commit_inherent_jail:
  assumes inv: "sc_inv s" and j: "jail_ok (env_policy E) (bs_number bs) s" and m: "sc_commit_inherent E bs i s = (Inr r, s')"
  shows "jail_ok (env_policy E) (bs_number bs) s'"
proof (cases i)
  case (Penalize slot)
  then show ?thesis using penalize_commit_jail [OF inv j] m by blast
next
  case (Jail_Inherent jv rng)
  then show ?thesis using jail_commit_jail [OF inv j] m by blast
next
  case (VersionUpgrade ver)
  then show ?thesis using upgrade_commit_jail [OF inv j] m by blast
next
  case FinalizeBatch
  then have "validators s' = validators s"
    using m by (auto simp: bind_eff_Inr seq_eff_Inr store_Inr eff_leaf_iff put_punished_def)
  then show ?thesis by (rule jail_ok_same [OF j])
qed (use m j in \<open>simp_all add: ret_def throw_def\<close>)

section \<open>Runs\<close>

definition sc_default :: staking_state where
  "sc_default = \<lparr> sc_balance = 0, active_validators = fmempty, punished = punished_slots_default,
     validators = fmempty, stakers = fmempty, tombstones = fmempty, tx_log = [] \<rparr>"

text \<open>
  The genesis builder creates the validators and stakers of the genesis block with the operations of
  the contract. Every later step handles one transaction or inherent, at the number of its block, and
  is taken whether it succeeds or fails. Each transaction starts with a log of its own.
\<close>

inductive sc_reach :: "('r, 'z) sc_env_scheme \<Rightarrow> u32 \<Rightarrow> staking_state \<Rightarrow> bool" for E where
  reach_default: "sc_reach E bn sc_default"
| reach_genesis_validator: "sc_reach E bn s \<Longrightarrow> sc_balance s + deposit \<le> MAX_SAFE_VALUE \<Longrightarrow>
    create_validator E a sk vk ra sd deposit ifr jf rtd bn s = (r, s') \<Longrightarrow> sc_reach E bn s'"
| reach_genesis_staker: "sc_reach E bn s \<Longrightarrow> sc_balance s + (c + ib) \<le> MAX_SAFE_VALUE \<Longrightarrow> MINIMUM_STAKE \<le> c + ib \<Longrightarrow>
    create_staker k c d ib ifr s = (r, s') \<Longrightarrow> sc_reach E bn s'"
| reach_incoming: "sc_reach E bn s \<Longrightarrow> verify_incoming_transaction E tx version = Some (Inr ()) \<Longrightarrow>
    sc_balance s + tx_value tx \<le> MAX_SAFE_VALUE \<Longrightarrow> bs_number bs = bn \<Longrightarrow>
    sc_commit_incoming E tx bs s = (r', s') \<Longrightarrow> sc_reach E bn s'"
| reach_outgoing: "sc_reach E bn s \<Longrightarrow> sc_commit_outgoing E tx bs s = (r', s') \<Longrightarrow> sc_reach E bn s'"
| reach_failed: "sc_reach E bn s \<Longrightarrow> sc_commit_failed E tx bs s = (r', s') \<Longrightarrow> sc_reach E bn s'"
| reach_inherent: "sc_reach E bn s \<Longrightarrow> inherent_ok (env_policy E) bn i \<Longrightarrow> bs_number bs = bn \<Longrightarrow>
    sc_commit_inherent E bs i s = (r', s') \<Longrightarrow> sc_reach E bn s'"
| reach_block: "sc_reach E bn s \<Longrightarrow> bn \<le> bn' \<Longrightarrow> sc_reach E bn' s"
| reach_log: "sc_reach E bn s \<Longrightarrow> sc_reach E bn (s \<lparr> tx_log := L \<rparr>)"

definition run_inv :: "policy \<Rightarrow> u32 \<Rightarrow> staking_state \<Rightarrow> bool" where
  "run_inv p bn s \<longleftrightarrow> sc_inv s \<and> wf_punished (punished s) \<and> jail_ok p bn s"

lemma sc_inv_default: "sc_inv sc_default"
  by (simp add: sc_inv_def sc_default_def targets_def target_ok_def stakers_ok_def retired_ok_def stake_of_def count_of_def)

lemma run_inv_default: "run_inv p bn sc_default"
  using sc_inv_default by (simp add: run_inv_def jail_ok_def sc_default_def wf_punished_def punished_slots_default_def)

lemma run_inv_log [simp]: "run_inv p bn (s \<lparr> tx_log := L \<rparr>) = run_inv p bn s"
  by (simp add: run_inv_def jail_ok_def)

lemma outcome_step:
  assumes "x = (r, s')" "run_inv p bn s" "outcome x s Q" "\<And>a s'. Q a s' \<Longrightarrow> run_inv p bn s'"
  shows "run_inv p bn s'"
proof (cases r)
  case (Inl e)
  then show ?thesis using assms by (cases e) (auto simp: outcome_def)
next
  case (Inr a)
  then show ?thesis using assms by (simp add: outcome_Inr)
qed

lemma safe_step:
  assumes "x = (r, s')" "run_inv p bn s" "safe x s Q" "\<And>a s'. Q a s' \<Longrightarrow> run_inv p bn s'"
  shows "run_inv p bn s'"
proof (cases r)
  case (Inl e)
  then have "s' = s \<lparr> tx_log := tx_log s' \<rparr>" using assms(1,3) by (auto simp: safe_def split: error.splits)
  then show ?thesis using assms(2) run_inv_log [where s = s and L = "tx_log s'"] by simp
next
  case (Inr a)
  then show ?thesis using assms by (simp add: safe_def)
qed

lemma reach_run_inv: "sc_reach E bn s \<Longrightarrow> run_inv (env_policy E) bn s"
proof (induction rule: sc_reach.induct)
  case (reach_default bn)
  show ?case by (rule run_inv_default)
next
  case (reach_genesis_validator bn s deposit a sk vk ra sd ifr jf rtd r s')
  have i: "sc_inv s" and j: "jail_ok (env_policy E) bn s" using reach_genesis_validator(4) by (simp_all add: run_inv_def)
  show ?case
    by (rule outcome_step [OF reach_genesis_validator(3,4)], rule create_validator_spec [OF i reach_genesis_validator(2)])
      (use reach_genesis_validator(4) in \<open>auto simp: run_inv_def Let_def is_active_def intro!: jail_ok_upd [OF j]\<close>)
next
  case (reach_genesis_staker bn s c ib k d ifr r s')
  have i: "sc_inv s" and j: "jail_ok (env_policy E) bn s" using reach_genesis_staker(5) by (simp_all add: run_inv_def)
  show ?case
    by (rule outcome_step [OF reach_genesis_staker(4,5)], rule create_staker_spec [OF i reach_genesis_staker(2,3)])
      (use reach_genesis_staker(5) in \<open>auto simp: run_inv_def static_def intro!: jail_ok_static [OF j]\<close>)
next
  case (reach_incoming bn s tx version bs r' s')
  have i: "sc_inv s" and j: "jail_ok (env_policy E) (bs_number bs) s" using reach_incoming(4,6) by (simp_all add: run_inv_def)
  show ?case
    by (rule outcome_step [OF reach_incoming(5,6)], rule outcome_conj [OF commit_incoming_safe [OF i reach_incoming(2,3)]
          commit_incoming_jail [OF i j reach_incoming(2,3)]])
      (use reach_incoming(4,6) in \<open>auto simp: run_inv_def incoming_post_def\<close>)
next
  case (reach_outgoing bn s tx bs r' s')
  have i: "sc_inv s" using reach_outgoing(3) by (simp add: run_inv_def)
  show ?case
    by (rule safe_step [OF reach_outgoing(2,3)], rule commit_outgoing_safe [OF i])
      (use reach_outgoing(3) thins_jail_ok in \<open>auto simp: run_inv_def outgoing_post_def\<close>)
next
  case (reach_failed bn s tx bs r' s')
  have i: "sc_inv s" using reach_failed(3) by (simp add: run_inv_def)
  show ?case
    by (rule safe_step [OF reach_failed(2,3)], rule commit_failed_safe [OF i])
      (use reach_failed(3) thins_jail_ok in \<open>auto simp: run_inv_def outgoing_post_def\<close>)
next
  case (reach_inherent bn s i bs r' s')
  then have v: "sc_inv s" "wf_punished (punished s)" "jail_ok (env_policy E) (bs_number bs) s"
    "inherent_ok (env_policy E) (bs_number bs) i" by (simp_all add: run_inv_def)
  note c = commit_inherent_safe [OF v(1,2,4)]
  show ?case
  proof (cases r')
    case (Inl e)
    then have "s' = s" using c reach_inherent(4) by (cases e) (auto simp: outcome_def)
    then show ?thesis using reach_inherent(5) by simp
  next
    case (Inr a)
    then show ?thesis
      using c reach_inherent(3,4) commit_inherent_jail [OF v(1,3)] by (auto simp: outcome_Inr run_inv_def inherent_post_def)
  qed
next
  case (reach_block bn s bn')
  then show ?case using jail_ok_advance by (auto simp: run_inv_def)
qed simp

end
