(* ===== verification/StakingStake.thy ===== *)
theory StakingStake
  imports StakingReach
begin

text \<open>
  The active stake: what the contract counts for elections and upgrades is the stake of the active
  validators, and it is covered by the balance of the contract.
\<close>

definition backing :: "(validator \<Rightarrow> bool) \<Rightarrow> staking_state \<Rightarrow> nat" where
  "backing P s = fsum (\<lambda>v. if P v then v_total_stake v else 0) (validators s)"

lemma sum_delegated: "(\<Sum>a\<in>A. stake_of m a) \<le> fsum s_total m" if "finite A"
proof -
  have "(\<Sum>a\<in>A. stake_of m a) = (\<Sum>k\<in>fmdom' m. \<Sum>a\<in>A. if s_delegation (the (fmlookup m k)) = Some a
      then s_active_balance (the (fmlookup m k)) else 0)"
    unfolding stake_of_def fsum_def by (rule sum.swap)
  also have "\<dots> \<le> fsum s_total m"
    unfolding fsum_def
  proof (rule sum_mono)
    fix k
    let ?st = "the (fmlookup m k)"
    have "(\<Sum>a\<in>A. if s_delegation ?st = Some a then s_active_balance ?st else 0) \<le> s_active_balance ?st"
    proof (cases "s_delegation ?st")
      case (Some b)
      then show ?thesis using that by (simp add: sum.delta')
    qed simp
    then show "(\<Sum>a\<in>A. if s_delegation ?st = Some a then s_active_balance ?st else 0) \<le> s_total ?st"
      by (simp add: s_total_def)
  qed
  finally show ?thesis .
qed

lemma backing_bound:
  assumes inv: "sc_inv s"
  shows "backing P s \<le> sc_balance s"
proof -
  note t = sc_invD(1) [OF inv]
  have "backing P s \<le> (\<Sum>a\<in>fmdom' (validators s). v_deposit (the (fmlookup (validators s) a)) + stake_of (stakers s) a)"
    unfolding backing_def fsum_def
  proof (rule sum_mono)
    fix a
    assume "a \<in> fmdom' (validators s)"
    then obtain v where v: "fmlookup (validators s) a = Some v" by (auto simp: fmlookup_dom'_iff)
    then show "(if P (the (fmlookup (validators s) a)) then v_total_stake (the (fmlookup (validators s) a)) else 0) \<le>
        v_deposit (the (fmlookup (validators s) a)) + stake_of (stakers s) a"
      using target_okD(2) [OF t v] by simp
  qed
  also have "\<dots> \<le> fsum v_deposit (validators s) + fsum s_total (stakers s)"
    using sum_delegated [of "fmdom' (validators s)" "stakers s"] by (simp add: sum.distrib fsum_def)
  finally show ?thesis using inv by (simp add: sc_inv_def)
qed

lemma sum_active:
  assumes inv: "sc_inv s"
  shows "sum_list (map (\<lambda>a. the (fmlookup (active_validators s) a)) (filter (\<lambda>a. P (the (fmlookup (validators s) a)))
      (sorted_list_of_fset (fmdom (active_validators s))))) = backing (\<lambda>v. is_active v \<and> P v) s"
proof -
  let ?V = "validators s" and ?A = "active_validators s"
  let ?g = "\<lambda>a. if P (the (fmlookup ?V a)) then the (fmlookup ?A a) else 0"
  let ?h = "\<lambda>a. if is_active (the (fmlookup ?V a)) \<and> P (the (fmlookup ?V a)) then v_total_stake (the (fmlookup ?V a)) else 0"
  have "sum_list (map (\<lambda>a. the (fmlookup ?A a)) (filter (\<lambda>a. P (the (fmlookup ?V a))) ks)) = sum_list (map ?g ks)" for ks
    by (induction ks) simp_all
  then have "sum_list (map (\<lambda>a. the (fmlookup ?A a)) (filter (\<lambda>a. P (the (fmlookup ?V a)))
      (sorted_list_of_fset (fmdom ?A)))) = (\<Sum>a\<in>fmdom' ?A. ?g a)"
    by (simp add: sum_list_sorted_fset fmdom'_alt_def)
  also have "\<dots> = (\<Sum>a\<in>fmdom' ?A. ?h a)"
  proof (rule sum.cong [OF refl])
    fix a
    assume "a \<in> fmdom' ?A"
    then obtain v where v: "fmlookup ?V a = Some v" "is_active v"
      using active_domain [OF inv] by (metis fmdom'_alt_def)
    then show "?g a = ?h a" using active_lookup [OF inv v(1)] by simp
  qed
  also have "\<dots> = (\<Sum>a\<in>fmdom' ?V. ?h a)"
  proof (rule sum.mono_neutral_left)
    show "fmdom' ?A \<subseteq> fmdom' ?V" using active_domain [OF inv] by (auto simp: fmdom'_alt_def fmlookup_dom_iff)
    show "\<forall>a\<in>fmdom' ?V - fmdom' ?A. ?h a = 0"
      using active_domain [OF inv] by (fastforce simp: fmdom'_alt_def fmlookup_dom_iff)
  qed simp
  finally show ?thesis by (simp add: backing_def fsum_def)
qed

lemma active_stake_eq:
  assumes inv: "sc_inv s"
  shows "get_active_stake s = Some (backing is_active s)"
    "get_supporting_stake chk s = Some (backing (\<lambda>v. is_active v \<and> chk (v_signal_data v)) s)"
proof -
  have b: "backing P s \<le> MAX_SAFE_VALUE" for P using backing_bound [OF inv] sc_invD(3) [OF inv] le_trans by blast
  show "get_active_stake s = Some (backing is_active s)"
    using sum_active [OF inv, of "\<lambda>_. True"] b by (simp add: get_active_stake_def coin_sum_eq)
  have "list_all (\<lambda>a. fmlookup (validators s) a \<noteq> None) (sorted_list_of_fset (fmdom (active_validators s)))"
    using active_domain [OF inv] by (auto simp: list_all_iff)
  then show "get_supporting_stake chk s = Some (backing (\<lambda>v. is_active v \<and> chk (v_signal_data v)) s)"
    using sum_active [OF inv, of "\<lambda>v. chk (v_signal_data v)"] b by (simp add: get_supporting_stake_def coin_sum_eq Let_def)
qed

end
