(* ===== verification/StakingProperties.thy ===== *)
theory StakingProperties
  imports StakingStake
begin

text \<open>
  What the staking contract guarantees, with a concrete environment, contract and transactions on
  which the guarantees are exercised.
\<close>

section \<open>An example\<close>

text \<open>Receipts that serialize to themselves.\<close>

datatype any_receipt =
    R_Penalize penalize_receipt | R_Jail jail_receipt | R_UpdateValidator update_validator_receipt
  | R_SetSignalData set_signal_data_receipt | R_Reactivate reactivate_validator_receipt
  | R_Retire retire_validator_receipt | R_DeleteValidator delete_validator_receipt | R_Staker staker_receipt
  | R_SetActiveStake set_active_stake_receipt | R_RetireStake retire_stake_receipt | R_DeleteStaker delete_staker_receipt

definition example_env :: "any_receipt sc_env" where
  "example_env = \<lparr> env_policy = MAINNET_POLICY, addr_of_key = (\<lambda>_. 7),
     deserialize_incoming = (\<lambda>bs. if bs = [1] then Inr (CreateStaker (Some 7) []) else Inl ''unexpected end''),
     deserialize_incoming_prefix = (\<lambda>bs. if bs = [1] then Inr (CreateStaker (Some 7) []) else Inl ''unexpected end''),
     serialize_incoming = (\<lambda>_. [1]),
     deserialize_outgoing = (\<lambda>bs. if bs = [2] then Inr RemoveStake else Inr DeleteValidator),
     deserialize_proof = Inr, compute_signer = (\<lambda>pf. if pf = [] then 9 else 5),
     is_default_public_key = (\<lambda>_. False), default_proof = [], verify_proof = (\<lambda>_ _. True),
     serialize_content = (\<lambda>_. []), bls_verify = (\<lambda>_ _. Some True),
     penalize_codec = \<lparr> serialize_to_vec = R_Penalize, deserialize_from_vec = (\<lambda>r. case r of R_Penalize x \<Rightarrow> Inr x | _ \<Rightarrow> Inl []) \<rparr>,
     jail_codec = \<lparr> serialize_to_vec = R_Jail, deserialize_from_vec = (\<lambda>r. case r of R_Jail x \<Rightarrow> Inr x | _ \<Rightarrow> Inl []) \<rparr>,
     update_validator_codec = \<lparr> serialize_to_vec = R_UpdateValidator,
       deserialize_from_vec = (\<lambda>r. case r of R_UpdateValidator x \<Rightarrow> Inr x | _ \<Rightarrow> Inl []) \<rparr>,
     set_signal_data_codec = \<lparr> serialize_to_vec = R_SetSignalData,
       deserialize_from_vec = (\<lambda>r. case r of R_SetSignalData x \<Rightarrow> Inr x | _ \<Rightarrow> Inl []) \<rparr>,
     reactivate_validator_codec = \<lparr> serialize_to_vec = R_Reactivate,
       deserialize_from_vec = (\<lambda>r. case r of R_Reactivate x \<Rightarrow> Inr x | _ \<Rightarrow> Inl []) \<rparr>,
     retire_validator_codec = \<lparr> serialize_to_vec = R_Retire,
       deserialize_from_vec = (\<lambda>r. case r of R_Retire x \<Rightarrow> Inr x | _ \<Rightarrow> Inl []) \<rparr>,
     delete_validator_codec = \<lparr> serialize_to_vec = R_DeleteValidator,
       deserialize_from_vec = (\<lambda>r. case r of R_DeleteValidator x \<Rightarrow> Inr x | _ \<Rightarrow> Inl []) \<rparr>,
     staker_codec = \<lparr> serialize_to_vec = R_Staker, deserialize_from_vec = (\<lambda>r. case r of R_Staker x \<Rightarrow> Inr x | _ \<Rightarrow> Inl []) \<rparr>,
     set_active_stake_codec = \<lparr> serialize_to_vec = R_SetActiveStake,
       deserialize_from_vec = (\<lambda>r. case r of R_SetActiveStake x \<Rightarrow> Inr x | _ \<Rightarrow> Inl []) \<rparr>,
     retire_stake_codec = \<lparr> serialize_to_vec = R_RetireStake,
       deserialize_from_vec = (\<lambda>r. case r of R_RetireStake x \<Rightarrow> Inr x | _ \<Rightarrow> Inl []) \<rparr>,
     delete_staker_codec = \<lparr> serialize_to_vec = R_DeleteStaker,
       deserialize_from_vec = (\<lambda>r. case r of R_DeleteStaker x \<Rightarrow> Inr x | _ \<Rightarrow> Inl []) \<rparr> \<rparr>"

definition example_validator :: validator where
  "example_validator = \<lparr> v_address = 7, v_signing_key = [], v_voting_key = [], v_reward_address = 8, v_signal_data = None,
     v_total_stake = VALIDATOR_DEPOSIT, v_deposit = VALIDATOR_DEPOSIT, v_num_stakers = 0, v_inactive_from = None,
     v_jailed_from = None, v_retired = False \<rparr>"

definition example_staker :: staker where
  "example_staker = \<lparr> s_address = 5, s_active_balance = 0, s_inactive_balance = 0, s_inactive_from = None,
     s_retired_balance = MINIMUM_STAKE, s_delegation = None \<rparr>"

definition example_state :: staking_state where
  "example_state = \<lparr> sc_balance = VALIDATOR_DEPOSIT + MINIMUM_STAKE,
     active_validators = fmupd 7 VALIDATOR_DEPOSIT fmempty, punished = punished_slots_default,
     validators = fmupd 7 example_validator fmempty, stakers = fmupd 5 example_staker fmempty, tombstones = fmempty,
     tx_log = [] \<rparr>"

definition example_incoming :: transaction where
  "example_incoming = \<lparr> tx_sender = 9, tx_sender_type = Basic, tx_sender_data = [], tx_recipient = STAKING_CONTRACT_ADDRESS,
     tx_recipient_type = Staking, tx_recipient_data = [1], tx_value = MINIMUM_STAKE, tx_fee = 0,
     tx_validity_start_height = 1, tx_network_id = MainAlbatross, tx_contract_creation = False, tx_signaling = False, tx_proof = [] \<rparr>"

definition example_outgoing :: transaction where
  "example_outgoing = \<lparr> tx_sender = STAKING_CONTRACT_ADDRESS, tx_sender_type = Staking, tx_sender_data = [2], tx_recipient = 9,
     tx_recipient_type = Basic, tx_recipient_data = [], tx_value = MINIMUM_STAKE - 10, tx_fee = 10,
     tx_validity_start_height = 1, tx_network_id = MainAlbatross, tx_contract_creation = False, tx_signaling = False, tx_proof = [5] \<rparr>"

definition example_block :: block_state where
  "example_block = \<lparr> bs_number = 3456012, bs_time = 0, bs_protocol_version = 1 \<rparr>"

lemma example_codecs: "codecs_ok example_env"
  by (simp add: codecs_ok_def codec_ok_def example_env_def)

lemma example_inv: "sc_inv example_state"
  by (auto simp: sc_inv_def example_state_def targets_def target_ok_def stakers_ok_def retired_ok_def stake_of_def count_of_def
      example_validator_def example_staker_def is_active_def staker_ok_def s_total_def MINIMUM_STAKE_def VALIDATOR_DEPOSIT_def
      MAX_SAFE_VALUE_def)

lemma example_verified: "verify_incoming_transaction example_env example_incoming 1 = Some (Inr ())"
  by (simp add: verify_incoming_transaction_def example_env_def example_incoming_def parse_incoming_def
      verify_transaction_signature_def set_signature_on_data_def)

lemma example_bound: "sc_balance example_state + tx_value example_incoming \<le> MAX_SAFE_VALUE"
  by (simp add: example_state_def example_incoming_def MINIMUM_STAKE_def VALIDATOR_DEPOSIT_def MAX_SAFE_VALUE_def)

section \<open>Runs\<close>



section \<open>Transactions\<close>

lemma example_incoming_run:
  "succeeds (sc_commit_incoming example_env example_incoming example_block example_state) (\<lambda>r s. r = None \<and>
     map_option s_active_balance (fmlookup (stakers s) 9) = Some MINIMUM_STAKE \<and>
     fmlookup (active_validators s) 7 = Some (VALIDATOR_DEPOSIT + MINIMUM_STAKE))"
  by (simp add: sc_commit_incoming_def parse_incoming_tx_def parse_incoming_def example_incoming_def example_env_def of_result_run
      no_receipt_def create_staker_def on_delegation_def register_staker_on_validator_def increase_stake_to_validator_def
      example_state_def example_validator_def succeeds_simps Let_def is_active_def MINIMUM_STAKE_def VALIDATOR_DEPOSIT_def
      MAX_SAFE_VALUE_def)

lemma example_outgoing_run:
  "succeeds (sc_commit_outgoing example_env example_outgoing example_block example_state) (\<lambda>r s. r \<noteq> None \<and>
     sc_balance s = VALIDATOR_DEPOSIT \<and> fmlookup (stakers s) 5 = None)"
  by (simp add: sc_commit_outgoing_def parse_outgoing_tx_def parse_outgoing_def example_outgoing_def example_env_def of_result_run
      remove_stake_def enforce_min_stake_def from_u64_unchecked_def coin_try_from_def coin_simps coin_add_def can_remove_stake_def on_delegation_def total_balance_def total_value_def coin_saturating_add_eq
      example_state_def example_staker_def succeeds_simps Let_def MINIMUM_STAKE_def VALIDATOR_DEPOSIT_def MAX_SAFE_VALUE_def)

text \<open>
  C23. An incoming staking transaction that passed verification never panics on a consistent contract.
  If it is rejected, nothing changes; if it is accepted, the contract stays consistent and its balance
  grows by exactly the value of the transaction.
\<close>

theorem staking_incoming_safe:
  assumes "sc_inv s" "verify_incoming_transaction E tx version = Some (Inr ())"
    "sc_balance s + tx_value tx \<le> MAX_SAFE_VALUE" "sc_commit_incoming E tx bs s = (r, s')"
  shows "case r of Inl e \<Rightarrow> e \<noteq> Panic \<and> s' = s
    | Inr _ \<Rightarrow> sc_inv s' \<and> sc_balance s' = sc_balance s + tx_value tx \<and> punished s' = punished s"
  using commit_incoming_safe [OF assms(1-3), of bs] unfolding assms(4)
  by (cases r) (auto simp: outcome_def incoming_post_def split: error.splits)

theorem staking_incoming_safe_witness:
  "\<exists>s'. sc_commit_incoming example_env example_incoming example_block example_state = (Inr None, s') \<and>
     sc_balance s' = VALIDATOR_DEPOSIT + MINIMUM_STAKE + MINIMUM_STAKE \<and> sc_inv s'"
proof -
  obtain s' where s': "sc_commit_incoming example_env example_incoming example_block example_state = (Inr None, s')"
    using example_incoming_run unfolding succeeds_eq by auto
  then show ?thesis
    using staking_incoming_safe [OF example_inv example_verified example_bound s']
    by (simp add: example_state_def example_incoming_def)
qed

text \<open>
  C24. An outgoing transaction takes exactly its value and fee from a consistent contract, a failed one
  exactly its fee, and the contract stays consistent; when the handler rejects it, only the log has
  changed. Neither handler panics.
\<close>

theorem staking_outgoing_safe:
  assumes "sc_inv s"
  shows "(case sc_commit_outgoing E tx bs s of
      (Inl e, s') \<Rightarrow> e \<noteq> Panic \<and> s' = s \<lparr> tx_log := tx_log s' \<rparr>
    | (Inr _, s') \<Rightarrow> sc_inv s' \<and> total_value tx \<le> sc_balance s \<and> sc_balance s' = sc_balance s - total_value tx) \<and>
    (case sc_commit_failed E tx bs s of
      (Inl e, s') \<Rightarrow> e \<noteq> Panic \<and> s' = s \<lparr> tx_log := tx_log s' \<rparr>
    | (Inr _, s') \<Rightarrow> sc_inv s' \<and> tx_fee tx \<le> sc_balance s \<and> sc_balance s' = sc_balance s - tx_fee tx)"
  using commit_outgoing_safe [OF assms, of E tx bs] commit_failed_safe [OF assms, of E tx bs]
  by (auto simp: safe_def outgoing_post_def split: sum.splits prod.splits error.splits)

theorem staking_outgoing_safe_witness:
  "\<exists>r s'. sc_commit_outgoing example_env example_outgoing example_block example_state = (Inr r, s') \<and>
     sc_balance s' = VALIDATOR_DEPOSIT \<and> sc_inv s'"
proof -
  obtain r s' where s': "sc_commit_outgoing example_env example_outgoing example_block example_state = (Inr r, s')"
    "sc_balance s' = VALIDATOR_DEPOSIT"
    using example_outgoing_run unfolding succeeds_eq by auto
  then show ?thesis
    using staking_outgoing_safe [OF example_inv, where E = example_env and tx = example_outgoing and bs = example_block] by auto
qed

section \<open>Reverting\<close>

text \<open>
  Reverting an incoming staking transaction with its receipt restores the contract: the revert
  succeeds, every validator, staker and tombstone, the active list and the balance are as before, and
  the log holds the events of the transaction once more, in the opposite order.
\<close>

theorem staking_incoming_reverted:
  assumes "sc_inv s" "codecs_ok E" "verify_incoming_transaction E tx version = Some (Inr ())"
    "sc_balance s + tx_value tx \<le> MAX_SAFE_VALUE" "sc_commit_incoming E tx bs s = (Inr receipt, s')"
  shows "\<exists>ls. tx_log s' = tx_log s @ ls \<and>
    sc_revert_incoming E tx receipt s' = (Inr (), s \<lparr> tx_log := tx_log s @ ls @ rev ls \<rparr>)"
  using commit_incoming_undo [OF assms(1-4), of bs] assms(5) unfolding undoes_def by fastforce

theorem staking_incoming_reverted_witness:
  "\<exists>s' L. sc_commit_incoming example_env example_incoming example_block example_state = (Inr None, s') \<and>
     fmlookup (stakers s') 9 \<noteq> None \<and>
     sc_revert_incoming example_env example_incoming None s' = (Inr (), example_state \<lparr> tx_log := L \<rparr>)"
proof -
  obtain s' where s': "sc_commit_incoming example_env example_incoming example_block example_state = (Inr None, s')"
    "fmlookup (stakers s') 9 \<noteq> None"
    using example_incoming_run unfolding succeeds_eq by auto
  then show ?thesis
    using staking_incoming_reverted [OF example_inv example_codecs example_verified example_bound s'(1)] by blast
qed

text \<open>
  Reverting an outgoing staking transaction with its receipt, a deleted validator or staker
  included, restores the contract and logs the events in the opposite order. Reverting a failed one
  restores everything but the log.
\<close>

theorem staking_outgoing_reverted:
  assumes "sc_inv s" "codecs_ok E"
  shows "(\<forall>receipt s'. sc_commit_outgoing E tx bs s = (Inr receipt, s') \<longrightarrow> (\<exists>ls. tx_log s' = tx_log s @ ls \<and>
      sc_revert_outgoing E tx receipt s' = (Inr (), s \<lparr> tx_log := tx_log s @ ls @ rev ls \<rparr>))) \<and>
    (\<forall>receipt s'. sc_commit_failed E tx bs s = (Inr receipt, s') \<longrightarrow>
      (\<exists>L. sc_revert_failed E tx receipt s' = (Inr (), s \<lparr> tx_log := L \<rparr>)))"
  using commit_outgoing_undo [OF assms, of tx bs] commit_failed_restores [OF assms, of tx bs]
  unfolding undoes_def restores_def by fastforce

theorem staking_outgoing_reverted_witness:
  "\<exists>r s' L. sc_commit_outgoing example_env example_outgoing example_block example_state = (Inr r, s') \<and>
     fmlookup (stakers s') 5 = None \<and>
     sc_revert_outgoing example_env example_outgoing r s' = (Inr (), example_state \<lparr> tx_log := L \<rparr>)"
proof -
  obtain r s' where s': "sc_commit_outgoing example_env example_outgoing example_block example_state = (Inr r, s')"
    "fmlookup (stakers s') 5 = None"
    using example_outgoing_run unfolding succeeds_eq by auto
  then show ?thesis
    using staking_outgoing_reverted [OF example_inv example_codecs, where tx = example_outgoing and bs = example_block] by blast
qed

section \<open>Inherents\<close>

definition example_penalty :: inherent where
  "example_penalty = Penalize \<lparr> ps_slot = 3, ps_validator_address = 7, ps_offense_event_block = 3456010 \<rparr>"

lemma example_penalty_run:
  "succeeds (sc_commit_inherent example_env example_block example_penalty example_state) (\<lambda>r s. r \<noteq> None \<and>
     fmlookup (active_validators s) 7 = None \<and> fmlookup (current_batch (punished s)) 7 = Some {|3|})"
proof -
  let ?m = "deactivate_validator example_env 7 (addr_of_key example_env (v_signing_key example_validator)) 3456012"
  have v: "fmlookup (validators example_state) 7 = Some example_validator" "is_active example_validator"
    by (simp_all add: example_state_def example_validator_def is_active_def)
  obtain s1 where s1: "?m example_state = (Inr (), s1)" "punished s1 = punished example_state"
    "active_validators s1 = fmdrop 7 (active_validators example_state)"
    using deactivate_run [OF example_inv v, of example_env 3456012] by auto
  have w: "with_tx_logger ?m example_state = (Inr (), s1)" by (rule with_tx_logger_run [OF logging_validator_ops(1) s1(1)])
  obtain ps' where r: "register_penalty (env_policy example_env) (punished example_state)
      \<lparr> ps_slot = 3, ps_validator_address = 7, ps_offense_event_block = 3456010 \<rparr> 3456012 = ((False, True), ps')"
    "fmlookup (current_batch ps') 7 = Some {|3|}"
    by (simp add: example_env_def example_state_def register_penalty_def punished_slots_default_def entry_or_default_def
        epoch_at_def batch_at_def w_div_ceil_def MAINNET_POLICY_def blocks_per_epoch_def Let_def)
  show ?thesis
    using v w r s1
    by (simp add: example_penalty_def example_block_def succeeds_simps Let_def succeeds_run(2) [where m' = "with_tx_logger _", OF w] put_punished_def)
      (simp add: succeeds_def eff_simps bind_eff_def store_defs)
qed

lemma example_punished: "wf_punished (punished example_state)"
  by (simp add: example_state_def wf_punished_def punished_slots_default_def)



text \<open>
  C26. Penalties and jailings are reverted with their receipts: the validator, the punished slots and
  the active list are restored and the log is mirrored. The other inherents of the contract cannot
  be reverted: their revert is rejected and changes nothing.
\<close>

theorem staking_inherent_reverted:
  assumes "sc_inv s" "wf_punished (punished s)" "codecs_ok E" "sc_commit_inherent E bs i s = (Inr receipt, s')"
  shows "case i of
      Penalize _ \<Rightarrow> \<exists>ls. tx_log s' = tx_log s @ ls \<and>
        sc_revert_inherent E receipt i s' = (Inr (), s \<lparr> tx_log := tx_log s @ ls @ rev ls \<rparr>)
    | Jail_Inherent _ _ \<Rightarrow> \<exists>ls. tx_log s' = tx_log s @ ls \<and>
        sc_revert_inherent E receipt i s' = (Inr (), s \<lparr> tx_log := tx_log s @ ls @ rev ls \<rparr>)
    | _ \<Rightarrow> sc_revert_inherent E receipt i s' = (Inl (AccountErr InvalidForTarget), s')"
proof (cases i)
  case (Penalize slot)
  then show ?thesis
    using penalize_inherent_undo [OF assms(1,2), of E bs slot] assms(3,4) unfolding undoes_def codecs_ok_def by fastforce
next
  case (Jail_Inherent jv rng)
  then show ?thesis
    using jail_inherent_undo [OF assms(1), of E bs jv rng] assms(3,4) unfolding undoes_def codecs_ok_def by fastforce
qed (simp_all add: throw_def)

theorem staking_inherent_reverted_witness:
  "\<exists>r s' L. sc_commit_inherent example_env example_block example_penalty example_state = (Inr r, s') \<and>
     fmlookup (active_validators s') 7 = None \<and>
     sc_revert_inherent example_env r example_penalty s' = (Inr (), example_state \<lparr> tx_log := L \<rparr>)"
proof -
  obtain r s' where s': "sc_commit_inherent example_env example_block example_penalty example_state = (Inr r, s')"
    "fmlookup (active_validators s') 7 = None"
    using example_penalty_run unfolding succeeds_eq by auto
  then show ?thesis
    using staking_inherent_reverted [OF example_inv example_punished example_codecs s'(1)]
    by (auto simp: example_penalty_def)
qed

lemma backing_after_upgrade:
  assumes v: "\<And>a. fmlookup (validators s') a = (if unsupporting chk s a
       then map_option (deactivated eb) (fmlookup (validators s) a) else fmlookup (validators s) a)"
  shows "backing is_active s' = backing (\<lambda>v. is_active v \<and> chk (v_signal_data v)) s"
proof -
  have d: "fmdom' (validators s') = fmdom' (validators s)" by (auto simp: fmlookup_dom'_iff v split: if_splits)
  show ?thesis
    unfolding backing_def fsum_def d
  proof (rule sum.cong [OF refl])
    fix a
    assume "a \<in> fmdom' (validators s)"
    then obtain w where w: "fmlookup (validators s) a = Some w" by (auto simp: fmlookup_dom'_iff)
    then have u: "unsupporting chk s a \<longleftrightarrow> is_active w \<and> \<not> chk (v_signal_data w)" by (simp add: unsupporting_def)
    show "(if is_active (the (fmlookup (validators s') a)) then v_total_stake (the (fmlookup (validators s') a)) else 0) =
      (if is_active (the (fmlookup (validators s) a)) \<and> chk (v_signal_data (the (fmlookup (validators s) a)))
       then v_total_stake (the (fmlookup (validators s) a)) else 0)"
      by (simp add: v u w)
  qed
qed

text \<open>
  C27. A version upgrade always succeeds on a consistent contract and leaves exactly the supporting
  validators active: a validator that is active afterwards was active before, unchanged, and signals
  the new version; every other validator is kept, at most deactivated; and the active stake after the
  upgrade is the stake that supported it.
\<close>

theorem staking_upgrade_keeps_supporters:
  assumes "sc_inv s"
  shows "\<exists>s'. sc_commit_inherent E bs (VersionUpgrade ver) s = (Inr None, s') \<and> sc_inv s' \<and>
    sc_balance s' = sc_balance s \<and> stakers s' = stakers s \<and>
    (\<forall>a. (\<exists>v'. fmlookup (validators s') a = Some v' \<and> is_active v') \<longleftrightarrow>
       (\<exists>v. fmlookup (validators s) a = Some v \<and> is_active v \<and> supports_upgrade (v_signal_data v) ver)) \<and>
    (\<forall>a v'. fmlookup (validators s') a = Some v' \<longrightarrow> is_active v' \<longrightarrow> fmlookup (validators s) a = Some v') \<and>
    (\<forall>a. fmlookup (validators s') a = None \<longleftrightarrow> fmlookup (validators s) a = None) \<and>
    get_active_stake s' = get_supporting_stake (\<lambda>data. supports_upgrade data ver) s"
proof -
  let ?chk = "\<lambda>data. supports_upgrade data ver"
  obtain s' where s': "sc_commit_inherent E bs (VersionUpgrade ver) s = (Inr None, s')" "sc_inv s'"
    "sc_balance s' = sc_balance s" "stakers s' = stakers s" and
    v: "\<And>a. fmlookup (validators s') a = (if unsupporting ?chk s a
       then map_option (deactivated (election_block_after (env_policy E) (bs_number bs - 1))) (fmlookup (validators s) a)
       else fmlookup (validators s) a)"
    using upgrade_commit_run [OF assms refl, of E bs ver] by auto
  have "get_active_stake s' = get_supporting_stake ?chk s"
    using active_stake_eq(1) [OF s'(2)] active_stake_eq(2) [OF assms, of ?chk] backing_after_upgrade [OF v] by simp
  moreover have "(\<exists>v'. fmlookup (validators s') a = Some v' \<and> is_active v') \<longleftrightarrow>
      (\<exists>v. fmlookup (validators s) a = Some v \<and> is_active v \<and> ?chk (v_signal_data v))"
    "fmlookup (validators s') a = None \<longleftrightarrow> fmlookup (validators s) a = None"
    "fmlookup (validators s') a = Some v' \<Longrightarrow> is_active v' \<Longrightarrow> fmlookup (validators s) a = Some v'" for a v'
    by (auto simp: v unsupporting_def split: if_splits)
  ultimately show ?thesis using s' by (intro exI [of _ s']) simp
qed

theorem staking_upgrade_keeps_supporters_witness:
  "sc_inv example_state \<and> (\<exists>s'. sc_commit_inherent example_env example_block (VersionUpgrade 2) example_state = (Inr None, s') \<and>
     fmlookup (validators s') 7 \<noteq> None \<and> \<not> is_active (the (fmlookup (validators s') 7)) \<and> get_active_stake s' = Some 0)"
proof -
  obtain s' where s': "sc_commit_inherent example_env example_block (VersionUpgrade 2) example_state = (Inr None, s')"
    "\<forall>a. (\<exists>v'. fmlookup (validators s') a = Some v' \<and> is_active v') \<longleftrightarrow>
       (\<exists>v. fmlookup (validators example_state) a = Some v \<and> is_active v \<and> supports_upgrade (v_signal_data v) 2)"
    "\<forall>a. fmlookup (validators s') a = None \<longleftrightarrow> fmlookup (validators example_state) a = None"
    "get_active_stake s' = get_supporting_stake (\<lambda>data. supports_upgrade data 2) example_state"
    using staking_upgrade_keeps_supporters [OF example_inv, of example_env example_block 2] by blast
  have "fmlookup (validators s') 7 \<noteq> None" using s'(3) by (simp add: example_state_def)
  moreover have "\<not> is_active (the (fmlookup (validators s') 7))"
    using s'(2) [rule_format, of 7] calculation by (auto simp: example_state_def example_validator_def supports_upgrade_def)
  moreover have "get_active_stake s' = Some 0"
    using s'(4) active_stake_eq(2) [OF example_inv, of "\<lambda>data. supports_upgrade data 2"]
    by (simp add: backing_def example_state_def example_validator_def supports_upgrade_def)
  ultimately show ?thesis using s'(1) example_inv by blast
qed

section \<open>Lock-ups\<close>

text \<open>
  C28. Funds leave the contract only when they are free: a validator is deleted only when it is retired,
  not jailed, past the lock-up of its collateral, and its whole deposit is withdrawn; stake is
  retired only from the inactive balance once that is released, and removed only from the retired
  balance; and a validator is reactivated only when it is neither retired nor jailed.
\<close>

theorem staking_lockups_enforced:
  assumes "sc_inv s"
  shows "(\<forall>r s'. delete_validator E a bn amount s = (Inr r, s') \<longrightarrow> (\<exists>v x. fmlookup (validators s) a = Some v \<and>
      amount = v_deposit v \<and> v_retired v \<and> \<not> is_jailed (env_policy E) v bn \<and> v_inactive_from v = Some x \<and>
      last_block_of_collateral_lockup (env_policy E) x < bn)) \<and>
    (\<forall>r s'. retire_stake E k amount bn s = (Inr r, s') \<longrightarrow> (\<exists>st. fmlookup (stakers s) k = Some st \<and>
      amount \<le> s_inactive_balance st \<and> (\<forall>d. s_delegation st = Some d \<longrightarrow>
        (\<forall>x. s_inactive_from st = Some x \<longrightarrow> block_after_collateral_lockup (env_policy E) x \<le> bn) \<and>
        (\<forall>v. fmlookup (validators s) d = Some v \<longrightarrow> \<not> is_jailed (env_policy E) v bn)))) \<and>
    (\<forall>r s'. remove_stake k amount s = (Inr r, s') \<longrightarrow> (\<exists>st. fmlookup (stakers s) k = Some st \<and>
      amount \<le> s_retired_balance st)) \<and>
    (\<forall>r s'. reactivate_validator E a signer bn s = (Inr r, s') \<longrightarrow> (\<exists>v. fmlookup (validators s) a = Some v \<and>
      \<not> v_retired v \<and> \<not> is_jailed (env_policy E) v bn \<and> signer = addr_of_key E (v_signing_key v)))"
proof (intro conjI allI impI)
  fix r s'
  assume "delete_validator E a bn amount s = (Inr r, s')"
  then show "\<exists>v x. fmlookup (validators s) a = Some v \<and>
      amount = v_deposit v \<and> v_retired v \<and> \<not> is_jailed (env_policy E) v bn \<and> v_inactive_from v = Some x \<and>
      last_block_of_collateral_lockup (env_policy E) x < bn"
    using delete_validator_spec [OF assms, of E a bn amount] by (auto simp: outcome_Inr)
next
  fix r s'
  assume "retire_stake E k amount bn s = (Inr r, s')"
  then show "\<exists>st. fmlookup (stakers s) k = Some st \<and>
      amount \<le> s_inactive_balance st \<and> (\<forall>d. s_delegation st = Some d \<longrightarrow>
        (\<forall>x. s_inactive_from st = Some x \<longrightarrow> block_after_collateral_lockup (env_policy E) x \<le> bn) \<and>
        (\<forall>v. fmlookup (validators s) d = Some v \<longrightarrow> \<not> is_jailed (env_policy E) v bn))"
    using retire_stake_spec [OF assms, of E k amount bn] by (auto simp: outcome_Inr released_def)
next
  fix r s'
  assume "remove_stake k amount s = (Inr r, s')"
  then show "\<exists>st. fmlookup (stakers s) k = Some st \<and> amount \<le> s_retired_balance st"
    using remove_stake_spec [OF assms, of k amount] by (auto simp: outcome_Inr)
next
  fix r s'
  assume "reactivate_validator E a signer bn s = (Inr r, s')"
  then show "\<exists>v. fmlookup (validators s) a = Some v \<and>
      \<not> v_retired v \<and> \<not> is_jailed (env_policy E) v bn \<and> signer = addr_of_key E (v_signing_key v)"
    using reactivate_validator_spec [OF assms, of E a signer bn] by (auto simp: outcome_Inr)
qed

theorem staking_lockups_enforced_witness:
  "sc_inv example_state \<and> (\<forall>r s'. delete_validator example_env 7 3456012 VALIDATOR_DEPOSIT example_state \<noteq> (Inr r, s')) \<and>
   (\<forall>r s'. remove_stake 5 (MINIMUM_STAKE + 1) example_state \<noteq> (Inr r, s'))"
  using example_inv
    staking_lockups_enforced [OF example_inv, of example_env 7 3456012 VALIDATOR_DEPOSIT 5 7]
    staking_lockups_enforced [OF example_inv, of example_env 7 3456012 "MINIMUM_STAKE + 1" 5 7]
  by (auto simp: example_state_def example_validator_def example_staker_def)

end
