(* ===== verification/AccountsProperties.thy ===== *)
theory AccountsProperties
  imports AccountsBatch StakingProperties
begin

text \<open>
  What the accounts tree guarantees for transactions and batches, with a concrete tree on which the
  guarantees are exercised.
\<close>

section \<open>An example\<close>

datatype acc_receipt = R_Staking any_receipt | R_Vesting pruned_vesting_contract | R_Htlc pruned_htlc

definition lift_codec :: "(any_receipt, 'x) codec \<Rightarrow> (acc_receipt, 'x) codec" where
  "lift_codec c = \<lparr> serialize_to_vec = (\<lambda>x. R_Staking (serialize_to_vec c x)),
     deserialize_from_vec = (\<lambda>r. case r of R_Staking x \<Rightarrow> deserialize_from_vec c x | _ \<Rightarrow> Inl []) \<rparr>"

definition example_acc_env :: "acc_receipt acc_env" where
  "example_acc_env = \<lparr> env_policy = env_policy example_env, addr_of_key = addr_of_key example_env,
     deserialize_incoming = deserialize_incoming example_env,
     deserialize_incoming_prefix = deserialize_incoming_prefix example_env,
     serialize_incoming = serialize_incoming example_env, deserialize_outgoing = deserialize_outgoing example_env,
     deserialize_proof = deserialize_proof example_env, compute_signer = compute_signer example_env,
     is_default_public_key = is_default_public_key example_env, default_proof = default_proof example_env,
     verify_proof = verify_proof example_env, serialize_content = serialize_content example_env,
     bls_verify = bls_verify example_env, penalize_codec = lift_codec (penalize_codec example_env),
     jail_codec = lift_codec (jail_codec example_env), update_validator_codec = lift_codec (update_validator_codec example_env),
     set_signal_data_codec = lift_codec (set_signal_data_codec example_env),
     reactivate_validator_codec = lift_codec (reactivate_validator_codec example_env),
     retire_validator_codec = lift_codec (retire_validator_codec example_env),
     delete_validator_codec = lift_codec (delete_validator_codec example_env),
     staker_codec = lift_codec (staker_codec example_env), set_active_stake_codec = lift_codec (set_active_stake_codec example_env),
     retire_stake_codec = lift_codec (retire_stake_codec example_env),
     delete_staker_codec = lift_codec (delete_staker_codec example_env),
     deserialize_pow_proof = Inr, pow_into_pos = (\<lambda>p. p), pow_verify = (\<lambda>_ _. True),
     deserialize_htlc_proof = (\<lambda>bs. if bs = [] then Inl ''unexpected end'' else Inr (RegularTransfer 1 (AnySha256 [7]) (PreImage32 [7]) [])),
     deserialize_pow_htlc_proof = (\<lambda>_. Inl ''unexpected end''),
     blake2b = (\<lambda>b. b), sha256 = (\<lambda>b. b), sha512 = (\<lambda>b. b), address_of_hash = (\<lambda>_. 77),
     pruned_vesting_codec = \<lparr> serialize_to_vec = R_Vesting, deserialize_from_vec = (\<lambda>r. case r of R_Vesting x \<Rightarrow> Inr x | _ \<Rightarrow> Inl []) \<rparr>,
     pruned_htlc_codec = \<lparr> serialize_to_vec = R_Htlc, deserialize_from_vec = (\<lambda>r. case r of R_Htlc x \<Rightarrow> Inr x | _ \<Rightarrow> Inl []) \<rparr> \<rparr>"

definition example_store :: sc_store where
  "example_store = \<lparr> st_validators = fmempty, st_stakers = fmempty, st_tombstones = fmempty \<rparr>"

definition example_accounts :: accounts where
  "example_accounts = \<lparr> acc_tree = fmupd 9 (Account_Basic \<lparr> ba_balance = 1000 \<rparr>) fmempty, acc_store = (\<lambda>_. example_store),
     acc_log = [], acc_failed = False \<rparr>"

definition example_batch :: batch where
  "example_batch = \<lparr> bt_accounts = example_accounts, bt_tx_logs = [], bt_inherent_logs = [] \<rparr>"

definition example_transfer :: transaction where
  "example_transfer = \<lparr> tx_sender = 9, tx_sender_type = Basic, tx_sender_data = [], tx_recipient = 2, tx_recipient_type = Basic,
     tx_recipient_data = [], tx_value = 990, tx_fee = 10, tx_validity_start_height = 1, tx_network_id = MainAlbatross,
     tx_contract_creation = False, tx_signaling = False, tx_proof = [] \<rparr>"

definition example_reward :: inherent where
  "example_reward = Reward 7 3 50"

lemma lift_codec_ok: "codec_ok c \<Longrightarrow> codec_ok (lift_codec c)"
  by (simp add: codec_ok_def lift_codec_def)

lemma example_acc_codecs: "acc_codecs_ok example_acc_env"
  using example_codecs
  by (simp add: acc_codecs_ok_def codecs_ok_def example_acc_env_def lift_codec_ok) (simp add: codec_ok_def)

lemma example_acc_inv: "acc_inv example_accounts"
  by (auto simp: acc_inv_def example_accounts_def kept_def acc_total_def basic_can_be_pruned_def basic_ok_def MAX_SAFE_VALUE_def
      split: if_splits)

lemma example_acc_env_sel [simp]:
  "deserialize_proof example_acc_env = Inr" "verify_proof example_acc_env p c" "compute_signer example_acc_env [] = 9"
  "env_policy example_acc_env = MAINNET_POLICY"
  by (simp_all add: example_acc_env_def example_env_def)

lemma example_transfer_verified: "transaction_verify example_acc_env False example_transfer MainAlbatross 1 = Some (Inr ())"
proof -
  have "account_verify_outgoing example_acc_env example_transfer 1 = Some (Inr ())"
    by (simp add: account_verify_outgoing_def basic_verify_outgoing_def example_transfer_def parse_signature_proof_def is_signed_by_def)
  moreover have "account_verify_incoming example_acc_env example_transfer 1 = Some (Inr ())"
    by (simp add: account_verify_incoming_def basic_verify_incoming_def example_transfer_def)
  moreover have "checked_add (tx_value example_transfer) (tx_fee example_transfer) = Some 1000"
    by (simp add: example_transfer_def checked_add_eq MAX_SAFE_VALUE_def)
  moreover have "\<not> TOTAL_SUPPLY < 1000" by (simp add: TOTAL_SUPPLY_def)
  ultimately show ?thesis by (simp add: transaction_verify_def) (simp add: example_transfer_def)
qed

lemma example_reward_valid: "inherent_valid example_acc_env example_block example_reward"
  by (simp add: inherent_valid_def example_reward_def inherent_ok_def)

lemma example_total: "acc_total example_accounts = 1000"
  by (simp add: acc_total_def example_accounts_def)

section \<open>Batches\<close>

text \<open>
  C1. Committing the transactions and inherents of a block never panics, whatever the transactions
  that passed verification do, as long as contracts are created at fresh addresses. When it succeeds,
  every account in the tree is consistent and not prunable, and no coin is created or lost: the coins
  in the tree afterwards and the fees of all transactions, failed ones included, are the coins before
  and the rewards that were paid out.
\<close>

theorem accounts_batch_books:
  assumes "acc_inv (bt_accounts b)" "acc_codecs_ok E"
    "list_all (\<lambda>tx. transaction_verify E False tx network version = Some (Inr ())) txs"
    "fresh_contracts (bt_accounts b) txs" "list_all (inherent_valid E bs) ihs"
    "acc_total (bt_accounts b) + sum_list (map inherent_value ihs) \<le> MAX_SAFE_VALUE"
  shows "case commit_batch E txs ihs bs b of
      (Inl e, b') \<Rightarrow> e \<noteq> AccountsPanic
    | (Inr rc, b') \<Rightarrow> acc_inv (bt_accounts b') \<and>
        acc_total (bt_accounts b') + sum_list (map tx_fee txs) =
          acc_total (bt_accounts b) + sum_list (map2 minted ihs (receipts_inherents rc))"
proof -
  have "list_all (tx_valid E) txs" using assms(3) by (auto simp: list_all_iff intro: verified_valid)
  then have o: "batch_txs_ok E txs b" using assms(1,2) by (simp add: batch_txs_ok_def)
  let ?m = "map_eff (\<lambda>tx. in_tx_log tx (commit_transaction E bs tx)) txs"
  let ?n = "map_eff (\<lambda>i. in_inherent_log i (accounts_commit_inherent E bs i)) ihs"
  note t = batch_txs_books [OF o assms(4), of bs]
  show ?thesis
  proof (cases "fst (?m b)")
    case (Inl e)
    then show ?thesis using t by (auto simp: commit_batch_def bind_eff_def split: prod.splits)
  next
    case (Inr trs)
    then obtain b1 where b1: "?m b = (Inr trs, b1)" by (cases "?m b") simp
    have "batch_inherents_ok E bs ihs b1" using t b1 assms(5,6) by (simp add: batch_inherents_ok_def)
    from batch_inherents_books [OF this] show ?thesis
      using t by (auto simp: commit_batch_def bind_eff_def b1 ret_def split: prod.splits sum.splits)
  qed
qed

lemmas example_run_defs = bind_eff_def attempt_def gets_def accounts_get_def on_account_def act_defs seq_eff_def modify_def
  account_default_def basic_default_def ba_add_def coin_add_def checked_add_eq some_or_def ret_def put_account_def ensure_def

lemma example_transfer_run:
  "commit_transaction example_acc_env example_block example_transfer example_accounts =
    (Inr (Receipt_Ok \<lparr> trc_sender = None, trc_recipient = None, trc_pruned = None \<rparr>),
     example_accounts \<lparr> acc_tree := fmupd 2 (Account_Basic \<lparr> ba_balance = 990 \<rparr>) fmempty,
       acc_log := [pay_fee_log example_transfer, transfer_log example_transfer] \<rparr>)"
  by (simp add: commit_transaction_def try_commit_transaction_def get_with_type_def example_accounts_def example_transfer_def
      account_commit_outgoing_def basic_commit_outgoing_def ba_safe_sub_def total_value_def coin_saturating_add_eq MAX_SAFE_VALUE_def
      safe_sub_def checked_sub_eq of_sum_def commit_recipient_def account_commit_incoming_def basic_commit_incoming_def put_or_prune_run
      basic_can_be_pruned_def place_def basic_prune_def example_run_defs)

lemma example_reward_run:
  assumes "fmlookup T 3 = None"
  shows "accounts_commit_inherent example_acc_env example_block example_reward
      (example_accounts \<lparr> acc_tree := T, acc_log := [] \<rparr>) =
    (Inr (Receipt_Ok None), example_accounts \<lparr> acc_tree := fmupd 3 (Account_Basic \<lparr> ba_balance = 50 \<rparr>) T,
       acc_log := [Log_PayoutReward 3 50] \<rparr>)"
  using assms
  by (simp add: accounts_commit_inherent_def example_reward_def account_commit_inherent_def example_accounts_def basic_can_be_pruned_def
      MAX_SAFE_VALUE_def fun_upd_idem example_run_defs)

lemma example_batch_run:
  "\<exists>rc b'. commit_batch example_acc_env [example_transfer] [example_reward] example_block example_batch = (Inr rc, b') \<and>
     receipts_inherents rc = [Receipt_Ok None] \<and>
     acc_tree (bt_accounts b') = fmupd 3 (Account_Basic \<lparr> ba_balance = 50 \<rparr>) (fmupd 2 (Account_Basic \<lparr> ba_balance = 990 \<rparr>) fmempty)"
proof -
  have a: "example_accounts \<lparr> acc_log := [], acc_failed := False \<rparr> = example_accounts" by (simp add: example_accounts_def)
  have f: "acc_failed example_accounts = False" by (simp add: example_accounts_def)
  show ?thesis
    using example_reward_run [where T = "fmupd 2 (Account_Basic \<lparr> ba_balance = 990 \<rparr>) fmempty"]
    by (simp add: commit_batch_def in_tx_log_def in_inherent_log_def example_batch_def a example_transfer_run bind_eff_def ret_def f)
qed

theorem accounts_batch_books_witness:
  "\<exists>rc b'. commit_batch example_acc_env [example_transfer] [example_reward] example_block example_batch = (Inr rc, b') \<and>
     acc_inv (bt_accounts b') \<and> acc_total (bt_accounts b') = 1040"
proof -
  obtain rc b' where r: "commit_batch example_acc_env [example_transfer] [example_reward] example_block example_batch = (Inr rc, b')"
    "receipts_inherents rc = [Receipt_Ok None]" using example_batch_run by blast
  have "list_all (\<lambda>tx. transaction_verify example_acc_env False tx MainAlbatross 1 = Some (Inr ())) [example_transfer]"
    using example_transfer_verified by simp
  moreover have "fresh_contracts (bt_accounts example_batch) [example_transfer]"
    by (simp add: fresh_contracts_def creatable_def example_transfer_def)
  ultimately show ?thesis
    using accounts_batch_books [where b = example_batch and txs = "[example_transfer]" and ihs = "[example_reward]", OF _ example_acc_codecs]
      example_acc_inv example_reward_valid example_total r
    by (fastforce simp: example_batch_def example_reward_def minted_def example_transfer_def MAX_SAFE_VALUE_def)
qed

text \<open>
  C2. Reverting a block with its receipts, from the last inherent to the first and then from the last
  transaction to the first, restores every account and every entry of the staking contract, whatever
  log the revert writes to. Failed transactions, pruned accounts and created contracts are included.
\<close>

theorem accounts_batch_reverted:
  assumes "acc_inv (bt_accounts b)" "acc_codecs_ok E"
    "list_all (\<lambda>tx. transaction_verify E False tx network version = Some (Inr ())) txs"
    "fresh_contracts (bt_accounts b) txs" "list_all (inherent_valid E bs) ihs" "list_all revertible ihs"
    "acc_total (bt_accounts b) + sum_list (map inherent_value ihs) \<le> MAX_SAFE_VALUE"
    "commit_batch E txs ihs bs b = (Inr rc, b')" "acc_tree (bt_accounts t) = acc_tree (bt_accounts b')"
    "acc_store (bt_accounts t) = acc_store (bt_accounts b')"
  shows "\<exists>u. revert_batch E txs ihs rc t = (Inr (), u) \<and> acc_tree (bt_accounts u) = acc_tree (bt_accounts b) \<and>
    acc_store (bt_accounts u) = acc_store (bt_accounts b)"
proof -
  have "list_all (tx_valid E) txs" using assms(3) by (auto simp: list_all_iff intro: verified_valid)
  then have o: "batch_txs_ok E txs b" using assms(1,2) by (simp add: batch_txs_ok_def)
  let ?m = "map_eff (\<lambda>tx. in_tx_log tx (commit_transaction E bs tx)) txs"
  let ?n = "map_eff (\<lambda>i. in_inherent_log i (accounts_commit_inherent E bs i)) ihs"
  from assms(8) obtain trs b1 irs where r: "?m b = (Inr trs, b1)" "?n b1 = (Inr irs, b')"
    "rc = \<lparr> receipts_transactions = trs, receipts_inherents = irs \<rparr>"
    by (auto simp: commit_batch_def bind_eff_Inr eff_leaf_iff)
  have i: "batch_inherents_ok E bs ihs b1 \<and> list_all revertible ihs \<and> acc_codecs_ok E"
    using batch_txs_books [OF o assms(4), of bs] r(1) assms(2,5,6,7) by (simp add: batch_inherents_ok_def)
  have t: "same_batch b' t" using assms(9,10) by (simp add: same_batch_def same_acc_def)
  obtain u1 where u1: "for_eff (\<lambda>(i, r). in_inherent_log i (accounts_revert_inherent E i r)) (rev (zip ihs irs)) t = (Inr (), u1)"
    "same_batch b1 u1"
    using inhs.undo_all [OF i r(2) t] by blast
  obtain u where "for_eff (\<lambda>(tx, r). in_tx_log tx (revert_transaction E tx r)) (rev (zip txs trs)) u1 = (Inr (), u)" "same_batch b u"
    using txs.undo_all [OF o r(1) u1(2)] by blast
  then show ?thesis
    using u1(1) txs.steps [OF o r(1)] inhs.steps [OF i r(2)]
    by (simp add: revert_batch_def r(3) seq_eff_def bind_eff_def eff_simps same_batch_def same_acc_def)
qed

theorem accounts_batch_reverted_witness:
  "\<exists>rc b' u. commit_batch example_acc_env [example_transfer] [example_reward] example_block example_batch = (Inr rc, b') \<and>
     acc_tree (bt_accounts b') \<noteq> acc_tree (bt_accounts example_batch) \<and>
     revert_batch example_acc_env [example_transfer] [example_reward] rc b' = (Inr (), u) \<and>
     acc_tree (bt_accounts u) = acc_tree (bt_accounts example_batch)"
proof -
  obtain rc b' where r: "commit_batch example_acc_env [example_transfer] [example_reward] example_block example_batch = (Inr rc, b')"
    "acc_tree (bt_accounts b') = fmupd 3 (Account_Basic \<lparr> ba_balance = 50 \<rparr>) (fmupd 2 (Account_Basic \<lparr> ba_balance = 990 \<rparr>) fmempty)"
    using example_batch_run by blast
  have v: "list_all (\<lambda>tx. transaction_verify example_acc_env False tx MainAlbatross 1 = Some (Inr ())) [example_transfer]"
    using example_transfer_verified by simp
  have "fresh_contracts (bt_accounts example_batch) [example_transfer]"
    by (simp add: fresh_contracts_def creatable_def example_transfer_def)
  from accounts_batch_reverted [OF _ example_acc_codecs v this _ _ _ r(1), where t = b']
  obtain u where "revert_batch example_acc_env [example_transfer] [example_reward] rc b' = (Inr (), u)"
    "acc_tree (bt_accounts u) = acc_tree (bt_accounts example_batch)"
    using example_acc_inv example_reward_valid example_total
    by (auto simp: example_batch_def example_reward_def MAX_SAFE_VALUE_def)
  moreover have "fmlookup (acc_tree (bt_accounts b')) 3 \<noteq> fmlookup (acc_tree (bt_accounts example_batch)) 3"
    by (simp add: r(2) example_batch_def example_accounts_def)
  ultimately show ?thesis using r(1) by metis
qed

section \<open>Transactions\<close>

lemma lookup_place:
  "account_balance (lookup_acc (place a acc T) a) = account_balance acc"
  "account_type_of (lookup_acc (place a acc T) a) = (if can_be_pruned acc then Basic else account_type_of acc)"
  by (simp_all add: lookup_acc_def place_def pruned_empty pruned_default) (simp add: account_default_def)

lemma moved_effect:
  assumes inv: "acc_inv s" and v: "tx_valid E tx" and m: "moved E tx bs s rc s'"
  shows "account_balance (accounts_get s' (tx_sender tx)) + (tx_value tx + tx_fee tx) = account_balance (accounts_get s (tx_sender tx))"
    "account_balance (accounts_get s' (tx_recipient tx)) = account_balance (accounts_get s (tx_recipient tx)) + tx_value tx"
    "a \<notin> {tx_sender tx, tx_recipient tx} \<Longrightarrow> accounts_get s' a = accounts_get s a \<and> acc_store s' a = acc_store s a"
    "account_type_of (accounts_get s (tx_sender tx)) = tx_sender_type tx"
    "account_type_of (accounts_get s' (tx_sender tx)) \<in> {Basic, tx_sender_type tx}"
    "account_type_of (accounts_get s (tx_recipient tx)) = (if tx_contract_creation tx then Basic else tx_recipient_type tx)"
    "account_type_of (accounts_get s' (tx_recipient tx)) = tx_recipient_type tx"
proof -
  let ?T = "acc_tree s" and ?a = "tx_sender tx" and ?b = "tx_recipient tx"
  from m obtain sacc sst L racc rst L' where ty: "account_type_of (lookup_acc ?T ?a) = tx_sender_type tx"
    and out: "account_commit_outgoing E tx bs (lookup_acc ?T ?a, acc_store s ?a, acc_log s) = (Inr (trc_sender rc), sacc, sst, L)"
    and rcv: "receive E tx bs (lookup_acc ?T ?b, acc_store s ?b, L) = (Inr (trc_recipient rc), racc, rst, L')"
    and p: "\<not> can_be_pruned racc"
    and s': "acc_tree s' = place ?b racc (place ?a sacc ?T)" "acc_store s' = (acc_store s)(?a := sst, ?b := rst)"
    unfolding moved_def by blast
  have ab: "?a \<noteq> ?b" and tv: "total_value tx = tx_value tx + tx_fee tx" using v by (simp_all add: tx_valid_def)
  note o = account.out_run [OF acc_inv_cell [OF inv] out]
  have r: "account_balance racc = account_balance (lookup_acc ?T ?b) + tx_value tx" "account_type_of racc = tx_recipient_type tx"
    using receive_ok [OF inv v receive_creatable [OF rcv] out, of L] rcv by (simp_all add: commits_def)
  have c: "creatable s tx" using receive_creatable [OF rcv] .
  have a: "lookup_acc (acc_tree s') ?a = lookup_acc (place ?a sacc ?T) ?a"
    using ab by (simp add: s' lookup_place_other)
  show "account_balance (accounts_get s' ?a) + (tx_value tx + tx_fee tx) = account_balance (accounts_get s ?a)"
    using o(2) tv by (simp add: accounts_get_lookup a lookup_place)
  show "account_balance (accounts_get s' ?b) = account_balance (accounts_get s ?b) + tx_value tx"
    by (simp add: accounts_get_lookup s' lookup_place r)
  show "a \<notin> {?a, ?b} \<Longrightarrow> accounts_get s' a = accounts_get s a \<and> acc_store s' a = acc_store s a"
    by (auto simp: accounts_get_lookup s' lookup_place_other)
  show "account_type_of (accounts_get s ?a) = tx_sender_type tx" using ty by (simp add: accounts_get_lookup)
  show "account_type_of (accounts_get s' ?a) \<in> {Basic, tx_sender_type tx}"
    using o(3) ty by (simp add: accounts_get_lookup a lookup_place)
  show "account_type_of (accounts_get s' ?b) = tx_recipient_type tx"
    using p r(2) by (simp add: accounts_get_lookup s' lookup_place)
  show "account_type_of (accounts_get s ?b) = (if tx_contract_creation tx then Basic else tx_recipient_type tx)"
    using c rcv by (auto simp: creatable_def accounts_get_lookup receive_def split: if_splits)
qed

lemma charged_effect:
  assumes inv: "acc_inv s" and m: "charged E tx bs s rc s'"
  shows "account_balance (accounts_get s' (tx_sender tx)) + tx_fee tx = account_balance (accounts_get s (tx_sender tx))"
    "a \<noteq> tx_sender tx \<Longrightarrow> accounts_get s' a = accounts_get s a \<and> acc_store s' a = acc_store s a"
    "account_type_of (accounts_get s (tx_sender tx)) = tx_sender_type tx"
    "account_type_of (accounts_get s' (tx_sender tx)) \<in> {Basic, tx_sender_type tx}"
proof -
  let ?T = "acc_tree s" and ?a = "tx_sender tx"
  from m obtain sacc sst L where ty: "account_type_of (lookup_acc ?T ?a) = tx_sender_type tx"
    and f: "account_commit_failed E tx bs (lookup_acc ?T ?a, acc_store s ?a, acc_log s) = (Inr (trc_sender rc), sacc, sst, L)"
    and s': "acc_tree s' = place ?a sacc ?T" "acc_store s' = (acc_store s)(?a := sst)"
    unfolding charged_def by blast
  note o = account.failed_run [OF acc_inv_cell [OF inv] f]
  show "account_balance (accounts_get s' ?a) + tx_fee tx = account_balance (accounts_get s ?a)"
    using o(2) by (simp add: accounts_get_lookup s' lookup_place)
  show "a \<noteq> ?a \<Longrightarrow> accounts_get s' a = accounts_get s a \<and> acc_store s' a = acc_store s a"
    by (auto simp: accounts_get_lookup s' lookup_place_other)
  show "account_type_of (accounts_get s ?a) = tx_sender_type tx" using ty by (simp add: accounts_get_lookup)
  show "account_type_of (accounts_get s' ?a) \<in> {Basic, tx_sender_type tx}"
    using o(3) ty by (simp add: accounts_get_lookup s' lookup_place)
qed

text \<open>
  C3. A verified transaction either happens as a whole or not at all. When it succeeds, the sender
  pays value and fee, the recipient receives the value and no other account or store changes. When it
  fails, the sender pays the fee and nothing else changes. When even the fee cannot be taken, the
  transaction is rejected and no account and no store changes.
\<close>

theorem accounts_transaction_atomic:
  assumes "acc_inv s" "acc_codecs_ok E" "transaction_verify E False tx network version = Some (Inr ())"
    "tx_contract_creation tx \<Longrightarrow> account_type_of (accounts_get s (tx_recipient tx)) = Basic"
  shows "case commit_transaction E bs tx s of
      (Inl e, s') \<Rightarrow> e \<noteq> Panic \<and> acc_tree s' = acc_tree s \<and> acc_store s' = acc_store s
    | (Inr (Receipt_Ok rc), s') \<Rightarrow>
        account_balance (accounts_get s' (tx_sender tx)) + (tx_value tx + tx_fee tx) = account_balance (accounts_get s (tx_sender tx)) \<and>
        account_balance (accounts_get s' (tx_recipient tx)) = account_balance (accounts_get s (tx_recipient tx)) + tx_value tx \<and>
        (\<forall>a. a \<noteq> tx_sender tx \<longrightarrow> a \<noteq> tx_recipient tx \<longrightarrow>
          accounts_get s' a = accounts_get s a \<and> acc_store s' a = acc_store s a)
    | (Inr (Receipt_Err rc reason), s') \<Rightarrow>
        account_balance (accounts_get s' (tx_sender tx)) + tx_fee tx = account_balance (accounts_get s (tx_sender tx)) \<and>
        (\<forall>a. a \<noteq> tx_sender tx \<longrightarrow> accounts_get s' a = accounts_get s a \<and> acc_store s' a = acc_store s a)"
proof -
  note v = verified_valid [OF assms(3)]
  have c: "creatable s tx" using assms(4) by (simp add: creatable_def)
  obtain r s' where r: "commit_transaction E bs tx s = (r, s')" by fastforce
  note cs = commit_transaction_cases [OF assms(1) v assms(2), of bs, unfolded r]
  show ?thesis
  proof (cases r)
    case (Inl e)
    then show ?thesis using cs c by (auto simp: r same_acc_def split: if_splits)
  next
    case (Inr rc)
    note p = cs [unfolded Inr, simplified]
    show ?thesis
    proof (cases rc)
      case (Receipt_Ok q)
      then show ?thesis using moved_effect [OF assms(1) v, of bs q s'] p by (simp add: r Inr performed_def)
    next
      case (Receipt_Err q reason)
      then obtain t where t: "same_acc s t" "charged E tx bs t q s'" using p by (auto simp: performed_def)
      have "accounts_get t = accounts_get s" "acc_store t = acc_store s" using t(1) by (simp_all add: same_acc_def accounts_get_def fun_eq_iff)
      then show ?thesis using charged_effect [OF acc_inv_same(1) [OF t(1) assms(1)] t(2)] by (simp add: r Inr Receipt_Err)
    qed
  qed
qed

theorem accounts_transaction_atomic_witness:
  "account_balance (accounts_get (snd (commit_transaction example_acc_env example_block example_transfer example_accounts)) 9) = 0 \<and>
   account_balance (accounts_get (snd (commit_transaction example_acc_env example_block example_transfer example_accounts)) 2) = 990"
proof -
  have "account_balance (accounts_get example_accounts 9) = 1000" "account_balance (accounts_get example_accounts 2) = 0"
    by (simp_all add: accounts_get_def example_accounts_def account_default_def basic_default_def)
  then show ?thesis
    using accounts_transaction_atomic [OF example_acc_inv example_acc_codecs example_transfer_verified, of example_block]
    by (simp add: example_transfer_run) (simp add: example_transfer_def)
qed

end
