(* ===== verification/ContractProperties.thy ===== *)
theory ContractProperties
  imports AccountsProperties
begin

text \<open>
  What the accounts tree guarantees for the kinds of accounts: the types of sender and recipient, the
  schedule of a vesting contract, the conditions of a hashed time-locked contract, the creation data
  of both, and the balances reserved by a block producer.
\<close>

section \<open>Types\<close>

text \<open>
  C21. A committed transaction respects the types of accounts. The sender has the declared type and
  keeps it, or is removed when it is empty; the recipient has the declared type afterwards, and had it
  before unless the transaction creates the contract at an address that held a basic account. No other
  account changes its type, so no contract ever appears or disappears on the side.
\<close>

theorem accounts_transaction_types:
  assumes "acc_inv s" "acc_codecs_ok E" "transaction_verify E False tx network version = Some (Inr ())"
    "commit_transaction E bs tx s = (Inr (Receipt_Ok rc), s')"
  shows "account_type_of (accounts_get s (tx_sender tx)) = tx_sender_type tx \<and>
    account_type_of (accounts_get s' (tx_sender tx)) \<in> {Basic, tx_sender_type tx} \<and>
    account_type_of (accounts_get s (tx_recipient tx)) = (if tx_contract_creation tx then Basic else tx_recipient_type tx) \<and>
    account_type_of (accounts_get s' (tx_recipient tx)) = tx_recipient_type tx \<and>
    (\<forall>a. a \<notin> {tx_sender tx, tx_recipient tx} \<longrightarrow> account_type_of (accounts_get s' a) = account_type_of (accounts_get s a))"
proof -
  note v = verified_valid [OF assms(3)]
  have "moved E tx bs s rc s'"
    using commit_transaction_cases [OF assms(1) v assms(2), of bs] assms(4) by (simp add: performed_def)
  from moved_effect [OF assms(1) v this] show ?thesis by simp
qed

theorem accounts_transaction_types_witness:
  "account_type_of (accounts_get (snd (commit_transaction example_acc_env example_block example_transfer example_accounts)) 2) = Basic"
  using accounts_transaction_types [OF example_acc_inv example_acc_codecs example_transfer_verified example_transfer_run]
  by (simp add: example_transfer_run) (simp add: example_transfer_def)

section \<open>Contracts as senders\<close>

text \<open>What the handlers of the sender did, whether the transaction succeeded or failed.\<close>

lemma performed_sender:
  assumes v: "tx_valid E tx" and p: "performed E tx bs s rc s'"
  shows "\<exists>L r sacc sst L'. (account_commit_outgoing E tx bs (accounts_get s (tx_sender tx), acc_store s (tx_sender tx), L) = (Inr r, sacc, sst, L') \<or>
      account_commit_failed E tx bs (accounts_get s (tx_sender tx), acc_store s (tx_sender tx), L) = (Inr r, sacc, sst, L')) \<and>
    account_balance (accounts_get s' (tx_sender tx)) = account_balance sacc"
proof (cases rc)
  case (Receipt_Ok r)
  then obtain sacc sst L racc where "account_commit_outgoing E tx bs (accounts_get s (tx_sender tx), acc_store s (tx_sender tx), acc_log s) =
      (Inr (trc_sender r), sacc, sst, L)" "acc_tree s' = place (tx_recipient tx) racc (place (tx_sender tx) sacc (acc_tree s))"
    using p by (auto simp: performed_def moved_def accounts_get_lookup)
  moreover from this(2) have "account_balance (accounts_get s' (tx_sender tx)) = account_balance sacc"
    using v by (auto simp: accounts_get_lookup lookup_place_other lookup_place tx_valid_def)
  ultimately show ?thesis by blast
next
  case (Receipt_Err r x)
  then obtain t sacc sst L where "same_acc s t"
    "account_commit_failed E tx bs (accounts_get t (tx_sender tx), acc_store t (tx_sender tx), acc_log t) =
      (Inr (trc_sender r), sacc, sst, L)" "acc_tree s' = place (tx_sender tx) sacc (acc_tree t)"
    using p by (auto simp: performed_def charged_def accounts_get_lookup)
  moreover from this(3) have "account_balance (accounts_get s' (tx_sender tx)) = account_balance sacc"
    by (simp add: accounts_get_lookup lookup_place)
  moreover from calculation(1) have "accounts_get s = accounts_get t" "acc_store s = acc_store t"
    by (simp_all add: same_acc_def accounts_get_def fun_eq_iff)
  ultimately show ?thesis by metis
qed

lemma performed_type:
  assumes "performed E tx bs s rc s'"
  shows "tx_sender_type tx = account_type_of (accounts_get s (tx_sender tx))"
  using assms by (cases rc) (auto simp: performed_def moved_def charged_def accounts_get_lookup same_acc_def)

lemma vesting_sender:
  assumes "account_commit_outgoing E tx bs (Account_Vesting vc, st, L) = (Inr r, sacc, sst, L') \<or>
    account_commit_failed E tx bs (Account_Vesting vc, st, L) = (Inr r, sacc, sst, L')"
  shows "\<exists>vc'. sacc = Account_Vesting vc' \<and> vesting_can_change_balance E vc tx (vc_balance vc') bs = Inr ()"
  using assms
  by (auto simp: account_commit_outgoing_def account_commit_failed_def vesting_commit_outgoing_def vesting_commit_failed_def
      act_inv vc_spend_Inr split: prod.splits)

lemma htlc_sender:
  assumes "account_commit_outgoing E tx bs (Account_HTLC hc, st, L) = (Inr r, sacc, sst, L') \<or>
    account_commit_failed E tx bs (Account_HTLC hc, st, L) = (Inr r, sacc, sst, L')"
  shows "\<exists>hc' pf. sacc = Account_HTLC hc' \<and> deserialize_htlc_proof E (tx_proof tx) = Inr pf \<and>
    htlc_allowed E hc tx (hc_balance hc') bs pf"
proof -
  from assms obtain hc' where h: "sacc = Account_HTLC hc'"
    "htlc_commit_outgoing E tx bs (hc, L) = (Inr r, hc', L') \<or> htlc_commit_failed E tx bs (hc, L) = (Inr r, hc', L')"
    by (auto simp: account_commit_outgoing_def account_commit_failed_def split: prod.splits)
  from h(2) show ?thesis
  proof
    assume o: "htlc_commit_outgoing E tx bs (hc, L) = (Inr r, hc', L')"
    show ?thesis using htlc_outgoing_Inr(2,3) [OF o] h(1) by auto
  next
    assume f: "htlc_commit_failed E tx bs (hc, L) = (Inr r, hc', L')"
    show ?thesis using htlc_failed_Inr(2,3) [OF f] h(1) by auto
  qed
qed

section \<open>Example contracts\<close>

definition example_vesting :: vesting_contract where
  "example_vesting = \<lparr> vc_balance = 1000, vc_owner = 9, vc_start_time = 100, vc_time_step = 10, vc_step_amount = 100, vc_total_amount = 1000 \<rparr>"

definition example_htlc :: htlc where
  "example_htlc = \<lparr> hc_balance = 1000, hc_sender = 8, hc_recipient = 9, hc_hash_root = AnySha256 [7], hc_hash_count = 1, hc_timeout = 500,
     hc_total_amount = 1000 \<rparr>"

definition contract_accounts :: accounts where
  "contract_accounts = \<lparr> acc_tree = fmupd 20 (Account_Vesting example_vesting) (fmupd 21 (Account_HTLC example_htlc) fmempty),
     acc_store = (\<lambda>_. example_store), acc_log = [], acc_failed = False \<rparr>"

definition contract_spend :: "address \<Rightarrow> account_type \<Rightarrow> u8 list \<Rightarrow> transaction" where
  "contract_spend a ty pf = \<lparr> tx_sender = a, tx_sender_type = ty, tx_sender_data = [], tx_recipient = 2, tx_recipient_type = Basic,
     tx_recipient_data = [], tx_value = 290, tx_fee = 10, tx_validity_start_height = 1, tx_network_id = MainAlbatross,
     tx_contract_creation = False, tx_signaling = False, tx_proof = pf \<rparr>"

definition contract_block :: block_state where
  "contract_block = \<lparr> bs_number = 3456012, bs_time = 130, bs_protocol_version = 1 \<rparr>"

lemmas contract_example_defs = contract_spend_def contract_accounts_def example_vesting_def example_htlc_def contract_block_def

lemma contract_acc_inv: "acc_inv contract_accounts"
  by (auto simp: acc_inv_def contract_example_defs kept_def acc_total_def vesting_can_be_pruned_def htlc_can_be_pruned_def
      vesting_state_ok_def htlc_ok_def MAX_SAFE_VALUE_def fsum_upd_new split: if_splits)

lemma contract_spend_verified:
  "transaction_verify example_acc_env False (contract_spend 20 Vesting []) MainAlbatross 1 = Some (Inr ())"
  "transaction_verify example_acc_env False (contract_spend 21 HTLC [1]) MainAlbatross 1 = Some (Inr ())"
proof -
  have i: "account_verify_incoming example_acc_env (contract_spend a ty pf) 1 = Some (Inr ())" for a ty pf
    by (simp add: account_verify_incoming_def basic_verify_incoming_def contract_spend_def)
  have t: "checked_add (tx_value (contract_spend a ty pf)) (tx_fee (contract_spend a ty pf)) = Some 300" for a ty pf
    by (simp add: contract_spend_def checked_add_eq MAX_SAFE_VALUE_def)
  have s: "\<not> TOTAL_SUPPLY < 300" by (simp add: TOTAL_SUPPLY_def)
  have "account_verify_outgoing example_acc_env (contract_spend 20 Vesting []) 1 = Some (Inr ())"
    by (simp add: account_verify_outgoing_def vesting_verify_outgoing_def contract_spend_def parse_signature_proof_def)
  then show "transaction_verify example_acc_env False (contract_spend 20 Vesting []) MainAlbatross 1 = Some (Inr ())"
    using i t s by (simp add: transaction_verify_def) (simp add: contract_spend_def)
  have "account_verify_outgoing example_acc_env (contract_spend 21 HTLC [1]) 1 = Some (Inr ())"
    by (simp add: account_verify_outgoing_def htlc_verify_outgoing_def contract_spend_def) (simp add: example_acc_env_def example_env_def)
  then show "transaction_verify example_acc_env False (contract_spend 21 HTLC [1]) MainAlbatross 1 = Some (Inr ())"
    using i t s by (simp add: transaction_verify_def) (simp add: contract_spend_def)
qed

lemma contract_cap: "vesting_min_cap example_vesting 130 = 700" "htlc_min_cap 1 1 1000 = 0"
  by (simp add: vesting_min_cap_def example_vesting_def trunc_div_def Let_def) (simp add: htlc_cap_over)

text \<open>A spend to an address without an account commits when the handler of the sender accepts it.\<close>

lemma spend_run:
  assumes "account_type_of (accounts_get s a) = ty" "a \<noteq> 2" "fmlookup (acc_tree s) 2 = None"
    "account_commit_outgoing E (contract_spend a ty pf) bs (accounts_get s a, acc_store s a, acc_log s) = (Inr r, sacc, sst, L)"
  shows "\<exists>rc s'. commit_transaction E bs (contract_spend a ty pf) s = (Inr (Receipt_Ok rc), s')"
proof -
  define tx where "tx = contract_spend a ty pf"
  have sel: "tx_sender tx = a" "tx_sender_type tx = ty" "tx_recipient tx = 2" "tx_recipient_type tx = Basic" "\<not> tx_contract_creation tx"
    "tx_value tx = 290" by (simp_all add: tx_def contract_spend_def)
  have rcv: "account_commit_incoming E tx bs (account_default, st, L) =
      (Inr None, Account_Basic \<lparr> ba_balance = 290 \<rparr>, st, L)" for st
    by (simp add: account_commit_incoming_def basic_commit_incoming_def sel account_default_def basic_default_def ba_add_def
        coin_add_def checked_add_eq MAX_SAFE_VALUE_def bind_eff_def seq_eff_def eff_simps act_defs some_or_def ret_def modify_def gets_def)
  have "account_type_of account_default = Basic" by (simp add: account_default_def)
  then show ?thesis
    using assms
    by (fold tx_def) (simp add: commit_transaction_def try_commit_transaction_def get_with_type_run commit_recipient_def sel
      accounts_get_lookup bind_eff_def attempt_def on_account_def ret_def lookup_acc_def rcv put_or_prune_eq put_account_run
      basic_can_be_pruned_def seq_eff_def)
qed

lemma contract_spend_total: "total_value (contract_spend a ty pf) = 300"
  by (simp add: total_value_def coin_saturating_add_eq MAX_SAFE_VALUE_def contract_spend_def)

lemma vesting_spend_run:
  "\<exists>rc s'. commit_transaction example_acc_env contract_block (contract_spend 20 Vesting []) contract_accounts = (Inr (Receipt_Ok rc), s')"
proof (rule spend_run)
  let ?tx = "contract_spend 20 Vesting []"
  have "vesting_can_change_balance example_acc_env example_vesting ?tx 700 contract_block = Inr ()"
    using contract_cap(1) by (simp add: vesting_allowed contract_block_def) (simp add: contract_spend_def example_vesting_def)
  then have sp: "vc_spend example_acc_env ?tx (total_value ?tx) contract_block (example_vesting, []) =
    (Inr (), example_vesting \<lparr> vc_balance := 700 \<rparr>, [])"
    by (simp add: vc_spend_Inr contract_spend_total MAX_SAFE_VALUE_def) (simp add: example_vesting_def)
  show "account_commit_outgoing example_acc_env ?tx contract_block
      (accounts_get contract_accounts 20, acc_store contract_accounts 20, acc_log contract_accounts) =
    (Inr None, Account_Vesting (example_vesting \<lparr> vc_balance := 700 \<rparr>), example_store, [pay_fee_log ?tx, transfer_log ?tx])"
    by (simp add: account_commit_outgoing_def vesting_commit_outgoing_def accounts_get_def contract_accounts_def seq_eff_def
        bind_eff_def sp log_event_def modify_def ret_def)
qed (simp_all add: accounts_get_def contract_accounts_def)

lemma htlc_spend_run:
  "\<exists>rc s'. commit_transaction example_acc_env contract_block (contract_spend 21 HTLC [1]) contract_accounts = (Inr (Receipt_Ok rc), s')"
proof (rule spend_run)
  let ?tx = "contract_spend 21 HTLC [1]"
  have d: "deserialize_htlc_proof example_acc_env [1] = Inr (RegularTransfer 1 (AnySha256 [7]) (PreImage32 [7]) [])"
    by (simp add: example_acc_env_def)
  have bal: "hc_balance example_htlc = 1000" by (simp add: example_htlc_def)
  have "htlc_can_change_balance example_acc_env ?tx b contract_block (example_htlc, L) =
    (Inr (), example_htlc, L @ [Log_HTLCRegularTransfer 21 (PreImage32 [7]) 1])" for b L
    using contract_cap(2) d
    by (simp add: htlc_can_change_balance_def contract_spend_def contract_block_def bind_eff_def act_defs gets_def of_sum_def ret_def
        example_htlc_def is_signed_by_def coin_try_from_def modify_def)
  then show "account_commit_outgoing example_acc_env ?tx contract_block
      (accounts_get contract_accounts 21, acc_store contract_accounts 21, acc_log contract_accounts) =
    (Inr None, Account_HTLC (example_htlc \<lparr> hc_balance := 700 \<rparr>), example_store,
      [pay_fee_log ?tx, transfer_log ?tx, Log_HTLCRegularTransfer 21 (PreImage32 [7]) 1])"
    by (simp add: account_commit_outgoing_def htlc_commit_outgoing_def accounts_get_def contract_accounts_def seq_eff_def
        bind_eff_def act_defs modify_def ret_def gets_def contract_spend_total safe_sub_def checked_sub_eq of_sum_def MAX_SAFE_VALUE_def bal)
qed (simp_all add: accounts_get_def contract_accounts_def)

text \<open>
  C15. Coins leave a vesting contract only with a signature of its owner over the transaction, and never
  below the minimum the schedule leaves locked at the time of the block. This holds for a failed
  transaction too, whose fee is taken from the contract.
\<close>

theorem accounts_vesting_enforced:
  assumes "acc_inv s" "acc_codecs_ok E" "transaction_verify E False tx network version = Some (Inr ())" "is_albatross network"
    "accounts_get s (tx_sender tx) = Account_Vesting vc" "commit_transaction E bs tx s = (Inr rc, s')"
  shows "vesting_min_cap vc (bs_time bs) \<le> account_balance (accounts_get s' (tx_sender tx)) \<and>
    (\<exists>pf. deserialize_proof E (tx_proof tx) = Inr pf \<and> compute_signer E pf = vc_owner vc \<and>
      verify_proof E pf (serialize_content E tx))"
proof -
  note v = verified_valid [OF assms(3)]
  have p: "performed E tx bs s rc s'" using commit_transaction_cases [OF assms(1) v assms(2), of bs] assms(6) by simp
  from performed_sender [OF v p] obtain L r sacc sst L' where
    o: "account_commit_outgoing E tx bs (Account_Vesting vc, acc_store s (tx_sender tx), L) = (Inr r, sacc, sst, L') \<or>
     account_commit_failed E tx bs (Account_Vesting vc, acc_store s (tx_sender tx), L) = (Inr r, sacc, sst, L')"
    and b: "account_balance (accounts_get s' (tx_sender tx)) = account_balance sacc"
    unfolding assms(5) by blast
  from vesting_sender [OF o] obtain vc' pf where h: "sacc = Account_Vesting vc'" "deserialize_proof E (tx_proof tx) = Inr pf"
    "vesting_min_cap vc (bs_time bs) \<le> vc_balance vc'" "compute_signer E pf = vc_owner vc" by (auto simp: vesting_allowed)
  have "tx_sender_type tx = Vesting" using performed_type [OF p] by (simp add: assms(5))
  then have "verify_proof E pf (serialize_content E tx)"
    using transaction_verified(2,5) [OF assms(3)] assms(4) h(2)
    by (auto simp: account_verify_outgoing_def vesting_verify_outgoing_def parse_signature_proof_def split: if_splits)
  then show ?thesis using h b by simp
qed

theorem accounts_vesting_enforced_witness:
  "\<exists>rc s'. commit_transaction example_acc_env contract_block (contract_spend 20 Vesting []) contract_accounts = (Inr rc, s') \<and>
     700 \<le> account_balance (accounts_get s' 20)"
proof -
  obtain rc s' where r: "commit_transaction example_acc_env contract_block (contract_spend 20 Vesting []) contract_accounts = (Inr (Receipt_Ok rc), s')"
    using vesting_spend_run by blast
  have "accounts_get contract_accounts (tx_sender (contract_spend 20 Vesting [])) = Account_Vesting example_vesting"
    by (simp add: accounts_get_def contract_accounts_def contract_spend_def)
  from accounts_vesting_enforced [OF contract_acc_inv example_acc_codecs contract_spend_verified(1) _ this r]
  show ?thesis using r contract_cap(1) by (simp add: contract_block_def) (simp add: contract_spend_def)
qed





text \<open>
  C39. The part of a hashed time-locked contract that stays locked, computed in double precision, never
  exceeds the amount of the contract. Without a revealed hash everything is locked, with all hashes
  revealed nothing is; a contract without hashes locks nothing.
\<close>

theorem htlc_locked:
  assumes "amount \<le> MAX_SAFE_VALUE"
  shows "htlc_min_cap hash_depth hash_count amount \<le> amount \<and>
    (hash_count \<noteq> 0 \<longrightarrow> htlc_min_cap 0 hash_count amount = amount) \<and>
    (hash_count \<le> hash_depth \<longrightarrow> htlc_min_cap hash_depth hash_count amount = 0)"
  using htlc_cap_bound [OF assms] htlc_cap_none [OF assms] htlc_cap_over by blast

theorem htlc_locked_witness: "htlc_min_cap 0 3 1000 = 1000 \<and> htlc_min_cap 3 3 1000 = 0"
  using htlc_locked [of 1000 3 3] by (simp add: MAX_SAFE_VALUE_def)

section \<open>Creation data\<close>

text \<open>
  The creation data a client writes for a vesting contract is the data a node reads from the
  transaction, in each of the three formats. The two short formats leave the total amount to the value
  of the transaction, so they require it to be the total amount.
\<close>

theorem vesting_data_roundtrip:
  assumes "vesting_ok d amount" "vd_step_amount d = vd_total_amount d \<longrightarrow> vd_total_amount d = amount"
  shows "parse_vesting_data (vesting_to_tx_data d) amount = Inr d"
  using assms
  by (auto simp: parse_vesting_data_def vesting_to_tx_data_def vesting_ok_def get_vesting8_put get_vesting24_put get_vesting32_put
      not_less not_le)

theorem vesting_data_roundtrip_witness:
  "parse_vesting_data (vesting_to_tx_data \<lparr> vd_owner = 9, vd_start_time = 100, vd_time_step = 10, vd_step_amount = 100, vd_total_amount = 1000 \<rparr>) 1000 =
    Inr \<lparr> vd_owner = 9, vd_start_time = 100, vd_time_step = 10, vd_step_amount = 100, vd_total_amount = 1000 \<rparr>"
  by (rule vesting_data_roundtrip) (simp_all add: vesting_ok_def MAX_TIME_VALUE_def MAX_SAFE_VALUE_def)

text \<open>
  C40. The creation data of a hashed time-locked contract is read back as it was written.
\<close>

theorem htlc_data_roundtrip:
  assumes "any_hash_ok (hd_hash_root d)" "tx_recipient_data tx = put_htlc_data d"
  shows "parse_htlc tx = Inr d"
  using whtlc.all_get_put [of d] assms by (simp add: parse_htlc_def)

theorem htlc_data_roundtrip_witness:
  "parse_htlc (example_transfer \<lparr> tx_recipient_data := put_htlc_data \<lparr> hd_sender = 8, hd_recipient = 9, hd_hash_root = AnySha256 (replicate 32 7),
      hd_hash_count = 1, hd_timeout = 500 \<rparr> \<rparr>) =
    Inr \<lparr> hd_sender = 8, hd_recipient = 9, hd_hash_root = AnySha256 (replicate 32 7), hd_hash_count = 1, hd_timeout = 500 \<rparr>"
  by (rule htlc_data_roundtrip) simp_all

section \<open>Reserved balances\<close>

lemma balance_for_upd: "balance_for (rb \<lparr> rb_balances := fmupd a c (rb_balances rb) \<rparr>) b = (if a = b then c else balance_for rb b)"
  by (simp add: balance_for_def)

lemma release_for_reserved:
  assumes "reserve_for a funds amount rb = (Inr u, rb')"
  shows "\<exists>rb''. release_for a amount rb' = (Inr (), rb'') \<and> (\<forall>b. balance_for rb'' b = balance_for rb b)"
  using assms
  by (auto simp: reserve_for_Inr release_for_def bind_eff_def gets_def checked_sub_eq some_or_def ret_def modify_def balance_for_upd)

text \<open>Reserving balance for a transaction goes to one entry, from which it is released.\<close>

lemma account_reserved:
  assumes "account_reserve_balance E acc st tx bs rb = (Inr (), rb')"
  shows "\<exists>a funds. reserve_for a funds (total_value tx) rb = (Inr (), rb') \<and>
    account_release_balance E acc st tx rb' = release_for a (total_value tx) rb' \<and>
    (account_type_of acc \<noteq> Staking \<longrightarrow> funds = account_balance acc \<and> a = rb_address rb)"
proof -
  have plain: "\<exists>a f. reserve_for a f (total_value tx) rb = (Inr (), rb') \<and> release (total_value tx) rb' = release_for a (total_value tx) rb' \<and>
      f = funds \<and> a = rb_address rb"
    if "reserve funds (total_value tx) rb = (Inr (), rb')" for funds
    using that by (auto simp: reserve_def release_def bind_eff_def gets_def reserve_for_Inr)
  show ?thesis
  proof (cases acc)
    case (Account_Basic x)
    then show ?thesis using assms plain by (simp add: basic_reserve_balance_def basic_release_balance_def)
  next
    case (Account_Vesting x)
    then show ?thesis
      using assms plain [of "vc_balance x"] by (auto simp: vesting_reserve_balance_def vesting_release_balance_def act_inv eff_inv)
  next
    case (Account_HTLC x)
    then show ?thesis
      using assms plain [of "hc_balance x"] by (auto simp: htlc_reserve_balance_def htlc_release_balance_def act_inv eff_inv)
  next
    case (Account_Staking x)
    let ?s = "join_staking x st []"
    from assms Account_Staking obtain data pf where p: "fst (parse_outgoing_tx E tx ?s) = Inr (data, pf)"
      by (auto simp: sc_reserve_balance_def check_on_def eff_inv)
    have "account_release_balance E acc st tx rb' = release_for (compute_signer E pf) (total_value tx) rb'"
      using p by (simp add: Account_Staking sc_release_balance_def check_on_def of_sum_def bind_eff_def ret_def)
    moreover have "\<exists>funds. reserve_for (compute_signer E pf) funds (total_value tx) rb = (Inr (), rb')"
      using assms p by (cases data)
        (auto simp: Account_Staking sc_reserve_balance_def check_on_def act_inv eff_inv Let_def)
    ultimately show ?thesis by (auto simp: Account_Staking)
  qed
qed

text \<open>
  Balance reserved for a transaction goes to one entry of the reserved balances and grows it by
  value and fee; releasing it brings back all of them and cannot panic. Outside the staking contract
  the reserved balance never exceeds the balance of the account, so a block producer cannot spend the
  same coins twice.
\<close>

theorem reserved_balance_released:
  assumes "account_reserve_balance E acc st tx bs rb = (Inr (), rb')"
  shows "\<exists>a rb''. balance_for rb' a = balance_for rb a + total_value tx \<and> (\<forall>b. b \<noteq> a \<longrightarrow> balance_for rb' b = balance_for rb b) \<and>
    account_release_balance E acc st tx rb' = (Inr (), rb'') \<and> (\<forall>b. balance_for rb'' b = balance_for rb b) \<and>
    (account_type_of acc \<noteq> Staking \<longrightarrow> a = rb_address rb \<and> balance_for rb' a \<le> account_balance acc)"
proof -
  from account_reserved [OF assms] obtain a funds where
    a: "reserve_for a funds (total_value tx) rb = (Inr (), rb')"
      "account_release_balance E acc st tx rb' = release_for a (total_value tx) rb'"
      "account_type_of acc \<noteq> Staking \<longrightarrow> funds = account_balance acc \<and> a = rb_address rb" by blast
  from release_for_reserved [OF a(1)] obtain rb'' where
    "release_for a (total_value tx) rb' = (Inr (), rb'')" "\<forall>b. balance_for rb'' b = balance_for rb b" by blast
  then show ?thesis using a by (intro exI [of _ a] exI [of _ rb'']) (auto simp: reserve_for_Inr balance_for_upd)
qed

theorem reserved_balance_released_witness:
  "\<exists>rb' rb''. account_reserve_balance example_acc_env (Account_Basic \<lparr> ba_balance = 1000 \<rparr>) example_store example_transfer example_block (reserved_new 9) =
      (Inr (), rb') \<and> account_release_balance example_acc_env (Account_Basic \<lparr> ba_balance = 1000 \<rparr>) example_store example_transfer rb' = (Inr (), rb'')"
proof -
  have "total_value example_transfer = 1000"
    by (simp add: total_value_def coin_saturating_add_eq example_transfer_def MAX_SAFE_VALUE_def)
  then have "account_reserve_balance example_acc_env (Account_Basic \<lparr> ba_balance = 1000 \<rparr>) example_store example_transfer example_block (reserved_new 9) =
    (Inr (), \<lparr> rb_address = 9, rb_balances = fmupd 9 1000 fmempty \<rparr>)"
    by (simp add: basic_reserve_balance_def reserve_def reserve_for_Inr bind_eff_def gets_def reserved_new_def balance_for_def MAX_SAFE_VALUE_def)
  from reserved_balance_released [OF this] this show ?thesis by blast
qed

end
