(* ===== verification/Sampling.thy ===== *)
theory Sampling
  imports Wire
begin

text \<open>
  Random choices: rejection sampling (\<^verbatim>\<open>vrf/src/rng.rs\<close>), the generator seeded by the entropy of a block
  (\<open>VrfRng\<close> of \<^verbatim>\<open>vrf/src/vrf.rs\<close>) and the alias method for discrete distributions
  (\<^verbatim>\<open>vrf/src/discrete.rs\<close>). A computation that draws numbers may not return, which is \<open>None\<close>.
\<close>

section \<open>Computations that draw numbers\<close>

type_synonym ('g, 'x) rnd = "'g \<Rightarrow> ((error + 'x) \<times> 'g) option"

definition ret_rnd :: "'x \<Rightarrow> ('g, 'x) rnd" where
  "ret_rnd x g = Some (Inr x, g)"

definition panic_rnd :: "('g, 'x) rnd" where
  "panic_rnd g = Some (Inl Panic, g)"

definition bind_rnd :: "('g, 'x) rnd \<Rightarrow> ('x \<Rightarrow> ('g, 'y) rnd) \<Rightarrow> ('g, 'y) rnd" where
  "bind_rnd m f g = (case m g of
     None \<Rightarrow> None
   | Some (Inl e, g') \<Rightarrow> Some (Inl e, g')
   | Some (Inr x, g') \<Rightarrow> f x g')"

section \<open>Rejection sampling\<close>

fun bit_length :: "nat \<Rightarrow> nat" where
  "bit_length n = (if n = 0 then 0 else Suc (bit_length (n div 2)))"

text \<open>The power of two wraps to zero above \<open>2 ^ 63\<close>, as in the release profile.\<close>

definition next_power_of_two :: "u64 \<Rightarrow> u64" where
  "next_power_of_two w = (if w \<le> 1 then 1 else 2 ^ bit_length (unat (w - 1)))"

partial_function (option) resample :: "('g \<Rightarrow> u64 \<times> 'g) \<Rightarrow> u64 \<Rightarrow> u64 \<Rightarrow> 'g \<Rightarrow> (u64 \<times> 'g) option" where
  "resample next_u64 bitmask limit g =
    (let x = and (fst (next_u64 g)) bitmask; g' = snd (next_u64 g)
     in if x < limit then Some (x, g') else resample next_u64 bitmask limit g')"

definition next_u64_below :: "('g \<Rightarrow> u64 \<times> 'g) \<Rightarrow> u64 \<Rightarrow> ('g, u64) rnd" where
  "next_u64_below next_u64 limit g =
    (if limit = 0 then panic_rnd g
     else map_option (map_prod Inr id) (resample next_u64 (next_power_of_two limit - 1) limit g))"

section \<open>The generator of a block\<close>

datatype vrf_use_case = Seed | ValidatorSlotSelection | ViewSlotSelection | RewardDistribution

fun use_case_byte :: "vrf_use_case \<Rightarrow> u8" where
  "use_case_byte Seed = 1"
| "use_case_byte ValidatorSlotSelection = 2"
| "use_case_byte ViewSlotSelection = 3"
| "use_case_byte RewardDistribution = 4"

record vrf_rng =
  rng_entropy :: "u8 list"
  rng_use_case :: vrf_use_case
  rng_counter :: u64

definition vrf_rng_new :: "u8 list \<Rightarrow> vrf_use_case \<Rightarrow> vrf_rng" where
  "vrf_rng_new entropy use_case = \<lparr> rng_entropy = entropy, rng_use_case = use_case, rng_counter = 0 \<rparr>"

definition next_hash :: "(u8 list \<Rightarrow> u8 list) \<Rightarrow> vrf_rng \<Rightarrow> u8 list \<times> vrf_rng" where
  "next_hash hash rng =
    (hash (use_case_byte (rng_use_case rng) # put_be 8 (rng_counter rng) @ rng_entropy rng),
     rng \<lparr> rng_counter := rng_counter rng + 1 \<rparr>)"

definition vrf_next_u64 :: "(u8 list \<Rightarrow> u8 list) \<Rightarrow> vrf_rng \<Rightarrow> u64 \<times> vrf_rng" where
  "vrf_next_u64 hash rng = (case next_hash hash rng of (h, rng') \<Rightarrow> (of_nat (be_nat (take 8 h)), rng'))"

section \<open>The alias method\<close>

record discrete_distribution =
  dd_T :: u64
  dd_n :: nat
  dd_K :: "nat list"
  dd_U :: "u64 list"

text \<open>
  The stacks of underfull and overfull entries, the last pushed one first. Both are popped before the
  loop is left, so the last pop may take an entry from one of them only.
\<close>

fun alias_loop ::
  "u64 \<Rightarrow> nat list \<Rightarrow> nat list \<Rightarrow> nat list \<Rightarrow> u64 list \<Rightarrow> nat list \<times> nat list \<times> nat list \<times> u64 list" where
  "alias_loop T (i_u # underfull) (i_o # overfull) K U =
    (let K' = K[i_u := i_o]; U_o = U ! i_o + U ! i_u - T; U' = U[i_o := U_o]
     in if U_o > T then alias_loop T underfull (i_o # overfull) K' U'
        else if U_o < T then alias_loop T (i_o # underfull) overfull K' U'
        else alias_loop T underfull overfull K' U')"
| "alias_loop T [] overfull K U = ([], tl overfull, K, U)"
| "alias_loop T underfull [] K U = (tl underfull, [], K, U)"

definition dd_new :: "u64 list \<Rightarrow> discrete_distribution option" where
  "dd_new p =
    (let n = length p;
         T = sum_list p;
         U = map (\<lambda>x. x * of_nat n) p
     in if T = 0 then None
        else let underfull = rev (filter (\<lambda>i. U ! i < T) [0..<n]);
                 overfull = rev (filter (\<lambda>i. U ! i > T) [0..<n])
             in case alias_loop T underfull overfull [0..<n] U of
                  (underfull', overfull', K, U') \<Rightarrow>
                    if underfull' = [] \<and> overfull' = []
                    then Some \<lparr> dd_T = T, dd_n = n, dd_K = K, dd_U = U' \<rparr>
                    else None)"

definition dd_pick :: "discrete_distribution \<Rightarrow> nat \<Rightarrow> u64 \<Rightarrow> nat" where
  "dd_pick d x y = (if y < dd_U d ! x then x else dd_K d ! x)"

definition dd_sample :: "('g \<Rightarrow> u64 \<times> 'g) \<Rightarrow> discrete_distribution \<Rightarrow> ('g, nat) rnd" where
  "dd_sample next_u64 d =
    bind_rnd (next_u64_below next_u64 (of_nat (dd_n d))) (\<lambda>x.
    bind_rnd (next_u64_below next_u64 (dd_T d)) (\<lambda>y.
    ret_rnd (dd_pick d (unat x) y)))"

section \<open>The alias table is exact\<close>

text \<open>
  The mass an entry receives from the settled entries that are aliased to it, and the invariant of the
  loop: own mass and received mass add up to the weight of the entry, and the entries that wait on the
  stacks have \<open>T\<close> each on average.
\<close>

definition received :: "nat \<Rightarrow> nat \<Rightarrow> nat set \<Rightarrow> nat list \<Rightarrow> u64 list \<Rightarrow> nat \<Rightarrow> nat" where
  "received n T P K U i = (\<Sum>x<n. if x \<notin> P \<and> K ! x = i then T - unat (U ! x) else 0)"

definition alias_inv :: "nat list \<Rightarrow> nat \<Rightarrow> nat list \<Rightarrow> nat list \<Rightarrow> nat list \<Rightarrow> u64 list \<Rightarrow> bool" where
  "alias_inv W T us os K U \<longleftrightarrow>
     length K = length W \<and> length U = length W \<and> length W * T < 2 ^ 64 \<and>
     distinct (us @ os) \<and> set (us @ os) \<subseteq> {..<length W} \<and>
     (\<forall>i\<in>set us. unat (U ! i) < T \<and> K ! i = i) \<and> (\<forall>i\<in>set os. unat (U ! i) > T \<and> K ! i = i) \<and>
     (\<forall>i<length W. i \<notin> set (us @ os) \<longrightarrow> unat (U ! i) \<le> T) \<and> (\<forall>i<length W. K ! i < length W) \<and>
     (\<forall>i<length W. unat (U ! i) + received (length W) T (set (us @ os)) K U i = W ! i) \<and>
     (\<Sum>i\<in>set (us @ os). unat (U ! i)) = T * length (us @ os)"

lemma alias_inv_empty:
  assumes "alias_inv W T us os K U" "us = [] \<or> os = []"
  shows "us = [] \<and> os = []"
proof -
  have s: "(\<Sum>i\<in>set (us @ os). unat (U ! i)) = T * length (us @ os)" using assms(1) by (simp add: alias_inv_def)
  have c: "(\<Sum>i\<in>set xs. T) = T * length xs" if "distinct xs" for xs :: "nat list" using that by (simp add: distinct_card)
  from assms(2) show ?thesis
  proof
    assume u: "us = []"
    have "os = []"
    proof (rule ccontr)
      assume "os \<noteq> []"
      then have "(\<Sum>i\<in>set os. T) < (\<Sum>i\<in>set os. unat (U ! i))"
        using assms(1) by (intro sum_strict_mono) (auto simp: alias_inv_def)
      then show False using s c [of os] assms(1) u by (simp add: alias_inv_def)
    qed
    then show ?thesis using u by simp
  next
    assume o: "os = []"
    have "us = []"
    proof (rule ccontr)
      assume "us \<noteq> []"
      then have "(\<Sum>i\<in>set us. unat (U ! i)) < (\<Sum>i\<in>set us. T)"
        using assms(1) by (intro sum_strict_mono) (auto simp: alias_inv_def)
      then show False using s c [of us] assms(1) o by (simp add: alias_inv_def)
    qed
    then show ?thesis using o by simp
  qed
qed

text \<open>One step: the entry \<open>i_u\<close> is filled up from \<open>i_o\<close>, whose mass shrinks by what it gave.\<close>

lemma alias_step_mass:
  assumes inv: "alias_inv W T (i_u # us) (i_o # os) K U"
  shows "unat (U ! i_o) + unat (U ! i_u) < 2 ^ 64" "T \<le> unat (U ! i_o) + unat (U ! i_u)"
proof -
  let ?P = "(i_u # us) @ (i_o # os)"
  have p: "distinct ?P" "set ?P \<subseteq> {..<length W}" "length W * T < 2 ^ 64" "T < unat (U ! i_o)"
    "(\<Sum>i\<in>set ?P. unat (U ! i)) = T * length ?P"
    using inv by (simp_all add: alias_inv_def)
  have "length ?P \<le> length W" using card_mono [OF _ p(2)] distinct_card [OF p(1)] by simp
  then have "T * length ?P \<le> T * length W" by (rule mult_le_mono2)
  moreover have "(\<Sum>i\<in>{i_o, i_u}. unat (U ! i)) \<le> (\<Sum>i\<in>set ?P. unat (U ! i))" by (rule sum_mono2) auto
  ultimately show "unat (U ! i_o) + unat (U ! i_u) < 2 ^ 64" using p(1,3,5) by (simp add: mult.commute)
  show "T \<le> unat (U ! i_o) + unat (U ! i_u)" using p(4) by simp
qed

lemma received_step:
  assumes "i_u < n" "i_o < n" "i_u \<in> P" "i_o \<in> P" "i_u \<noteq> i_o" "length K = n" "length U = n"
    "P' = P - {i_u} \<or> P' = P - {i_u, i_o} \<and> unat c = T"
  shows "received n T P' (K[i_u := i_o]) (U[i_o := c]) i = received n T P K U i + (if i = i_o then T - unat (U ! i_u) else 0)"
proof -
  have "(\<Sum>x<n. if x \<notin> P' \<and> K[i_u := i_o] ! x = i then T - unat (U[i_o := c] ! x) else 0) =
    (\<Sum>x<n. (if x \<notin> P \<and> K ! x = i then T - unat (U ! x) else 0) + (if x = i_u then (if i = i_o then T - unat (U ! i_u) else 0) else 0))"
    by (rule sum.cong) (use assms in \<open>auto simp: nth_list_update\<close>)
  then show ?thesis using assms(1) by (simp add: received_def sum.distrib)
qed

lemma alias_step:
  assumes inv: "alias_inv W T (i_u # us) (i_o # os) K U" and T: "unat T' = T"
    and c: "c = U ! i_o + U ! i_u - T'"
    and rest: "us' = (if c < T' then i_o # us else us)" "os' = (if c > T' then i_o # os else os)"
  shows "alias_inv W T us' os' (K[i_u := i_o]) (U[i_o := c])"
proof -
  let ?P = "set ((i_u # us) @ (i_o # os))" and ?P' = "set (us' @ os')" and ?n = "length W"
  note m = alias_step_mass [OF inv]
  have add: "unat (U ! i_o + U ! i_u) = unat (U ! i_o) + unat (U ! i_u)" using m(1) by (simp add: word_arith)
  then have uc: "unat c = unat (U ! i_o) + unat (U ! i_u) - T"
    using m(2) T by (simp add: c word_arith word_le_nat_alt)
  have p: "length K = ?n" "length U = ?n" "distinct ((i_u # us) @ (i_o # os))" "?P \<subseteq> {..<?n}" "unat (U ! i_u) < T" "K ! i_o = i_o"
    using inv by (simp_all add: alias_inv_def)
  have P': "?P' = ?P - {i_u} \<or> ?P' = ?P - {i_u, i_o} \<and> unat c = T" "i_o \<notin> ?P' \<Longrightarrow> unat c = T"
    using p(3) T by (auto simp: rest word_less_nat_alt split: if_splits)
  have rc: "received ?n T ?P' (K[i_u := i_o]) (U[i_o := c]) i = received ?n T ?P K U i + (if i = i_o then T - unat (U ! i_u) else 0)" for i
    by (rule received_step) (use p P'(1) in auto)
  have neq: "U[i_o := c] ! i = U ! i" if "i \<noteq> i_o" for i using that by (simp add: nth_list_update_neq)
  have Q: "(\<Sum>i\<in>set (us @ os). unat (U[i_o := c] ! i)) = (\<Sum>i\<in>set (us @ os). unat (U ! i))"
    by (rule sum.cong) (use p(3) in \<open>auto intro!: arg_cong [where f = unat] neq\<close>)
  have S: "unat (U ! i_u) + (unat (U ! i_o) + (\<Sum>i\<in>set (us @ os). unat (U ! i))) = T * (2 + length us + length os)"
  proof -
    have "(\<Sum>i\<in>?P. unat (U ! i)) = unat (U ! i_u) + (unat (U ! i_o) + (\<Sum>i\<in>set (us @ os). unat (U ! i)))"
      using p(3) by simp
    moreover have "(\<Sum>i\<in>?P. unat (U ! i)) = T * length ((i_u # us) @ (i_o # os))" using inv by (simp only: alias_inv_def)
    ultimately show ?thesis by (simp add: algebra_simps)
  qed
  have io: "i_o < ?n" using p(4) by auto
  have "(\<Sum>i\<in>?P'. unat (U[i_o := c] ! i)) = T * length (us' @ os')"
  proof (cases "i_o \<in> ?P'")
    case True
    then have e: "?P' = insert i_o (set (us @ os))" "length (us' @ os') = 1 + length us + length os"
      using p(3) by (auto simp: rest split: if_splits)
    show ?thesis unfolding e using S uc m(2) Q p(2,3) io by (simp add: algebra_simps)
  next
    case False
    then have e: "?P' = set (us @ os)" "length (us' @ os') = length us + length os"
      by (auto simp: rest split: if_splits)
    show ?thesis unfolding e using S uc m(2) Q P'(2) [OF False] by (simp add: algebra_simps)
  qed
  moreover have "unat (U[i_o := c] ! i) + received ?n T ?P' (K[i_u := i_o]) (U[i_o := c]) i = W ! i" if "i < ?n" for i
  proof -
    have "unat (U ! i) + received ?n T ?P K U i = W ! i" using inv that by (simp add: alias_inv_def)
    then show ?thesis unfolding rc using that uc m(2) p(2,5) by (cases "i = i_o") simp_all
  qed
  moreover have "distinct (us' @ os')" "?P' \<subseteq> {..<?n}" using p(3,4) by (auto simp: rest split: if_splits)
  moreover have "\<forall>i\<in>set us'. unat (U[i_o := c] ! i) < T \<and> K[i_u := i_o] ! i = i"
    using inv p(1,2,3,6) io T by (auto simp: alias_inv_def rest nth_list_update word_less_nat_alt split: if_splits)
  moreover have "\<forall>i\<in>set os'. unat (U[i_o := c] ! i) > T \<and> K[i_u := i_o] ! i = i"
    using inv p(1,2,3,6) io T by (auto simp: alias_inv_def rest nth_list_update word_less_nat_alt split: if_splits)
  moreover have "\<forall>i<?n. i \<notin> ?P' \<longrightarrow> unat (U[i_o := c] ! i) \<le> T"
  proof (intro allI impI)
    fix i
    assume "i < ?n" "i \<notin> ?P'"
    then show "unat (U[i_o := c] ! i) \<le> T"
      using inv P' p(2,5) by (cases "i = i_o \<or> i = i_u") (auto simp: alias_inv_def)
  qed
  moreover have "\<forall>i<?n. K[i_u := i_o] ! i < ?n" using inv io by (auto simp: alias_inv_def nth_list_update)
  ultimately show ?thesis using inv by (simp add: alias_inv_def)
qed

lemma alias_loop_inv:
  assumes "alias_inv W (unat T) us os K U"
  shows "\<exists>K' U'. alias_loop T us os K U = ([], [], K', U') \<and> alias_inv W (unat T) [] [] K' U'"
  using assms
proof (induction T us os K U rule: alias_loop.induct)
  case (1 T i_u us i_o os K U)
  note IH = 1(1-3) [OF refl refl refl]
  define c where "c = U ! i_o + U ! i_u - T"
  note st = alias_step [OF 1(4) refl c_def refl refl]
  consider (over) "c > T" | (below) "c < T" | (full) "c = T" by fastforce
  then show ?case
  proof cases
    case over
    then show ?thesis using IH(1) st less_not_sym [OF over] by (simp add: c_def [symmetric] Let_def)
  next
    case below
    then show ?thesis using IH(2) st less_not_sym [OF below] by (simp add: c_def [symmetric] Let_def)
  next
    case full
    then show ?thesis using IH(3) st by (simp add: c_def [symmetric] Let_def)
  qed
next
  case (2 T os K U)
  then show ?case using alias_inv_empty [OF 2] by simp
next
  case (3 T u us K U)
  then show ?case using alias_inv_empty [OF 3] by simp
qed

lemma unat_sum_list: "(\<Sum>x\<leftarrow>xs. unat x) < 2 ^ LENGTH('a) \<Longrightarrow> unat (sum_list xs) = (\<Sum>x\<leftarrow>xs. unat (x :: 'a::len word))"
  by (induction xs) (simp_all add: word_arith)

lemma alias_inv_start:
  fixes p :: "u64 list"
  defines "n \<equiv> length p" and "T \<equiv> sum_list p" and "U \<equiv> map (\<lambda>x. x * of_nat (length p)) p"
  assumes b: "n * (\<Sum>x\<leftarrow>p. unat x) < 2 ^ 64" "T \<noteq> 0"
  shows "unat T = (\<Sum>x\<leftarrow>p. unat x)"
    "alias_inv (map (\<lambda>x. n * unat x) p) (unat T) (rev (filter (\<lambda>i. U ! i < T) [0..<n])) (rev (filter (\<lambda>i. U ! i > T) [0..<n])) [0..<n] U"
proof -
  let ?S = "\<Sum>x\<leftarrow>p. unat x" and ?W = "map (\<lambda>x. n * unat x) p"
  have n: "0 < n" using b(2) by (cases p) (simp_all add: n_def T_def)
  then have "?S \<le> n * ?S" by simp
  from le_less_trans [OF this b(1)] have "?S < 2 ^ LENGTH(64)" by simp
  then show T: "unat T = ?S" unfolding T_def by (rule unat_sum_list)
  have U: "unat (U ! i) = ?W ! i" if "i < n" for i
  proof -
    have "unat (p ! i) \<le> ?S" using that by (simp add: n_def member_le_sum_list)
    then have i: "n * unat (p ! i) \<le> n * ?S" by (rule mult_le_mono2)
    have o: "n * 1 \<le> n * ?S" using b(2) T unat_gt_0 [of T] by (intro mult_le_mono2) simp
    have l: "n * unat (p ! i) < 2 ^ 64" "n < 2 ^ 64" using le_less_trans [OF i b(1)] le_less_trans [OF o b(1)] by simp_all
    then have "unat (of_nat n :: u64) = n" by (simp add: unat_of_nat take_bit_nat_eq_self)
    then show ?thesis using that l(1) by (simp add: U_def n_def word_arith mult.commute)
  qed
  let ?us = "rev (filter (\<lambda>i. U ! i < T) [0..<n])" and ?os = "rev (filter (\<lambda>i. U ! i > T) [0..<n])"
  define P where "P = set (?us @ ?os)"
  have d: "distinct (?us @ ?os)" by auto
  have P: "P \<subseteq> {..<n}" "card P = length (?us @ ?os)" using distinct_card [OF d] by (auto simp: P_def)
  have eq: "U ! i = T" if "i < n" "i \<notin> P" for i using that by (auto simp: P_def)
  have "(\<Sum>i<n. unat (U ! i)) = (\<Sum>i<n. n * unat (p ! i))" by (rule sum.cong) (simp_all add: U n_def)
  also have "\<dots> = n * ?S" by (simp add: sum_distrib_left [symmetric] n_def sum_list_sum_nth atLeast0LessThan)
  finally have all: "(\<Sum>i<n. unat (U ! i)) = n * unat T" by (simp add: T)
  have "(\<Sum>i\<in>{..<n} - P. unat (U ! i)) = (\<Sum>i\<in>{..<n} - P. unat T)" by (rule sum.cong) (simp_all add: eq)
  also have "\<dots> = (n - card P) * unat T" using P(1) by (simp add: card_Diff_subset finite_subset)
  finally have "(\<Sum>i\<in>P. unat (U ! i)) + (n - card P) * unat T = n * unat T"
    using sum.subset_diff [OF P(1), of "\<lambda>i. unat (U ! i)"] all by simp
  moreover have "card P \<le> n" using card_mono [OF _ P(1)] by simp
  ultimately have s: "(\<Sum>i\<in>P. unat (U ! i)) = unat T * card P"
    by (metis add_diff_cancel_right' diff_diff_cancel diff_mult_distrib mult.commute)
  have r: "received n (unat T) P [0..<n] U i = 0" for i
    unfolding received_def by (rule sum.neutral) (simp add: eq)
  show "alias_inv ?W (unat T) ?us ?os [0..<n] U"
    unfolding alias_inv_def
  proof (intro conjI)
    show "length ?W * unat T < 2 ^ 64" using b(1) T by (simp add: n_def)
    show "\<forall>i<length ?W. unat (U ! i) + received (length ?W) (unat T) (set (?us @ ?os)) [0..<n] U i = ?W ! i"
      using U r unfolding P_def n_def by simp
    show "(\<Sum>i\<in>set (?us @ ?os). unat (U ! i)) = unat T * length (?us @ ?os)" using s P(2) unfolding P_def by simp
    show "\<forall>i<length ?W. i \<notin> set (?us @ ?os) \<longrightarrow> unat (U ! i) \<le> unat T"
      by (auto simp: n_def not_less word_le_nat_alt)
    show "distinct (?us @ ?os)" by (rule d)
  qed (auto simp: n_def U_def word_less_nat_alt)
qed

text \<open>
  The table is built without a panic, and the pairs of an index and a number below \<open>T\<close> that lead to an
  event are exactly proportional to its weight.
\<close>

lemma dd_new_exact:
  assumes "length p * (\<Sum>x\<leftarrow>p. unat x) < 2 ^ 64" "0 < (\<Sum>x\<leftarrow>p. unat x)"
  shows "\<exists>d. dd_new p = Some d \<and> dd_n d = length p \<and> unat (dd_T d) = (\<Sum>x\<leftarrow>p. unat x) \<and>
    (\<forall>x<length p. unat (dd_U d ! x) \<le> unat (dd_T d) \<and> dd_K d ! x < length p) \<and>
    (\<forall>i<length p. unat (dd_U d ! i) + (\<Sum>x<length p. if dd_K d ! x = i then unat (dd_T d) - unat (dd_U d ! x) else 0) =
      length p * unat (p ! i))"
proof -
  have T: "sum_list p \<noteq> 0"
  proof
    assume "sum_list p = 0"
    moreover have "0 < length p" using assms(2) by auto
    then have "1 * (\<Sum>x\<leftarrow>p. unat x) \<le> length p * (\<Sum>x\<leftarrow>p. unat x)" by (intro mult_le_mono1) (simp add: Suc_le_eq)
    from le_less_trans [OF this assms(1)] have "(\<Sum>x\<leftarrow>p. unat x) < 2 ^ LENGTH(64)" by simp
    then have "unat (sum_list p) = (\<Sum>x\<leftarrow>p. unat x)" by (rule unat_sum_list)
    ultimately show False using assms(2) by (simp del: sum_list_eq_0_iff)
  qed
  note st = alias_inv_start [OF assms(1) T]
  obtain K U where r: "alias_loop (sum_list p) (rev (filter (\<lambda>i. map (\<lambda>x. x * of_nat (length p)) p ! i < sum_list p) [0..<length p]))
      (rev (filter (\<lambda>i. map (\<lambda>x. x * of_nat (length p)) p ! i > sum_list p) [0..<length p])) [0..<length p]
      (map (\<lambda>x. x * of_nat (length p)) p) = ([], [], K, U)"
    "alias_inv (map (\<lambda>x. length p * unat x) p) (unat (sum_list p)) [] [] K U"
    using alias_loop_inv [OF st(2)] by blast
  have "dd_new p = Some \<lparr> dd_T = sum_list p, dd_n = length p, dd_K = K, dd_U = U \<rparr>"
    using T r(1) by (simp add: dd_new_def Let_def)
  then show ?thesis using r(2) st(1) by (simp add: alias_inv_def received_def cong: if_cong)
qed

lemma card_words_below: "card {y :: 'a::len word. y < c} = unat c"
proof -
  have k: "unat (of_nat k :: 'a word) = k" if "k < unat c" for k
    using mod_less [OF less_trans [OF that unat_bound]] by (simp add: unat_of_nat)
  have "{y :: 'a word. y < c} = of_nat ` {..<unat c}"
  proof (intro set_eqI iffI)
    fix y :: "'a word"
    assume "y \<in> {y. y < c}"
    then have "y = of_nat (unat y)" "unat y < unat c" by (simp_all add: word_less_nat_alt)
    then show "y \<in> of_nat ` {..<unat c}" by blast
  next
    fix y :: "'a word"
    assume "y \<in> of_nat ` {..<unat c}"
    then show "y \<in> {y. y < c}" by (auto simp: word_less_nat_alt k)
  qed
  moreover have "inj_on (of_nat :: nat \<Rightarrow> 'a word) {..<unat c}" by (rule inj_on_inverseI [where g = unat]) (simp add: k)
  ultimately show ?thesis by (simp add: card_image)
qed

lemma dd_pick_exact:
  assumes "length p * (\<Sum>x\<leftarrow>p. unat x) < 2 ^ 64" "dd_new p = Some d" "i < length p" "0 < (\<Sum>x\<leftarrow>p. unat x)"
  shows "card {(x, y). x < dd_n d \<and> y < dd_T d \<and> dd_pick d x y = i} = length p * unat (p ! i)"
proof -
  let ?n = "length p"
  from dd_new_exact [OF assms(1,4)] assms(2) have d: "dd_n d = ?n"
    "\<And>x. x < ?n \<Longrightarrow> unat (dd_U d ! x) \<le> unat (dd_T d)"
    "unat (dd_U d ! i) + (\<Sum>x<?n. if dd_K d ! x = i then unat (dd_T d) - unat (dd_U d ! x) else 0) = ?n * unat (p ! i)"
    using assms(3) by auto
  have Y: "card {y. y < dd_T d \<and> dd_pick d x y = i} =
      (if x = i then unat (dd_U d ! x) else 0) + (if dd_K d ! x = i then unat (dd_T d) - unat (dd_U d ! x) else 0)" if "x < ?n" for x
  proof -
    let ?u = "dd_U d ! x"
    have "{y. y < dd_T d \<and> dd_pick d x y = i} = (if x = i then {y. y < ?u} else {}) \<union> (if dd_K d ! x = i then {y. y < dd_T d} - {y. y < ?u} else {})"
      using d(2) [OF that] by (auto simp: dd_pick_def word_less_nat_alt word_le_nat_alt split: if_splits)
    moreover have "{y. y < ?u} \<subseteq> {y. y < dd_T d}" using d(2) [OF that] by (auto simp: word_less_nat_alt)
    then have "card ({y. y < dd_T d} - {y. y < ?u}) = unat (dd_T d) - unat ?u" by (simp add: card_Diff_subset card_words_below)
    ultimately show ?thesis by (simp add: card_Un_disjoint card_words_below Diff_disjoint)
  qed
  have "{(x, y). x < dd_n d \<and> y < dd_T d \<and> dd_pick d x y = i} = (SIGMA x:{..<?n}. {y. y < dd_T d \<and> dd_pick d x y = i})"
    using d(1) by auto
  then have "card {(x, y). x < dd_n d \<and> y < dd_T d \<and> dd_pick d x y = i} = (\<Sum>x<?n. card {y. y < dd_T d \<and> dd_pick d x y = i})"
    by (simp add: card_SigmaI)
  also have "\<dots> = (\<Sum>x<?n. (if x = i then unat (dd_U d ! x) else 0) + (if dd_K d ! x = i then unat (dd_T d) - unat (dd_U d ! x) else 0))"
    by (rule sum.cong) (simp_all add: Y)
  also have "\<dots> = unat (dd_U d ! i) + (\<Sum>x<?n. if dd_K d ! x = i then unat (dd_T d) - unat (dd_U d ! x) else 0)"
    using assms(3) by (simp add: sum.distrib)
  finally show ?thesis using d(3) by simp
qed

section \<open>Rejection sampling returns\<close>

lemma bit_length_bounds: "n < 2 ^ bit_length n" "0 < n \<Longrightarrow> 2 ^ (bit_length n - 1) \<le> n"
proof (induction n rule: bit_length.induct)
  case (1 n)
  {
    case 1
    then show ?case using "1.IH"(1) by (cases "n = 0") auto
  next
    case 2
    then show ?case using "1.IH"(2) by (cases "n div 2 = 0") (auto simp: less_eq_div_iff_mult_less_eq)
  }
qed

lemma bitmask:
  assumes "limit \<noteq> 0"
  shows "\<exists>k\<le>64. next_power_of_two limit - 1 = mask k \<and> unat limit \<le> 2 ^ k \<and> 2 ^ k < 2 * unat limit"
proof (cases "limit \<le> 1")
  case True
  then have "unat limit = 1" using assms unat_gt_0 [of limit] by (simp add: word_le_nat_alt)
  then show ?thesis using True by (intro exI [of _ 0]) (simp add: next_power_of_two_def)
next
  case False
  let ?m = "unat (limit - 1)"
  have m: "?m = unat limit - 1" "0 < ?m" using False by (simp_all add: word_le_nat_alt not_le word_arith)
  note b = bit_length_bounds [of ?m]
  define k where "k = bit_length ?m"
  have k: "unat limit \<le> 2 ^ k" "2 ^ (k - 1) \<le> ?m" "k \<noteq> 0"
    using b m unfolding k_def by (simp_all del: bit_length.simps) (simp add: Suc_le_eq)
  have l: "2 ^ k < 2 * unat limit" using k(2,3) m by (cases k) simp_all
  have "k \<le> 64"
  proof (rule ccontr)
    assume "\<not> k \<le> 64"
    then have "(2 :: nat) ^ 64 \<le> 2 ^ (k - 1)" by (intro power_increasing) auto
    then show False using k(2) m(1) unat_bound [of limit] by simp
  qed
  then show ?thesis
    using False k(1) l by (intro exI [of _ k]) (simp add: next_power_of_two_def k_def mask_eq_exp_minus_1 del: bit_length.simps)
qed

text \<open>The numbers a generator produces, in order.\<close>

fun advance :: "('g \<Rightarrow> u64 \<times> 'g) \<Rightarrow> nat \<Rightarrow> 'g \<Rightarrow> 'g" where
  "advance next_u64 0 g = g"
| "advance next_u64 (Suc k) g = advance next_u64 k (snd (next_u64 g))"

definition drawn :: "('g \<Rightarrow> u64 \<times> 'g) \<Rightarrow> 'g \<Rightarrow> nat \<Rightarrow> u64" where
  "drawn next_u64 g k = fst (next_u64 (advance next_u64 k g))"

lemma drawn_simps [simp]: "drawn next_u64 g 0 = fst (next_u64 g)" "drawn next_u64 g (Suc k) = drawn next_u64 (snd (next_u64 g)) k"
  by (simp_all add: drawn_def)

lemma resample_returns:
  assumes "and (drawn next_u64 g k) m < limit" "\<And>j. j < k \<Longrightarrow> \<not> and (drawn next_u64 g j) m < limit"
  shows "resample next_u64 m limit g = Some (and (drawn next_u64 g k) m, advance next_u64 (Suc k) g)"
  using assms
proof (induction k arbitrary: g)
  case 0
  then show ?case by (subst resample.simps) (simp add: Let_def)
next
  case (Suc k)
  have "\<not> and (fst (next_u64 g)) m < limit" using Suc.prems(2) [of 0] by simp
  moreover have "resample next_u64 m limit (snd (next_u64 g)) = Some (and (drawn next_u64 g (Suc k)) m, advance next_u64 (Suc (Suc k)) g)"
    using Suc.IH [of "snd (next_u64 g)"] Suc.prems(1) Suc.prems(2) [of "Suc j" for j] by simp
  ultimately show ?case by (subst resample.simps) (simp add: Let_def)
qed

lemma resample_Some:
  assumes "resample next_u64 m limit g = Some y"
  shows "\<exists>k. y = (and (drawn next_u64 g k) m, advance next_u64 (Suc k) g) \<and>
    and (drawn next_u64 g k) m < limit \<and> (\<forall>j<k. \<not> and (drawn next_u64 g j) m < limit)"
proof (rule resample.raw_induct [OF _ assms], goal_cases)
  case (1 f n m l g y)
  show ?case
  proof (cases "and (fst (n g)) m < l")
    case True
    then show ?thesis using 1(2) by (intro exI [of _ 0]) (auto simp: Let_def)
  next
    case False
    then have "f n m l (snd (n g)) = Some y" using 1(2) by (simp add: Let_def)
    from 1(1) [OF this] obtain k where k: "y = (and (drawn n (snd (n g)) k) m, advance n (Suc k) (snd (n g)))"
      "and (drawn n (snd (n g)) k) m < l" "\<forall>j<k. \<not> and (drawn n (snd (n g)) j) m < l" by blast
    have "\<not> and (drawn n g j) m < l" if "j < Suc k" for j using that k(3) False by (cases j) simp_all
    then show ?thesis using k by (intro exI [of _ "Suc k"]) simp
  qed
qed

lemma next_u64_below_Some:
  assumes "next_u64_below next_u64 limit g = Some (r, g')" "limit \<noteq> 0"
  shows "\<exists>x. r = Inr x \<and> x < limit"
proof -
  from assms obtain y where y: "resample next_u64 (next_power_of_two limit - 1) limit g = Some y" "(r, g') = map_prod Inr id y"
    by (auto simp: next_u64_below_def)
  then show ?thesis using resample_Some [OF y(1)] by auto
qed

lemma next_u64_below_None:
  assumes "limit \<noteq> 0"
  shows "next_u64_below next_u64 limit g = None \<longleftrightarrow> (\<forall>k. \<not> and (drawn next_u64 g k) (next_power_of_two limit - 1) < limit)"
proof -
  let ?m = "next_power_of_two limit - 1"
  have "resample next_u64 ?m limit g \<noteq> None" if "and (drawn next_u64 g k) ?m < limit" for k
  proof -
    let ?l = "LEAST k. and (drawn next_u64 g k) ?m < limit"
    have "and (drawn next_u64 g ?l) ?m < limit" using that by (rule LeastI)
    from resample_returns [OF this] not_less_Least show ?thesis by fastforce
  qed
  moreover have "\<exists>k. and (drawn next_u64 g k) ?m < limit" if "resample next_u64 ?m limit g \<noteq> None"
    using that resample_Some [of next_u64 ?m limit g] by blast
  moreover have "next_u64_below next_u64 limit g = None \<longleftrightarrow> resample next_u64 ?m limit g = None"
    using assms by (simp add: next_u64_below_def)
  ultimately show ?thesis by blast
qed

text \<open>
  A generator is productive if, from every state and for every limit, a number that survives the mask of
  the limit comes up eventually. With a productive generator the computations return.
\<close>

definition productive :: "('g \<Rightarrow> u64 \<times> 'g) \<Rightarrow> bool" where
  "productive next_u64 \<longleftrightarrow>
    (\<forall>g limit. limit \<noteq> 0 \<longrightarrow> (\<exists>k. and (drawn next_u64 g k) (next_power_of_two limit - 1) < limit))"

named_theorems returns

lemma ret_returns [returns]: "ret_rnd x g \<noteq> None"
  by (simp add: ret_rnd_def)

lemma panic_returns [returns]: "panic_rnd g \<noteq> None"
  by (simp add: panic_rnd_def)

lemma bind_rnd_Some:
  "bind_rnd m f g = Some (r, g') \<longleftrightarrow> (\<exists>e. m g = Some (Inl e, g') \<and> r = Inl e) \<or>
     (\<exists>x g1. m g = Some (Inr x, g1) \<and> f x g1 = Some (r, g'))"
  by (auto simp: bind_rnd_def split: option.splits prod.splits sum.splits)

lemma bind_returns [returns]:
  assumes "m g \<noteq> None" "\<And>x g'. m g = Some (Inr x, g') \<Longrightarrow> f x g' \<noteq> None"
  shows "bind_rnd m f g \<noteq> None"
  using assms by (auto simp: bind_rnd_def split: option.splits sum.splits)

lemma below_returns [returns]: "productive next_u64 \<Longrightarrow> next_u64_below next_u64 limit g \<noteq> None"
  using next_u64_below_None [of limit next_u64 g]
  by (cases "limit = 0") (auto simp: productive_def next_u64_below_def panic_rnd_def)

lemma dd_sample_returns [returns]: "productive next_u64 \<Longrightarrow> dd_sample next_u64 d g \<noteq> None"
  unfolding dd_sample_def by (intro returns)

lemma zeros_productive: "(\<And>g. fst (next_u64 g) = 0) \<Longrightarrow> productive next_u64"
  by (auto simp: productive_def drawn_def word_neq_0_conv)

text \<open>Every number below the power of two is cut out of equally many draws.\<close>

lemma card_residues:
  fixes x m q :: nat
  assumes "x < m"
  shows "card {n. n < m * q \<and> n mod m = x} = q"
proof -
  have "{n. n < m * q \<and> n mod m = x} = (\<lambda>j. x + m * j) ` {..<q}"
  proof (intro set_eqI iffI)
    fix n
    assume n: "n \<in> {n. n < m * q \<and> n mod m = x}"
    then have "n div m < q" by (simp add: less_mult_imp_div_less mult.commute)
    moreover have "n = x + m * (n div m)" using n by (metis (mono_tags) add.commute mem_Collect_eq mult_div_mod_eq)
    ultimately show "n \<in> (\<lambda>j. x + m * j) ` {..<q}" by blast
  next
    fix n
    assume "n \<in> (\<lambda>j. x + m * j) ` {..<q}"
    then obtain j where j: "n = x + m * j" "j < q" by auto
    have "x + m * j < m * Suc j" using assms by simp
    also have "\<dots> \<le> m * q" using j(2) by (intro mult_le_mono2) simp
    finally show "n \<in> {n. n < m * q \<and> n mod m = x}" using j assms by simp
  qed
  moreover have "inj_on (\<lambda>j. x + m * j) {..<q}" using assms by (auto intro: inj_onI)
  ultimately show ?thesis by (simp add: card_image)
qed

lemma unat_masked: "unat (and v (mask k) :: u64) = unat v mod 2 ^ k"
  unfolding take_bit_eq_mask [symmetric] unsigned_take_bit_eq by (rule take_bit_eq_mod)

lemma card_masked:
  fixes x :: u64
  assumes "k \<le> 64" "unat x < 2 ^ k"
  shows "card {v :: u64. and v (mask k) = x} = 2 ^ (64 - k)"
proof -
  have e: "(2 :: nat) ^ k * 2 ^ (64 - k) = 2 ^ 64" using assms(1) by (simp add: power_add [symmetric])
  have "unat ` {v :: u64. and v (mask k) = x} = {n. n < 2 ^ k * 2 ^ (64 - k) \<and> n mod 2 ^ k = unat x}"
  proof (intro set_eqI iffI)
    fix n
    assume "n \<in> unat ` {v :: u64. and v (mask k) = x}"
    then obtain v :: u64 where v: "n = unat v" "and v (mask k) = x" by blast
    then have "n mod 2 ^ k = unat x" using unat_masked [of v k] by simp
    moreover have "n < 2 ^ 64" using unat_bound [of v] v(1) by simp
    ultimately show "n \<in> {n. n < 2 ^ k * 2 ^ (64 - k) \<and> n mod 2 ^ k = unat x}" unfolding e by simp
  next
    fix n
    assume n: "n \<in> {n. n < 2 ^ k * 2 ^ (64 - k) \<and> n mod 2 ^ k = unat x}"
    then have u: "unat (of_nat n :: u64) = n" unfolding e by (simp add: unat_of_nat)
    then have "unat (and (of_nat n :: u64) (mask k)) = unat x" using n unat_masked [of "of_nat n" k] by simp
    then have "and (of_nat n :: u64) (mask k) = x" by (rule word_unat_eq_iff [THEN iffD2])
    then show "n \<in> unat ` {v :: u64. and v (mask k) = x}" using u by (metis (mono_tags) imageI mem_Collect_eq)
  qed
  then have "card (unat ` {v :: u64. and v (mask k) = x}) = 2 ^ (64 - k)" using card_residues [OF assms(2)] by simp
  moreover have "inj_on unat {v :: u64. and v (mask k) = x}" by (auto intro: inj_onI simp: word_unat_eq_iff)
  ultimately show ?thesis by (simp add: card_image)
qed

section \<open>Properties\<close>

text \<open>
  C18. The alias table of a discrete distribution is exact. As long as the total weight times the number
  of events fits into 64 bits, the construction ends without a panic, and among the pairs of an index
  and a number below the total that \<open>sample\<close> draws uniformly, the share that leads to an event is
  exactly its share of the weights.
\<close>

theorem alias_method_exact:
  assumes "length p * (\<Sum>x\<leftarrow>p. unat x) < 2 ^ 64" "0 < (\<Sum>x\<leftarrow>p. unat x)"
  shows "\<exists>d. dd_new p = Some d \<and> dd_n d = length p \<and> unat (dd_T d) = (\<Sum>x\<leftarrow>p. unat x) \<and>
    (\<forall>i<length p. card {(x, y). x < dd_n d \<and> y < dd_T d \<and> dd_pick d x y = i} = length p * unat (p ! i))"
proof -
  from dd_new_exact [OF assms] obtain d where d: "dd_new p = Some d" "dd_n d = length p" "unat (dd_T d) = (\<Sum>x\<leftarrow>p. unat x)" by blast
  then show ?thesis using dd_pick_exact [OF assms(1) d(1) _ assms(2)] by blast
qed

theorem alias_method_exact_witness:
  "\<exists>d. dd_new [1, 2, 3] = Some d \<and> card {(x, y). x < dd_n d \<and> y < dd_T d \<and> dd_pick d x y = 1} = 6"
proof -
  obtain d where "dd_new [1, 2, 3] = Some d"
    "\<forall>i<3. card {(x, y). x < dd_n d \<and> y < dd_T d \<and> dd_pick d x y = i} = 3 * unat ([1, 2, 3] ! i :: u64)"
    using alias_method_exact [of "[1, 2, 3]"] by auto
  then show ?thesis by (intro exI [of _ d]) (simp add: spec [of _ 1])
qed

text \<open>
  C19. Rejection sampling returns as soon as the generator yields a number that survives the mask, and
  only then; it never panics for a positive limit, its result is below the limit, and every number below
  the limit is the result of equally many draws. This holds up to the largest limit, where the power of
  two wraps around.
\<close>

theorem rejection_sampling_returns:
  assumes "limit \<noteq> 0"
  shows "(next_u64_below next_u64 limit g = None \<longleftrightarrow>
      (\<forall>k. \<not> and (drawn next_u64 g k) (next_power_of_two limit - 1) < limit)) \<and>
    (\<forall>r g'. next_u64_below next_u64 limit g = Some (r, g') \<longrightarrow> (\<exists>x. r = Inr x \<and> x < limit)) \<and>
    (\<exists>c>0. \<forall>x<limit. card {v. and v (next_power_of_two limit - 1) = x} = c)"
proof -
  let ?m = "next_power_of_two limit - 1"
  obtain k where k: "k \<le> 64" "?m = mask k" "unat limit \<le> 2 ^ k" using bitmask [OF assms] by blast
  have "\<forall>x<limit. card {v. and v ?m = x} = 2 ^ (64 - k)"
    using card_masked [OF k(1)] k(2,3) by (simp add: word_less_nat_alt)
  then have "\<exists>c>0. \<forall>x<limit. card {v. and v ?m = x} = c" by (intro exI [of _ "2 ^ (64 - k)"]) simp
  moreover have "\<forall>r g'. next_u64_below next_u64 limit g = Some (r, g') \<longrightarrow> (\<exists>x. r = Inr x \<and> x < limit)"
    by (intro allI impI) (rule next_u64_below_Some [OF _ assms])
  ultimately show ?thesis unfolding next_u64_below_None [OF assms] by simp
qed

theorem rejection_sampling_returns_witness:
  "next_u64_below (\<lambda>g. (g, g + 1)) 3 (7 :: u64) \<noteq> None"
proof -
  have "and (drawn (\<lambda>g. (g, g + 1)) (7 :: u64) 1) (next_power_of_two 3 - 1) < 3"
    by (simp add: next_power_of_two_def)
  moreover have "(3 :: u64) \<noteq> 0" by simp
  ultimately show ?thesis using rejection_sampling_returns [of 3 "\<lambda>g. (g, g + 1)" 7] by blast
qed

end
