(* ===== verification/Slots.thy ===== *)
theory Slots
  imports PunishedSlots Sampling
begin

text \<open>
  The validators of an epoch and the slots they own (\<^verbatim>\<open>primitives/src/slots_allocation.rs\<close>): the set built
  from chosen slots, the check of its structure, and the search for the owner of a slot.
\<close>

section \<open>Validators with slots\<close>

record slot_validator =
  sv_address :: address
  sv_voting_key :: bls_public_key
  sv_signing_key :: schnorr_public_key
  sv_slots :: slot_range

definition range_len :: "slot_range \<Rightarrow> nat" where
  "range_len r = unat (range_end r) - unat (range_start r)"

definition num_slots :: "slot_validator \<Rightarrow> u16" where
  "num_slots v = of_nat (range_len (sv_slots v))"

record validator_set =
  vs_validators :: "slot_validator list"
  vs_map :: "(address, u16) fmap"

fun index_validators :: "nat \<Rightarrow> slot_validator list \<Rightarrow> (address, u16) fmap \<Rightarrow> (address, u16) fmap" where
  "index_validators i [] m = m"
| "index_validators i (v # vs) m = index_validators (Suc i) vs (fmupd (sv_address v) (of_nat i) m)"

definition validators_new :: "slot_validator list \<Rightarrow> validator_set" where
  "validators_new vs = \<lparr> vs_validators = vs, vs_map = index_validators 0 vs fmempty \<rparr>"

definition num_validators :: "validator_set \<Rightarrow> nat" where
  "num_validators s = length (vs_validators s)"

section \<open>Searching\<close>

datatype ordering = Ord_Less | Ord_Equal | Ord_Greater

text \<open>\<open>binary_search_by\<close> of a slice: the lower bound moves up unless the middle is greater.\<close>

function bsearch_loop :: "('a \<Rightarrow> ordering) \<Rightarrow> 'a list \<Rightarrow> nat \<Rightarrow> nat \<Rightarrow> nat" where
  "bsearch_loop f xs base len =
    (if len > 1 then
       let half = len div 2; mid = base + half
       in bsearch_loop f xs (if f (xs ! mid) = Ord_Greater then base else mid) (len - half)
     else base)"
  by pat_completeness auto
termination
  by (relation "measure (\<lambda>(f, xs, base, len). len)") auto

declare bsearch_loop.simps [simp del]

definition binary_search_by :: "('a \<Rightarrow> ordering) \<Rightarrow> 'a list \<Rightarrow> nat option" where
  "binary_search_by f xs =
    (if xs = [] then None
     else let base = bsearch_loop f xs 0 (length xs)
          in if f (xs ! base) = Ord_Equal then Some base else None)"

definition slot_ordering :: "u16 \<Rightarrow> slot_validator \<Rightarrow> ordering" where
  "slot_ordering slot v =
    (if range_end (sv_slots v) \<le> slot then Ord_Less
     else if range_start (sv_slots v) > slot then Ord_Greater
     else Ord_Equal)"

text \<open>\<open>None\<close> is the panic of a slot out of bounds or without an owner.\<close>

definition get_band_from_slot :: "validator_set \<Rightarrow> u16 \<Rightarrow> u16 option" where
  "get_band_from_slot s slot =
    (if \<not> slot < SLOTS then None
     else case binary_search_by (slot_ordering slot) (vs_validators s) of
       None \<Rightarrow> None
     | Some i \<Rightarrow> if i < 2 ^ 16 then Some (of_nat i) else None)"

definition get_validator_by_slot_number :: "validator_set \<Rightarrow> u16 \<Rightarrow> slot_validator option" where
  "get_validator_by_slot_number s slot_number =
    map_option (\<lambda>band. vs_validators s ! unat band) (get_band_from_slot s slot_number)"

definition get_validator_by_slot_band :: "validator_set \<Rightarrow> u16 \<Rightarrow> slot_validator option" where
  "get_validator_by_slot_band s slot_band =
    (if unat slot_band < length (vs_validators s) then Some (vs_validators s ! unat slot_band) else None)"

definition get_validator_by_address :: "validator_set \<Rightarrow> address \<Rightarrow> slot_validator option" where
  "get_validator_by_address s a = map_option (\<lambda>band. vs_validators s ! unat band) (fmlookup (vs_map s) a)"

definition get_slot_band_by_address :: "validator_set \<Rightarrow> address \<Rightarrow> u16 option" where
  "get_slot_band_by_address s a = fmlookup (vs_map s) a"

section \<open>Voting keys and structure\<close>

datatype invalid_validators_error = InvalidValidatorsError

definition PK_TREE_BREADTH :: nat where
  "PK_TREE_BREADTH = 2 ^ 5"

fun voting_keys :: "(bls_public_key \<Rightarrow> 'k option) \<Rightarrow> slot_validator list \<Rightarrow> invalid_validators_error + 'k list" where
  "voting_keys uncompress [] = Inr []"
| "voting_keys uncompress (v # vs) = (case uncompress (sv_voting_key v) of
     None \<Rightarrow> Inl InvalidValidatorsError
   | Some pk \<Rightarrow> map_sum id (\<lambda>pks. replicate (unat (num_slots v)) pk @ pks) (voting_keys uncompress vs))"

fun validate_bands :: "u16 \<Rightarrow> address set \<Rightarrow> slot_validator list \<Rightarrow> invalid_validators_error + u16" where
  "validate_bands total_slots seen_addresses [] = Inr total_slots"
| "validate_bands total_slots seen_addresses (v # vs) =
    (if range_start (sv_slots v) \<noteq> total_slots \<or> range_end (sv_slots v) \<le> range_start (sv_slots v) then Inl InvalidValidatorsError
     else if sv_address v \<in> seen_addresses then Inl InvalidValidatorsError
     else case w_checked_add total_slots (num_slots v) of
       None \<Rightarrow> Inl InvalidValidatorsError
     | Some total_slots \<Rightarrow> validate_bands total_slots (insert (sv_address v) seen_addresses) vs)"

definition validate_structure :: "validator_set \<Rightarrow> invalid_validators_error + unit" where
  "validate_structure s = (case validate_bands 0 {} (vs_validators s) of
     Inl e \<Rightarrow> Inl e
   | Inr total_slots \<Rightarrow>
       if total_slots \<noteq> SLOTS then Inl InvalidValidatorsError
       else if unat total_slots mod PK_TREE_BREADTH \<noteq> 0 then Inl InvalidValidatorsError
       else Inr ())"

definition validate_keys :: "(bls_public_key \<Rightarrow> 'k option) \<Rightarrow> validator_set \<Rightarrow> invalid_validators_error + unit" where
  "validate_keys uncompress s = (case validate_structure s of
     Inl e \<Rightarrow> Inl e
   | Inr _ \<Rightarrow> if list_all (\<lambda>v. uncompress (sv_voting_key v) \<noteq> None) (vs_validators s) then Inr () else Inl InvalidValidatorsError)"

section \<open>Building the set from slots\<close>

type_synonym validators_builder = "(address, bls_public_key \<times> schnorr_public_key \<times> u16) fmap"

definition builder_push :: "address \<Rightarrow> bls_public_key \<Rightarrow> schnorr_public_key \<Rightarrow> validators_builder \<Rightarrow> validators_builder" where
  "builder_push a voting_key signing_key b = (case fmlookup b a of
     None \<Rightarrow> fmupd a (voting_key, signing_key, 0 + 1) b
   | Some (vk, sk, n) \<Rightarrow> fmupd a (vk, sk, n + 1) b)"

fun build_bands :: "u16 \<Rightarrow> (address \<times> bls_public_key \<times> schnorr_public_key \<times> u16) list \<Rightarrow> slot_validator list" where
  "build_bands start_slot [] = []"
| "build_bands start_slot ((a, vk, sk, n) # rest) =
    \<lparr> sv_address = a, sv_voting_key = vk, sv_signing_key = sk,
      sv_slots = \<lparr> range_start = start_slot, range_end = start_slot + n \<rparr> \<rparr> # build_bands (start_slot + n) rest"

definition builder_build :: "validators_builder \<Rightarrow> validator_set" where
  "builder_build b = validators_new (build_bands 0
     (map (\<lambda>a. (a, the (fmlookup b a))) (sorted_list_of_fset (fmdom b))))"

section \<open>The search finds the owner\<close>

lemma bsearch_loop_finds:
  assumes "base \<le> t" "t < base + len" "base + len \<le> length xs"
    "\<And>i. i \<le> t \<Longrightarrow> f (xs ! i) \<noteq> Ord_Greater" "\<And>i. t < i \<Longrightarrow> i < length xs \<Longrightarrow> f (xs ! i) = Ord_Greater"
  shows "bsearch_loop f xs base len = t"
  using assms
proof (induction f xs base len rule: bsearch_loop.induct)
  case (1 f xs base len)
  show ?case
  proof (cases "len > 1")
    case True
    let ?mid = "base + len div 2"
    have lt: "?mid < length xs" using 1 True by linarith
    show ?thesis
    proof (cases "f (xs ! ?mid) = Ord_Greater")
      case g: True
      then have "t < ?mid" using "1.prems"(4) not_le by blast
      then show ?thesis using "1.IH" [OF True refl refl] "1.prems" True g by (subst bsearch_loop.simps) (simp add: Let_def)
    next
      case False
      then have "?mid \<le> t" using "1.prems"(5) [of ?mid] lt not_le by blast
      then show ?thesis using "1.IH" [OF True refl refl] "1.prems" True False by (subst bsearch_loop.simps) (simp add: Let_def)
    qed
  next
    case False
    then show ?thesis using "1.prems" by (subst bsearch_loop.simps) simp
  qed
qed

lemma binary_search_by_finds:
  assumes "t < length xs" "f (xs ! t) = Ord_Equal" "\<And>i. i < t \<Longrightarrow> f (xs ! i) = Ord_Less"
    "\<And>i. t < i \<Longrightarrow> i < length xs \<Longrightarrow> f (xs ! i) = Ord_Greater"
  shows "binary_search_by f xs = Some t"
proof -
  have "f (xs ! i) \<noteq> Ord_Greater" if "i \<le> t" for i using that assms(2,3) by (cases "i = t") auto
  then have "bsearch_loop f xs 0 (length xs) = t" using assms by (intro bsearch_loop_finds) auto
  then show ?thesis using assms(1,2) by (auto simp: binary_search_by_def)
qed

section \<open>Contiguous bands\<close>

fun bands :: "nat \<Rightarrow> slot_validator list \<Rightarrow> bool" where
  "bands t [] \<longleftrightarrow> True"
| "bands t (v # vs) \<longleftrightarrow> unat (range_start (sv_slots v)) = t \<and> range_start (sv_slots v) < range_end (sv_slots v) \<and>
     bands (unat (range_end (sv_slots v))) vs"

fun bands_end :: "nat \<Rightarrow> slot_validator list \<Rightarrow> nat" where
  "bands_end t [] = t"
| "bands_end t (v # vs) = bands_end (unat (range_end (sv_slots v))) vs"

lemma num_slots_band: "range_start (sv_slots v) < range_end (sv_slots v) \<Longrightarrow>
  unat (num_slots v) = unat (range_end (sv_slots v)) - unat (range_start (sv_slots v))"
proof -
  have "unat (range_end (sv_slots v)) - unat (range_start (sv_slots v)) < 2 ^ 16"
    using unat_bound [of "range_end (sv_slots v)"] by simp
  then show ?thesis by (simp add: num_slots_def range_len_def unat_of_nat)
qed

lemma validate_bands_iff:
  "validate_bands t seen vs = Inr T \<longleftrightarrow> bands (unat t) vs \<and> unat T = bands_end (unat t) vs \<and>
     distinct (map sv_address vs) \<and> sv_address ` set vs \<inter> seen = {}"
proof (induction vs arbitrary: t seen)
  case (Cons v vs)
  let ?a = "range_start (sv_slots v)" and ?b = "range_end (sv_slots v)"
  show ?case
  proof (cases "?a = t \<and> ?a < ?b \<and> sv_address v \<notin> seen")
    case True
    have n: "unat (num_slots v) = unat ?b - unat t" using num_slots_band [of v] True by auto
    then have s: "unat t + unat (num_slots v) = unat ?b" using True by (auto simp: word_less_nat_alt)
    then have "unat t + unat (num_slots v) < 2 ^ LENGTH(16)" using unat_bound [of ?b] by simp
    then have "w_checked_add t (num_slots v) = Some (t + num_slots v)" "unat (t + num_slots v) = unat ?b"
      using s by (simp_all add: w_checked_add_def word_arith)
    then show ?thesis using True Cons.IH [of "t + num_slots v" "insert (sv_address v) seen"] by (auto simp: not_le)
  next
    case False
    then show ?thesis by (auto simp: not_le word_unat_eq_iff)
  qed
qed (auto simp: word_unat_eq_iff)

lemma bands_mono: "bands t vs \<Longrightarrow> t \<le> bands_end t vs"
proof (induction vs arbitrary: t)
  case (Cons v vs)
  then show ?case using Cons.IH [of "unat (range_end (sv_slots v))"] by (auto simp: word_less_nat_alt intro: order_trans less_imp_le)
qed simp

lemma bands_later: "bands t vs \<Longrightarrow> v \<in> set vs \<Longrightarrow> t \<le> unat (range_start (sv_slots v))"
proof (induction vs arbitrary: t)
  case (Cons w vs)
  then show ?case using Cons.IH [of "unat (range_end (sv_slots w))"] by (auto simp: word_less_nat_alt intro: order_trans less_imp_le)
qed simp

lemma bands_owner:
  assumes "bands t vs" "t \<le> unat slot" "unat slot < bands_end t vs"
  shows "\<exists>i<length vs. slot_ordering slot (vs ! i) = Ord_Equal \<and> (\<forall>j<i. slot_ordering slot (vs ! j) = Ord_Less) \<and>
    (\<forall>j<length vs. i < j \<longrightarrow> slot_ordering slot (vs ! j) = Ord_Greater)"
  using assms
proof (induction vs arbitrary: t)
  case (Cons v vs)
  let ?b = "range_end (sv_slots v)"
  show ?case
  proof (cases "unat slot < unat ?b")
    case True
    have "slot_ordering slot w = Ord_Greater" if "w \<in> set vs" for w
    proof -
      have b: "bands (unat ?b) vs" using Cons.prems(1) by simp
      have "unat ?b \<le> unat (range_start (sv_slots w))" using bands_later [OF b that] .
      moreover have "range_start (sv_slots w) < range_end (sv_slots w)"
        using b that by (induction vs arbitrary: v) auto
      ultimately show ?thesis using True by (simp add: slot_ordering_def word_less_nat_alt word_le_nat_alt)
    qed
    moreover have "slot_ordering slot v = Ord_Equal"
      using True Cons.prems by (auto simp: slot_ordering_def word_less_nat_alt word_le_nat_alt)
    ultimately show ?thesis by (intro exI [of _ 0]) (auto simp: nth_Cons split: nat.splits)
  next
    case False
    then obtain i where i: "i < length vs" "slot_ordering slot (vs ! i) = Ord_Equal"
      "\<forall>j<i. slot_ordering slot (vs ! j) = Ord_Less" "\<forall>j<length vs. i < j \<longrightarrow> slot_ordering slot (vs ! j) = Ord_Greater"
      using Cons.IH [of "unat ?b"] Cons.prems by auto
    moreover have "slot_ordering slot v = Ord_Less" using False by (simp add: slot_ordering_def word_le_nat_alt)
    ultimately show ?thesis by (intro exI [of _ "Suc i"]) (auto simp: nth_Cons split: nat.splits)
  qed
qed simp

lemma bands_length: "bands t vs \<Longrightarrow> t + length vs \<le> bands_end t vs"
proof (induction vs arbitrary: t)
  case (Cons v vs)
  then have "unat (range_end (sv_slots v)) + length vs \<le> bands_end (unat (range_end (sv_slots v))) vs" by simp
  then show ?case using Cons.prems by (simp add: word_less_nat_alt)
qed simp

lemma validated_iff:
  "validate_structure s = Inr () \<longleftrightarrow> bands 0 (vs_validators s) \<and> bands_end 0 (vs_validators s) = unat SLOTS \<and>
     distinct (map sv_address (vs_validators s))"
proof -
  have "validate_structure s = Inr () \<longleftrightarrow> validate_bands 0 {} (vs_validators s) = Inr SLOTS"
    by (auto simp: validate_structure_def SLOTS_def PK_TREE_BREADTH_def split: sum.splits)
  then show ?thesis using validate_bands_iff [of 0 "{}" "vs_validators s" SLOTS] by auto
qed

lemma band_found:
  assumes "validate_structure s = Inr ()" "slot < SLOTS"
  shows "\<exists>i<length (vs_validators s). get_band_from_slot s slot = Some (of_nat i) \<and> unat (of_nat i :: u16) = i \<and>
    range_start (sv_slots (vs_validators s ! i)) \<le> slot \<and> slot < range_end (sv_slots (vs_validators s ! i))"
proof -
  let ?vs = "vs_validators s"
  have b: "bands 0 ?vs" "bands_end 0 ?vs = unat SLOTS" using assms(1) by (simp_all add: validated_iff)
  obtain i where i: "i < length ?vs" "slot_ordering slot (?vs ! i) = Ord_Equal" "\<forall>j<i. slot_ordering slot (?vs ! j) = Ord_Less"
    "\<forall>j<length ?vs. i < j \<longrightarrow> slot_ordering slot (?vs ! j) = Ord_Greater"
    using bands_owner [OF b(1), of slot] assms(2) b(2) by (auto simp: word_less_nat_alt)
  have "length ?vs \<le> 512" using bands_length [OF b(1)] b(2) by (simp add: SLOTS_def)
  then have "i < 2 ^ 16" "unat (of_nat i :: u16) = i" using i(1) by (simp_all add: unat_of_nat)
  moreover have "binary_search_by (slot_ordering slot) ?vs = Some i" using i by (intro binary_search_by_finds) auto
  ultimately show ?thesis
    using i(1,2) assms(2) by (intro exI [of _ i]) (auto simp: get_band_from_slot_def slot_ordering_def not_less not_le split: if_splits)
qed

lemma fmlookup_index_other: "a \<notin> sv_address ` set vs \<Longrightarrow> fmlookup (index_validators i vs m) a = fmlookup m a"
  by (induction vs arbitrary: i m) auto

lemma fmlookup_index:
  "distinct (map sv_address vs) \<Longrightarrow> j < length vs \<Longrightarrow>
   fmlookup (index_validators i vs m) (sv_address (vs ! j)) = Some (of_nat (i + j))"
proof (induction vs arbitrary: i j m)
  case (Cons v vs)
  show ?case
  proof (cases j)
    case 0
    then show ?thesis using Cons.prems(1) fmlookup_index_other [of "sv_address v" vs "Suc i"] by simp
  next
    case (Suc k)
    then show ?thesis using Cons.IH [of k "Suc i"] Cons.prems by simp
  qed
qed simp

lemma validator_by_address:
  assumes "validate_structure (validators_new vs) = Inr ()"
  shows "get_validator_by_address (validators_new vs) a = find (\<lambda>v. sv_address v = a) vs"
proof -
  have b: "bands 0 vs" "bands_end 0 vs = unat SLOTS" and d: "distinct (map sv_address vs)"
    using assms by (simp_all add: validated_iff validators_new_def)
  have l: "length vs \<le> 512" using bands_length [OF b(1)] b(2) by (simp add: SLOTS_def)
  show ?thesis
  proof (cases "find (\<lambda>v. sv_address v = a) vs")
    case None
    then have "a \<notin> sv_address ` set vs" by (auto simp: find_None_iff)
    then show ?thesis
      using None fmlookup_index_other [of a vs 0 fmempty] by (simp add: get_validator_by_address_def validators_new_def)
  next
    case (Some v)
    then obtain i where i: "i < length vs" "sv_address (vs ! i) = a" "v = vs ! i" by (auto simp: find_Some_iff)
    then have "unat (of_nat i :: u16) = i" using l by (simp add: unat_of_nat)
    then show ?thesis
      using fmlookup_index [OF d i(1), of 0 fmempty] i Some by (simp add: get_validator_by_address_def validators_new_def)
  qed
qed

section \<open>The set built from slots\<close>

definition slot_count :: "bls_public_key \<times> schnorr_public_key \<times> u16 \<Rightarrow> nat" where
  "slot_count v = unat (snd (snd v))"

definition builder_inv :: "nat \<Rightarrow> validators_builder \<Rightarrow> bool" where
  "builder_inv k b \<longleftrightarrow> (\<forall>a v. fmlookup b a = Some v \<longrightarrow> 0 < slot_count v) \<and> fsum slot_count b = k"

definition slots_of_address :: "validators_builder \<Rightarrow> address \<Rightarrow> nat" where
  "slots_of_address b a = (case fmlookup b a of None \<Rightarrow> 0 | Some v \<Rightarrow> slot_count v)"

lemma builder_push_inv:
  assumes "builder_inv k b" "Suc k < 2 ^ 16"
  shows "builder_inv (Suc k) (builder_push a vk sk b)"
    "slots_of_address (builder_push a vk sk b) a' = slots_of_address b a' + (if a' = a then 1 else 0)"
proof -
  have "builder_inv (Suc k) (builder_push a vk sk b) \<and>
    slots_of_address (builder_push a vk sk b) a' = slots_of_address b a' + (if a' = a then 1 else 0)"
  proof (cases "fmlookup b a")
    case None
    then show ?thesis using assms(1) by (auto simp: builder_inv_def builder_push_def slot_count_def slots_of_address_def)
  next
    case (Some v)
    obtain w s n where v: "v = (w, s, n)" by (cases v)
    have "unat n \<le> k" using assms(1) fsum_member [OF Some, of slot_count] by (simp add: builder_inv_def slot_count_def v)
    then have "unat n + 1 < 2 ^ 16" using assms(2) by simp
    then have n: "unat (n + 1) = unat n + 1" by (simp add: unat_add_lem_nat)
    have "fsum slot_count (fmupd a (w, s, n + 1) b) = Suc k"
      using assms(1) fsum_upd_old [OF Some, of slot_count "(w, s, n + 1)"] n by (simp add: builder_inv_def slot_count_def v)
    then show ?thesis
      using assms(1) n Some by (auto simp: builder_inv_def builder_push_def v slot_count_def slots_of_address_def split: if_splits)
  qed
  then show "builder_inv (Suc k) (builder_push a vk sk b)"
    "slots_of_address (builder_push a vk sk b) a' = slots_of_address b a' + (if a' = a then 1 else 0)" by simp_all
qed

lemma build_bands_inv:
  assumes "\<forall>x\<in>set xs. 0 < slot_count (snd x)" "unat t + (\<Sum>x\<leftarrow>xs. slot_count (snd x)) < 2 ^ 16"
  shows "bands (unat t) (build_bands t xs) \<and> bands_end (unat t) (build_bands t xs) = unat t + (\<Sum>x\<leftarrow>xs. slot_count (snd x)) \<and>
    map (\<lambda>v. (sv_address v, unat (num_slots v))) (build_bands t xs) = map (\<lambda>x. (fst x, slot_count (snd x))) xs"
  using assms
proof (induction xs arbitrary: t)
  case (Cons x xs)
  obtain a vk sk n where x: "x = (a, vk, sk, n)" by (cases x)
  have "unat t + unat n < 2 ^ 16" using Cons.prems(2) by (simp add: x slot_count_def)
  then have tn: "unat (t + n) = unat t + unat n" by (simp add: word_arith)
  then have lt: "t < t + n" using Cons.prems(1) by (simp add: word_less_nat_alt x slot_count_def)
  then show ?case
    using Cons.IH [of "t + n"] Cons.prems tn num_slots_band [of "hd (build_bands t [x])"] by (simp add: x slot_count_def)
qed simp

lemma builder_build_valid:
  assumes "builder_inv (unat SLOTS) b"
  shows "validate_structure (builder_build b) = Inr ()"
    "map (\<lambda>v. (sv_address v, unat (num_slots v))) (vs_validators (builder_build b)) =
      map (\<lambda>a. (a, slots_of_address b a)) (sorted_list_of_fset (fmdom b))"
proof -
  let ?as = "sorted_list_of_fset (fmdom b)"
  let ?xs = "map (\<lambda>a. (a, the (fmlookup b a))) ?as"
  have lk: "fmlookup b a = Some (the (fmlookup b a))" if "a \<in> set ?as" for a
    using that by (simp add: fmlookup_dom_iff)
  have "(\<Sum>x\<leftarrow>?xs. slot_count (snd x)) = (\<Sum>a\<in>fset (fmdom b). slot_count (the (fmlookup b a)))"
    by (simp add: comp_def sum_list_sorted_fset)
  then have s: "(\<Sum>x\<leftarrow>?xs. slot_count (snd x)) = unat SLOTS" using assms by (simp add: builder_inv_def fsum_def fmdom'_alt_def)
  have p: "\<forall>x\<in>set ?xs. 0 < slot_count (snd x)" using assms lk by (fastforce simp: builder_inv_def)
  have i: "bands (unat 0) (build_bands 0 ?xs)" "bands_end (unat 0) (build_bands 0 ?xs) = unat SLOTS"
    "map (\<lambda>v. (sv_address v, unat (num_slots v))) (build_bands 0 ?xs) = map (\<lambda>x. (fst x, slot_count (snd x))) ?xs"
    using build_bands_inv [OF p, of 0] s by (simp_all add: SLOTS_def)
  have "map sv_address (build_bands 0 ?xs) = ?as" using arg_cong [OF i(3), of "map fst"] by (simp add: comp_def)
  then show "validate_structure (builder_build b) = Inr ()"
    using i(1,2) by (simp add: validated_iff builder_build_def validators_new_def sorted_list_of_fset.rep_eq)
  show "map (\<lambda>v. (sv_address v, unat (num_slots v))) (vs_validators (builder_build b)) = map (\<lambda>a. (a, slots_of_address b a)) ?as"
    using i(3) lk by (simp add: builder_build_def validators_new_def slots_of_address_def) (auto split: option.splits)
qed

lemma build_bands_member:
  "v \<in> set (build_bands t xs) \<Longrightarrow> \<exists>n. (sv_address v, sv_voting_key v, sv_signing_key v, n) \<in> set xs"
proof (induction xs arbitrary: t)
  case (Cons x xs)
  obtain a vk sk n where x: "x = (a, vk, sk, n)" by (cases x)
  then show ?case using Cons.prems Cons.IH [of "t + n"] by auto
qed simp

lemma builder_build_member:
  assumes "v \<in> set (vs_validators (builder_build b))"
  shows "\<exists>n. fmlookup b (sv_address v) = Some (sv_voting_key v, sv_signing_key v, n)"
proof -
  obtain n where "(sv_address v, sv_voting_key v, sv_signing_key v, n) \<in>
      set (map (\<lambda>a. (a, the (fmlookup b a))) (sorted_list_of_fset (fmdom b)))"
    using assms build_bands_member [of v 0 "map (\<lambda>a. (a, the (fmlookup b a))) (sorted_list_of_fset (fmdom b))"]
    unfolding builder_build_def validators_new_def by auto
  then have "sv_address v |\<in>| fmdom b" "the (fmlookup b (sv_address v)) = (sv_voting_key v, sv_signing_key v, n)"
    unfolding set_map by (auto simp: sorted_list_of_fset.rep_eq)
  then show ?thesis by (auto simp: fmlookup_dom_iff)
qed

end
