(* ===== verification/BlockTypes.thy ===== *)
theory BlockTypes
  imports Slots Accounts "HOL-Library.List_Lexorder" "HOL-Library.Option_ord"
begin

text \<open>
  Headers, bodies and justifications of blocks (\<^verbatim>\<open>primitives/block/src\<close>), the votes and proposals of
  Tendermint (\<^verbatim>\<open>primitives/src/tendermint.rs\<close>) and equivocation proofs with their locators. Signatures and
  hashes are byte strings that are compared from the first byte on.
\<close>

type_synonym blake2s_hash = "u8 list"
type_synonym vrf_seed = "u8 list"
type_synonym vrf_entropy = "u8 list"
type_synonym schnorr_signature = "u8 list"

section \<open>Micro headers\<close>

record micro_header =
  mih_network :: network_id
  mih_version :: u16
  mih_block_number :: u32
  mih_timestamp :: u64
  mih_parent_hash :: blake2b_hash
  mih_seed :: vrf_seed
  mih_extra_data :: "u8 list"
  mih_state_root :: blake2b_hash
  mih_body_root :: blake2s_hash
  mih_diff_root :: blake2b_hash
  mih_history_root :: blake2b_hash
  mih_cached_hash :: "blake2b_hash option"

section \<open>Macro headers\<close>

record macro_header =
  mah_network :: network_id
  mah_version :: u16
  mah_block_number :: u32
  mah_round :: u32
  mah_timestamp :: u64
  mah_parent_hash :: blake2b_hash
  mah_parent_election_hash :: blake2b_hash
  mah_interlink :: "blake2b_hash list option"
  mah_seed :: vrf_seed
  mah_extra_data :: "u8 list"
  mah_state_root :: blake2b_hash
  mah_body_root :: blake2s_hash
  mah_diff_root :: blake2b_hash
  mah_history_root :: blake2b_hash
  mah_validators :: "validator_set option"
  mah_next_batch_initial_punished_set :: bitset
  mah_cached_hash :: "blake2b_hash option"

section \<open>Votes and multi-signatures\<close>

datatype tendermint_step = PreVote | PreCommit | Propose

fun step_byte :: "tendermint_step \<Rightarrow> u8" where
  "step_byte PreVote = 3"
| "step_byte PreCommit = 4"
| "step_byte Propose = 2"

record tendermint_identifier =
  ti_network :: network_id
  ti_block_number :: u32
  ti_round_number :: u32
  ti_step :: tendermint_step

record tendermint_vote =
  tv_proposal_hash :: "blake2s_hash option"
  tv_id :: tendermint_identifier

record tendermint_proposal =
  tpr_proposal :: macro_header
  tpr_round :: u32
  tpr_valid_round :: "u32 option"

fun network_byte :: "network_id \<Rightarrow> u8" where
  "network_byte Test = 1"
| "network_byte Dev = 2"
| "network_byte Bounty = 3"
| "network_byte Dummy = 4"
| "network_byte Main = 42"
| "network_byte TestAlbatross = 5"
| "network_byte DevAlbatross = 6"
| "network_byte UnitAlbatross = 7"
| "network_byte MainAlbatross = 24"

text \<open>The bytes a validator signs for a vote. An optional hash starts with its presence.\<close>

definition vote_content :: "tendermint_vote \<Rightarrow> u8 list" where
  "vote_content v =
    step_byte (ti_step (tv_id v)) # network_byte (ti_network (tv_id v)) #
    put_be 4 (ti_round_number (tv_id v)) @ put_be 4 (ti_block_number (tv_id v)) @
    (case tv_proposal_hash v of None \<Rightarrow> [0] | Some h \<Rightarrow> 1 # h)"

record multi_signature =
  ms_signature :: bls_signature
  ms_signers :: bitset

record tendermint_proof =
  tp_round :: u32
  tp_sig :: multi_signature

record skip_block_info =
  sbi_network_id :: network_id
  sbi_block_number :: u32
  sbi_vrf_entropy :: vrf_entropy

record skip_block_proof =
  sbp_sig :: multi_signature

section \<open>Equivocation proofs\<close>

record fork_proof =
  fp_validator_address :: address
  fp_header1 :: micro_header
  fp_header2 :: micro_header
  fp_justification1 :: schnorr_signature
  fp_justification2 :: schnorr_signature

record double_proposal_proof =
  dp_validator_address :: address
  dp_proposal1 :: tendermint_proposal
  dp_proposal2 :: tendermint_proposal
  dp_justification1 :: schnorr_signature
  dp_justification2 :: schnorr_signature

record double_vote_proof =
  dvp_validator_address :: address
  dvp_tendermint_id :: tendermint_identifier
  dvp_proposal_hash1 :: "blake2s_hash option"
  dvp_proposal_hash2 :: "blake2s_hash option"
  dvp_signature1 :: bls_signature
  dvp_signature2 :: bls_signature
  dvp_signers1 :: bitset
  dvp_signers2 :: bitset

datatype equivocation_proof =
    Fork fork_proof
  | DoubleProposal double_proposal_proof
  | DoubleVote double_vote_proof

datatype equivocation_locator =
    Fork_Locator address u32
  | DoubleProposal_Locator address u32 u32
  | DoubleVote_Locator address u32 u32 tendermint_step

section \<open>Blocks\<close>

datatype micro_justification = Micro_Signature schnorr_signature | Skip_Proof skip_block_proof

record micro_body =
  mib_equivocation_proofs :: "equivocation_proof list"
  mib_transactions :: "executed_transaction list"

record micro_block =
  mi_header :: micro_header
  mi_justification :: "micro_justification option"
  mi_body :: "micro_body option"

record reward_transaction =
  rw_validator_address :: address
  rw_recipient :: address
  rw_value :: coin

record macro_body =
  mab_transactions :: "reward_transaction list"

record macro_block =
  ma_header :: macro_header
  ma_body :: "macro_body option"
  ma_justification :: "tendermint_proof option"

datatype block = Macro_Block macro_block | Micro_Block micro_block

section \<open>Parameters\<close>

text \<open>
  What the blocks take from libraries: hashes of serialized data, signatures, the proofs of seeds, and the
  size of a serialized body. Hashes of headers are taken without the cached hash.
\<close>

record 'k blk_env =
  be_policy :: policy
  be_micro_hash :: "micro_header \<Rightarrow> blake2b_hash"
  be_macro_hash :: "macro_header \<Rightarrow> blake2b_hash"
  be_macro_hash_blake2s :: "macro_header \<Rightarrow> blake2s_hash"
  be_proposal_hash :: "tendermint_proposal \<Rightarrow> blake2s_hash"
  be_micro_body_hash :: "micro_body \<Rightarrow> blake2s_hash"
  be_macro_body_hash :: "macro_body \<Rightarrow> blake2s_hash"
  be_micro_body_size :: "micro_body \<Rightarrow> nat"
  be_tx_hash :: "transaction \<Rightarrow> blake2b_hash"
  be_locator_hash :: "equivocation_locator \<Rightarrow> blake2b_hash"
  be_blake2s :: "u8 list \<Rightarrow> blake2s_hash"
  be_serialize_skip_info :: "skip_block_info \<Rightarrow> u8 list"
  be_schnorr_verify :: "schnorr_public_key \<Rightarrow> schnorr_signature \<Rightarrow> u8 list \<Rightarrow> bool"
  be_try_entropy :: "vrf_seed \<Rightarrow> vrf_entropy option"
  be_seed_verify :: "vrf_seed \<Rightarrow> vrf_seed \<Rightarrow> schnorr_public_key \<Rightarrow> u32 \<Rightarrow> bool"
  be_uncompress :: "bls_public_key \<Rightarrow> 'k option"
  be_signature_point :: "bls_signature \<Rightarrow> bool"
  be_agg_verify :: "'k list \<Rightarrow> u8 list \<Rightarrow> bls_signature \<Rightarrow> bool"

definition micro_header_hash :: "('k, 'z) blk_env_scheme \<Rightarrow> micro_header \<Rightarrow> blake2b_hash" where
  "micro_header_hash B h = (case mih_cached_hash h of
     Some hash \<Rightarrow> hash | None \<Rightarrow> be_micro_hash B (h \<lparr> mih_cached_hash := None \<rparr>))"

definition macro_header_hash :: "('k, 'z) blk_env_scheme \<Rightarrow> macro_header \<Rightarrow> blake2b_hash" where
  "macro_header_hash B h = (case mah_cached_hash h of
     Some hash \<Rightarrow> hash | None \<Rightarrow> be_macro_hash B (h \<lparr> mah_cached_hash := None \<rparr>))"

definition macro_header_hash_blake2s :: "('k, 'z) blk_env_scheme \<Rightarrow> macro_header \<Rightarrow> blake2s_hash" where
  "macro_header_hash_blake2s B h = be_macro_hash_blake2s B (h \<lparr> mah_cached_hash := None \<rparr>)"

definition proposal_hash :: "('k, 'z) blk_env_scheme \<Rightarrow> tendermint_proposal \<Rightarrow> blake2s_hash" where
  "proposal_hash B p = be_proposal_hash B (p \<lparr> tpr_proposal := tpr_proposal p \<lparr> mah_cached_hash := None \<rparr> \<rparr>)"

definition vote_hash :: "('k, 'z) blk_env_scheme \<Rightarrow> tendermint_vote \<Rightarrow> u8 list" where
  "vote_hash B v = be_blake2s B (vote_content v)"

text \<open>The entropy of an invalid seed panics.\<close>

definition seed_entropy :: "('k, 'z) blk_env_scheme \<Rightarrow> vrf_seed \<Rightarrow> vrf_entropy option" where
  "seed_entropy B s = be_try_entropy B s"

definition PREFIX_SKIP_BLOCK_INFO :: u8 where
  "PREFIX_SKIP_BLOCK_INFO = 1"

definition PREFIX_SKIP_BLOCK_WITH_STATE_ROOT_INFO :: u8 where
  "PREFIX_SKIP_BLOCK_WITH_STATE_ROOT_INFO = 7"

definition V2 :: u16 where
  "V2 = 2"

definition signing_hash :: "('k, 'z) blk_env_scheme \<Rightarrow> skip_block_info \<Rightarrow> blake2b_hash \<Rightarrow> u16 \<Rightarrow> u8 list" where
  "signing_hash B info state_root protocol_version =
    (if protocol_version < V2 then be_blake2s B (PREFIX_SKIP_BLOCK_INFO # be_serialize_skip_info B info)
     else be_blake2s B (PREFIX_SKIP_BLOCK_WITH_STATE_ROOT_INFO # be_serialize_skip_info B info @ state_root))"

section \<open>Signers\<close>

fun checked_slots :: "nat list \<Rightarrow> u16 list option" where
  "checked_slots [] = Some []"
| "checked_slots (slot # slots) =
    (if slot \<ge> unat SLOTS \<or> slot > 2 ^ 16 - 1 then None
     else map_option (\<lambda>rest. of_nat slot # rest) (checked_slots slots))"

definition checked_signer_slots :: "bitset \<Rightarrow> u16 list option" where
  "checked_signer_slots signers = checked_slots (bitset_iter signers)"

text \<open>\<open>MultiSignature::combine\<close>, with the addition of signatures as a parameter.\<close>

definition combine :: "(bls_signature \<Rightarrow> bls_signature \<Rightarrow> bls_signature) \<Rightarrow> multi_signature \<Rightarrow> multi_signature \<Rightarrow>
  bitset + multi_signature" where
  "combine merge a b =
    (let overlap = bitset_and (ms_signers a) (ms_signers b) in
     if bitset_is_empty overlap
     then Inr \<lparr> ms_signature = merge (ms_signature a) (ms_signature b),
                ms_signers = bitset_or (ms_signers a) (ms_signers b) \<rparr>
     else Inl overlap)"

text \<open>
  The keys of the signing slots: \<open>None\<close> is the panic of a slot without an owner, \<open>Some None\<close> a key that
  cannot be decompressed.
\<close>

fun slot_keys :: "(bls_public_key \<Rightarrow> 'k option) \<Rightarrow> validator_set \<Rightarrow> u16 list \<Rightarrow> 'k list option option" where
  "slot_keys uncompress vs [] = Some (Some [])"
| "slot_keys uncompress vs (slot # slots) = (case get_validator_by_slot_number vs slot of
     None \<Rightarrow> None
   | Some v \<Rightarrow> (case uncompress (sv_voting_key v) of
       None \<Rightarrow> Some None
     | Some pk \<Rightarrow> map_option (map_option ((#) pk)) (slot_keys uncompress vs slots)))"

end
