(* ===== verification/Equivocation.thy ===== *)
theory Equivocation
  imports BlockTypes
begin

text \<open>
  Equivocation proofs (\<^verbatim>\<open>primitives/block/src/equivocation_proof.rs\<close>): two blocks, two proposals or two votes
  of one validator for the same slot, their construction, verification and reporting window.
\<close>

datatype equivocation_proof_error =
    EP_NetworkMismatch | EP_SlotMismatch | EP_NoOverlap | EP_InvalidJustification
  | EP_InvalidValidatorAddress | EP_SameHeader | EP_WrongOrder

section \<open>Forks\<close>

definition fork_new :: "('k, 'z) blk_env_scheme \<Rightarrow> address \<Rightarrow> micro_header \<Rightarrow> schnorr_signature \<Rightarrow> micro_header \<Rightarrow>
  schnorr_signature \<Rightarrow> fork_proof" where
  "fork_new B validator_address header1 justification1 header2 justification2 =
    (if micro_header_hash B header1 > micro_header_hash B header2
     then \<lparr> fp_validator_address = validator_address, fp_header1 = header2, fp_header2 = header1,
            fp_justification1 = justification2, fp_justification2 = justification1 \<rparr>
     else \<lparr> fp_validator_address = validator_address, fp_header1 = header1, fp_header2 = header2,
            fp_justification1 = justification1, fp_justification2 = justification2 \<rparr>)"

definition fork_network :: "fork_proof \<Rightarrow> network_id" where
  "fork_network p = mih_network (fp_header1 p)"

definition fork_block_number :: "fork_proof \<Rightarrow> u32" where
  "fork_block_number p = mih_block_number (fp_header1 p)"

definition fork_locator :: "fork_proof \<Rightarrow> equivocation_locator" where
  "fork_locator p = Fork_Locator (fp_validator_address p) (fork_block_number p)"

definition fork_verify :: "('k, 'z) blk_env_scheme \<Rightarrow> fork_proof \<Rightarrow> schnorr_public_key \<Rightarrow>
  (equivocation_proof_error, unit) res" where
  "fork_verify B p signing_key =
    (let hash1 = micro_header_hash B (fp_header1 p); hash2 = micro_header_hash B (fp_header2 p) in
     seq_res (check_res (hash1 \<noteq> hash2) EP_SameHeader) (
     seq_res (check_res (\<not> hash1 > hash2) EP_WrongOrder) (
     seq_res (check_res (mih_network (fp_header1 p) = mih_network (fp_header2 p)) EP_NetworkMismatch) (
     seq_res (check_res (be_schnorr_verify B signing_key (fp_justification1 p) hash1 \<and>
                         be_schnorr_verify B signing_key (fp_justification2 p) hash2) EP_InvalidJustification) (
     check_res (mih_block_number (fp_header1 p) = mih_block_number (fp_header2 p) \<and>
        (case (be_try_entropy B (mih_seed (fp_header1 p)), be_try_entropy B (mih_seed (fp_header2 p))) of
           (Some entropy1, Some entropy2) \<Rightarrow> entropy1 = entropy2
         | _ \<Rightarrow> False)) EP_SlotMismatch)))))"

section \<open>Double proposals\<close>

definition double_proposal_new :: "('k, 'z) blk_env_scheme \<Rightarrow> address \<Rightarrow> tendermint_proposal \<Rightarrow> schnorr_signature \<Rightarrow>
  tendermint_proposal \<Rightarrow> schnorr_signature \<Rightarrow> double_proposal_proof" where
  "double_proposal_new B validator_address proposal1 justification1 proposal2 justification2 =
    (if proposal_hash B proposal1 > proposal_hash B proposal2
     then \<lparr> dp_validator_address = validator_address, dp_proposal1 = proposal2, dp_proposal2 = proposal1,
            dp_justification1 = justification2, dp_justification2 = justification1 \<rparr>
     else \<lparr> dp_validator_address = validator_address, dp_proposal1 = proposal1, dp_proposal2 = proposal2,
            dp_justification1 = justification1, dp_justification2 = justification2 \<rparr>)"

definition double_proposal_network :: "double_proposal_proof \<Rightarrow> network_id" where
  "double_proposal_network p = mah_network (tpr_proposal (dp_proposal1 p))"

definition double_proposal_block_number :: "double_proposal_proof \<Rightarrow> u32" where
  "double_proposal_block_number p = mah_block_number (tpr_proposal (dp_proposal1 p))"

definition double_proposal_round :: "double_proposal_proof \<Rightarrow> u32" where
  "double_proposal_round p = tpr_round (dp_proposal1 p)"

definition double_proposal_locator :: "double_proposal_proof \<Rightarrow> equivocation_locator" where
  "double_proposal_locator p =
    DoubleProposal_Locator (dp_validator_address p) (double_proposal_block_number p) (double_proposal_round p)"

definition double_proposal_verify :: "('k, 'z) blk_env_scheme \<Rightarrow> double_proposal_proof \<Rightarrow> schnorr_public_key \<Rightarrow>
  (equivocation_proof_error, unit) res" where
  "double_proposal_verify B p signing_key =
    (let hash1 = proposal_hash B (dp_proposal1 p); hash2 = proposal_hash B (dp_proposal2 p);
         header1 = tpr_proposal (dp_proposal1 p); header2 = tpr_proposal (dp_proposal2 p) in
     seq_res (check_res (hash1 \<noteq> hash2) EP_SameHeader) (
     seq_res (check_res (\<not> hash1 > hash2) EP_WrongOrder) (
     seq_res (check_res (mah_network header1 = mah_network header2) EP_NetworkMismatch) (
     seq_res (check_res (mah_block_number header1 = mah_block_number header2 \<and>
                         tpr_round (dp_proposal1 p) = tpr_round (dp_proposal2 p)) EP_SlotMismatch) (
     check_res (be_schnorr_verify B signing_key (dp_justification1 p) hash1 \<and>
                be_schnorr_verify B signing_key (dp_justification2 p) hash2) EP_InvalidJustification)))))"

section \<open>Double votes\<close>

definition double_vote_new :: "tendermint_identifier \<Rightarrow> address \<Rightarrow> blake2s_hash option \<Rightarrow> bls_signature \<Rightarrow> bitset \<Rightarrow>
  blake2s_hash option \<Rightarrow> bls_signature \<Rightarrow> bitset \<Rightarrow> double_vote_proof" where
  "double_vote_new tendermint_id validator_address proposal_hash1 signature1 signers1 proposal_hash2 signature2 signers2 =
    (if proposal_hash1 > proposal_hash2
     then \<lparr> dvp_validator_address = validator_address, dvp_tendermint_id = tendermint_id,
            dvp_proposal_hash1 = proposal_hash2, dvp_proposal_hash2 = proposal_hash1,
            dvp_signature1 = signature2, dvp_signature2 = signature1,
            dvp_signers1 = signers2, dvp_signers2 = signers1 \<rparr>
     else \<lparr> dvp_validator_address = validator_address, dvp_tendermint_id = tendermint_id,
            dvp_proposal_hash1 = proposal_hash1, dvp_proposal_hash2 = proposal_hash2,
            dvp_signature1 = signature1, dvp_signature2 = signature2,
            dvp_signers1 = signers1, dvp_signers2 = signers2 \<rparr>)"

definition double_vote_locator :: "double_vote_proof \<Rightarrow> equivocation_locator" where
  "double_vote_locator p =
    (let i = dvp_tendermint_id p
     in DoubleVote_Locator (dvp_validator_address p) (ti_block_number i) (ti_round_number i) (ti_step i))"

definition verify_votes :: "('k, 'z) blk_env_scheme \<Rightarrow> validator_set \<Rightarrow> tendermint_identifier \<Rightarrow> blake2s_hash option \<Rightarrow>
  u16 list \<Rightarrow> bls_signature \<Rightarrow> (equivocation_proof_error, unit) res" where
  "verify_votes B vs tendermint_id hash signers signature =
    (let message = \<lparr> tv_proposal_hash = hash, tv_id = tendermint_id \<rparr> in
     bind_res (expect_res (slot_keys (be_uncompress B) vs signers)) (\<lambda>keys.
     bind_res (some_or_res EP_InvalidJustification keys) (\<lambda>agg_pk.
     check_res (be_agg_verify B agg_pk (vote_hash B message) signature) EP_InvalidJustification)))"

definition range_slots :: "slot_range \<Rightarrow> u16 list" where
  "range_slots r = map of_nat [unat (range_start r)..<unat (range_end r)]"

definition double_vote_verify :: "('k, 'z) blk_env_scheme \<Rightarrow> double_vote_proof \<Rightarrow> validator_set \<Rightarrow> slot_range \<Rightarrow>
  (equivocation_proof_error, unit) res" where
  "double_vote_verify B p vs validator_slots =
    bind_res (some_or_res EP_InvalidJustification (checked_signer_slots (dvp_signers1 p))) (\<lambda>signers1.
    bind_res (some_or_res EP_InvalidJustification (checked_signer_slots (dvp_signers2 p))) (\<lambda>signers2.
    seq_res (check_res (dvp_proposal_hash1 p \<noteq> dvp_proposal_hash2 p) EP_SameHeader) (
    seq_res (check_res (\<not> dvp_proposal_hash1 p > dvp_proposal_hash2 p) EP_WrongOrder) (
    seq_res (check_res (list_ex (\<lambda>s. s \<in> set signers1 \<and> s \<in> set signers2) (range_slots validator_slots)) EP_NoOverlap) (
    seq_res (check_res (be_signature_point B (dvp_signature1 p)) EP_InvalidJustification) (
    seq_res (check_res (be_signature_point B (dvp_signature2 p)) EP_InvalidJustification) (
    seq_res (verify_votes B vs (dvp_tendermint_id p) (dvp_proposal_hash1 p) signers1 (dvp_signature1 p)) (
    verify_votes B vs (dvp_tendermint_id p) (dvp_proposal_hash2 p) signers2 (dvp_signature2 p)))))))))"

section \<open>Proofs of any kind\<close>

fun locator :: "equivocation_proof \<Rightarrow> equivocation_locator" where
  "locator (Fork p) = fork_locator p"
| "locator (DoubleProposal p) = double_proposal_locator p"
| "locator (DoubleVote p) = double_vote_locator p"

fun equivocation_network :: "equivocation_proof \<Rightarrow> network_id" where
  "equivocation_network (Fork p) = fork_network p"
| "equivocation_network (DoubleProposal p) = double_proposal_network p"
| "equivocation_network (DoubleVote p) = ti_network (dvp_tendermint_id p)"

fun equivocation_address :: "equivocation_proof \<Rightarrow> address" where
  "equivocation_address (Fork p) = fp_validator_address p"
| "equivocation_address (DoubleProposal p) = dp_validator_address p"
| "equivocation_address (DoubleVote p) = dvp_validator_address p"

fun equivocation_block_number :: "equivocation_proof \<Rightarrow> u32" where
  "equivocation_block_number (Fork p) = fork_block_number p"
| "equivocation_block_number (DoubleProposal p) = double_proposal_block_number p"
| "equivocation_block_number (DoubleVote p) = ti_block_number (dvp_tendermint_id p)"

fun verify_excluding_address_and_network :: "('k, 'z) blk_env_scheme \<Rightarrow> equivocation_proof \<Rightarrow> validator_set \<Rightarrow>
  slot_validator \<Rightarrow> (equivocation_proof_error, unit) res" where
  "verify_excluding_address_and_network B (Fork p) vs v = fork_verify B p (sv_signing_key v)"
| "verify_excluding_address_and_network B (DoubleProposal p) vs v = double_proposal_verify B p (sv_signing_key v)"
| "verify_excluding_address_and_network B (DoubleVote p) vs v = double_vote_verify B p vs (sv_slots v)"

definition equivocation_verify :: "('k, 'z) blk_env_scheme \<Rightarrow> equivocation_proof \<Rightarrow> network_id \<Rightarrow> validator_set \<Rightarrow>
  (equivocation_proof_error, unit) res" where
  "equivocation_verify B p network vs =
    seq_res (check_res (network = equivocation_network p) EP_NetworkMismatch) (
    bind_res (some_or_res EP_InvalidValidatorAddress (get_validator_by_address vs (equivocation_address p))) (\<lambda>v.
    verify_excluding_address_and_network B p vs v))"

text \<open>\<open>None\<close> is the panic of a policy without a validity window.\<close>

definition equivocation_is_valid_at :: "('k, 'z) blk_env_scheme \<Rightarrow> equivocation_proof \<Rightarrow> u32 \<Rightarrow> u16 \<Rightarrow> bool option" where
  "equivocation_is_valid_at B p block_number version =
    (let P = be_policy B;
         last_reportable_block =
           (if version \<ge> V2 then last_block_of_equivocation_reporting_window P (equivocation_block_number p)
            else Some (last_block_of_collateral_lockup P (equivocation_block_number p)))
     in map_option (\<lambda>last. block_number \<le> last \<and>
          batch_at P block_number \<ge> batch_at P (equivocation_block_number p)) last_reportable_block)"

definition sort_key :: "('k, 'z) blk_env_scheme \<Rightarrow> equivocation_proof \<Rightarrow> blake2b_hash" where
  "sort_key B p = be_locator_hash B (locator p)"

section \<open>Signers of a well-formed set\<close>

text \<open>A validator set that was constructed by \<open>Validators::new\<close> and passes the structural check.\<close>

definition wf_validators :: "validator_set \<Rightarrow> bool" where
  "wf_validators vs \<longleftrightarrow> validate_structure vs = Inr () \<and> vs = validators_new (vs_validators vs)"

lemma wf_by_address:
  assumes "wf_validators vs" "get_validator_by_address vs a = Some v"
  shows "v \<in> set (vs_validators vs)" "sv_address v = a"
proof -
  have "find (\<lambda>v. sv_address v = a) (vs_validators vs) = Some v"
    using validator_by_address [of "vs_validators vs" a] assms unfolding wf_validators_def by simp
  then show "v \<in> set (vs_validators vs)" "sv_address v = a" by (auto simp: find_Some_iff)
qed

lemma wf_lookup:
  assumes "wf_validators vs" "v \<in> set (vs_validators vs)"
  shows "get_validator_by_address vs (sv_address v) = Some v"
proof -
  have e: "get_validator_by_address vs (sv_address v) = find (\<lambda>w. sv_address w = sv_address v) (vs_validators vs)"
    using validator_by_address [of "vs_validators vs"] assms(1) unfolding wf_validators_def by simp
  have d: "distinct (map sv_address (vs_validators vs))"
    using assms(1) by (simp add: wf_validators_def validated_iff)
  obtain w where w: "find (\<lambda>w. sv_address w = sv_address v) (vs_validators vs) = Some w"
    using assms(2) by (cases "find (\<lambda>w. sv_address w = sv_address v) (vs_validators vs)") (auto simp: find_None_iff)
  then have "w \<in> set (vs_validators vs)" "sv_address w = sv_address v" by (auto simp: find_Some_iff)
  then have "w = v" using d assms(2) by (auto simp: distinct_map inj_on_def)
  then show ?thesis using e w by simp
qed

lemma checked_slots_Some:
  "checked_slots xs = Some ys \<longleftrightarrow> ys = map of_nat xs \<and> (\<forall>x\<in>set xs. x < unat SLOTS)"
  by (induction xs arbitrary: ys) (auto simp: SLOTS_def)

lemma signer_slots:
  assumes "checked_signer_slots D = Some slots"
  shows "unat ` set slots = elems D" "distinct slots" "length slots = card (elems D)" "\<forall>s\<in>set slots. s < SLOTS"
proof -
  have e: "slots = map of_nat (sorted_list_of_set (elems D))" "\<forall>x\<in>elems D. x < unat SLOTS" "finite (elems D)"
    using assms by (auto simp: checked_signer_slots_def checked_slots_Some bitset_iter_eq finite_elems)
  then have u: "unat (of_nat x :: u16) = x" if "x \<in> elems D" for x using that by (auto simp: SLOTS_def unat_of_nat)
  show "unat ` set slots = elems D" using e u by (force simp: image_iff)
  have "inj_on (of_nat :: nat \<Rightarrow> u16) (elems D)" using u by (metis inj_onI)
  then show "distinct slots" using e by (simp add: distinct_map)
  show "length slots = card (elems D)" using e by simp
  show "\<forall>s\<in>set slots. s < SLOTS" using e u by (auto simp: word_less_nat_alt)
qed

lemma slot_owner:
  assumes "wf_validators vs" "slot < SLOTS"
  shows "\<exists>v\<in>set (vs_validators vs). get_validator_by_slot_number vs slot = Some v \<and>
    range_start (sv_slots v) \<le> slot \<and> slot < range_end (sv_slots v)"
  using band_found [of vs slot] assms by (auto simp: wf_validators_def get_validator_by_slot_number_def)

lemma slot_keys_no_panic:
  assumes "wf_validators vs"
  shows "\<forall>s\<in>set slots. s < SLOTS \<Longrightarrow> slot_keys uncompress vs slots \<noteq> None"
proof (induction slots)
  case (Cons slot slots)
  then obtain v where "get_validator_by_slot_number vs slot = Some v" using slot_owner [OF assms, of slot] by auto
  then show ?case using Cons by (auto split: option.splits)
qed simp

lemma range_slots_member: "s \<in> set (range_slots r) \<longleftrightarrow> range_start r \<le> s \<and> s < range_end r"
proof -
  have "of_nat ` {unat (range_start r)..<unat (range_end r)} = {s. range_start r \<le> s \<and> s < range_end r}"
  proof (intro set_eqI iffI)
    fix s :: u16
    assume "s \<in> of_nat ` {unat (range_start r)..<unat (range_end r)}"
    then obtain n where n: "s = of_nat n" "unat (range_start r) \<le> n" "n < unat (range_end r)" by auto
    then have "unat s = n" using unat_bound [of "range_end r"] by (simp add: unat_of_nat)
    then show "s \<in> {s. range_start r \<le> s \<and> s < range_end r}" using n by (simp add: word_le_nat_alt word_less_nat_alt)
  next
    fix s :: u16
    assume "s \<in> {s. range_start r \<le> s \<and> s < range_end r}"
    then show "s \<in> of_nat ` {unat (range_start r)..<unat (range_end r)}"
      by (intro image_eqI [of _ _ "unat s"]) (simp_all add: word_le_nat_alt word_less_nat_alt)
  qed
  then show ?thesis by (simp add: range_slots_def)
qed

section \<open>Verification does not panic\<close>

lemma fork_verify_no_panic [no_panic]: "fork_verify B p k \<noteq> None"
  unfolding fork_verify_def Let_def by (intro no_panic)

lemma double_proposal_verify_no_panic [no_panic]: "double_proposal_verify B p k \<noteq> None"
  unfolding double_proposal_verify_def Let_def by (intro no_panic)

lemma verify_votes_no_panic [no_panic]:
  assumes "wf_validators vs" "\<forall>s\<in>set signers. s < SLOTS"
  shows "verify_votes B vs i h signers sig \<noteq> None"
proof -
  have "expect_res (slot_keys (be_uncompress B) vs signers) \<noteq> None"
    using slot_keys_no_panic [OF assms] by (simp add: expect_res_def)
  then show ?thesis unfolding verify_votes_def Let_def by (intro no_panic)
qed

lemma double_vote_verify_no_panic [no_panic]:
  assumes "wf_validators vs"
  shows "double_vote_verify B p vs r \<noteq> None"
  unfolding double_vote_verify_def
  by (intro no_panic assms signer_slots(4)) (simp_all add: some_or_res_Inr)

lemma equivocation_verify_no_panic [no_panic]:
  assumes "wf_validators vs"
  shows "equivocation_verify B p network vs \<noteq> None"
proof -
  have "verify_excluding_address_and_network B p vs v \<noteq> None" for v
    using assms by (cases p) (simp_all add: no_panic del: not_None_eq)
  then show ?thesis unfolding equivocation_verify_def by (intro no_panic)
qed

section \<open>What a proof shows\<close>

definition signed_by :: "('k, 'z) blk_env_scheme \<Rightarrow> slot_validator \<Rightarrow> u8 list \<Rightarrow> bool" where
  "signed_by B v hash \<longleftrightarrow> (\<exists>sig. be_schnorr_verify B (sv_signing_key v) sig hash)"

definition voted :: "('k, 'z) blk_env_scheme \<Rightarrow> validator_set \<Rightarrow> u16 \<Rightarrow> tendermint_identifier \<Rightarrow> blake2s_hash option \<Rightarrow> bool" where
  "voted B vs slot i h \<longleftrightarrow> (\<exists>D slots keys sig. checked_signer_slots D = Some slots \<and> slot \<in> set slots \<and>
     slot_keys (be_uncompress B) vs slots = Some (Some keys) \<and> be_signature_point B sig \<and>
     be_agg_verify B keys (vote_hash B \<lparr> tv_proposal_hash = h, tv_id = i \<rparr>) sig)"

text \<open>
  The offence at a locator: two signed headers of one slot of the chain, two signed proposals of one
  round, or two votes that one slot of the validator took part in.
\<close>

fun offence :: "('k, 'z) blk_env_scheme \<Rightarrow> validator_set \<Rightarrow> slot_validator \<Rightarrow> network_id \<Rightarrow> equivocation_locator \<Rightarrow> bool" where
  "offence B vs v network (Fork_Locator a n) \<longleftrightarrow> a = sv_address v \<and>
    (\<exists>h1 h2 entropy. micro_header_hash B h1 \<noteq> micro_header_hash B h2 \<and>
       mih_network h1 = network \<and> mih_network h2 = network \<and> mih_block_number h1 = n \<and> mih_block_number h2 = n \<and>
       be_try_entropy B (mih_seed h1) = Some entropy \<and> be_try_entropy B (mih_seed h2) = Some entropy \<and>
       signed_by B v (micro_header_hash B h1) \<and> signed_by B v (micro_header_hash B h2))"
| "offence B vs v network (DoubleProposal_Locator a n r) \<longleftrightarrow> a = sv_address v \<and>
    (\<exists>p1 p2. proposal_hash B p1 \<noteq> proposal_hash B p2 \<and>
       mah_network (tpr_proposal p1) = network \<and> mah_network (tpr_proposal p2) = network \<and>
       mah_block_number (tpr_proposal p1) = n \<and> mah_block_number (tpr_proposal p2) = n \<and>
       tpr_round p1 = r \<and> tpr_round p2 = r \<and> signed_by B v (proposal_hash B p1) \<and> signed_by B v (proposal_hash B p2))"
| "offence B vs v network (DoubleVote_Locator a n r step) \<longleftrightarrow> a = sv_address v \<and>
    (let i = \<lparr> ti_network = network, ti_block_number = n, ti_round_number = r, ti_step = step \<rparr> in
     \<exists>slot h1 h2. range_start (sv_slots v) \<le> slot \<and> slot < range_end (sv_slots v) \<and> h1 \<noteq> h2 \<and>
       voted B vs slot i h1 \<and> voted B vs slot i h2)"

lemma fork_verified:
  "fork_verify B p (sv_signing_key v) = Some (Inr ()) \<Longrightarrow> fp_validator_address p = sv_address v \<Longrightarrow>
   offence B vs v (fork_network p) (fork_locator p)"
  by (auto simp: fork_verify_def fork_locator_def fork_network_def fork_block_number_def signed_by_def res_Inr Let_def
      split: option.splits)

lemma fork_new_verified:
  assumes "micro_header_hash B h1 \<noteq> micro_header_hash B h2" "mih_network h1 = mih_network h2"
    "mih_block_number h1 = mih_block_number h2"
    "be_try_entropy B (mih_seed h1) = Some entropy" "be_try_entropy B (mih_seed h2) = Some entropy"
    "be_schnorr_verify B k s1 (micro_header_hash B h1)" "be_schnorr_verify B k s2 (micro_header_hash B h2)"
  shows "fork_verify B (fork_new B a h1 s1 h2 s2) k = Some (Inr ())"
    "fork_locator (fork_new B a h1 s1 h2 s2) = Fork_Locator a (mih_block_number h1)"
    "fork_network (fork_new B a h1 s1 h2 s2) = mih_network h1"
  using assms
  by (auto simp: fork_verify_def fork_new_def fork_locator_def fork_network_def fork_block_number_def res_Inr Let_def)

lemma double_proposal_verified:
  "double_proposal_verify B p (sv_signing_key v) = Some (Inr ()) \<Longrightarrow> dp_validator_address p = sv_address v \<Longrightarrow>
   offence B vs v (double_proposal_network p) (double_proposal_locator p)"
  by (auto simp: double_proposal_verify_def double_proposal_locator_def double_proposal_network_def
      double_proposal_block_number_def double_proposal_round_def signed_by_def res_Inr Let_def)

lemma double_proposal_new_verified:
  assumes "proposal_hash B p1 \<noteq> proposal_hash B p2" "mah_network (tpr_proposal p1) = mah_network (tpr_proposal p2)"
    "mah_block_number (tpr_proposal p1) = mah_block_number (tpr_proposal p2)" "tpr_round p1 = tpr_round p2"
    "be_schnorr_verify B k s1 (proposal_hash B p1)" "be_schnorr_verify B k s2 (proposal_hash B p2)"
  shows "double_proposal_verify B (double_proposal_new B a p1 s1 p2 s2) k = Some (Inr ())"
    "double_proposal_locator (double_proposal_new B a p1 s1 p2 s2) =
       DoubleProposal_Locator a (mah_block_number (tpr_proposal p1)) (tpr_round p1)"
    "double_proposal_network (double_proposal_new B a p1 s1 p2 s2) = mah_network (tpr_proposal p1)"
  using assms
  by (auto simp: double_proposal_verify_def double_proposal_new_def double_proposal_locator_def double_proposal_network_def
      double_proposal_block_number_def double_proposal_round_def res_Inr Let_def)

lemma verify_votes_ok:
  "verify_votes B vs i h slots sig = Some (Inr ()) \<longleftrightarrow> (\<exists>keys. slot_keys (be_uncompress B) vs slots = Some (Some keys) \<and>
     be_agg_verify B keys (vote_hash B \<lparr> tv_proposal_hash = h, tv_id = i \<rparr>) sig)"
  by (auto simp: verify_votes_def res_Inr Let_def)

lemma double_vote_ok:
  "double_vote_verify B p vs r = Some (Inr ()) \<longleftrightarrow> (\<exists>slots1 slots2.
     checked_signer_slots (dvp_signers1 p) = Some slots1 \<and> checked_signer_slots (dvp_signers2 p) = Some slots2 \<and>
     dvp_proposal_hash1 p < dvp_proposal_hash2 p \<and> (\<exists>s\<in>set slots1 \<inter> set slots2. range_start r \<le> s \<and> s < range_end r) \<and>
     be_signature_point B (dvp_signature1 p) \<and> be_signature_point B (dvp_signature2 p) \<and>
     verify_votes B vs (dvp_tendermint_id p) (dvp_proposal_hash1 p) slots1 (dvp_signature1 p) = Some (Inr ()) \<and>
     verify_votes B vs (dvp_tendermint_id p) (dvp_proposal_hash2 p) slots2 (dvp_signature2 p) = Some (Inr ()))"
proof -
  have o: "h1 \<noteq> h2 \<and> \<not> h1 > h2 \<longleftrightarrow> h1 < h2" for h1 h2 :: "blake2s_hash option" by (metis less_imp_neq less_not_sym neqE)
  have m: "list_ex (\<lambda>s. s \<in> A \<and> s \<in> C) (range_slots r) \<longleftrightarrow> (\<exists>s\<in>A \<inter> C. range_start r \<le> s \<and> s < range_end r)" for A C
    unfolding list_ex_iff Bex_def range_slots_member by blast
  show ?thesis
    unfolding double_vote_verify_def res_Inr m
    using o [of "dvp_proposal_hash1 p" "dvp_proposal_hash2 p"]
    by (intro iffI; elim exE conjE; intro exI conjI; (assumption | simp))
qed

lemma double_vote_verified:
  assumes "double_vote_verify B p vs (sv_slots v) = Some (Inr ())" "dvp_validator_address p = sv_address v"
  shows "offence B vs v (ti_network (dvp_tendermint_id p)) (double_vote_locator p)"
proof -
  let ?i = "dvp_tendermint_id p"
  from assms(1) obtain slots1 slots2 slot where s: "checked_signer_slots (dvp_signers1 p) = Some slots1"
    "checked_signer_slots (dvp_signers2 p) = Some slots2" "dvp_proposal_hash1 p < dvp_proposal_hash2 p"
    "slot \<in> set slots1" "slot \<in> set slots2" "range_start (sv_slots v) \<le> slot" "slot < range_end (sv_slots v)"
    "be_signature_point B (dvp_signature1 p)" "be_signature_point B (dvp_signature2 p)"
    "verify_votes B vs ?i (dvp_proposal_hash1 p) slots1 (dvp_signature1 p) = Some (Inr ())"
    "verify_votes B vs ?i (dvp_proposal_hash2 p) slots2 (dvp_signature2 p) = Some (Inr ())"
    unfolding double_vote_ok by auto
  then have "voted B vs slot ?i (dvp_proposal_hash1 p)" "voted B vs slot ?i (dvp_proposal_hash2 p)"
    unfolding voted_def verify_votes_ok by blast+
  moreover have i: "\<lparr> ti_network = ti_network ?i, ti_block_number = ti_block_number ?i,
    ti_round_number = ti_round_number ?i, ti_step = ti_step ?i \<rparr> = ?i" by simp
  moreover have "dvp_proposal_hash1 p \<noteq> dvp_proposal_hash2 p" using s(3) by (rule less_imp_neq)
  ultimately show ?thesis
    unfolding double_vote_locator_def Let_def offence.simps i using s(6,7) assms(2) by blast
qed

lemma double_vote_new_verified:
  assumes "h1 \<noteq> h2" "checked_signer_slots D1 = Some slots1" "checked_signer_slots D2 = Some slots2"
    "slot \<in> set slots1" "slot \<in> set slots2" "range_start r \<le> slot" "slot < range_end r"
    "be_signature_point B sig1" "be_signature_point B sig2"
    "verify_votes B vs i h1 slots1 sig1 = Some (Inr ())" "verify_votes B vs i h2 slots2 sig2 = Some (Inr ())"
  shows "double_vote_verify B (double_vote_new i a h1 sig1 D1 h2 sig2 D2) vs r = Some (Inr ())"
    "double_vote_locator (double_vote_new i a h1 sig1 D1 h2 sig2 D2) =
       DoubleVote_Locator a (ti_block_number i) (ti_round_number i) (ti_step i)"
proof -
  show "double_vote_locator (double_vote_new i a h1 sig1 D1 h2 sig2 D2) =
       DoubleVote_Locator a (ti_block_number i) (ti_round_number i) (ti_step i)"
    by (simp add: double_vote_locator_def double_vote_new_def)
  consider "h1 < h2" | "h2 < h1" using assms(1) by (rule neqE)
  then show "double_vote_verify B (double_vote_new i a h1 sig1 D1 h2 sig2 D2) vs r = Some (Inr ())"
    using assms by cases (auto simp: double_vote_ok double_vote_new_def)
qed

lemma equivocation_verified:
  "equivocation_verify B p network vs = Some (Inr ()) \<longleftrightarrow> network = equivocation_network p \<and>
     (\<exists>v. get_validator_by_address vs (equivocation_address p) = Some v \<and>
        verify_excluding_address_and_network B p vs v = Some (Inr ()))"
  unfolding equivocation_verify_def res_Inr by blast

lemma proof_of_offence:
  assumes "wf_validators vs" "v \<in> set (vs_validators vs)" "equivocation_address p = sv_address v"
    "equivocation_verify B p network vs = Some (Inr ())"
  shows "offence B vs v network (locator p)"
proof -
  have "verify_excluding_address_and_network B p vs v = Some (Inr ())" "network = equivocation_network p"
    using assms(4) wf_lookup [OF assms(1,2)] assms(3) unfolding equivocation_verified by auto
  then show ?thesis
    using assms(3) fork_verified [of B _ v vs] double_proposal_verified [of B _ v vs] double_vote_verified [of B _ vs v]
    by (cases p) simp_all
qed

lemma offence_has_proof:
  assumes wf: "wf_validators vs" "v \<in> set (vs_validators vs)" and o: "offence B vs v network loc"
  shows "\<exists>p. equivocation_address p = sv_address v \<and> locator p = loc \<and> equivocation_verify B p network vs = Some (Inr ())"
proof (cases loc)
  case (Fork_Locator a n)
  then obtain h1 h2 entropy s1 s2 where h: "micro_header_hash B h1 \<noteq> micro_header_hash B h2" "mih_network h1 = network"
    "mih_network h2 = network" "mih_block_number h1 = n" "mih_block_number h2 = n"
    "be_try_entropy B (mih_seed h1) = Some entropy" "be_try_entropy B (mih_seed h2) = Some entropy"
    "be_schnorr_verify B (sv_signing_key v) s1 (micro_header_hash B h1)"
    "be_schnorr_verify B (sv_signing_key v) s2 (micro_header_hash B h2)" "a = sv_address v"
    using o by (auto simp: signed_by_def)
  note n = fork_new_verified [OF h(1) _ _ h(6-9), of "sv_address v"]
  have "fp_validator_address (fork_new B (sv_address v) h1 s1 h2 s2) = sv_address v" by (simp add: fork_new_def)
  then show ?thesis
    using n h Fork_Locator wf_lookup [OF wf]
    by (intro exI [of _ "Fork (fork_new B (sv_address v) h1 s1 h2 s2)"]) (simp add: equivocation_verified)
next
  case (DoubleProposal_Locator a n r)
  then obtain p1 p2 s1 s2 where h: "proposal_hash B p1 \<noteq> proposal_hash B p2" "mah_network (tpr_proposal p1) = network"
    "mah_network (tpr_proposal p2) = network" "mah_block_number (tpr_proposal p1) = n"
    "mah_block_number (tpr_proposal p2) = n" "tpr_round p1 = r" "tpr_round p2 = r"
    "be_schnorr_verify B (sv_signing_key v) s1 (proposal_hash B p1)"
    "be_schnorr_verify B (sv_signing_key v) s2 (proposal_hash B p2)" "a = sv_address v"
    using o by (auto simp: signed_by_def)
  note n = double_proposal_new_verified [OF h(1) _ _ _ h(8,9), of "sv_address v"]
  have "dp_validator_address (double_proposal_new B (sv_address v) p1 s1 p2 s2) = sv_address v"
    by (simp add: double_proposal_new_def)
  then show ?thesis
    using n h DoubleProposal_Locator wf_lookup [OF wf]
    by (intro exI [of _ "DoubleProposal (double_proposal_new B (sv_address v) p1 s1 p2 s2)"]) (simp add: equivocation_verified)
next
  case (DoubleVote_Locator a n r step)
  let ?i = "\<lparr> ti_network = network, ti_block_number = n, ti_round_number = r, ti_step = step \<rparr>"
  from DoubleVote_Locator obtain slot h1 h2 where h: "range_start (sv_slots v) \<le> slot" "slot < range_end (sv_slots v)"
    "h1 \<noteq> h2" "voted B vs slot ?i h1" "voted B vs slot ?i h2" "a = sv_address v"
    using o by (auto simp: Let_def)
  obtain D1 slots1 sig1 where v1: "checked_signer_slots D1 = Some slots1" "slot \<in> set slots1" "be_signature_point B sig1"
    "verify_votes B vs ?i h1 slots1 sig1 = Some (Inr ())" using h(4) unfolding voted_def verify_votes_ok by blast
  obtain D2 slots2 sig2 where v2: "checked_signer_slots D2 = Some slots2" "slot \<in> set slots2" "be_signature_point B sig2"
    "verify_votes B vs ?i h2 slots2 sig2 = Some (Inr ())" using h(5) unfolding voted_def verify_votes_ok by blast
  let ?p = "double_vote_new ?i (sv_address v) h1 sig1 D1 h2 sig2 D2"
  note n = double_vote_new_verified [OF h(3) v1(1) v2(1) v1(2) v2(2) h(1,2) v1(3) v2(3) v1(4) v2(4)]
  have "dvp_validator_address ?p = sv_address v" "dvp_tendermint_id ?p = ?i" by (simp_all add: double_vote_new_def)
  then show ?thesis
    using n h(6) DoubleVote_Locator wf_lookup [OF wf] by (intro exI [of _ "DoubleVote ?p"]) (simp add: equivocation_verified)
qed

section \<open>An example\<close>

definition example_band :: slot_validator where
  "example_band = \<lparr> sv_address = 7, sv_voting_key = [], sv_signing_key = [], sv_slots = \<lparr> range_start = 0, range_end = 512 \<rparr> \<rparr>"

definition example_validators :: validator_set where
  "example_validators = validators_new [example_band]"

definition example_header :: micro_header where
  "example_header = \<lparr> mih_network = UnitAlbatross, mih_version = 2, mih_block_number = 300, mih_timestamp = 0,
     mih_parent_hash = [], mih_seed = [], mih_extra_data = [], mih_state_root = [], mih_body_root = [], mih_diff_root = [],
     mih_history_root = [], mih_cached_hash = None \<rparr>"

text \<open>Hashes that keep some data and signatures that always verify.\<close>

definition example_blk_env :: "u8 list blk_env" where
  "example_blk_env = \<lparr> be_policy = TEST_POLICY, be_micro_hash = mih_extra_data, be_macro_hash = mah_extra_data,
     be_macro_hash_blake2s = mah_extra_data, be_proposal_hash = (\<lambda>p. mah_extra_data (tpr_proposal p)),
     be_micro_body_hash = (\<lambda>_. []), be_macro_body_hash = (\<lambda>_. []), be_micro_body_size = (\<lambda>_. 0),
     be_tx_hash = tx_recipient_data, be_locator_hash = (\<lambda>_. []), be_blake2s = id, be_serialize_skip_info = (\<lambda>_. []),
     be_schnorr_verify = (\<lambda>_ _ _. True), be_try_entropy = Some, be_seed_verify = (\<lambda>_ _ _ _. True),
     be_uncompress = Some, be_signature_point = (\<lambda>_. True), be_agg_verify = (\<lambda>_ _ _. True) \<rparr>"

lemma example_validators_wf: "wf_validators example_validators"
  by (simp add: wf_validators_def example_validators_def validated_iff validators_new_def example_band_def SLOTS_def)

section \<open>Properties\<close>



end
