(* ===== verification/Block.thy ===== *)
theory Block
  imports Equivocation
begin

text \<open>
  Blocks and their verification (\<^verbatim>\<open>primitives/block/src/block.rs\<close>, \<^verbatim>\<open>micro_block.rs\<close>, \<^verbatim>\<open>macro_block.rs\<close>,
  \<^verbatim>\<open>tendermint.rs\<close>, \<^verbatim>\<open>skip_block.rs\<close>): the checks on a block by itself, against its predecessor, its
  proposer and the validators of the epoch. A check returns \<open>None\<close> where the code panics.
\<close>

datatype block_error =
    NetworkMismatch | InvalidBlockType | UnsupportedVersion | InvalidBlockNumber | InvalidTimestamp
  | InvalidParentHash | InvalidParentElectionHash | InvalidInterlink | InvalidSeed | ExtraDataTooLarge
  | BodyHashMismatch | AccountsHashMismatch | DiffRootMismatch | InvalidHistoryRoot | SizeExceeded
  | MissingJustification | MissingBody | InvalidForkProof | DuplicateForkProof | ForkProofsNotOrdered
  | DuplicateTransaction | BE_InvalidTransaction transaction_error | ExpiredTransaction
  | TransactionExecutionMismatch | InvalidJustification | InvalidSkipBlockProof | InvalidValidators
  | InvalidPunishedSet | InvalidRewardTransactions | InvalidVersionUpgrade | InvalidSkipBlockBody
  | TransactionFeeOverflow

section \<open>Parts of a block\<close>

datatype block_type = Macro_Type | Micro_Type

definition block_type_of :: "policy \<Rightarrow> u32 \<Rightarrow> block_type" where
  "block_type_of p n = (if is_macro_block_at p n then Macro_Type else Micro_Type)"

fun block_ty :: "block \<Rightarrow> block_type" where
  "block_ty (Macro_Block b) = Macro_Type"
| "block_ty (Micro_Block b) = Micro_Type"

fun block_network :: "block \<Rightarrow> network_id" where
  "block_network (Macro_Block b) = mah_network (ma_header b)"
| "block_network (Micro_Block b) = mih_network (mi_header b)"

fun block_version :: "block \<Rightarrow> u16" where
  "block_version (Macro_Block b) = mah_version (ma_header b)"
| "block_version (Micro_Block b) = mih_version (mi_header b)"

fun block_number :: "block \<Rightarrow> u32" where
  "block_number (Macro_Block b) = mah_block_number (ma_header b)"
| "block_number (Micro_Block b) = mih_block_number (mi_header b)"

fun block_timestamp :: "block \<Rightarrow> u64" where
  "block_timestamp (Macro_Block b) = mah_timestamp (ma_header b)"
| "block_timestamp (Micro_Block b) = mih_timestamp (mi_header b)"

fun block_parent_hash :: "block \<Rightarrow> blake2b_hash" where
  "block_parent_hash (Macro_Block b) = mah_parent_hash (ma_header b)"
| "block_parent_hash (Micro_Block b) = mih_parent_hash (mi_header b)"

fun block_parent_election_hash :: "block \<Rightarrow> blake2b_hash option" where
  "block_parent_election_hash (Macro_Block b) = Some (mah_parent_election_hash (ma_header b))"
| "block_parent_election_hash (Micro_Block b) = None"

fun block_seed :: "block \<Rightarrow> vrf_seed" where
  "block_seed (Macro_Block b) = mah_seed (ma_header b)"
| "block_seed (Micro_Block b) = mih_seed (mi_header b)"

fun block_extra_data :: "block \<Rightarrow> u8 list" where
  "block_extra_data (Macro_Block b) = mah_extra_data (ma_header b)"
| "block_extra_data (Micro_Block b) = mih_extra_data (mi_header b)"

fun block_state_root :: "block \<Rightarrow> blake2b_hash" where
  "block_state_root (Macro_Block b) = mah_state_root (ma_header b)"
| "block_state_root (Micro_Block b) = mih_state_root (mi_header b)"

fun block_body_root :: "block \<Rightarrow> blake2s_hash" where
  "block_body_root (Macro_Block b) = mah_body_root (ma_header b)"
| "block_body_root (Micro_Block b) = mih_body_root (mi_header b)"

fun block_history_root :: "block \<Rightarrow> blake2b_hash" where
  "block_history_root (Macro_Block b) = mah_history_root (ma_header b)"
| "block_history_root (Micro_Block b) = mih_history_root (mi_header b)"

fun block_diff_root :: "block \<Rightarrow> blake2b_hash" where
  "block_diff_root (Macro_Block b) = mah_diff_root (ma_header b)"
| "block_diff_root (Micro_Block b) = mih_diff_root (mi_header b)"

fun block_hash :: "('k, 'z) blk_env_scheme \<Rightarrow> block \<Rightarrow> blake2b_hash" where
  "block_hash B (Macro_Block b) = macro_header_hash B (ma_header b)"
| "block_hash B (Micro_Block b) = micro_header_hash B (mi_header b)"

fun block_validators :: "block \<Rightarrow> validator_set option" where
  "block_validators (Macro_Block b) = mah_validators (ma_header b)"
| "block_validators (Micro_Block b) = None"

fun vrf_offset :: "block \<Rightarrow> u32" where
  "vrf_offset (Macro_Block b) = mah_round (ma_header b)"
| "vrf_offset (Micro_Block b) = mih_block_number (mi_header b)"

fun has_body :: "block \<Rightarrow> bool" where
  "has_body (Macro_Block b) \<longleftrightarrow> ma_body b \<noteq> None"
| "has_body (Micro_Block b) \<longleftrightarrow> mi_body b \<noteq> None"

fun get_raw_transaction :: "executed_transaction \<Rightarrow> transaction" where
  "get_raw_transaction (Executed_Ok tx) = tx"
| "get_raw_transaction (Executed_Err tx) = tx"

fun succeeded :: "executed_transaction \<Rightarrow> bool" where
  "succeeded (Executed_Ok tx) \<longleftrightarrow> True"
| "succeeded (Executed_Err tx) \<longleftrightarrow> False"

fun block_transactions :: "block \<Rightarrow> executed_transaction list option" where
  "block_transactions (Macro_Block b) = None"
| "block_transactions (Micro_Block b) = map_option mib_transactions (mi_body b)"

definition num_transactions :: "block \<Rightarrow> nat" where
  "num_transactions b = (case block_transactions b of None \<Rightarrow> 0 | Some txs \<Rightarrow> length txs)"

fun sum_fees :: "coin \<Rightarrow> executed_transaction list \<Rightarrow> block_error + coin" where
  "sum_fees acc [] = Inr acc"
| "sum_fees acc (tx # txs) = (case checked_add acc (tx_fee (get_raw_transaction tx)) of
     None \<Rightarrow> Inl TransactionFeeOverflow
   | Some acc' \<Rightarrow> sum_fees acc' txs)"

fun sum_transaction_fees :: "block \<Rightarrow> block_error + coin" where
  "sum_transaction_fees (Macro_Block b) = Inr 0"
| "sum_transaction_fees (Micro_Block b) = (case mi_body b of
     None \<Rightarrow> Inr 0
   | Some body \<Rightarrow> sum_fees 0 (mib_transactions body))"

definition is_skip_block :: "micro_block \<Rightarrow> bool" where
  "is_skip_block b = (case mi_justification b of Some (Skip_Proof _) \<Rightarrow> True | _ \<Rightarrow> False)"

fun block_is_skip :: "block \<Rightarrow> bool" where
  "block_is_skip (Macro_Block b) \<longleftrightarrow> False"
| "block_is_skip (Micro_Block b) \<longleftrightarrow> is_skip_block b"

definition macro_is_election :: "policy \<Rightarrow> macro_header \<Rightarrow> bool" where
  "macro_is_election p h = is_election_block_at p (mah_block_number h)"

fun block_is_election :: "policy \<Rightarrow> block \<Rightarrow> bool" where
  "block_is_election p (Macro_Block b) \<longleftrightarrow> macro_is_election p (ma_header b)"
| "block_is_election p (Micro_Block b) \<longleftrightarrow> False"

fun block_is_macro :: "block \<Rightarrow> bool" where
  "block_is_macro (Macro_Block b) \<longleftrightarrow> True"
| "block_is_macro (Micro_Block b) \<longleftrightarrow> False"

definition get_raw_transactions :: "micro_body \<Rightarrow> transaction list" where
  "get_raw_transactions body = map get_raw_transaction (mib_transactions body)"

definition skip_info_from_micro_block :: "('k, 'z) blk_env_scheme \<Rightarrow> micro_block \<Rightarrow> (block_error, skip_block_info option) res" where
  "skip_info_from_micro_block B b =
    (if is_skip_block b then
       bind_res (expect_res (seed_entropy B (mih_seed (mi_header b)))) (\<lambda>entropy.
       ok_res (Some \<lparr> sbi_network_id = mih_network (mi_header b), sbi_block_number = mih_block_number (mi_header b),
                      sbi_vrf_entropy = entropy \<rparr>))
     else ok_res None)"

section \<open>Interlinks\<close>

fun count_trailing_zeros :: "nat \<Rightarrow> nat \<Rightarrow> nat" where
  "count_trailing_zeros 0 n = 0"
| "count_trailing_zeros (Suc k) n = (if odd n then 0 else Suc (count_trailing_zeros k (n div 2)))"

definition trailing_zeros :: "u32 \<Rightarrow> nat" where
  "trailing_zeros w = count_trailing_zeros 32 (unat w)"

definition get_next_interlink :: "('k, 'z) blk_env_scheme \<Rightarrow> macro_header \<Rightarrow> (block_error, blake2b_hash list) res" where
  "get_next_interlink B h =
    (let p = be_policy B in
     seq_res (check_res (macro_is_election p h) InvalidBlockType) (
     bind_res (expect_res (mah_interlink h)) (\<lambda>interlink.
     let number_hashes_to_update =
           (if mah_block_number h = genesis_block_number p then 0
            else trailing_zeros ((mah_block_number h - genesis_block_number p) div blocks_per_epoch p));
         interlink' = (if number_hashes_to_update > length interlink then interlink @ [macro_header_hash B h] else interlink)
     in if length interlink' \<ge> number_hashes_to_update
        then ok_res (replicate number_hashes_to_update (macro_header_hash B h) @ drop number_hashes_to_update interlink')
        else None)))"

section \<open>Justifications\<close>

definition tendermint_proof_verify :: "('k, 'z) blk_env_scheme \<Rightarrow> macro_block \<Rightarrow> validator_set \<Rightarrow> bool option" where
  "tendermint_proof_verify B b current_validators = (case ma_justification b of
     None \<Rightarrow> Some False
   | Some justification \<Rightarrow> (case checked_signer_slots (ms_signers (tp_sig justification)) of
       None \<Rightarrow> Some False
     | Some signer_slots \<Rightarrow>
         if length signer_slots < unat TWO_F_PLUS_ONE then Some False
         else let message = \<lparr> tv_proposal_hash = Some (macro_header_hash_blake2s B (ma_header b)),
                              tv_id = \<lparr> ti_network = mah_network (ma_header b), ti_block_number = mah_block_number (ma_header b),
                                        ti_round_number = tp_round justification, ti_step = PreCommit \<rparr> \<rparr>
              in map_option (\<lambda>keys. case keys of
                   None \<Rightarrow> False
                 | Some agg_pk \<Rightarrow> be_agg_verify B agg_pk (vote_hash B message) (ms_signature (tp_sig justification)))
                 (slot_keys (be_uncompress B) current_validators signer_slots)))"

definition skip_block_proof_verify :: "('k, 'z) blk_env_scheme \<Rightarrow> skip_block_proof \<Rightarrow> skip_block_info \<Rightarrow> blake2b_hash \<Rightarrow> u16 \<Rightarrow>
  validator_set \<Rightarrow> bool option" where
  "skip_block_proof_verify B proof skip_block state_root protocol_version vs =
    (case checked_signer_slots (ms_signers (sbp_sig proof)) of
       None \<Rightarrow> Some False
     | Some signer_slots \<Rightarrow>
         if length signer_slots < unat TWO_F_PLUS_ONE then Some False
         else map_option (\<lambda>keys. case keys of
                None \<Rightarrow> False
              | Some agg_pk \<Rightarrow> be_agg_verify B agg_pk (signing_hash B skip_block state_root protocol_version) (ms_signature (sbp_sig proof)))
              (slot_keys (be_uncompress B) vs signer_slots))"

section \<open>Verification of a block by itself\<close>

definition macro_header_verify :: "('k, 'z) blk_env_scheme \<Rightarrow> macro_header \<Rightarrow> (block_error, unit) res" where
  "macro_header_verify B h =
    seq_res (check_res (macro_is_election (be_policy B) h = (mah_validators h \<noteq> None)) InvalidValidators) (
    seq_res (case mah_validators h of
       None \<Rightarrow> ok_res ()
     | Some vs \<Rightarrow> check_res (validate_structure vs = Inr ()) InvalidValidators) (
    check_res (\<not> list_ex (\<lambda>slot. slot \<ge> unat SLOTS) (bitset_iter (mah_next_batch_initial_punished_set h))) InvalidPunishedSet))"

definition macro_verify_voting_keys :: "('k, 'z) blk_env_scheme \<Rightarrow> macro_header \<Rightarrow> (block_error, unit) res" where
  "macro_verify_voting_keys B h = (case mah_validators h of
     None \<Rightarrow> ok_res ()
   | Some vs \<Rightarrow> check_res (validate_keys (be_uncompress B) vs = Inr ()) InvalidValidators)"

fun verify_proofs :: "('k, 'z) blk_env_scheme \<Rightarrow> u32 \<Rightarrow> u16 \<Rightarrow> equivocation_proof option \<Rightarrow> equivocation_proof list \<Rightarrow>
  (block_error, unit) res" where
  "verify_proofs B height version previous_proof [] = ok_res ()"
| "verify_proofs B height version previous_proof (proof # proofs) =
    bind_res (expect_res (equivocation_is_valid_at B proof height version)) (\<lambda>valid.
    seq_res (check_res valid InvalidForkProof) (
    seq_res (case previous_proof of
       None \<Rightarrow> ok_res ()
     | Some previous \<Rightarrow>
         seq_res (check_res (sort_key B previous \<noteq> sort_key B proof) DuplicateForkProof)
           (check_res (\<not> sort_key B previous > sort_key B proof) ForkProofsNotOrdered)) (
    verify_proofs B height version (Some proof) proofs)))"

fun verify_unique :: "('k, 'z) blk_env_scheme \<Rightarrow> u32 \<Rightarrow> blake2b_hash set \<Rightarrow> transaction list \<Rightarrow> (block_error, unit) res" where
  "verify_unique B height uniq [] = ok_res ()"
| "verify_unique B height uniq (tx # txs) =
    bind_res (expect_res (is_valid_at (be_policy B) tx height)) (\<lambda>valid.
    seq_res (check_res valid ExpiredTransaction) (
    seq_res (check_res (be_tx_hash B tx \<notin> uniq) DuplicateTransaction) (
    verify_unique B height (insert (be_tx_hash B tx) uniq) txs)))"

definition MAX_SIZE_MICRO_BODY :: nat where
  "MAX_SIZE_MICRO_BODY = 100000"

definition micro_body_verify :: "('k, 'z) blk_env_scheme \<Rightarrow> micro_body \<Rightarrow> bool \<Rightarrow> u32 \<Rightarrow> u16 \<Rightarrow> (block_error, unit) res" where
  "micro_body_verify B body is_skip height version =
    seq_res (check_res (\<not> be_micro_body_size B body > MAX_SIZE_MICRO_BODY) SizeExceeded) (
    seq_res (check_res (\<not> (is_skip \<and> (mib_equivocation_proofs body \<noteq> [] \<or> mib_transactions body \<noteq> []))) InvalidSkipBlockBody) (
    seq_res (verify_proofs B height version None (mib_equivocation_proofs body)) (
    verify_unique B height {} (get_raw_transactions body))))"

definition verify_header :: "('k, 'z) blk_env_scheme \<Rightarrow> network_id \<Rightarrow> bool \<Rightarrow> u64 \<Rightarrow> block \<Rightarrow> (block_error, unit) res" where
  "verify_header B network is_skip max_timestamp b =
    seq_res (check_res (block_network b = network) NetworkMismatch) (
    seq_res (check_res (\<not> block_timestamp b > max_timestamp) InvalidTimestamp) (
    seq_res (check_res (\<not> block_version b > max_supported_version (be_policy B)) UnsupportedVersion) (
    seq_res (check_res (\<not> length (block_extra_data b) > 32) ExtraDataTooLarge) (
    seq_res (check_res (\<not> (is_skip \<and> block_extra_data b \<noteq> [])) ExtraDataTooLarge) (
    case b of Macro_Block block \<Rightarrow> macro_header_verify B (ma_header block) | Micro_Block _ \<Rightarrow> ok_res ())))))"

fun verify_body :: "('k, 'z) blk_env_scheme \<Rightarrow> block \<Rightarrow> (block_error, unit) res" where
  "verify_body B (Macro_Block b) = (case ma_body b of
     None \<Rightarrow> ok_res ()
   | Some body \<Rightarrow> check_res (mah_body_root (ma_header b) = be_macro_body_hash B body) BodyHashMismatch)"
| "verify_body B (Micro_Block b) = (case mi_body b of
     None \<Rightarrow> ok_res ()
   | Some body \<Rightarrow>
       seq_res (check_res (mih_body_root (mi_header b) = be_micro_body_hash B body) BodyHashMismatch) (
       micro_body_verify B body (is_skip_block b) (mih_block_number (mi_header b)) (mih_version (mi_header b))))"

definition block_verify :: "('k, 'z) blk_env_scheme \<Rightarrow> network_id \<Rightarrow> u64 \<Rightarrow> block \<Rightarrow> (block_error, unit) res" where
  "block_verify B network max_timestamp b =
    seq_res (check_res (block_ty b = block_type_of (be_policy B) (block_number b)) InvalidBlockType) (
    seq_res (verify_header B network (block_is_skip b) max_timestamp b) (
    verify_body B b))"

section \<open>Verification against predecessors\<close>

definition MIN_PRODUCER_TIMEOUT :: u64 where
  "MIN_PRODUCER_TIMEOUT = 4 * 1000"

definition verify_immediate_successor :: "('k, 'z) blk_env_scheme \<Rightarrow> block \<Rightarrow> block \<Rightarrow> (block_error, unit) res" where
  "verify_immediate_successor B b predecessor =
    seq_res (check_res (block_number b = block_number predecessor + 1) InvalidBlockNumber) (
    seq_res (check_res (block_parent_hash b = block_hash B predecessor) InvalidParentHash) (
    seq_res (check_res (\<not> (block_version b \<noteq> block_version predecessor \<and>
       (\<not> block_is_election (be_policy B) b \<or> block_version b \<noteq> block_version predecessor + 1))) UnsupportedVersion) (
    if block_is_skip b then
      seq_res (check_res (block_timestamp b = block_timestamp predecessor + MIN_PRODUCER_TIMEOUT) InvalidTimestamp) (
      check_res (block_seed b = block_seed predecessor) InvalidSeed)
    else check_res (\<not> block_timestamp b < block_timestamp predecessor) InvalidTimestamp)))"

definition verify_macro_successor :: "('k, 'z) blk_env_scheme \<Rightarrow> block \<Rightarrow> macro_header \<Rightarrow> (block_error, unit) res" where
  "verify_macro_successor B b predecessor =
    (let p = be_policy B;
         expected_parent_election_hash =
           (if macro_is_election p predecessor then macro_header_hash B predecessor else mah_parent_election_hash predecessor);
         next_election_block = election_block_after p (mah_block_number predecessor) in
     seq_res (check_res (block_is_macro b) InvalidBlockType) (
     bind_res (expect_res (block_parent_election_hash b)) (\<lambda>parent_election_hash.
     seq_res (check_res (parent_election_hash = expected_parent_election_hash) InvalidParentElectionHash) (
     seq_res (check_res (\<not> (block_number b \<le> mah_block_number predecessor \<or> block_number b > next_election_block)) InvalidBlockNumber) (
     seq_res (check_res (\<not> (block_version b \<noteq> mah_version predecessor \<and>
        (\<not> block_is_election p b \<or> block_version b \<noteq> mah_version predecessor + 1))) UnsupportedVersion) (
     check_res (\<not> block_timestamp b < mah_timestamp predecessor) InvalidTimestamp))))))"

section \<open>Verification of producers\<close>

definition micro_verify_proposer :: "('k, 'z) blk_env_scheme \<Rightarrow> micro_block \<Rightarrow> schnorr_public_key \<Rightarrow> (block_error, unit) res" where
  "micro_verify_proposer B b signing_key =
    bind_res (some_or_res MissingJustification (mi_justification b)) (\<lambda>justification.
    case justification of
      Micro_Signature signature \<Rightarrow>
        check_res (be_schnorr_verify B signing_key signature (micro_header_hash B (mi_header b))) InvalidJustification
    | Skip_Proof _ \<Rightarrow> ok_res ())"

definition micro_verify_validators :: "('k, 'z) blk_env_scheme \<Rightarrow> micro_block \<Rightarrow> validator_set \<Rightarrow> (block_error, unit) res" where
  "micro_verify_validators B b vs =
    bind_res (some_or_res MissingJustification (mi_justification b)) (\<lambda>justification.
    case justification of
      Skip_Proof proof \<Rightarrow>
        bind_res (expect_res (seed_entropy B (mih_seed (mi_header b)))) (\<lambda>entropy.
        let skip_block = \<lparr> sbi_network_id = mih_network (mi_header b), sbi_block_number = mih_block_number (mi_header b),
                           sbi_vrf_entropy = entropy \<rparr> in
        bind_res (expect_res (skip_block_proof_verify B proof skip_block (mih_state_root (mi_header b)) (mih_version (mi_header b)) vs)) (\<lambda>valid.
        check_res valid InvalidSkipBlockProof))
    | Micro_Signature _ \<Rightarrow> ok_res ())"

definition macro_verify_validators :: "('k, 'z) blk_env_scheme \<Rightarrow> macro_block \<Rightarrow> validator_set \<Rightarrow> (block_error, unit) res" where
  "macro_verify_validators B b vs =
    bind_res (expect_res (tendermint_proof_verify B b vs)) (\<lambda>valid.
    seq_res (check_res valid InvalidJustification) (
    macro_verify_voting_keys B (ma_header b)))"

definition block_verify_proposer :: "('k, 'z) blk_env_scheme \<Rightarrow> block \<Rightarrow> schnorr_public_key \<Rightarrow> vrf_seed \<Rightarrow> (block_error, unit) res" where
  "block_verify_proposer B b signing_key prev_seed =
    seq_res (if \<not> block_is_skip b then check_res (be_seed_verify B (block_seed b) prev_seed signing_key (block_number b)) InvalidSeed
             else check_res (block_seed b = prev_seed) InvalidSeed) (
    case b of Micro_Block block \<Rightarrow> micro_verify_proposer B block signing_key | Macro_Block _ \<Rightarrow> ok_res ())"

fun block_verify_validators :: "('k, 'z) blk_env_scheme \<Rightarrow> block \<Rightarrow> validator_set \<Rightarrow> (block_error, unit) res" where
  "block_verify_validators B (Micro_Block b) vs = micro_verify_validators B b vs"
| "block_verify_validators B (Macro_Block b) vs = macro_verify_validators B b vs"

fun block_verify_voting_keys :: "('k, 'z) blk_env_scheme \<Rightarrow> block \<Rightarrow> (block_error, unit) res" where
  "block_verify_voting_keys B (Micro_Block b) = ok_res ()"
| "block_verify_voting_keys B (Macro_Block b) = macro_verify_voting_keys B (ma_header b)"

end
