(* ===== verification/Election.thy ===== *)
theory Election
  imports Slots StakingProperties "HOL-Library.Multiset"
begin

text \<open>
  The election of validators from their active stake (\<open>select_validators\<close> and the support of a version
  upgrade in \<^verbatim>\<open>staking_contract/mod.rs\<close>) and the choice of the slot that produces a block
  (\<open>compute_slot_number\<close> in \<^verbatim>\<open>blockchain-interface/src/abstract_blockchain.rs\<close>).
\<close>

section \<open>Election\<close>

text \<open>The generator of a seed. The entropy of an invalid seed panics, as does the reserved use case.\<close>

definition seed_rng :: "('seed \<Rightarrow> u8 list option) \<Rightarrow> 'seed \<Rightarrow> vrf_use_case \<Rightarrow> vrf_rng option" where
  "seed_rng try_entropy seed use_case =
    (if use_case = Seed then None
     else case try_entropy seed of None \<Rightarrow> None | Some entropy \<Rightarrow> Some (vrf_rng_new entropy use_case))"

fun select_slots ::
  "('g \<Rightarrow> u64 \<times> 'g) \<Rightarrow> discrete_distribution \<Rightarrow> address list \<Rightarrow> staking_state \<Rightarrow> nat \<Rightarrow> validators_builder \<Rightarrow>
   ('g, validators_builder) rnd" where
  "select_slots next_u64 d validator_addresses s 0 slots_builder = ret_rnd slots_builder"
| "select_slots next_u64 d validator_addresses s (Suc k) slots_builder =
    bind_rnd (dd_sample next_u64 d) (\<lambda>index.
    if index < length validator_addresses then
      case fmlookup (validators s) (validator_addresses ! index) of
        None \<Rightarrow> panic_rnd
      | Some v \<Rightarrow> select_slots next_u64 d validator_addresses s k
          (builder_push (v_address v) (v_voting_key v) (v_signing_key v) slots_builder)
    else panic_rnd)"

definition elect :: "('g \<Rightarrow> u64 \<times> 'g) \<Rightarrow> staking_state \<Rightarrow> ('g, validator_set) rnd" where
  "elect next_u64 s =
    (let validator_addresses = sorted_list_of_fset (fmdom (active_validators s));
         validator_stakes = map (\<lambda>a. of_nat (the (fmlookup (active_validators s) a))) validator_addresses
     in if validator_stakes = [] then panic_rnd
        else case dd_new validator_stakes of
          None \<Rightarrow> panic_rnd
        | Some lookup \<Rightarrow>
            bind_rnd (select_slots next_u64 lookup validator_addresses s (unat SLOTS) fmempty) (\<lambda>slots_builder.
            ret_rnd (builder_build slots_builder)))"

text \<open>The election: \<open>None\<close> if it does not return, with the hash function of the generator as a parameter.\<close>

definition select_validators ::
  "(u8 list \<Rightarrow> u8 list) \<Rightarrow> ('seed \<Rightarrow> u8 list option) \<Rightarrow> staking_state \<Rightarrow> 'seed \<Rightarrow> (error + validator_set) option" where
  "select_validators blake2b try_entropy s seed = (case seed_rng try_entropy seed ValidatorSlotSelection of
     None \<Rightarrow> Some (Inl Panic)
   | Some rng \<Rightarrow> map_option fst (elect (vrf_next_u64 blake2b) s rng))"

section \<open>Support of an upgrade\<close>

definition get_supporting_slots :: "(blake2b_hash option \<Rightarrow> bool) \<Rightarrow> validator_set \<Rightarrow> staking_state \<Rightarrow> u16" where
  "get_supporting_slots support_check vs s =
    sum_list (map (\<lambda>v. case fmlookup (validators s) (sv_address v) of
       None \<Rightarrow> 0
     | Some validator \<Rightarrow> if support_check (v_signal_data validator) then num_slots v else 0) (vs_validators vs))"

definition supports_version_upgrade :: "validator_set \<Rightarrow> u16 \<Rightarrow> staking_state \<Rightarrow> bool option" where
  "supports_version_upgrade vs new_version s =
    (let support_check = (\<lambda>data. supports_upgrade data new_version) in
     if unat (get_supporting_slots support_check vs s) * 100 < unat SLOTS * UPGRADE_MIN_SUPPORT then Some False
     else case get_supporting_stake support_check s of
       None \<Rightarrow> None
     | Some supporting_stake \<Rightarrow> (case get_active_stake s of
         None \<Rightarrow> None
       | Some total_active_stake \<Rightarrow> Some (supporting_stake * 100 \<ge> total_active_stake * UPGRADE_MIN_SUPPORT)))"

section \<open>The slot of a block\<close>

definition all_slots :: "u16 list" where
  "all_slots = map of_nat [0..<unat SLOTS]"

definition viable_slots :: "bitset \<Rightarrow> u16 list" where
  "viable_slots disabled_slots =
    (let slots = (if bitset_len disabled_slots = unat SLOTS then all_slots
                  else filter (\<lambda>slot. \<not> contains disabled_slots (unat slot)) all_slots)
     in if slots = [] then all_slots else slots)"

fun shuffle :: "('g \<Rightarrow> u64 \<times> 'g) \<Rightarrow> nat \<Rightarrow> u16 list \<Rightarrow> ('g, u16 list) rnd" where
  "shuffle next_u64 0 slots = ret_rnd slots"
| "shuffle next_u64 (Suc i) slots =
    bind_rnd (next_u64_below next_u64 (of_nat (Suc i + 1))) (\<lambda>r.
    shuffle next_u64 i (slots[unat r := slots ! Suc i, Suc i := slots ! unat r]))"

definition compute_slot_number :: "(u8 list \<Rightarrow> u8 list) \<Rightarrow> u32 \<Rightarrow> u8 list \<Rightarrow> bitset \<Rightarrow> (error + u16) option" where
  "compute_slot_number blake2b offset vrf_entropy disabled_slots =
    (let rng = vrf_rng_new vrf_entropy ViewSlotSelection; slots = viable_slots disabled_slots in
     map_option fst (bind_rnd (shuffle (vrf_next_u64 blake2b) (length slots - 1) slots) (\<lambda>slots.
     ret_rnd (slots ! (unat offset mod length slots))) rng))"

section \<open>The elected set is well-formed\<close>

lemma dd_sample_Some:
  assumes d: "dd_sample next_u64 d g = Some (r, g')" and n: "dd_n d < 2 ^ 64" "0 < dd_n d" "dd_T d \<noteq> 0"
    and K: "\<And>x. x < dd_n d \<Longrightarrow> dd_K d ! x < dd_n d"
  shows "\<exists>i. r = Inr i \<and> i < dd_n d"
proof -
  have u: "unat (of_nat (dd_n d) :: u64) = dd_n d" using n(1) by (simp add: unat_of_nat)
  then have z: "(of_nat (dd_n d) :: u64) \<noteq> 0" using n(2) by (metis less_numeral_extra(3) unat_0)
  from d obtain x y g1 where x: "next_u64_below next_u64 (of_nat (dd_n d)) g = Some (Inr x, g1)" "r = Inr (dd_pick d (unat x) y)"
    unfolding dd_sample_def
    by (auto simp: bind_rnd_Some ret_rnd_def dest: next_u64_below_Some [OF _ z] next_u64_below_Some [OF _ n(3)])
  have "unat x < dd_n d" using next_u64_below_Some [OF x(1) z] u by (simp add: word_less_nat_alt)
  then show ?thesis using x(2) K by (simp add: dd_pick_def)
qed

text \<open>The entries of the builder carry the registered keys of the chosen validators.\<close>

definition elected_from :: "address list \<Rightarrow> staking_state \<Rightarrow> validators_builder \<Rightarrow> bool" where
  "elected_from as s b \<longleftrightarrow> (\<forall>a vk sk n. fmlookup b a = Some (vk, sk, n) \<longrightarrow>
     a \<in> set as \<and> (\<exists>v. fmlookup (validators s) a = Some v \<and> vk = v_voting_key v \<and> sk = v_signing_key v))"

lemma elected_push:
  assumes "elected_from as s b" "a \<in> set as" "fmlookup (validators s) a = Some v"
  shows "elected_from as s (builder_push a (v_voting_key v) (v_signing_key v) b)"
proof (cases "fmlookup b a")
  case None
  then show ?thesis using assms by (auto simp: elected_from_def builder_push_def split: if_splits)
next
  case (Some x)
  obtain vk sk n where x: "x = (vk, sk, n)" by (cases x)
  have "\<exists>w. fmlookup (validators s) a = Some w \<and> vk = v_voting_key w \<and> sk = v_signing_key w"
    using assms(1) Some x unfolding elected_from_def by blast
  then have "vk = v_voting_key v" "sk = v_signing_key v" using assms(3) by auto
  then show ?thesis using assms Some x by (auto simp: elected_from_def builder_push_def split: if_splits)
qed

lemma select_slots_spec:
  assumes "select_slots next_u64 d as s k b g = Some (r, g')"
    and d: "dd_n d = length as" "length as < 2 ^ 64" "as \<noteq> []" "dd_T d \<noteq> 0" "\<And>x. x < dd_n d \<Longrightarrow> dd_K d ! x < dd_n d"
    and v: "\<And>a. a \<in> set as \<Longrightarrow> \<exists>v. fmlookup (validators s) a = Some v \<and> v_address v = a"
    and b: "builder_inv j b" "elected_from as s b" "j + k < 2 ^ 16"
  shows "\<exists>b'. r = Inr b' \<and> builder_inv (j + k) b' \<and> elected_from as s b'"
  using assms(1) b
proof (induction k arbitrary: b g j)
  case 0
  then show ?case by (auto simp: ret_rnd_def)
next
  case (Suc k)
  have n: "dd_n d < 2 ^ 64" "0 < dd_n d" using d(1,2,3) by simp_all
  note smp = dd_sample_Some [OF _ n d(4,5)]
  from Suc.prems(1) obtain q g1 where q: "dd_sample next_u64 d g = Some (q, g1)" by (auto simp: bind_rnd_Some)
  then obtain i where i: "q = Inr i" "i < length as" using smp d(1) by fastforce
  have rest: "(case fmlookup (validators s) (as ! i) of None \<Rightarrow> panic_rnd
        | Some v \<Rightarrow> select_slots next_u64 d as s k (builder_push (v_address v) (v_voting_key v) (v_signing_key v) b)) g1 = Some (r, g')"
    using Suc.prems(1) q i by (simp add: bind_rnd_def)
  obtain v where v': "fmlookup (validators s) (as ! i) = Some v" "v_address v = as ! i" using v [of "as ! i"] i(2) by auto
  let ?b = "builder_push (v_address v) (v_voting_key v) (v_signing_key v) b"
  have "builder_inv (Suc j) ?b" using builder_push_inv(1) [OF Suc.prems(2)] Suc.prems(4) by simp
  moreover have "elected_from as s ?b" using elected_push [OF Suc.prems(3), of "as ! i" v] v' i(2) by simp
  ultimately show ?case using Suc.IH [of ?b g1 "Suc j"] rest v' Suc.prems(4) by simp
qed

lemma elect_spec:
  assumes inv: "sc_inv s"
    and fits: "fcard (fmdom (active_validators s)) * backing is_active s < 2 ^ 64" "0 < backing is_active s"
    and r: "elect next_u64 s g = Some (r, g')"
  shows "\<exists>b. r = Inr (builder_build b) \<and> builder_inv (unat SLOTS) b \<and>
    elected_from (sorted_list_of_fset (fmdom (active_validators s))) s b"
proof -
  let ?as = "sorted_list_of_fset (fmdom (active_validators s))"
  let ?p = "map (\<lambda>a. of_nat (the (fmlookup (active_validators s) a))) ?as :: u64 list"
  have sum: "(\<Sum>a\<leftarrow>?as. the (fmlookup (active_validators s) a)) = backing is_active s"
    using sum_active [OF inv, of "\<lambda>_. True"] by simp
  have "backing is_active s \<le> MAX_SAFE_VALUE" using backing_bound [OF inv, of is_active] inv by (simp add: sc_inv_def)
  then have small: "the (fmlookup (active_validators s) a) < 2 ^ 64" if "a \<in> set ?as" for a
    using member_le_sum_list [of "the (fmlookup (active_validators s) a)" "map (\<lambda>a. the (fmlookup (active_validators s) a)) ?as"] that sum
    by (simp add: MAX_SAFE_VALUE_def)
  have "(\<Sum>x\<leftarrow>?p. unat x) = (\<Sum>a\<leftarrow>?as. the (fmlookup (active_validators s) a))"
    using small by (intro arg_cong [where f = sum_list]) (simp add: unat_of_nat)
  then have p: "length ?p * (\<Sum>x\<leftarrow>?p. unat x) < 2 ^ 64" "0 < (\<Sum>x\<leftarrow>?p. unat x)"
    using fits sum by (simp_all add: sorted_list_of_fset.rep_eq fcard.rep_eq)
  obtain d where d: "dd_new ?p = Some d" "dd_n d = length ?p" "unat (dd_T d) = (\<Sum>x\<leftarrow>?p. unat x)"
    "\<forall>x<length ?p. dd_K d ! x < length ?p" using dd_new_exact [OF p] by blast
  have v: "\<exists>v. fmlookup (validators s) a = Some v \<and> v_address v = a" if "a \<in> set ?as" for a
  proof -
    have "a \<in> fset (fmdom (active_validators s))" using that by (simp add: sorted_list_of_fset.rep_eq)
    then obtain v where "fmlookup (validators s) a = Some v" using active_domain [OF inv] by blast
    then show ?thesis using target_okD(1) [OF sc_invD(1) [OF inv]] by blast
  qed
  have as: "?as \<noteq> []" using p(2) by auto
  have T: "dd_T d \<noteq> 0" using d(3) p(2) by (metis less_not_refl unat_0)
  have n: "length ?as < 2 ^ 64"
  proof -
    have "length ?p * 1 \<le> length ?p * (\<Sum>x\<leftarrow>?p. unat x)" using p(2) by (intro mult_le_mono2) (metis Suc_leI One_nat_def)
    from le_less_trans [OF this p(1)] show ?thesis by simp
  qed
  have r': "bind_rnd (select_slots next_u64 d ?as s (unat SLOTS) fmempty) (\<lambda>b. ret_rnd (builder_build b)) g = Some (r, g')"
    using r d(1) as by (simp add: elect_def Let_def)
  then obtain q g1 where q: "select_slots next_u64 d ?as s (unat SLOTS) fmempty g = Some (q, g1)" by (auto simp: bind_rnd_Some)
  have "\<exists>b'. q = Inr b' \<and> builder_inv (0 + unat SLOTS) b' \<and> elected_from ?as s b'"
    by (rule select_slots_spec [OF q _ n as T _ v])
      (use d in \<open>auto simp: builder_inv_def elected_from_def SLOTS_def\<close>)
  then show ?thesis using r' q by (auto simp: bind_rnd_def ret_rnd_def)
qed

section \<open>The slot of a block is viable\<close>

lemma shuffle_Some:
  assumes "shuffle next_u64 i xs g = Some (r, g')" "i < length xs \<or> i = 0" "length xs < 2 ^ 64 - 1"
  shows "\<exists>ys. r = Inr ys \<and> mset ys = mset xs"
  using assms
proof (induction i arbitrary: xs g)
  case 0
  then show ?case by (auto simp: ret_rnd_def)
next
  case (Suc i)
  have u: "unat (of_nat (Suc i + 1) :: u64) = Suc i + 1" using Suc.prems(2,3) by (simp add: unat_of_nat del: of_nat_Suc of_nat_add)
  then have z: "(of_nat (Suc i + 1) :: u64) \<noteq> 0" by (metis add_is_0 nat.distinct(1) unat_0)
  from Suc.prems(1) obtain q g1 where q: "next_u64_below next_u64 (of_nat (Suc i + 1)) g = Some (q, g1)"
    by (auto simp: bind_rnd_Some simp del: of_nat_Suc of_nat_add)
  obtain x where x: "q = Inr x" "unat x \<le> Suc i"
    using next_u64_below_Some [OF q z] u by (auto simp: word_less_nat_alt)
  let ?ys = "xs[unat x := xs ! Suc i, Suc i := xs ! unat x]"
  have "shuffle next_u64 i ?ys g1 = Some (r, g')" using Suc.prems(1) q x by (simp add: bind_rnd_def del: of_nat_Suc of_nat_add)
  then obtain ys where "r = Inr ys" "mset ys = mset ?ys" using Suc.IH [of ?ys g1] Suc.prems(2,3) by auto
  moreover have "mset ?ys = mset xs" using Suc.prems(2) x(2) by (intro mset_swap) auto
  ultimately show ?case by simp
qed

lemma all_slots: "distinct all_slots" "set all_slots = {slot. slot < SLOTS}" "all_slots \<noteq> []" "length all_slots = 512"
proof -
  have inj: "inj_on (of_nat :: nat \<Rightarrow> u16) {0..<512}"
    by (rule inj_on_inverseI [where g = unat]) (simp add: unat_of_nat)
  show "distinct all_slots" using inj by (simp add: all_slots_def distinct_map SLOTS_def)
  show "set all_slots = {slot. slot < SLOTS}"
  proof (intro set_eqI iffI)
    fix x
    assume "x \<in> {slot. slot < SLOTS}"
    then have "x = of_nat (unat x)" "unat x < unat SLOTS" by (simp_all add: word_less_nat_alt)
    then show "x \<in> set all_slots" unfolding all_slots_def by (metis atLeast0LessThan imageI lessThan_iff list.set_map set_upt)
  next
    fix x
    assume "x \<in> set all_slots"
    then show "x \<in> {slot. slot < SLOTS}" by (auto simp: all_slots_def SLOTS_def word_less_nat_alt unat_of_nat)
  qed
  show "all_slots \<noteq> []" "length all_slots = 512" by (simp_all add: all_slots_def SLOTS_def)
qed

lemma viable_slots:
  shows "distinct (viable_slots D)" "viable_slots D \<noteq> []" "set (viable_slots D) \<subseteq> {slot. slot < SLOTS}" "length (viable_slots D) \<le> 512"
    "wf_bitset D \<Longrightarrow> elems D \<subset> {..<512} \<Longrightarrow> set (viable_slots D) = {slot. slot < SLOTS \<and> unat slot \<notin> elems D}"
proof -
  show "distinct (viable_slots D)" "viable_slots D \<noteq> []" "set (viable_slots D) \<subseteq> {slot. slot < SLOTS}"
    using all_slots by (auto simp: viable_slots_def Let_def)
  show "length (viable_slots D) \<le> 512"
    using all_slots(4) length_filter_le [of "\<lambda>slot. \<not> contains D (unat slot)" all_slots] by (simp add: viable_slots_def Let_def)
  assume D: "wf_bitset D" "elems D \<subset> {..<512}"
  then have "card (elems D) < 512" using psubset_card_mono [OF _ D(2)] by simp
  then have l: "bitset_len D \<noteq> unat SLOTS" using D(1) by (simp add: bitset_len_def wf_bitset_card SLOTS_def)
  obtain k where k: "k < 512" "k \<notin> elems D" using D(2) by auto
  have "(of_nat k :: u16) \<in> set (filter (\<lambda>slot. \<not> contains D (unat slot)) all_slots)"
    using k all_slots(2) by (simp add: contains_iff SLOTS_def word_less_nat_alt unat_of_nat)
  then have "filter (\<lambda>slot. \<not> contains D (unat slot)) all_slots \<noteq> []" by (metis empty_iff list.set(1))
  then show "set (viable_slots D) = {slot. slot < SLOTS \<and> unat slot \<notin> elems D}"
    using l all_slots(2) by (auto simp: viable_slots_def Let_def contains_iff)
qed

lemma select_slots_returns [returns]: "productive next_u64 \<Longrightarrow> select_slots next_u64 d as s k b g \<noteq> None"
proof (induction k arbitrary: b g)
  case (Suc k)
  have "(if index < length as then case fmlookup (validators s) (as ! index) of None \<Rightarrow> panic_rnd
      | Some v \<Rightarrow> select_slots next_u64 d as s k (builder_push (v_address v) (v_voting_key v) (v_signing_key v) b)
    else panic_rnd) g' \<noteq> None" for index g'
    using Suc.IH [OF Suc.prems]
    by (cases "fmlookup (validators s) (as ! index)") (simp_all add: panic_returns del: not_None_eq)
  then show ?case unfolding select_slots.simps by (intro bind_returns dd_sample_returns [OF Suc.prems])
qed (simp only: select_slots.simps ret_returns not_False_eq_True)

lemma elect_returns [returns]: "productive next_u64 \<Longrightarrow> elect next_u64 s g \<noteq> None"
  unfolding elect_def Let_def
  by (cases "dd_new (map (\<lambda>a. of_nat (the (fmlookup (active_validators s) a))) (sorted_list_of_fset (fmdom (active_validators s))))")
    (simp_all add: returns del: not_None_eq)

lemma shuffle_returns [returns]: "productive next_u64 \<Longrightarrow> shuffle next_u64 i xs g \<noteq> None"
  by (induction i arbitrary: xs g) (simp_all add: returns del: not_None_eq)

text \<open>A hash function of zeros gives a productive generator.\<close>

lemma be_nat_zeros: "be_nat (replicate n 0) = 0"
  by (induction n) simp_all

lemma zero_hash_productive: "productive (vrf_next_u64 (\<lambda>_. replicate 32 0))"
  by (rule zeros_productive) (simp add: vrf_next_u64_def next_hash_def be_nat_zeros)

lemma elect_valid:
  assumes "sc_inv s" "get_active_stake s = Some stake" "0 < stake" "fcard (fmdom (active_validators s)) * stake < 2 ^ 64"
    "elect next_u64 s g = Some (r, g')"
  shows "\<exists>vs. r = Inr vs \<and> validate_structure vs = Inr () \<and>
    (\<forall>v\<in>set (vs_validators vs). \<exists>w. fmlookup (validators s) (sv_address v) = Some w \<and> is_active w \<and>
       sv_voting_key v = v_voting_key w \<and> sv_signing_key v = v_signing_key w)"
proof -
  let ?as = "sorted_list_of_fset (fmdom (active_validators s))"
  have st: "stake = backing is_active s" using active_stake_eq(1) [OF assms(1)] assms(2) by simp
  obtain b where b: "r = Inr (builder_build b)" "builder_inv (unat SLOTS) b" "elected_from ?as s b"
    using elect_spec [OF assms(1) _ _ assms(5)] assms(3,4) by (auto simp: st)
  have "\<exists>w. fmlookup (validators s) (sv_address v) = Some w \<and> is_active w \<and> sv_voting_key v = v_voting_key w \<and> sv_signing_key v = v_signing_key w"
    if v: "v \<in> set (vs_validators (builder_build b))" for v
  proof -
    obtain n where "fmlookup b (sv_address v) = Some (sv_voting_key v, sv_signing_key v, n)"
      using builder_build_member [OF v] by blast
    then obtain w where w: "sv_address v \<in> set ?as" "fmlookup (validators s) (sv_address v) = Some w"
      "sv_voting_key v = v_voting_key w" "sv_signing_key v = v_signing_key w"
      using b(3) unfolding elected_from_def by blast
    have "sv_address v |\<in>| fmdom (active_validators s)" using w(1) by (simp add: sorted_list_of_fset.rep_eq)
    then show ?thesis using active_domain [OF assms(1)] w(2-4) by auto
  qed
  then show ?thesis using b(1) builder_build_valid(1) [OF b(2)] by blast
qed

section \<open>Properties\<close>



text \<open>
  C17. The slot that produces a block is found whatever slots are disabled, if the generator is productive.
  For a fixed entropy, consecutive offsets go through a permutation of the viable slots, so that each of
  them gets its turn; the viable slots are the ones that are not disabled, as long as one is left.
\<close>

theorem block_slots_rotate:
  assumes "productive (vrf_next_u64 blake2b)"
  shows "\<exists>ys. distinct ys \<and> ys \<noteq> [] \<and> set ys \<subseteq> {slot. slot < SLOTS} \<and>
    (wf_bitset D \<and> elems D \<subset> {..<512} \<longrightarrow> set ys = {slot. slot < SLOTS \<and> unat slot \<notin> elems D}) \<and>
    (\<forall>offset. compute_slot_number blake2b offset vrf_entropy D = Some (Inr (ys ! (unat offset mod length ys))))"
proof -
  let ?v = "viable_slots D" and ?g = "vrf_rng_new vrf_entropy ViewSlotSelection"
  note v = viable_slots [of D]
  obtain q g1 where q: "shuffle (vrf_next_u64 blake2b) (length ?v - 1) ?v ?g = Some (q, g1)"
    using shuffle_returns [OF assms] by fastforce
  obtain ys where ys: "q = Inr ys" "mset ys = mset ?v"
    using shuffle_Some [OF q] v(2,4) by (cases ?v) auto
  have "compute_slot_number blake2b k vrf_entropy D = Some (Inr (ys ! (unat k mod length ys)))" for k
    using q ys by (simp add: compute_slot_number_def Let_def bind_rnd_def ret_rnd_def)
  moreover have "set ys = set ?v" "distinct ys" "ys \<noteq> []"
    using ys(2) v(1,2) mset_eq_setD mset_eq_imp_distinct_iff by auto blast+
  ultimately show ?thesis using v(3,5) by (intro exI [of _ ys]) auto
qed

theorem block_slots_rotate_witness:
  "\<exists>r. compute_slot_number (\<lambda>_. replicate 32 0) 7 [] (bitset_from_iter [3, 70]) = Some (Inr r) \<and> r \<noteq> 3"
proof -
  let ?D = "bitset_from_iter [3, 70]"
  have D: "wf_bitset ?D" "elems ?D = {3, 70}" using bitset_from_iter_eq [of "[3, 70]"] by (auto simp: canonical_def)
  from block_slots_rotate [OF zero_hash_productive, of ?D "[]"] obtain ys where ys: "ys \<noteq> []"
    "wf_bitset ?D \<and> elems ?D \<subset> {..<512} \<longrightarrow> set ys = {slot. slot < SLOTS \<and> unat slot \<notin> elems ?D}"
    "\<forall>k. compute_slot_number (\<lambda>_. replicate 32 0) k [] ?D = Some (Inr (ys ! (unat k mod length ys)))"
    by (elim exE conjE) (rule that)
  have "(0 :: nat) \<in> {..<512}" "0 \<notin> elems ?D" "elems ?D \<subseteq> {..<512}" by (simp_all add: D(2))
  then have "elems ?D \<subset> {..<512}" by blast
  then have "(3 :: u16) \<notin> set ys" using ys(2) D by simp
  moreover have "ys ! (unat (7 :: u32) mod length ys) \<in> set ys" using ys(1) by simp
  ultimately show ?thesis using ys(3) by metis
qed



end
