(* ===== verification/BlockProperties.thy ===== *)
theory BlockProperties
  imports Block Election
begin

text \<open>
  Properties of blocks: their checks do not panic, what a verified body guarantees, how verified blocks
  follow each other, the interlinks of election blocks, and that two conflicting final blocks of a round
  convict a third of the slots.
\<close>

section \<open>Checks do not panic\<close>

definition windowed :: "policy \<Rightarrow> bool" where
  "windowed p \<longleftrightarrow> transaction_validity_window_blocks p \<noteq> None"

lemma tx_window_no_panic [no_panic]: "windowed p \<Longrightarrow> expect_res (is_valid_at p tx n) \<noteq> None"
  by (simp add: windowed_def expect_res_def is_valid_at_def)

lemma proof_window_no_panic [no_panic]: "windowed (be_policy B) \<Longrightarrow> expect_res (equivocation_is_valid_at B p n v) \<noteq> None"
  by (simp add: windowed_def expect_res_def equivocation_is_valid_at_def last_block_of_equivocation_reporting_window_def Let_def)

lemma verify_proofs_no_panic [no_panic]: "windowed (be_policy B) \<Longrightarrow> verify_proofs B n v previous ps \<noteq> None"
proof (induction ps arbitrary: previous)
  case (Cons p ps)
  have "(case previous of None \<Rightarrow> ok_res () | Some q \<Rightarrow> seq_res (check_res (sort_key B q \<noteq> sort_key B p) DuplicateForkProof)
           (check_res (\<not> sort_key B q > sort_key B p) ForkProofsNotOrdered)) \<noteq> None"
    by (cases previous) (simp_all add: no_panic del: not_None_eq)
  then show ?case unfolding verify_proofs.simps using Cons by (intro no_panic) simp_all
qed (simp add: no_panic del: not_None_eq)

lemma verify_unique_no_panic [no_panic]: "windowed (be_policy B) \<Longrightarrow> verify_unique B n uniq txs \<noteq> None"
  by (induction txs arbitrary: uniq) (simp_all add: no_panic del: not_None_eq)

lemma micro_body_no_panic [no_panic]: "windowed (be_policy B) \<Longrightarrow> micro_body_verify B body skip n v \<noteq> None"
  unfolding micro_body_verify_def by (intro no_panic)

lemma macro_header_no_panic [no_panic]: "macro_header_verify B h \<noteq> None"
proof -
  have "(case mah_validators h of None \<Rightarrow> ok_res ()
     | Some vs \<Rightarrow> check_res (validate_structure vs = Inr ()) InvalidValidators) \<noteq> None"
    by (cases "mah_validators h") (simp_all add: no_panic del: not_None_eq)
  then show ?thesis unfolding macro_header_verify_def by (intro no_panic)
qed

lemma verify_header_no_panic [no_panic]: "verify_header B network skip t b \<noteq> None"
  unfolding verify_header_def by (cases b) (simp_all add: no_panic del: not_None_eq)

lemma verify_body_no_panic [no_panic]: "windowed (be_policy B) \<Longrightarrow> verify_body B b \<noteq> None"
proof (cases b)
  case (Macro_Block m)
  then show ?thesis by (cases "ma_body m") (simp_all add: no_panic del: not_None_eq)
next
  case (Micro_Block m)
  assume "windowed (be_policy B)"
  then show ?thesis using Micro_Block by (cases "mi_body m") (simp_all add: no_panic del: not_None_eq)
qed

lemma block_verify_no_panic [no_panic]: "windowed (be_policy B) \<Longrightarrow> block_verify B network t b \<noteq> None"
  unfolding block_verify_def by (intro no_panic)

lemma immediate_successor_no_panic [no_panic]: "verify_immediate_successor B b predecessor \<noteq> None"
  unfolding verify_immediate_successor_def by (simp add: no_panic del: not_None_eq)

lemma macro_successor_no_panic [no_panic]: "verify_macro_successor B b predecessor \<noteq> None"
  unfolding verify_macro_successor_def Let_def
  by (cases b) (simp_all add: seq_res_def bind_res_def check_res_def expect_res_def ok_res_def err_res_def)

lemma signer_keys:
  assumes "wf_validators vs" "checked_signer_slots D = Some slots"
  shows "\<exists>keys. slot_keys uncompress vs slots = Some keys"
  using slot_keys_no_panic [OF assms(1) signer_slots(4) [OF assms(2)], of uncompress] by simp

lemma skip_proof_no_panic:
  assumes "wf_validators vs"
  shows "skip_block_proof_verify B proof info state_root version vs \<noteq> None"
  using signer_keys [OF assms, of _ _ "be_uncompress B"]
  by (auto simp: skip_block_proof_verify_def split: option.splits)

lemma tendermint_proof_no_panic:
  assumes "wf_validators vs"
  shows "tendermint_proof_verify B b vs \<noteq> None"
  using signer_keys [OF assms, of _ _ "be_uncompress B"]
  by (auto simp: tendermint_proof_verify_def Let_def split: option.splits)

section \<open>Verified bodies\<close>

lemma verify_proofs_ok:
  "verify_proofs B n v previous ps = Some (Inr ()) \<longleftrightarrow>
     (\<forall>p\<in>set ps. equivocation_is_valid_at B p n v = Some True) \<and>
     sorted_wrt (<) (map (sort_key B) ((case previous of None \<Rightarrow> [] | Some q \<Rightarrow> [q]) @ ps))"
proof (induction ps arbitrary: previous)
  case (Cons p ps)
  have o: "h1 \<noteq> h2 \<and> \<not> h1 > h2 \<longleftrightarrow> h1 < h2" for h1 h2 :: blake2b_hash by (metis less_imp_neq less_not_sym neqE)
  show ?case
    using o [of "sort_key B (the previous)" "sort_key B p"]
    by (cases previous) (auto simp: res_Inr Cons.IH intro: less_trans)
qed (simp add: ok_res_def split: option.splits)

lemma verify_unique_ok:
  "verify_unique B n uniq txs = Some (Inr ()) \<longleftrightarrow> (\<forall>tx\<in>set txs. is_valid_at (be_policy B) tx n = Some True) \<and>
     distinct (map (be_tx_hash B) txs) \<and> be_tx_hash B ` set txs \<inter> uniq = {}"
proof (induction txs arbitrary: uniq)
  case (Cons tx txs)
  show ?case by (auto simp: res_Inr Cons.IH)
qed (simp add: ok_res_def)

section \<open>Interlinks\<close>

lemma trailing_zeros_dvd:
  assumes "0 < n" "n < 2 ^ k"
  shows "i < count_trailing_zeros k n \<longleftrightarrow> 2 ^ Suc i dvd n"
  using assms
proof (induction k arbitrary: n i)
  case (Suc k)
  show ?case
  proof (cases "odd n")
    case True
    then have "\<not> 2 ^ Suc i dvd n" by (metis dvd_mult_left power_Suc)
    then show ?thesis using True by simp
  next
    case False
    then obtain m where m: "n = 2 * m" by (auto elim: evenE)
    then have "0 < m" "m < 2 ^ k" using Suc.prems by simp_all
    then have IH: "j < count_trailing_zeros k m \<longleftrightarrow> 2 ^ Suc j dvd m" for j by (rule Suc.IH)
    show ?thesis using m IH by (cases i) simp_all
  qed
qed simp

text \<open>The entries after block \<open>n\<close>: the last blocks that are multiples of the powers of two.\<close>

definition interlink_ok :: "(nat \<Rightarrow> 'h) \<Rightarrow> nat \<Rightarrow> 'h list \<Rightarrow> bool" where
  "interlink_ok hash n l \<longleftrightarrow> (\<forall>i. i < length l \<longleftrightarrow> 2 ^ Suc i \<le> n) \<and>
     (\<forall>i<length l. l ! i = hash (n div 2 ^ Suc i * 2 ^ Suc i))"

lemma div_Suc_not_dvd: "\<not> d dvd Suc n \<Longrightarrow> Suc n div d = n div d" for n d :: nat
  by (simp add: div_Suc dvd_eq_mod_eq_0)

lemma interlink_step:
  assumes l: "interlink_ok hash n l" and t: "\<And>i. i < t \<longleftrightarrow> 2 ^ Suc i dvd Suc n"
  defines "l' \<equiv> (if t > length l then l @ [hash (Suc n)] else l)"
  shows "t \<le> length l'" "interlink_ok hash (Suc n) (replicate t (hash (Suc n)) @ drop t l')"
proof -
  have len: "i < length l \<longleftrightarrow> 2 ^ Suc i \<le> n" for i using l by (simp add: interlink_ok_def)
  have pow: "(2 :: nat) ^ t dvd Suc n"
  proof (cases t)
    case (Suc j)
    then show ?thesis using t [of j] by simp
  qed simp
  have "t \<le> Suc (length l)"
  proof (rule ccontr)
    assume "\<not> t \<le> Suc (length l)"
    then have "2 ^ Suc (Suc (length l)) dvd Suc n" using t [of "Suc (length l)"] by simp
    then have "2 * 2 ^ Suc (length l) \<le> Suc n" by (simp add: dvd_imp_le)
    then show False using len [of "length l"] by simp
  qed
  then show tl: "t \<le> length l'" by (auto simp: l'_def)
  have len': "i < length l' \<longleftrightarrow> 2 ^ Suc i \<le> Suc n" for i
  proof (cases "2 ^ Suc i = Suc n")
    case True
    then have "i < t" by (simp add: t)
    then show ?thesis using tl True by simp
  next
    case False
    then have e: "2 ^ Suc i \<le> Suc n \<longleftrightarrow> i < length l" using len [of i] by linarith
    have "i \<noteq> length l" if "t > length l"
    proof
      assume "i = length l"
      then have "2 ^ Suc i dvd Suc n" using t that by simp
      then show False using False e \<open>i = length l\<close> by (simp add: dvd_imp_le)
    qed
    then show ?thesis using e by (auto simp: l'_def)
  qed
  have "(replicate t (hash (Suc n)) @ drop t l') ! i = hash (Suc n div 2 ^ Suc i * 2 ^ Suc i)" if i: "i < length l'" for i
  proof (cases "i < t")
    case True
    then show ?thesis using t by (simp add: nth_append)
  next
    case False
    then have il: "i < length l" using i by (auto simp: l'_def split: if_splits)
    then have "l' = l" using False by (simp add: l'_def)
    moreover have "l ! i = hash (n div 2 ^ Suc i * 2 ^ Suc i)" using l il by (simp add: interlink_ok_def)
    moreover have "Suc n div 2 ^ Suc i = n div 2 ^ Suc i" using False t div_Suc_not_dvd by blast
    ultimately show ?thesis using False tl by (simp add: nth_append del: power_Suc)
  qed
  then show "interlink_ok hash (Suc n) (replicate t (hash (Suc n)) @ drop t l')"
    using tl len' by (simp add: interlink_ok_def)
qed

section \<open>Conflicting final blocks\<close>

lemma quorum_overlap:
  assumes "checked_signer_slots D1 = Some slots1" "checked_signer_slots D2 = Some slots2"
    "unat TWO_F_PLUS_ONE \<le> length slots1" "unat TWO_F_PLUS_ONE \<le> length slots2"
  shows "unat F_PLUS_ONE \<le> card (set slots1 \<inter> set slots2)"
proof -
  have c: "card (set slots1) = length slots1" "card (set slots2) = length slots2"
    using signer_slots(2) [OF assms(1)] signer_slots(2) [OF assms(2)] by (simp_all add: distinct_card)
  have "set slots1 \<union> set slots2 \<subseteq> {s. s < SLOTS}"
    using signer_slots(4) [OF assms(1)] signer_slots(4) [OF assms(2)] by auto
  moreover have "card {s :: u16. s < SLOTS} = 512"
  proof -
    have "{s :: u16. s < SLOTS} = set all_slots" using all_slots(2) by simp
    then show ?thesis using all_slots(1,4) distinct_card by metis
  qed
  ultimately have "card (set slots1 \<union> set slots2) \<le> 512" by (metis card_mono finite)
  then have "length slots1 + length slots2 \<le> 512 + card (set slots1 \<inter> set slots2)"
    using card_Un_Int [of "set slots1" "set slots2"] c by simp
  then show ?thesis using assms(3,4) by (simp add: TWO_F_PLUS_ONE_def F_PLUS_ONE_def SLOTS_def w_div_ceil_def Let_def)
qed

lemma tendermint_verified:
  assumes "tendermint_proof_verify B b vs = Some True"
  shows "\<exists>j slots. ma_justification b = Some j \<and> checked_signer_slots (ms_signers (tp_sig j)) = Some slots \<and>
    unat TWO_F_PLUS_ONE \<le> length slots \<and>
    verify_votes B vs \<lparr> ti_network = mah_network (ma_header b), ti_block_number = mah_block_number (ma_header b),
      ti_round_number = tp_round j, ti_step = PreCommit \<rparr> (Some (macro_header_hash_blake2s B (ma_header b))) slots
      (ms_signature (tp_sig j)) = Some (Inr ())"
  using assms by (auto simp: tendermint_proof_verify_def verify_votes_ok Let_def split: option.splits if_splits)

section \<open>Chains of blocks\<close>

fun linked :: "('k, 'z) blk_env_scheme \<Rightarrow> block list \<Rightarrow> bool" where
  "linked B (b # c # bs) \<longleftrightarrow> verify_immediate_successor B c b = Some (Inr ()) \<and> linked B (c # bs)"
| "linked B bs \<longleftrightarrow> True"

lemma linked_nth: "linked B bs \<Longrightarrow> Suc i < length bs \<Longrightarrow> verify_immediate_successor B (bs ! Suc i) (bs ! i) = Some (Inr ())"
proof (induction B bs arbitrary: i rule: linked.induct)
  case (1 B b c bs)
  then show ?case by (cases i) simp_all
qed simp_all

lemma successor_facts:
  assumes "verify_immediate_successor B c b = Some (Inr ())"
  shows "block_number c = block_number b + 1" "block_parent_hash c = block_hash B b"
    "block_version c \<noteq> block_version b \<Longrightarrow> block_is_election (be_policy B) c \<and> block_version c = block_version b + 1"
    "unat (block_timestamp b) + 4000 < 2 ^ 64 \<Longrightarrow> block_timestamp b \<le> block_timestamp c"
proof -
  note f = assms [unfolded verify_immediate_successor_def res_Inr]
  show "block_number c = block_number b + 1" "block_parent_hash c = block_hash B b" using f by auto
  show "block_is_election (be_policy B) c \<and> block_version c = block_version b + 1" if "block_version c \<noteq> block_version b"
    using f that by auto
  show "block_timestamp b \<le> block_timestamp c" if t: "unat (block_timestamp b) + 4000 < 2 ^ 64"
  proof (cases "block_is_skip c")
    case True
    then have "block_timestamp c = block_timestamp b + 4000" using f by (simp add: res_Inr MIN_PRODUCER_TIMEOUT_def)
    then show ?thesis using t by (simp add: word_le_nat_alt unat_add_lem_nat)
  next
    case False
    then show ?thesis using f by (simp add: res_Inr not_less)
  qed
qed

lemma linked_order:
  assumes "linked B bs" "\<forall>b\<in>set bs. unat (block_timestamp b) + 4000 < 2 ^ 64" "i \<le> j" "j < length bs"
  shows "block_timestamp (bs ! i) \<le> block_timestamp (bs ! j) \<and>
    block_number (bs ! j) = block_number (bs ! i) + of_nat (j - i) \<and>
    ((\<forall>k. i < k \<and> k \<le> j \<longrightarrow> \<not> block_is_election (be_policy B) (bs ! k)) \<longrightarrow> block_version (bs ! j) = block_version (bs ! i))"
  using assms(3,4)
proof (induction j rule: dec_induct)
  case (step j)
  note f = successor_facts [OF linked_nth [OF assms(1) step.prems]]
  have t: "block_timestamp (bs ! j) \<le> block_timestamp (bs ! Suc j)" using assms(2) step.prems by (intro f(4)) simp
  have IH: "block_timestamp (bs ! i) \<le> block_timestamp (bs ! j)" "block_number (bs ! j) = block_number (bs ! i) + of_nat (j - i)"
    "(\<forall>k. i < k \<and> k \<le> j \<longrightarrow> \<not> block_is_election (be_policy B) (bs ! k)) \<longrightarrow> block_version (bs ! j) = block_version (bs ! i)"
    using step.IH step.prems by simp_all
  have "block_version (bs ! Suc j) = block_version (bs ! i)"
    if n: "\<forall>k. i < k \<and> k \<le> Suc j \<longrightarrow> \<not> block_is_election (be_policy B) (bs ! k)"
  proof -
    have "\<not> block_is_election (be_policy B) (bs ! Suc j)" using n step.hyps by simp
    then have "block_version (bs ! Suc j) = block_version (bs ! j)" using f(3) by blast
    then show ?thesis using IH(3) n by simp
  qed
  moreover have "Suc j - i = Suc (j - i)" using step.hyps by simp
  ultimately show ?case using t f(1) IH(1,2) by (auto simp: add.assoc)
qed simp

section \<open>Examples\<close>

definition example_macro_header :: macro_header where
  "example_macro_header = \<lparr> mah_network = UnitAlbatross, mah_version = 2, mah_block_number = 232, mah_round = 0,
     mah_timestamp = 0, mah_parent_hash = [], mah_parent_election_hash = [], mah_interlink = Some [], mah_seed = [],
     mah_extra_data = [], mah_state_root = [], mah_body_root = [], mah_diff_root = [], mah_history_root = [],
     mah_validators = None, mah_next_batch_initial_punished_set = bitset_new, mah_cached_hash = None \<rparr>"

definition example_signers :: bitset where
  "example_signers = bitset_from_iter [0..<342]"

definition example_final :: "u8 \<Rightarrow> macro_block" where
  "example_final x = \<lparr> ma_header = example_macro_header \<lparr> mah_extra_data := [x] \<rparr>, ma_body = None,
     ma_justification = Some \<lparr> tp_round = 0, tp_sig = \<lparr> ms_signature = [], ms_signers = example_signers \<rparr> \<rparr> \<rparr>"

lemma example_signers: "checked_signer_slots example_signers = Some (map of_nat [0..<342])"
proof -
  have "elems example_signers = {0..<342}" using bitset_from_iter_eq [of "[0..<342]"] by (simp add: example_signers_def)
  then have "bitset_iter example_signers = [0..<342]" by (simp add: bitset_iter_eq)
  then show ?thesis by (simp add: checked_signer_slots_def checked_slots_Some SLOTS_def)
qed

lemma example_keys: "\<forall>s\<in>set slots. s < SLOTS \<Longrightarrow> \<exists>keys. slot_keys Some example_validators slots = Some (Some keys)"
proof (induction slots)
  case (Cons s slots)
  obtain v where "get_validator_by_slot_number example_validators s = Some v"
    using slot_owner [OF example_validators_wf, of s] Cons.prems by auto
  then show ?case using Cons by auto
qed simp

lemma example_final_verified: "tendermint_proof_verify example_blk_env (example_final x) example_validators = Some True"
proof -
  obtain keys where "slot_keys Some example_validators (map of_nat [0..<342]) = Some (Some keys)"
    using example_keys signer_slots(4) [OF example_signers] by blast
  then show ?thesis
    by (simp add: tendermint_proof_verify_def example_final_def example_signers Let_def example_blk_env_def
        TWO_F_PLUS_ONE_def SLOTS_def w_div_ceil_def)
qed

section \<open>Properties\<close>

text \<open>
  C4. Final blocks are accountable: if two macro blocks with different hashes are justified for the same
  height and round by the validators of an epoch, then for at least a third of the slots the two
  justifications make up a double vote proof that convicts the owner of the slot.
\<close>

theorem final_blocks_accountable:
  assumes "wf_validators vs"
    "tendermint_proof_verify B b1 vs = Some True" "tendermint_proof_verify B b2 vs = Some True"
    "ma_justification b1 = Some j1" "ma_justification b2 = Some j2" "tp_round j1 = tp_round j2"
    "be_signature_point B (ms_signature (tp_sig j1))" "be_signature_point B (ms_signature (tp_sig j2))"
    "mah_network (ma_header b1) = mah_network (ma_header b2)" "mah_block_number (ma_header b1) = mah_block_number (ma_header b2)"
    "macro_header_hash_blake2s B (ma_header b1) \<noteq> macro_header_hash_blake2s B (ma_header b2)"
  shows "\<exists>S. unat F_PLUS_ONE \<le> card S \<and> (\<forall>slot\<in>S. slot < SLOTS \<and>
    (\<exists>v\<in>set (vs_validators vs). get_validator_by_slot_number vs slot = Some v \<and>
       equivocation_verify B (DoubleVote (double_vote_new
         \<lparr> ti_network = mah_network (ma_header b1), ti_block_number = mah_block_number (ma_header b1),
           ti_round_number = tp_round j1, ti_step = PreCommit \<rparr> (sv_address v)
         (Some (macro_header_hash_blake2s B (ma_header b1))) (ms_signature (tp_sig j1)) (ms_signers (tp_sig j1))
         (Some (macro_header_hash_blake2s B (ma_header b2))) (ms_signature (tp_sig j2)) (ms_signers (tp_sig j2))))
         (mah_network (ma_header b1)) vs = Some (Inr ())))"
proof -
  let ?h1 = "Some (macro_header_hash_blake2s B (ma_header b1))" and ?h2 = "Some (macro_header_hash_blake2s B (ma_header b2))"
  let ?i = "\<lparr> ti_network = mah_network (ma_header b1), ti_block_number = mah_block_number (ma_header b1),
    ti_round_number = tp_round j1, ti_step = PreCommit \<rparr>"
  obtain slots1 where s1: "checked_signer_slots (ms_signers (tp_sig j1)) = Some slots1" "unat TWO_F_PLUS_ONE \<le> length slots1"
    "verify_votes B vs ?i ?h1 slots1 (ms_signature (tp_sig j1)) = Some (Inr ())"
    using tendermint_verified [OF assms(2)] assms(4) by auto
  obtain slots2 where s2: "checked_signer_slots (ms_signers (tp_sig j2)) = Some slots2" "unat TWO_F_PLUS_ONE \<le> length slots2"
    "verify_votes B vs ?i ?h2 slots2 (ms_signature (tp_sig j2)) = Some (Inr ())"
    using tendermint_verified [OF assms(3)] assms(5,6,9,10) by auto
  have "slot < SLOTS \<and> (\<exists>v\<in>set (vs_validators vs). get_validator_by_slot_number vs slot = Some v \<and>
      equivocation_verify B (DoubleVote (double_vote_new ?i (sv_address v) ?h1 (ms_signature (tp_sig j1)) (ms_signers (tp_sig j1))
        ?h2 (ms_signature (tp_sig j2)) (ms_signers (tp_sig j2)))) (mah_network (ma_header b1)) vs = Some (Inr ()))"
    if s: "slot \<in> set slots1 \<inter> set slots2" for slot
  proof -
    have lt: "slot < SLOTS" using s signer_slots(4) [OF s1(1)] by simp
    obtain v where v: "v \<in> set (vs_validators vs)" "get_validator_by_slot_number vs slot = Some v"
      "range_start (sv_slots v) \<le> slot" "slot < range_end (sv_slots v)" using slot_owner [OF assms(1) lt] by blast
    have "double_vote_verify B (double_vote_new ?i (sv_address v) ?h1 (ms_signature (tp_sig j1)) (ms_signers (tp_sig j1))
        ?h2 (ms_signature (tp_sig j2)) (ms_signers (tp_sig j2))) vs (sv_slots v) = Some (Inr ())"
      using s assms(11) by (intro double_vote_new_verified(1) [OF _ s1(1) s2(1) _ _ v(3,4) assms(7,8) s1(3) s2(3)]) simp_all
    then show ?thesis
      using lt v(1,2) wf_lookup [OF assms(1) v(1)] by (auto simp: equivocation_verified double_vote_new_def)
  qed
  then show ?thesis using quorum_overlap [OF s1(1) s2(1) s1(2) s2(2)] by blast
qed

theorem final_blocks_accountable_witness:
  "\<exists>S. 171 \<le> card S \<and> (\<forall>slot\<in>S. \<exists>v. get_validator_by_slot_number example_validators slot = Some v)"
proof -
  have h: "macro_header_hash_blake2s example_blk_env (ma_header (example_final 1)) \<noteq>
      macro_header_hash_blake2s example_blk_env (ma_header (example_final 2))"
    by (simp add: macro_header_hash_blake2s_def example_blk_env_def example_final_def)
  have f: "unat F_PLUS_ONE = 171" by (simp add: F_PLUS_ONE_def SLOTS_def w_div_ceil_def Let_def)
  have j: "ma_justification (example_final x) = Some \<lparr> tp_round = 0, tp_sig = \<lparr> ms_signature = [], ms_signers = example_signers \<rparr> \<rparr>"
    "mah_network (ma_header (example_final x)) = UnitAlbatross" "mah_block_number (ma_header (example_final x)) = 232" for x
    by (simp_all add: example_final_def example_macro_header_def)
  have p: "be_signature_point example_blk_env s" for s by (simp add: example_blk_env_def)
  show ?thesis
    using final_blocks_accountable [OF example_validators_wf example_final_verified example_final_verified j(1) j(1) refl p p _ _ h]
    unfolding j f by blast
qed

lemma interlink_chain:
  assumes "wf_policy (be_policy B)" "genesis (be_policy B) + Suc N * epoch_len (be_policy B) \<le> 2 ^ 32"
    "\<forall>n\<le>N. unat (mah_block_number (e n)) = genesis (be_policy B) + n * epoch_len (be_policy B)"
    "mah_interlink (e 0) = Some []"
    "\<forall>n<N. \<forall>l. get_next_interlink B (e n) = Some (Inr l) \<longrightarrow> mah_interlink (e (Suc n)) = Some l" "n \<le> N"
  shows "\<exists>l. get_next_interlink B (e n) = Some (Inr l) \<and> interlink_ok (\<lambda>n. macro_header_hash B (e n)) n l"
proof -
  let ?p = "be_policy B" and ?h = "\<lambda>n. macro_header_hash B (e n)"
  have el: "0 < epoch_len ?p" using epoch_len_ge [OF assms(1)] by simp
  have fit: "n * epoch_len ?p + epoch_len ?p \<le> 2 ^ 32 - genesis ?p" if "n \<le> N" for n
  proof -
    have "Suc n * epoch_len ?p \<le> Suc N * epoch_len ?p" using that by (intro mult_le_mono1) simp
    then show ?thesis using assms(2) unfolding mult_Suc by linarith
  qed
  show ?thesis
    using assms(6)
  proof (induction n)
    case 0
    have z: "mah_block_number (e 0) = genesis_block_number ?p" using assms(3) by (simp add: word_unat_eq_iff)
    have "is_election_block_at ?p (mah_block_number (e 0))"
      using fit [of 0] by (subst is_election_block_at_nat [OF assms(1)]) (simp_all add: z)
    then have "get_next_interlink B (e 0) = Some (Inr [])"
      using assms(4) z by (simp add: get_next_interlink_def Let_def macro_is_election_def seq_res_def bind_res_def check_res_def
          expect_res_def ok_res_def)
    then show ?case by (simp add: interlink_ok_def)
  next
    case (Suc n)
    then obtain l where l: "get_next_interlink B (e n) = Some (Inr l)" "interlink_ok ?h n l" by auto
    have i: "mah_interlink (e (Suc n)) = Some l" using assms(5) l(1) Suc.prems by simp
    let ?b = "mah_block_number (e (Suc n))" and ?d = "Suc n * epoch_len ?p"
    have b: "unat ?b = genesis ?p + ?d" using assms(3) Suc.prems by blast
    then have u: "unat (?b - genesis_block_number ?p) = ?d" by (simp add: unat_sub_le word_le_nat_alt)
    have el_b: "is_election_block_at ?p ?b"
      using fit [OF Suc.prems] by (subst is_election_block_at_nat [OF assms(1)]) (simp_all add: b)
    have ne: "?b \<noteq> genesis_block_number ?p" using b el by auto
    let ?t = "trailing_zeros ((?b - genesis_block_number ?p) div blocks_per_epoch ?p)"
    have "unat ((?b - genesis_block_number ?p) div blocks_per_epoch ?p) = Suc n"
      using el by (simp add: unat_div u)
    moreover have "Suc n < 2 ^ 32"
    proof -
      have "Suc n * 1 \<le> ?d" using el by (intro mult_le_mono2) simp
      also have "?d < 2 ^ 32" using unat_bound [of "?b - genesis_block_number ?p"] unfolding u by simp
      finally show ?thesis by simp
    qed
    ultimately have t: "j < ?t \<longleftrightarrow> 2 ^ Suc j dvd Suc n" for j
      using trailing_zeros_dvd [of "Suc n" 32 j] by (simp add: trailing_zeros_def)
    note st = interlink_step [OF l(2) t]
    show ?case
      using st el_b i ne by (simp add: get_next_interlink_def Let_def macro_is_election_def seq_res_def bind_res_def check_res_def
          expect_res_def ok_res_def)
  qed
qed

text \<open>
  C5. The interlink of an election block points to the last election blocks whose epoch is a multiple of
  two, four, eight and so on: in a sequence of election blocks that carry the interlink computed from their
  predecessor, the computation never panics, and after epoch \<open>n\<close> entry \<open>i\<close> exists exactly while
  \<open>2 ^ (i + 1)\<close> is at most \<open>n\<close> and is the hash of the last election block of an epoch that is a multiple of it.
\<close>

theorem interlink_powers:
  assumes "wf_policy (be_policy B)" "genesis (be_policy B) + Suc N * epoch_len (be_policy B) \<le> 2 ^ 32"
    "\<forall>n\<le>N. unat (mah_block_number (e n)) = genesis (be_policy B) + n * epoch_len (be_policy B)"
    "mah_interlink (e 0) = Some []"
    "\<forall>n<N. \<forall>l. get_next_interlink B (e n) = Some (Inr l) \<longrightarrow> mah_interlink (e (Suc n)) = Some l"
  shows "\<forall>n\<le>N. \<exists>l. get_next_interlink B (e n) = Some (Inr l) \<and>
    (\<forall>i. i < length l \<longleftrightarrow> 2 ^ Suc i \<le> n) \<and>
    (\<forall>i<length l. l ! i = macro_header_hash B (e (n div 2 ^ Suc i * 2 ^ Suc i)))"
  using interlink_chain [OF assms] unfolding interlink_ok_def by blast

theorem interlink_powers_witness:
  "\<exists>l. get_next_interlink example_blk_env (example_macro_header \<lparr> mah_block_number := 200 \<rparr>) = Some (Inr l)"
proof -
  have p: "be_policy example_blk_env = TEST_POLICY" by (simp add: example_blk_env_def)
  have e: "epoch_len TEST_POLICY = 128" by (simp add: TEST_POLICY_def blocks_per_epoch_def)
  have "genesis TEST_POLICY = 200" by (simp add: TEST_POLICY_def)
  then show ?thesis
    using interlink_powers [of example_blk_env 0 "\<lambda>_. example_macro_header \<lparr> mah_block_number := 200 \<rparr>"]
    by (auto simp: p e example_macro_header_def)
qed

text \<open>
  C6. Blocks that verify as immediate successors of each other form a chain: heights count up by one, each
  block commits to the hash of its predecessor, timestamps never decrease, and the protocol version changes
  in election blocks only, by one. Timestamps are assumed to be bounded away from the largest 64-bit number.
\<close>

theorem block_chain_order:
  assumes "linked B bs" "\<forall>b\<in>set bs. unat (block_timestamp b) + 4000 < 2 ^ 64" "i < j" "j < length bs"
  shows "block_number (bs ! j) = block_number (bs ! i) + of_nat (j - i) \<and>
    block_parent_hash (bs ! Suc i) = block_hash B (bs ! i) \<and>
    block_timestamp (bs ! i) \<le> block_timestamp (bs ! j) \<and>
    (block_version (bs ! Suc i) = block_version (bs ! i) \<or>
     block_is_election (be_policy B) (bs ! Suc i) \<and> block_version (bs ! Suc i) = block_version (bs ! i) + 1) \<and>
    (block_version (bs ! j) \<noteq> block_version (bs ! i) \<longrightarrow> (\<exists>k. i < k \<and> k \<le> j \<and> block_is_election (be_policy B) (bs ! k)))"
  using linked_order [OF assms(1,2) less_imp_le [OF assms(3)] assms(4)]
    successor_facts [OF linked_nth [OF assms(1), of i]] assms(3,4) by auto

definition example_next :: block where
  "example_next = Micro_Block \<lparr> mi_header = example_header \<lparr> mih_block_number := 301, mih_parent_hash := [] \<rparr>,
     mi_justification = None, mi_body = None \<rparr>"

theorem block_chain_order_witness:
  "block_number example_next =
     block_number (Micro_Block \<lparr> mi_header = example_header, mi_justification = None, mi_body = None \<rparr>) + 1"
proof -
  let ?b = "Micro_Block \<lparr> mi_header = example_header, mi_justification = None, mi_body = None \<rparr>"
  have "linked example_blk_env [?b, example_next]"
    by (simp add: example_next_def verify_immediate_successor_def res_Inr example_header_def is_skip_block_def
        micro_header_hash_def example_blk_env_def)
  then show ?thesis
    using block_chain_order [of example_blk_env "[?b, example_next]" 0 1] by (simp add: example_next_def example_header_def)
qed



end
