(* ===== verification/BlockProof.thy ===== *)
theory BlockProof
  imports BlockProperties
begin

text \<open>
  Proofs that an election block belongs to the chain (\<^verbatim>\<open>primitives/block/src/block_proof.rs\<close>): the hops
  over interlinks from the election head down to the block, the verification of a proof, and the blocks a node
  answers a request for a proof with (\<open>RequestBlocksProof\<close> of \<^verbatim>\<open>consensus/src/messages/handlers.rs\<close>). The
  outer \<open>None\<close> is a loop that does not end, the inner one a panic.
\<close>

section \<open>Hops\<close>

definition ilog2 :: "u32 \<Rightarrow> nat" where
  "ilog2 w = bit_length (unat w) - 1"

fun find_interlink :: "u32 \<Rightarrow> u32 \<Rightarrow> nat \<Rightarrow> u32 option" where
  "find_interlink previous_block_no target_number 0 = None"
| "find_interlink previous_block_no target_number (Suc i) =
    (let interlink_divider = 2 ^ Suc i;
         ith_interlink = previous_block_no div interlink_divider * interlink_divider
     in if ith_interlink \<ge> target_number then Some ith_interlink
        else find_interlink previous_block_no target_number i)"

partial_function (option) hops_loop :: "u32 \<Rightarrow> u32 \<Rightarrow> u32 list \<Rightarrow> u32 list option" where
  "hops_loop target_number current_hop hops =
    (if current_hop - 1 > target_number then
       let previous_block_no = current_hop - 1 in
       case find_interlink previous_block_no target_number (ilog2 previous_block_no) of
         None \<Rightarrow> hops_loop target_number current_hop hops
       | Some ith_interlink \<Rightarrow>
           if ith_interlink = target_number then Some hops
           else hops_loop target_number ith_interlink (hops @ [ith_interlink])
     else Some hops)"

definition get_interlink_hops :: "policy \<Rightarrow> u32 \<Rightarrow> u32 \<Rightarrow> u32 list option option" where
  "get_interlink_hops p target latest_election_number =
    (let target_number = epoch_at p target; latest_number = epoch_at p latest_election_number in
     if target_number = 0 then Some (Some [])
     else map_option (\<lambda>hops. those (map (election_block_of p) hops)) (hops_loop target_number latest_number []))"

section \<open>Verification\<close>

definition macro_block_hash :: "('k, 'z) blk_env_scheme \<Rightarrow> macro_block \<Rightarrow> blake2b_hash" where
  "macro_block_hash B b = macro_header_hash B (ma_header b)"

definition references_block :: "('k, 'z) blk_env_scheme \<Rightarrow> macro_block \<Rightarrow> macro_block \<Rightarrow> bool" where
  "references_block B b target \<longleftrightarrow> mah_parent_election_hash (ma_header b) = macro_block_hash B target \<or>
    (case mah_interlink (ma_header b) of None \<Rightarrow> False | Some interlink \<Rightarrow> macro_block_hash B target \<in> set interlink)"

definition number_to_block :: "macro_block list \<Rightarrow> u32 \<rightharpoonup> macro_block" where
  "number_to_block proof = map_of (rev (map (\<lambda>b. (mah_block_number (ma_header b), b)) proof))"

fun hops_linked :: "('k, 'z) blk_env_scheme \<Rightarrow> macro_block list \<Rightarrow> bool" where
  "hops_linked B (b # c # bs) \<longleftrightarrow>
    (case mah_interlink (ma_header b) of None \<Rightarrow> True | Some interlink \<Rightarrow> macro_block_hash B c \<in> set interlink) \<and>
    hops_linked B (c # bs)"
| "hops_linked B bs \<longleftrightarrow> True"

definition check_hops :: "('k, 'z) blk_env_scheme \<Rightarrow> macro_block list \<Rightarrow> macro_block \<Rightarrow> macro_block \<Rightarrow> u32 list \<Rightarrow> bool option" where
  "check_hops B proof election_head target hops =
    (if hops = [] then Some (references_block B election_head target)
     else case those (map (number_to_block proof) hops) of
       None \<Rightarrow> Some False
     | Some blocks \<Rightarrow> (case mah_interlink (ma_header election_head) of
         None \<Rightarrow> None
       | Some interlink \<Rightarrow>
           if macro_block_hash B (hd blocks) \<notin> set interlink then Some False
           else if \<not> hops_linked B blocks then Some False
           else (case mah_interlink (ma_header (last blocks)) of
             None \<Rightarrow> None
           | Some last_interlink \<Rightarrow>
               Some (macro_block_hash B target \<in> set last_interlink \<or>
                 mah_parent_election_hash (ma_header (last blocks)) = macro_block_hash B target))))"

definition is_block_proven :: "('k, 'z) blk_env_scheme \<Rightarrow> macro_block list \<Rightarrow> macro_block \<Rightarrow> macro_block \<Rightarrow> bool option option" where
  "is_block_proven B proof election_head target =
    (if \<not> macro_is_election (be_policy B) (ma_header target) then Some (Some False)
     else if list_ex (\<lambda>b. mah_interlink (ma_header b) = None) proof then Some (Some False)
     else map_option (\<lambda>hops. Option.bind hops (check_hops B proof election_head target))
       (get_interlink_hops (be_policy B) (mah_block_number (ma_header target)) (mah_block_number (ma_header election_head))))"

section \<open>Answering requests\<close>

datatype blocks_proof_error = TooManyBlocks | BadBlockNumber u32

definition MAX_BLOCKS :: nat where
  "MAX_BLOCKS = 255"

fun check_numbers :: "policy \<Rightarrow> u32 \<Rightarrow> u32 \<Rightarrow> u32 list \<Rightarrow> blocks_proof_error option" where
  "check_numbers p election_head own_head [] = None"
| "check_numbers p election_head own_head (n # ns) =
    (if \<not> is_election_block_at p n \<or> n > election_head \<or> election_head > own_head \<or> n = genesis_block_number p
     then Some (BadBlockNumber n)
     else check_numbers p election_head own_head ns)"

text \<open>The blocks of the hops that were not collected before; a block that is missing is left out.\<close>

definition hop_blocks :: "(u32 \<Rightarrow> block option) \<Rightarrow> u32 list \<Rightarrow> u32 list \<Rightarrow> macro_block list" where
  "hop_blocks get_block_at election_numbers hops =
    concat (map (\<lambda>hop. if hop \<in> set election_numbers then []
      else case get_block_at hop of Some (Macro_Block b) \<Rightarrow> [b] | _ \<Rightarrow> []) hops)"

fun collect_hops :: "policy \<Rightarrow> (u32 \<Rightarrow> block option) \<Rightarrow> u32 \<Rightarrow> u32 list \<Rightarrow> u32 list \<Rightarrow> macro_block list \<Rightarrow>
  macro_block list option option" where
  "collect_hops p get_block_at election_head election_numbers [] block_proof = Some (Some block_proof)"
| "collect_hops p get_block_at election_head election_numbers (n # ns) block_proof =
    (case get_interlink_hops p n election_head of
       None \<Rightarrow> None
     | Some None \<Rightarrow> Some None
     | Some (Some hops) \<Rightarrow> collect_hops p get_block_at election_head (election_numbers @ hops) ns
         (block_proof @ hop_blocks get_block_at election_numbers hops))"

definition handle_blocks_proof :: "policy \<Rightarrow> (u32 \<Rightarrow> block option) \<Rightarrow> u32 \<Rightarrow> u32 \<Rightarrow> u32 list \<Rightarrow>
  (blocks_proof_error + macro_block list) option option" where
  "handle_blocks_proof p get_block_at own_head election_head blocks =
    (if length blocks > MAX_BLOCKS then Some (Some (Inl TooManyBlocks))
     else case check_numbers p election_head own_head blocks of
       Some e \<Rightarrow> Some (Some (Inl e))
     | None \<Rightarrow> map_option (map_option Inr) (collect_hops p get_block_at election_head [] blocks []))"

section \<open>The hops end\<close>

lemma ilog2_bounds:
  assumes "0 < unat w"
  shows "2 ^ ilog2 w \<le> unat w" "unat w < 2 ^ Suc (ilog2 w)" "ilog2 w < 32"
proof -
  have b: "2 ^ ilog2 w \<le> unat w \<and> unat w < 2 ^ bit_length (unat w)" using bit_length_bounds(1) [of "unat w"] bit_length_bounds(2) [OF assms]
    by (simp add: ilog2_def del: bit_length.simps)
  have "bit_length (unat w) \<noteq> 0" using assms by (subst bit_length.simps) (simp del: bit_length.simps)
  then have "bit_length (unat w) = Suc (ilog2 w)" by (simp add: ilog2_def del: bit_length.simps)
  then show le: "2 ^ ilog2 w \<le> unat w" and "unat w < 2 ^ Suc (ilog2 w)" using b by simp_all
  show "ilog2 w < 32"
  proof (rule ccontr)
    assume "\<not> ilog2 w < 32"
    then have "(2 :: nat) ^ 32 \<le> 2 ^ ilog2 w" by (intro power_increasing) auto
    then show False using le unat_bound [of w] by simp
  qed
qed

lemma unat_multiple: "i < 32 \<Longrightarrow> unat (w div 2 ^ i * 2 ^ i :: u32) = unat w div 2 ^ i * 2 ^ i"
proof -
  assume i: "i < 32"
  have "(2 :: nat) ^ i < 2 ^ 32" using i by (intro power_strict_increasing) auto
  then have p: "unat (2 ^ i :: u32) = 2 ^ i" using unat_of_nat [where ?'a = 32, of "2 ^ i"] by simp
  have "unat w div 2 ^ i * 2 ^ i < 2 ^ 32" using unat_bound [of w] by (simp add: le_less_trans [OF div_times_less_eq_dividend])
  then show ?thesis by (subst unat_mult_lem_nat) (simp_all add: p unat_div)
qed

text \<open>The interlink that is found skips the most epochs without going below the target.\<close>

lemma find_interlink_spec:
  assumes "k < 32" "1 \<le> k" "t < w" "\<forall>j>k. unat w div 2 ^ j * 2 ^ j < unat t"
  shows "\<exists>x i. find_interlink w t k = Some x \<and> t \<le> x \<and> 1 \<le> i \<and> i \<le> k \<and> unat x = unat w div 2 ^ i * 2 ^ i \<and>
    (\<forall>j>i. unat w div 2 ^ j * 2 ^ j < unat t)"
  using assms(1,2,4)
proof (induction k)
  case (Suc k)
  let ?x = "w div 2 ^ Suc k * 2 ^ Suc k"
  have u: "unat ?x = unat w div 2 ^ Suc k * 2 ^ Suc k" using unat_multiple [OF Suc.prems(1)] .
  show ?case
  proof (cases "t \<le> ?x")
    case True
    then show ?thesis using u Suc.prems(3) by (intro exI [of _ ?x] exI [of _ "Suc k"]) (simp add: Let_def)
  next
    case False
    then have lt: "unat w div 2 ^ Suc k * 2 ^ Suc k < unat t" using u by (simp add: word_le_nat_alt)
    have "\<not> unat w div 2 * 2 < unat t" using assms(3) by (simp add: word_less_nat_alt)
    then have "k \<noteq> 0" using lt by (intro notI) simp
    moreover have "\<forall>j>k. unat w div 2 ^ j * 2 ^ j < unat t" using Suc.prems(3) lt by (metis Suc_lessI)
    ultimately obtain x i where x: "find_interlink w t k = Some x" "t \<le> x" "1 \<le> i" "i \<le> k" "unat x = unat w div 2 ^ i * 2 ^ i"
      "\<forall>j>i. unat w div 2 ^ j * 2 ^ j < unat t"
      using Suc.IH Suc.prems(1) by auto
    have "find_interlink w t (Suc k) = Some x" using False x(1) by (simp add: Let_def)
    then show ?thesis using x(2-6) le_SucI by blast
  qed
qed simp

definition skips :: "nat \<Rightarrow> nat \<Rightarrow> bool" where
  "skips w h \<longleftrightarrow> (\<exists>i\<ge>1. 2 ^ i \<le> w \<and> h = w div 2 ^ i * 2 ^ i)"

fun hop_path :: "nat \<Rightarrow> nat \<Rightarrow> nat list \<Rightarrow> bool" where
  "hop_path t w [] \<longleftrightarrow> w \<le> t \<or> skips w t"
| "hop_path t w (h # hs) \<longleftrightarrow> skips w h \<and> t < h \<and> hop_path t (h - 1) hs"

lemma find_interlink_skips:
  assumes "t < w" "0 < unat t"
  shows "\<exists>x i. find_interlink w t (ilog2 w) = Some x \<and> t \<le> x \<and> skips (unat w) (unat x) \<and>
    unat x = unat w div 2 ^ i * 2 ^ i \<and> 1 \<le> i \<and> (\<forall>j>i. unat w div 2 ^ j * 2 ^ j < unat t)"
proof -
  have w: "2 \<le> unat w" using assms by (simp add: word_less_nat_alt)
  note b = ilog2_bounds [of w]
  have "1 \<le> ilog2 w" using w b(2) by (cases "ilog2 w") auto
  moreover have "unat w div 2 ^ j * 2 ^ j < unat t" if "ilog2 w < j" for j
  proof -
    have "(2 :: nat) ^ Suc (ilog2 w) \<le> 2 ^ j" using that by (intro power_increasing) auto
    then show ?thesis using b(2) w assms(2) by simp
  qed
  ultimately obtain x i where x: "find_interlink w t (ilog2 w) = Some x" "t \<le> x" "1 \<le> i" "i \<le> ilog2 w"
    "unat x = unat w div 2 ^ i * 2 ^ i" "\<forall>j>i. unat w div 2 ^ j * 2 ^ j < unat t"
    using find_interlink_spec [of "ilog2 w" t w] b(3) w assms(1) by auto
  have "(2 :: nat) ^ i \<le> 2 ^ ilog2 w" using x(4) by (intro power_increasing) auto
  then have "2 ^ i \<le> unat w" using b(1) w by linarith
  then have "skips (unat w) (unat x)" using x(3,5) unfolding skips_def by blast
  then show ?thesis using x by blast
qed

lemma odd_Suc_half: "m \<noteq> m div 2 * 2 \<Longrightarrow> m = Suc (m div 2 * 2)" for m :: nat
  by presburger

lemma pred_mult_div: "0 < d \<Longrightarrow> (d - 1 + n * d) div d = n" for n d :: nat
  by (subst div_mult_self1) simp_all

lemma mult_pred_div: "0 < d \<Longrightarrow> (m * d - 1) div d = m - 1" for m d :: nat
proof (cases m)
  case (Suc k)
  assume d: "0 < d"
  have "m * d - 1 = (d - 1) + k * d" using Suc d by simp
  moreover have "(d - 1 + k * d) div d = k" using d by (rule pred_mult_div)
  ultimately show ?thesis using Suc by simp
qed simp

text \<open>After a hop over a power of two, the next hop is over a smaller one.\<close>

lemma hop_descends:
  fixes w t :: nat
  assumes "\<forall>j>i. w div 2 ^ j * 2 ^ j < t" "i \<le> j" "t < w div 2 ^ i * 2 ^ i"
  shows "(w div 2 ^ i * 2 ^ i - 1) div 2 ^ j * 2 ^ j < t"
proof (cases "j = i")
  case True
  let ?m = "w div 2 ^ i"
  have top: "?m div 2 * 2 * 2 ^ i < t"
    using assms(1) [rule_format, of "Suc i"] by (simp add: div_mult2_eq [symmetric] mult.commute mult.left_commute)
  have "?m \<noteq> ?m div 2 * 2" using top assms(3) by (metis less_asym)
  then have m: "?m = Suc (?m div 2 * 2)" by (rule odd_Suc_half)
  have "(?m * 2 ^ i - 1) div 2 ^ i = ?m - 1" by (rule mult_pred_div) simp
  then show ?thesis using top m True by (metis diff_Suc_1)
next
  case False
  have "(w div 2 ^ i * 2 ^ i - 1) \<le> w" by (meson diff_le_self div_times_less_eq_dividend le_trans)
  then have "(w div 2 ^ i * 2 ^ i - 1) div 2 ^ j * 2 ^ j \<le> w div 2 ^ j * 2 ^ j" by (intro mult_le_mono1 div_le_mono)
  moreover have "w div 2 ^ j * 2 ^ j < t" using assms(1,2) False by simp
  ultimately show ?thesis by (rule le_less_trans)
qed

lemma hop_top: "0 < t \<Longrightarrow> 32 \<le> j \<Longrightarrow> unat w div 2 ^ j * 2 ^ j < t" for w :: u32
proof -
  assume t: "0 < t" and j: "32 \<le> j"
  have "(2 :: nat) ^ 32 \<le> 2 ^ j" using j by (intro power_increasing) auto
  then have "unat w < 2 ^ j" using unat_bound [of w] by simp
  then show ?thesis using t by simp
qed

lemma hops_loop_path:
  assumes "0 < unat t" "\<forall>j\<ge>k. unat (c - 1) div 2 ^ j * 2 ^ j < unat t"
  shows "\<exists>hs. hops_loop t c acc = Some (acc @ hs) \<and> hop_path (unat t) (unat (c - 1)) (map unat hs) \<and> length hs \<le> k - 1"
  using assms(2)
proof (induction k arbitrary: c acc rule: less_induct)
  case (less k)
  show ?case
  proof (cases "t < c - 1")
    case False
    then show ?thesis by (intro exI [of _ "[]"]) (simp add: hops_loop.simps word_less_nat_alt)
  next
    case True
    obtain x i where x: "find_interlink (c - 1) t (ilog2 (c - 1)) = Some x" "t \<le> x" "skips (unat (c - 1)) (unat x)"
      "unat x = unat (c - 1) div 2 ^ i * 2 ^ i" "1 \<le> i" "\<forall>j>i. unat (c - 1) div 2 ^ j * 2 ^ j < unat t"
      using find_interlink_skips [OF True assms(1)] by blast
    show ?thesis
    proof (cases "x = t")
      case True
      then show ?thesis using x(1,3) \<open>t < c - 1\<close> by (intro exI [of _ "[]"]) (simp add: hops_loop.simps Let_def)
    next
      case False
      then have tx: "unat t < unat x" using x(2) by (simp add: word_le_nat_alt word_unat_eq_iff)
      then have x1: "unat (x - 1) = unat x - 1" by (intro unat_minus_one) auto
      have ik: "i < k" using less.prems x(4) tx by (metis leI less_asym)
      have "\<forall>j\<ge>i. unat (x - 1) div 2 ^ j * 2 ^ j < unat t"
        unfolding x1 x(4) using hop_descends [OF x(6)] tx x(4) by simp
      then obtain hs where hs: "hops_loop t x (acc @ [x]) = Some ((acc @ [x]) @ hs)"
        "hop_path (unat t) (unat (x - 1)) (map unat hs)" "length hs \<le> i - 1"
        using less.IH [OF ik] by blast
      have "hops_loop t c acc = Some (acc @ x # hs)"
        using x(1) \<open>t < c - 1\<close> False hs(1) by (subst hops_loop.simps) (simp add: Let_def)
      then show ?thesis
        using hs(2,3) x(3,5) tx x1 ik by (intro exI [of _ "x # hs"]) auto
    qed
  qed
qed

section \<open>Proofs of an honest chain\<close>

text \<open>The election blocks of a chain, by the number of their epoch.\<close>

definition election_chain :: "('k, 'z) blk_env_scheme \<Rightarrow> nat \<Rightarrow> (nat \<Rightarrow> macro_block) \<Rightarrow> bool" where
  "election_chain B N e \<longleftrightarrow> genesis (be_policy B) + Suc N * epoch_len (be_policy B) \<le> 2 ^ 32 \<and>
    (\<forall>n\<le>N. unat (mah_block_number (ma_header (e n))) = genesis (be_policy B) + n * epoch_len (be_policy B)) \<and>
    mah_interlink (ma_header (e 0)) = Some [] \<and>
    (\<forall>n<N. mah_parent_election_hash (ma_header (e (Suc n))) = macro_block_hash B (e n) \<and>
      (\<forall>l. get_next_interlink B (ma_header (e n)) = Some (Inr l) \<longrightarrow> mah_interlink (ma_header (e (Suc n))) = Some l))"

abbreviation number :: "macro_block \<Rightarrow> u32" where
  "number b \<equiv> mah_block_number (ma_header b)"

lemma chain_interlink:
  assumes "wf_policy (be_policy B)" "election_chain B N e" "0 < n" "n \<le> N"
  shows "\<exists>l. mah_interlink (ma_header (e n)) = Some l \<and> (\<forall>h. skips (n - 1) h \<longrightarrow> macro_block_hash B (e h) \<in> set l)"
proof -
  obtain m where m: "n = Suc m" using assms(3) gr0_implies_Suc by blast
  have "\<exists>l. get_next_interlink B (ma_header (e m)) = Some (Inr l) \<and> interlink_ok (\<lambda>n. macro_header_hash B (ma_header (e n))) m l"
    using assms(2,4) m by (intro interlink_chain [OF assms(1), where N = N]) (simp_all add: election_chain_def)
  then obtain l where l: "get_next_interlink B (ma_header (e m)) = Some (Inr l)"
    "\<And>i. i < length l \<longleftrightarrow> 2 ^ Suc i \<le> m" "\<And>i. i < length l \<Longrightarrow> l ! i = macro_header_hash B (ma_header (e (m div 2 ^ Suc i * 2 ^ Suc i)))"
    unfolding interlink_ok_def by blast
  have "macro_block_hash B (e h) \<in> set l" if sk: "skips m h" for h
  proof -
    obtain j where j: "2 ^ Suc j \<le> m" "h = m div 2 ^ Suc j * 2 ^ Suc j" using sk unfolding skips_def by (metis Suc_le_D One_nat_def)
    then have "l ! j = macro_block_hash B (e h)" "j < length l" using l(2,3) [of j] by (simp_all add: macro_block_hash_def)
    then show ?thesis by (metis nth_mem)
  qed
  moreover have "mah_interlink (ma_header (e n)) = Some l" using assms(2,4) l(1) m by (simp add: election_chain_def)
  ultimately show ?thesis using m by auto
qed

lemma chain_references:
  assumes "wf_policy (be_policy B)" "election_chain B N e" "0 < n" "n \<le> N" "skips (n - 1) t \<or> t = n - 1"
  shows "references_block B (e n) (e t)"
proof (cases "t = n - 1")
  case True
  then show ?thesis using assms(2-4) by (cases n) (simp_all add: references_block_def election_chain_def)
next
  case False
  then show ?thesis using chain_interlink [OF assms(1-4)] assms(5) by (auto simp: references_block_def)
qed

lemma chain_epoch:
  assumes "wf_policy (be_policy B)" "election_chain B N e" "n \<le> N"
  shows "unat (epoch_at (be_policy B) (number (e n))) = n" "is_election_block_at (be_policy B) (number (e n))"
    "election_block_of (be_policy B) w = Some (number (e n)) \<longleftrightarrow> unat w = n"
proof -
  let ?p = "be_policy B"
  have el: "0 < epoch_len ?p" using epoch_len_ge [OF assms(1)] by simp
  have u: "unat (number (e n)) = genesis ?p + n * epoch_len ?p" using assms(2,3) by (simp add: election_chain_def)
  have "Suc n * epoch_len ?p \<le> Suc N * epoch_len ?p" using assms(3) by (intro mult_le_mono1) simp
  then have fit: "n * epoch_len ?p + epoch_len ?p \<le> 2 ^ 32 - genesis ?p"
    using assms(2) unfolding election_chain_def mult_Suc by linarith
  show "is_election_block_at ?p (number (e n))"
    using fit u by (subst is_election_block_at_nat [OF assms(1)]) simp_all
  show "election_block_of ?p w = Some (number (e n)) \<longleftrightarrow> unat w = n"
    using el by (auto simp: election_block_of_Some u)
  show "unat (epoch_at ?p (number (e n))) = n"
  proof (cases n)
    case 0
    then show ?thesis using u by (simp add: epoch_at_def word_le_nat_alt)
  next
    case (Suc m)
    then have "genesis ?p < unat (number (e n))" using u el by simp
    then have "unat (epoch_at ?p (number (e n))) = (unat (number (e n)) - genesis ?p + epoch_len ?p - 1) div epoch_len ?p"
      by (rule epoch_at_nat [OF assms(1)])
    also have "unat (number (e n)) - genesis ?p + epoch_len ?p - 1 = (epoch_len ?p - 1) + n * epoch_len ?p" using el u by linarith
    also have "((epoch_len ?p - 1) + n * epoch_len ?p) div epoch_len ?p = n" using el by (rule pred_mult_div)
    finally show ?thesis .
  qed
qed

lemma chain_number_inj:
  assumes "wf_policy (be_policy B)" "election_chain B N e" "m \<le> N" "n \<le> N" "number (e m) = number (e n)"
  shows "m = n"
proof -
  have "m = unat (epoch_at (be_policy B) (number (e m)))" using chain_epoch(1) [OF assms(1,2,3)] by (rule sym)
  also have "\<dots> = n" unfolding assms(5) by (rule chain_epoch(1) [OF assms(1,2,4)])
  finally show ?thesis .
qed

lemma hop_path_between: "hop_path t w hs \<Longrightarrow> h \<in> set hs \<Longrightarrow> t < h \<and> h \<le> w"
proof (induction hs arbitrary: w)
  case (Cons x hs)
  have "x \<le> w" using Cons.prems(1) by (auto simp: skips_def)
  then show ?case using Cons by (metis diff_le_self hop_path.simps(2) le_trans set_ConsD)
qed simp

lemma those_map: "those (map f xs) = Some ys \<longleftrightarrow> map f xs = map Some ys"
  by (induction xs arbitrary: ys) (auto split: option.splits)

lemma chain_hops:
  assumes "wf_policy (be_policy B)" "election_chain B N e" "L \<le> N" "1 \<le> t" "t \<le> L"
  shows "\<exists>hs. get_interlink_hops (be_policy B) (number (e t)) (number (e L)) = Some (Some (map (\<lambda>n. number (e n)) hs)) \<and>
    hop_path t (L - 1) hs"
proof -
  let ?p = "be_policy B"
  define tw where "tw = epoch_at ?p (number (e t))"
  define Lw where "Lw = epoch_at ?p (number (e L))"
  have u: "unat tw = t" "unat Lw = L" unfolding tw_def Lw_def using assms(3-5) by (auto intro!: chain_epoch(1) [OF assms(1,2)])
  have L1: "unat (Lw - 1) = L - 1" using u assms(4,5) by (subst unat_minus_one) auto
  have "\<forall>j\<ge>32. unat (Lw - 1) div 2 ^ j * 2 ^ j < unat tw" using u(1) assms(4) hop_top [of "unat tw"] by simp
  then obtain hs where hs: "hops_loop tw Lw [] = Some hs" "hop_path t (L - 1) (map unat hs)"
    using hops_loop_path [of tw 32 Lw "[]"] u assms(4) L1 by auto
  have "election_block_of ?p h = Some (number (e (unat h)))" if "h \<in> set hs" for h
    using hop_path_between [OF hs(2), of "unat h"] that assms(3) chain_epoch(3) [OF assms(1,2), of "unat h" h] by fastforce
  then have "those (map (election_block_of ?p) hs) = Some (map (\<lambda>n. number (e n)) (map unat hs))" by (simp add: those_map)
  moreover have "tw \<noteq> 0" using u assms(4) by auto
  ultimately have "get_interlink_hops ?p (number (e t)) (number (e L)) = Some (Some (map (\<lambda>n. number (e n)) (map unat hs)))"
    using hs(1) by (simp add: get_interlink_hops_def Let_def tw_def [symmetric] Lw_def [symmetric])
  then show ?thesis using hs(2) by blast
qed

lemma chain_hops_linked:
  assumes "wf_policy (be_policy B)" "election_chain B N e" "hop_path t w (h # hs)" "h \<le> N"
  shows "hops_linked B (map e (h # hs)) \<and> references_block B (e (last (h # hs))) (e t)"
  using assms(3,4)
proof (induction hs arbitrary: h w)
  case Nil
  then have "skips (h - 1) t \<or> t = h - 1" "0 < h" by auto
  then show ?case using chain_references [OF assms(1,2) _ Nil.prems(2)] by simp
next
  case (Cons h' hs)
  then have p: "skips (h - 1) h'" "hop_path t (h - 1) (h' # hs)" "0 < h" by auto
  have "h' \<le> N" using hop_path_between [OF p(2), of h'] Cons.prems(2) by auto
  then have "hops_linked B (map e (h' # hs)) \<and> references_block B (e (last (h' # hs))) (e t)" using Cons.IH [OF p(2)] by simp
  then show ?case using chain_interlink [OF assms(1,2) p(3) Cons.prems(2)] p(1) by auto
qed

lemma chain_check_hops:
  assumes "wf_policy (be_policy B)" "election_chain B N e" "L \<le> N" "t < L" "hop_path t (L - 1) hs"
    "\<And>h. h \<in> set hs \<Longrightarrow> number_to_block proof (number (e h)) = Some (e h)"
  shows "check_hops B proof (e L) (e t) (map (\<lambda>n. number (e n)) hs) = Some True"
proof (cases hs)
  case Nil
  then have "skips (L - 1) t \<or> t = L - 1" using assms(4,5) by auto
  then show ?thesis using chain_references [OF assms(1,2) _ assms(3)] assms(4) Nil by (simp add: check_hops_def)
next
  case (Cons h hs')
  have hN: "x \<le> N \<and> 0 < x" if "x \<in> set hs" for x using hop_path_between [OF assms(5) that] assms(3) by linarith
  have th: "those (map (number_to_block proof) (map (\<lambda>n. number (e n)) hs)) = Some (map e hs)"
    using assms(6) by (simp add: those_map del: map_map) simp
  have lk: "hops_linked B (map e hs)" "references_block B (e (last hs)) (e t)"
    using chain_hops_linked [OF assms(1,2), of t "L - 1" h hs'] assms(5) hN [of h] Cons by simp_all
  obtain l where l: "mah_interlink (ma_header (e L)) = Some l" "macro_block_hash B (e h) \<in> set l"
    using chain_interlink [OF assms(1,2) _ assms(3)] assms(4,5) Cons by auto
  have la: "last hs \<in> set hs" "hd hs = h" using Cons by simp_all
  obtain l' where l': "mah_interlink (ma_header (e (last hs))) = Some l'"
    using chain_interlink [OF assms(1,2)] hN [OF la(1)] by blast
  have "last (map e hs) = e (last hs)" "hd (map e hs) = e h" using Cons la by (simp_all add: last_map hd_map)
  then show ?thesis
    using th lk l l' Cons by (auto simp: check_hops_def references_block_def)
qed

lemma map_of_unique:
  assumes "(k, v) \<in> set xs" "\<And>v'. (k, v') \<in> set xs \<Longrightarrow> v' = v"
  shows "map_of xs k = Some v"
  using assms by (metis map_of_SomeD map_of_eq_None_iff fst_conv image_eqI option.exhaust)

lemma chain_number_to_block:
  assumes "wf_policy (be_policy B)" "election_chain B N e" "set proof \<subseteq> e ` {1..N}" "e h \<in> set proof" "h \<le> N"
  shows "number_to_block proof (number (e h)) = Some (e h)"
  unfolding number_to_block_def
proof (rule map_of_unique)
  show "(number (e h), e h) \<in> set (rev (map (\<lambda>b. (number b, b)) proof))" using assms(4) by force
  fix v assume "(number (e h), v) \<in> set (rev (map (\<lambda>b. (number b, b)) proof))"
  then obtain n where "v = e n" "n \<le> N" "number (e h) = number (e n)" using assms(3) by auto
  then show "v = e h" using chain_number_inj [OF assms(1,2,5)] by blast
qed

lemma chain_proven:
  assumes "wf_policy (be_policy B)" "election_chain B N e" "L \<le> N" "t < L" "set proof \<subseteq> e ` {1..N}"
    and hs: "get_interlink_hops (be_policy B) (number (e t)) (number (e L)) = Some (Some (map (\<lambda>n. number (e n)) hs))"
      "hop_path t (L - 1) hs" "e ` set hs \<subseteq> set proof"
  shows "is_block_proven B proof (e L) (e t) = Some (Some True)"
proof -
  have "number_to_block proof (number (e h)) = Some (e h)" if "h \<in> set hs" for h
  proof (rule chain_number_to_block [OF assms(1,2,5)])
    show "e h \<in> set proof" using hs(3) that by blast
    show "h \<le> N" using hop_path_between [OF hs(2) that] assms(3) by linarith
  qed
  then have c: "check_hops B proof (e L) (e t) (map (\<lambda>n. number (e n)) hs) = Some True"
    by (rule chain_check_hops [OF assms(1-4) hs(2)])
  have "macro_is_election (be_policy B) (ma_header (e t))"
    using chain_epoch(2) [OF assms(1,2), of t] assms(3,4) by (simp add: macro_is_election_def)
  moreover have "mah_interlink (ma_header b) \<noteq> None" if b: "b \<in> set proof" for b
  proof -
    obtain n where n: "b = e n" "0 < n" "n \<le> N" using b assms(5) by auto
    show ?thesis using chain_interlink [OF assms(1,2) n(2,3)] n(1) by blast
  qed
  ultimately show ?thesis using hs(1) c by (auto simp: is_block_proven_def list_ex_iff)
qed

lemma chain_hop_blocks:
  assumes "\<And>n. n \<le> N \<Longrightarrow> get_block_at (number (e n)) = Some (Macro_Block (e n))" "\<And>h. h \<in> set hs \<Longrightarrow> h \<le> N"
  shows "set (hop_blocks get_block_at numbers (map (\<lambda>n. number (e n)) hs)) = e ` {h \<in> set hs. number (e h) \<notin> set numbers}"
  using assms(2) by (induction hs) (auto simp: hop_blocks_def assms(1))

text \<open>The answer to a request has the blocks of all hops.\<close>

lemma chain_collect_hops:
  assumes "wf_policy (be_policy B)" "election_chain B N e" "L \<le> N"
    "\<And>n. n \<le> N \<Longrightarrow> get_block_at (number (e n)) = Some (Macro_Block (e n))" "\<forall>t\<in>set ts. 1 \<le> t \<and> t \<le> L"
    "set ens \<subseteq> {1..N}" "e ` set ens \<subseteq> set acc" "set acc \<subseteq> e ` {1..N}"
  shows "\<exists>P. collect_hops (be_policy B) get_block_at (number (e L)) (map (\<lambda>n. number (e n)) ens) (map (\<lambda>n. number (e n)) ts) acc =
      Some (Some P) \<and> set acc \<subseteq> set P \<and> set P \<subseteq> e ` {1..N} \<and>
    (\<forall>t\<in>set ts. \<exists>hs. get_interlink_hops (be_policy B) (number (e t)) (number (e L)) = Some (Some (map (\<lambda>n. number (e n)) hs)) \<and>
       hop_path t (L - 1) hs \<and> e ` set hs \<subseteq> set P)"
  using assms(5-8)
proof (induction ts arbitrary: ens acc)
  case (Cons t ts)
  let ?num = "\<lambda>n. number (e n)"
  obtain hs where hs: "get_interlink_hops (be_policy B) (?num t) (?num L) = Some (Some (map ?num hs))" "hop_path t (L - 1) hs"
    using chain_hops [OF assms(1-3), of t] Cons.prems(1) by auto
  have hN: "1 \<le> h \<and> h \<le> N" if "h \<in> set hs" for h using hop_path_between [OF hs(2) that] assms(3) by linarith
  let ?acc = "acc @ hop_blocks get_block_at (map ?num ens) (map ?num hs)"
  have new: "set (hop_blocks get_block_at (map ?num ens) (map ?num hs)) = e ` {h \<in> set hs. ?num h \<notin> set (map ?num ens)}"
    using hN by (intro chain_hop_blocks [of N]) (auto simp: assms(4))
  have old: "h \<in> set ens" if h: "h \<in> set hs" "?num h \<in> set (map ?num ens)" for h
  proof -
    obtain n where "n \<in> set ens" "?num h = ?num n" using h(2) by auto
    then show ?thesis using chain_number_inj [OF assms(1,2)] hN [OF h(1)] Cons.prems(2) by (metis atLeastAtMost_iff subsetD)
  qed
  have "e h \<in> set ?acc" if "h \<in> set hs" for h
    using old [OF that] Cons.prems(3) that by (cases "?num h \<in> set (map ?num ens)") (auto simp: new)
  then have sub: "e ` set hs \<subseteq> set ?acc" by blast
  have c: "e ` set (ens @ hs) \<subseteq> set ?acc" using sub Cons.prems(3) by auto
  have i: "set (ens @ hs) \<subseteq> {1..N}" using hN Cons.prems(2) by auto
  have r: "set ?acc \<subseteq> e ` {1..N}" using hN Cons.prems(4) by (auto simp: new)
  have "\<forall>t\<in>set ts. 1 \<le> t \<and> t \<le> L" using Cons.prems(1) by simp
  from Cons.IH [OF this i c r]
  obtain P where P: "collect_hops (be_policy B) get_block_at (?num L) (map ?num (ens @ hs)) (map ?num ts) ?acc = Some (Some P)"
    "set ?acc \<subseteq> set P" "set P \<subseteq> e ` {1..N}"
    "\<forall>t\<in>set ts. \<exists>hs. get_interlink_hops (be_policy B) (?num t) (?num L) = Some (Some (map ?num hs)) \<and>
       hop_path t (L - 1) hs \<and> e ` set hs \<subseteq> set P"
    by (elim exE conjE) (rule that)
  have "collect_hops (be_policy B) get_block_at (?num L) (map ?num ens) (map ?num (t # ts)) acc = Some (Some P)"
    using hs(1) P(1) by simp
  moreover have "e ` set hs \<subseteq> set P" "set acc \<subseteq> set P" using sub P(2) by auto
  ultimately show ?case using hs P(3,4) by (intro exI [of _ P]) auto
qed simp

lemma chain_check_numbers:
  assumes "wf_policy (be_policy B)" "election_chain B N e" "L \<le> N" "\<forall>t\<in>set ts. 1 \<le> t \<and> t \<le> L"
  shows "check_numbers (be_policy B) (number (e L)) (number (e N)) (map (\<lambda>n. number (e n)) ts) = None"
proof -
  have u: "unat (number (e n)) = genesis (be_policy B) + n * epoch_len (be_policy B)" if "n \<le> N" for n
    using assms(2) that by (simp add: election_chain_def)
  have mono: "number (e m) \<le> number (e n)" if "m \<le> n" "n \<le> N" for m n
    using that by (simp add: word_le_nat_alt u)
  have g: "number (e n) \<noteq> genesis_block_number (be_policy B)" if "1 \<le> n" "n \<le> N" for n
    using u [OF that(2)] that(1) epoch_len_ge [OF assms(1)] by auto
  show ?thesis
    using assms(4)
  proof (induction ts)
    case (Cons t ts)
    then show ?case
      using mono [of t L] mono [OF assms(3)] g [of t] chain_epoch(2) [OF assms(1,2), of t] assms(3) by (auto simp: not_less)
  qed simp
qed

section \<open>An example\<close>

definition example_chain :: "nat \<Rightarrow> macro_block" where
  "example_chain n = \<lparr> ma_header = example_macro_header \<lparr> mah_block_number := of_nat (200 + 128 * n), mah_extra_data := [of_nat n],
     mah_parent_election_hash := [of_nat (n - 1)], mah_interlink := Some (if n < 3 then [] else [[2]]) \<rparr>, ma_body = None,
     ma_justification = None \<rparr>"

lemma example_chain_next:
  "get_next_interlink example_blk_env (ma_header (example_chain 0)) = Some (Inr [])"
  "get_next_interlink example_blk_env (ma_header (example_chain 1)) = Some (Inr [])"
  "get_next_interlink example_blk_env (ma_header (example_chain 2)) = Some (Inr [[2]])"
  "get_next_interlink example_blk_env (ma_header (example_chain 3)) = Some (Inr [[2]])"
  by code_simp+

lemma example_chain_ok: "wf_policy (be_policy example_blk_env)" "election_chain example_blk_env 4 example_chain"
proof -
  have p: "be_policy example_blk_env = TEST_POLICY" by (simp add: example_blk_env_def)
  have g: "genesis TEST_POLICY = 200" "epoch_len TEST_POLICY = 128" by (simp_all add: TEST_POLICY_def blocks_per_epoch_def)
  show "wf_policy (be_policy example_blk_env)" unfolding p by (rule wf_policy_shipped(3))
  have num: "unat (number (example_chain n)) = 200 + n * 128" if "n \<le> 4" for n
    using that by (simp add: example_chain_def unat_of_nat del: of_nat_add of_nat_mult)
  have link: "get_next_interlink example_blk_env (ma_header (example_chain n)) = Some (Inr l) \<Longrightarrow>
      mah_interlink (ma_header (example_chain (Suc n))) = Some l" if "n < 4" for n l
  proof -
    have "n = 0 \<or> n = 1 \<or> n = 2 \<or> n = 3" using that by auto
    then show "get_next_interlink example_blk_env (ma_header (example_chain n)) = Some (Inr l) \<Longrightarrow>
      mah_interlink (ma_header (example_chain (Suc n))) = Some l"
      using example_chain_next by (elim disjE) (simp_all add: example_chain_def)
  qed
  show "election_chain example_blk_env 4 example_chain"
    unfolding election_chain_def p g
    by (intro conjI allI impI num link)
      (simp_all add: example_chain_def macro_block_hash_def macro_header_hash_def example_blk_env_def example_macro_header_def)
qed

section \<open>Properties\<close>

text \<open>
  C10. The computation of the hops ends for all heights, also those that no chain has, and a proof takes at
  most 31 hops.
\<close>

theorem interlink_hops_terminate:
  "\<exists>hops. get_interlink_hops p target latest = Some hops \<and> (case hops of None \<Rightarrow> True | Some hs \<Rightarrow> length hs \<le> 31)"
proof (cases "epoch_at p target = 0")
  case True
  then show ?thesis by (simp add: get_interlink_hops_def)
next
  case False
  then have t: "0 < unat (epoch_at p target)" by (simp add: unat_gt_0)
  obtain hs where hs: "hops_loop (epoch_at p target) (epoch_at p latest) [] = Some hs" "length hs \<le> 31"
    using hops_loop_path [OF t, of 32] hop_top [OF t] by fastforce
  have "length ys = length hs" if "those (map (election_block_of p) hs) = Some ys" for ys
    using that by (metis length_map those_map)
  then show ?thesis using hs False by (auto simp: get_interlink_hops_def Let_def split: option.split)
qed

text \<open>
  C8. Honest answers convince: a node that has the election blocks of a chain answers a request for blocks of
  the epochs up to the given election head with a proof, and the proof verifies for every requested block
  before the election head.
\<close>

theorem inclusion_proofs_complete:
  assumes "wf_policy (be_policy B)" "election_chain B N e" "L \<le> N"
    "\<forall>n\<le>N. get_block_at (mah_block_number (ma_header (e n))) = Some (Macro_Block (e n))"
    "length ts \<le> 255" "\<forall>t\<in>set ts. 1 \<le> t \<and> t \<le> L"
  shows "\<exists>proof. handle_blocks_proof (be_policy B) get_block_at (mah_block_number (ma_header (e N)))
      (mah_block_number (ma_header (e L))) (map (\<lambda>n. mah_block_number (ma_header (e n))) ts) = Some (Some (Inr proof)) \<and>
    (\<forall>t\<in>set ts. t < L \<longrightarrow> is_block_proven B proof (e L) (e t) = Some (Some True))"
proof -
  obtain P where P: "collect_hops (be_policy B) get_block_at (number (e L)) [] (map (\<lambda>n. number (e n)) ts) [] = Some (Some P)"
    "set P \<subseteq> e ` {1..N}"
    "\<forall>t\<in>set ts. \<exists>hs. get_interlink_hops (be_policy B) (number (e t)) (number (e L)) = Some (Some (map (\<lambda>n. number (e n)) hs)) \<and>
       hop_path t (L - 1) hs \<and> e ` set hs \<subseteq> set P"
    using chain_collect_hops [OF assms(1-3) _ assms(6), of get_block_at "[]" "[]"] assms(4) by auto
  have "is_block_proven B P (e L) (e t) = Some (Some True)" if "t \<in> set ts" "t < L" for t
    using P(3) that(1) chain_proven [OF assms(1-3) that(2) P(2)] by blast
  then show ?thesis
    using P(1) assms(5) chain_check_numbers [OF assms(1-3,6)] by (auto simp: handle_blocks_proof_def MAX_BLOCKS_def)
qed

theorem inclusion_proofs_complete_witness:
  "\<exists>proof. handle_blocks_proof TEST_POLICY (\<lambda>n. Some (Macro_Block (example_chain ((unat n - 200) div 128)))) 712 712 [328] =
      Some (Some (Inr proof)) \<and>
    is_block_proven example_blk_env proof (example_chain 4) (example_chain 1) = Some (Some True)"
proof -
  have p: "be_policy example_blk_env = TEST_POLICY" by (simp add: example_blk_env_def)
  have n: "number (example_chain 4) = 712" "number (example_chain (Suc 0)) = 328" by (simp_all add: example_chain_def)
  have "unat (number (example_chain n)) = 200 + n * 128" if "n \<le> 4" for n
    using that by (simp add: example_chain_def unat_of_nat del: of_nat_add of_nat_mult)
  then show ?thesis
    using inclusion_proofs_complete [OF example_chain_ok order_refl, of "\<lambda>n. Some (Macro_Block (example_chain ((unat n - 200) div 128)))" "[1]"]
    unfolding p by (simp add: n)
qed

text \<open>A path of references from block to block.\<close>

fun reference_path :: "('k, 'z) blk_env_scheme \<Rightarrow> macro_block \<Rightarrow> macro_block list \<Rightarrow> macro_block \<Rightarrow> bool" where
  "reference_path B b [] target \<longleftrightarrow> references_block B b target"
| "reference_path B b (c # cs) target \<longleftrightarrow> references_block B b c \<and> reference_path B c cs target"

lemma hops_linked_path:
  assumes "hops_linked B (b # bs)" "\<forall>c\<in>set (b # bs). mah_interlink (ma_header c) \<noteq> None" "references_block B (last (b # bs)) target"
  shows "reference_path B b bs target"
  using assms by (induction bs arbitrary: b) (auto simp: references_block_def)

text \<open>
  C9. Proofs are sound: if a proof verifies, the target is an election block, and from the election head a path
  of hash references through blocks of the proof leads to it.
\<close>

theorem inclusion_proofs_sound:
  assumes "is_block_proven B proof election_head target = Some (Some True)"
  shows "macro_is_election (be_policy B) (ma_header target) \<and>
    (\<exists>bs. set bs \<subseteq> set proof \<and> reference_path B election_head bs target)"
proof -
  have el: "macro_is_election (be_policy B) (ma_header target)" and sane: "\<forall>b\<in>set proof. mah_interlink (ma_header b) \<noteq> None"
    using assms by (auto simp: is_block_proven_def list_ex_iff split: if_splits)
  then obtain hops where c: "check_hops B proof election_head target hops = Some True"
    using assms by (auto simp: is_block_proven_def Option.bind_eq_Some_conv split: if_splits)
  have "\<exists>bs. set bs \<subseteq> set proof \<and> reference_path B election_head bs target"
  proof (cases "hops = []")
    case True
    then show ?thesis using c by (intro exI [of _ "[]"]) (simp add: check_hops_def)
  next
    case False
    then obtain bs where bs: "those (map (number_to_block proof) hops) = Some bs"
      using c by (auto simp: check_hops_def split: option.splits)
    have sub: "b \<in> set proof" if "b \<in> set bs" for b
    proof -
      have "Some b \<in> set (map (number_to_block proof) hops)" using bs that by (simp only: those_map) simp
      then obtain h where "number_to_block proof h = Some b" by fastforce
      then show ?thesis unfolding number_to_block_def by (auto dest: map_of_SomeD)
    qed
    have ne: "bs \<noteq> []" using bs False by (auto simp: those_map)
    then obtain b bs' where b: "bs = b # bs'" by (cases bs) auto
    have "references_block B election_head b" "hops_linked B bs" "references_block B (last bs) target"
      using c bs False b by (auto simp: check_hops_def references_block_def split: option.splits if_splits)
    then have "reference_path B election_head bs target"
      using hops_linked_path [of B b bs' target] sane sub b by simp
    then show ?thesis using sub by blast
  qed
  then show ?thesis using el by blast
qed

theorem inclusion_proofs_sound_witness:
  "\<exists>bs. set bs \<subseteq> {example_chain 2} \<and> reference_path example_blk_env (example_chain 4) bs (example_chain 1)"
proof -
  have f: "find_interlink 3 1 (ilog2 3) = Some 2" by code_simp
  have h: "hops_loop 1 4 [] = Some [2]" by (subst hops_loop.simps, simp add: f, subst hops_loop.simps, simp)
  have e: "epoch_at TEST_POLICY 328 = 1" "epoch_at TEST_POLICY 712 = 4" "election_block_of TEST_POLICY 2 = Some 456"
    by (simp_all add: epoch_at_def TEST_POLICY_def blocks_per_epoch_def w_div_ceil_def Let_def election_block_of_Some)
  have n: "number (example_chain 4) = 712" "number (example_chain 1) = 328" "be_policy example_blk_env = TEST_POLICY"
    by (simp_all add: example_chain_def example_blk_env_def)
  have "check_hops example_blk_env [example_chain 2] (example_chain 4) (example_chain 1) [456] = Some True"
    "macro_is_election TEST_POLICY (ma_header (example_chain 1))"
    "\<not> list_ex (\<lambda>b. mah_interlink (ma_header b) = None) [example_chain 2]"
    by code_simp+
  then have "is_block_proven example_blk_env [example_chain 2] (example_chain 4) (example_chain 1) = Some (Some True)"
    unfolding is_block_proven_def get_interlink_hops_def n e Let_def by (simp add: h e)
  then show ?thesis
    using inclusion_proofs_sound [of example_blk_env "[example_chain 2]" "example_chain 4" "example_chain 1"] by auto
qed

end
