(* ===== verification/ChainState.thy ===== *)
theory ChainState
  imports Block Election
begin

text \<open>
  The state at the head of the chain (\<^verbatim>\<open>blockchain/src/blockchain_state.rs\<close>) and the information kept for each
  block (\<^verbatim>\<open>blockchain-interface/src/chain_info.rs\<close>). The accounts tree is complete, so no range of it is missing.
\<close>

record chain_info =
  ci_head :: block
  ci_on_main_chain :: bool
  ci_main_chain_successor :: "blake2b_hash option"
  ci_cum_tx_fees :: coin
  ci_cum_hist_tx_size :: u64
  ci_history_tree_len :: u64
  ci_prunable :: bool

definition chain_info_new :: "policy \<Rightarrow> block \<Rightarrow> bool \<Rightarrow> chain_info" where
  "chain_info_new p head on_main_chain = \<lparr> ci_head = head, ci_on_main_chain = on_main_chain, ci_main_chain_successor = None,
     ci_cum_tx_fees = 0, ci_cum_hist_tx_size = 0, ci_history_tree_len = 0, ci_prunable = (\<not> block_is_election p head) \<rparr>"

definition chain_info_from_block :: "policy \<Rightarrow> block \<Rightarrow> chain_info \<Rightarrow> (block_error, chain_info) res" where
  "chain_info_from_block p b prev_info =
    (if block_number (ci_head prev_info) \<noteq> block_number b - 1 then None
     else case sum_transaction_fees b of
       Inl e \<Rightarrow> err_res e
     | Inr block_fees \<Rightarrow>
         bind_res (if is_macro_block_at p (block_number (ci_head prev_info)) then ok_res block_fees
                   else some_or_res TransactionFeeOverflow (checked_add (ci_cum_tx_fees prev_info) block_fees)) (\<lambda>cum_tx_fees.
         ok_res \<lparr> ci_head = b, ci_on_main_chain = False, ci_main_chain_successor = None, ci_cum_tx_fees = cum_tx_fees,
                  ci_cum_hist_tx_size = 0, ci_history_tree_len = 0, ci_prunable = (\<not> block_is_election p b) \<rparr>))"

definition HISTORY_CHUNKS_MAX_SIZE :: u64 where
  "HISTORY_CHUNKS_MAX_SIZE = 25 * 1024 * 1024"

definition set_cumulative_hist_tx_size :: "policy \<Rightarrow> chain_info \<Rightarrow> u64 \<Rightarrow> chain_info \<Rightarrow> chain_info" where
  "set_cumulative_hist_tx_size p prev_info block_hist_tx_size info =
    (let prev_number = block_number (ci_head prev_info) in
     if is_election_block_at p prev_number \<or> is_macro_block_at p prev_number \<and> \<not> ci_prunable prev_info
     then info \<lparr> ci_cum_hist_tx_size := block_hist_tx_size, ci_prunable := True \<rparr>
     else if is_macro_block_at p (block_number (ci_head info)) \<and>
       ci_cum_hist_tx_size prev_info + block_hist_tx_size > HISTORY_CHUNKS_MAX_SIZE
     then info \<lparr> ci_cum_hist_tx_size := ci_cum_hist_tx_size prev_info + block_hist_tx_size, ci_prunable := False \<rparr>
     else info \<lparr> ci_cum_hist_tx_size := ci_cum_hist_tx_size prev_info + block_hist_tx_size, ci_prunable := True \<rparr>)"

record blockchain_state =
  bst_accounts :: accounts
  bst_main_chain :: chain_info
  bst_head_hash :: blake2b_hash
  bst_macro_info :: chain_info
  bst_macro_head_hash :: blake2b_hash
  bst_election_head :: macro_block
  bst_election_head_hash :: blake2b_hash
  bst_current_slots :: "validator_set option"
  bst_previous_slots :: "validator_set option"

definition current_version :: "blockchain_state \<Rightarrow> u16" where
  "current_version st = block_version (ci_head (bst_main_chain st))"

record blockchain =
  bc_network_id :: network_id
  bc_state :: blockchain_state
  bc_genesis_supply :: coin
  bc_genesis_timestamp :: u64

text \<open>The staking contract; \<open>None\<close> is the panic of another account under its address.\<close>

definition get_staking_contract :: "accounts \<Rightarrow> staking_contract option" where
  "get_staking_contract accts = (case accounts_get accts STAKING_CONTRACT_ADDRESS of
     Account_Staking c \<Rightarrow> Some c | _ \<Rightarrow> None)"

definition get_staking_contract_store :: "accounts \<Rightarrow> sc_store" where
  "get_staking_contract_store accts = acc_store accts STAKING_CONTRACT_ADDRESS"

end
