(* ===== verification/Rewards.thy ===== *)
theory Rewards
  imports ChainState BlockProperties Double
begin

text \<open>
  Rewards: the supply curve and the penalty of late batches (\<^verbatim>\<open>primitives/src/policy.rs\<close>), the reward of a batch
  (\<^verbatim>\<open>blockchain/src/reward.rs\<close>), its distribution over the slots, and the inherents of a macro block
  (\<^verbatim>\<open>blockchain/src/blockchain/inherents.rs\<close>). Doubles are the rational numbers of the theory \<open>Double\<close>.
\<close>

section \<open>The supply curve\<close>

definition SUPPLY_DECAY :: rat where
  "SUPPLY_DECAY = f64_round (9999999999960264 / 10 ^ 16)"

definition BLOCKS_DELAY_DECAY :: rat where
  "BLOCKS_DELAY_DECAY = f64_round (9999999989 / 10 ^ 10)"

definition MINIMUM_REWARDS_PERCENTAGE :: rat where
  "MINIMUM_REWARDS_PERCENTAGE = 1 / 2"

definition BLOCK_SEPARATION_TIME :: u64 where
  "BLOCK_SEPARATION_TIME = 1000"

text \<open>Conversions between integers and doubles; a conversion to an integer truncates and saturates.\<close>

definition u64_as_f64 :: "u64 \<Rightarrow> rat" where
  "u64_as_f64 n = f64_round (of_nat (unat n))"

definition f64_as_u64 :: "rat \<Rightarrow> u64" where
  "f64_as_u64 x = (if x \<le> 0 then 0 else if x \<ge> 2 ^ 64 then - 1 else of_nat (nat \<lfloor>x\<rfloor>))"

definition f64_add :: "rat \<Rightarrow> rat \<Rightarrow> rat" where
  "f64_add x y = f64_round (x + y)"

definition f64_sub :: "rat \<Rightarrow> rat \<Rightarrow> rat" where
  "f64_sub x y = f64_round (x - y)"

definition supply_at :: "u64 \<Rightarrow> u64 \<Rightarrow> u64 \<Rightarrow> u64 option" where
  "supply_at genesis_supply genesis_time current_time =
    map_option (\<lambda>t. of_nat TOTAL_SUPPLY -
        f64_as_u64 (f64_mul (u64_as_f64 (of_nat TOTAL_SUPPLY - genesis_supply)) (f64_powi SUPPLY_DECAY t)))
      (w_checked_sub current_time genesis_time)"

definition batch_delay_penalty :: "u64 \<Rightarrow> rat" where
  "batch_delay_penalty delay =
    f64_add (f64_mul (f64_sub 1 MINIMUM_REWARDS_PERCENTAGE) (f64_powi (f64_powi BLOCKS_DELAY_DECAY delay) delay))
      MINIMUM_REWARDS_PERCENTAGE"

section \<open>The reward of a batch\<close>

definition genesis_parameters :: "macro_header \<Rightarrow> (coin \<times> u64) option" where
  "genesis_parameters genesis_block =
    map_option (\<lambda>supply. (supply, mah_timestamp genesis_block))
      (if length (mah_extra_data genesis_block) < 8 then Some 0
       else from_u64_unchecked (be_nat (take 8 (mah_extra_data genesis_block))))"

definition batch_delay :: "policy \<Rightarrow> u64 \<Rightarrow> u64 \<Rightarrow> u64" where
  "batch_delay p previous_timestamp current_timestamp =
    w_saturating_sub current_timestamp (previous_timestamp + BLOCK_SEPARATION_TIME * ucast (blocks_per_batch p))"

definition block_reward_for_batch :: "policy \<Rightarrow> macro_header \<Rightarrow> macro_header \<Rightarrow> coin \<Rightarrow> u64 \<Rightarrow> coin option" where
  "block_reward_for_batch p current_block previous_macro genesis_supply genesis_timestamp =
    (let current_timestamp = mah_timestamp current_block; previous_timestamp = mah_timestamp previous_macro in
     if \<not> current_timestamp \<ge> previous_timestamp \<or> \<not> previous_timestamp \<ge> genesis_timestamp then None
     else Option.bind (supply_at (of_nat genesis_supply) genesis_timestamp previous_timestamp) (\<lambda>prev_supply.
       Option.bind (supply_at (of_nat genesis_supply) genesis_timestamp current_timestamp) (\<lambda>current_supply.
       let max_rewards = w_saturating_sub current_supply prev_supply;
           batch_delay_penalty = batch_delay_penalty (batch_delay p previous_timestamp current_timestamp)
       in from_u64_unchecked (unat (f64_as_u64 (f64_mul (u64_as_f64 max_rewards) batch_delay_penalty))))))"

definition block_reward_for_batch_with_genesis :: "policy \<Rightarrow> macro_header \<Rightarrow> macro_header \<Rightarrow> macro_header \<Rightarrow> coin option" where
  "block_reward_for_batch_with_genesis p current_block previous_macro genesis_block =
    Option.bind (genesis_parameters genesis_block) (\<lambda>(supply, timestamp).
    block_reward_for_batch p current_block previous_macro supply timestamp)"

section \<open>Distribution over the slots\<close>

definition burn_address :: address where
  "burn_address = 0"

record reward_acc =
  ra_transactions :: "reward_transaction list"
  ra_eligible :: "u64 list"
  ra_burned :: coin

text \<open>The penalized slots of a band: what is left of them, and the numbers of eligible and of penalized slots.\<close>

fun take_penalized :: "u16 \<Rightarrow> u16 \<Rightarrow> nat list \<Rightarrow> u64 \<Rightarrow> u64 \<Rightarrow> (nat list \<times> u64 \<times> u64) option" where
  "take_penalized first_slot_number last_slot_number [] num_eligible_slots num_penalized_slots =
    Some ([], num_eligible_slots, num_penalized_slots)"
| "take_penalized first_slot_number last_slot_number (slot # slots) num_eligible_slots num_penalized_slots =
    (let next_penalized_slot = of_nat slot in
     if \<not> next_penalized_slot \<ge> first_slot_number then None
     else if next_penalized_slot < last_slot_number then
       if num_eligible_slots > 0
       then take_penalized first_slot_number last_slot_number slots (num_eligible_slots - 1) (num_penalized_slots + 1)
       else None
     else Some (slot # slots, num_eligible_slots, num_penalized_slots))"

definition reward_band :: "accounts \<Rightarrow> coin \<Rightarrow> u16 \<Rightarrow> nat list \<Rightarrow> reward_acc \<Rightarrow> slot_validator \<Rightarrow>
  (u16 \<times> nat list \<times> reward_acc) option" where
  "reward_band accts slot_reward first_slot_number penalized acc validator_slot =
    (let last_slot_number = first_slot_number + num_slots validator_slot in
     Option.bind (take_penalized first_slot_number last_slot_number penalized (ucast (num_slots validator_slot)) 0)
       (\<lambda>(rest, num_eligible_slots, num_penalized_slots).
     Option.bind (checked_mul slot_reward (unat num_eligible_slots)) (\<lambda>reward.
     Option.bind (Option.bind (checked_mul slot_reward (unat num_penalized_slots)) (coin_add (ra_burned acc))) (\<lambda>burned_reward.
     Option.bind (fmlookup (st_validators (get_staking_contract_store accts)) (sv_address validator_slot)) (\<lambda>validator.
     let tx = \<lparr> rw_validator_address = v_address validator, rw_recipient = v_reward_address validator, rw_value = reward \<rparr> in
     if account_type_of (accounts_get accts (rw_recipient tx)) = Basic
     then Some (last_slot_number, rest, \<lparr> ra_transactions = ra_transactions acc @ [tx],
       ra_eligible = ra_eligible acc @ [num_eligible_slots], ra_burned = burned_reward \<rparr>)
     else map_option (\<lambda>burned. (last_slot_number, rest, acc \<lparr> ra_burned := burned \<rparr>)) (coin_add burned_reward reward))))))"

fun reward_bands :: "accounts \<Rightarrow> coin \<Rightarrow> u16 \<Rightarrow> nat list \<Rightarrow> reward_acc \<Rightarrow> slot_validator list \<Rightarrow> reward_acc option" where
  "reward_bands accts slot_reward first_slot_number penalized acc [] = Some acc"
| "reward_bands accts slot_reward first_slot_number penalized acc (v # vs) =
    Option.bind (reward_band accts slot_reward first_slot_number penalized acc v) (\<lambda>(last_slot_number, rest, acc').
    reward_bands accts slot_reward last_slot_number rest acc' vs)"

text \<open>The remainder goes to a random eligible slot, or is burned if there is none.\<close>

definition add_remainder :: "(u8 list \<Rightarrow> u8 list) \<Rightarrow> (vrf_seed \<Rightarrow> vrf_entropy option) \<Rightarrow> vrf_seed \<Rightarrow> coin \<Rightarrow> reward_acc \<Rightarrow>
  (error + reward_transaction list \<times> coin) option" where
  "add_remainder vrf_hash try_entropy seed remainder acc =
    (if ra_transactions acc \<noteq> [] \<and> list_ex (\<lambda>s. s > 0) (ra_eligible acc) then
       case (seed_rng try_entropy seed RewardDistribution, dd_new (ra_eligible acc)) of
         (Some rng, Some lookup) \<Rightarrow>
           map_option fst (bind_rnd (dd_sample (vrf_next_u64 vrf_hash) lookup) (\<lambda>index.
             if index < length (ra_transactions acc) then
               case coin_add (rw_value (ra_transactions acc ! index)) remainder of
                 None \<Rightarrow> panic_rnd
               | Some v \<Rightarrow> ret_rnd ((ra_transactions acc)[index := (ra_transactions acc ! index) \<lparr> rw_value := v \<rparr>], ra_burned acc)
             else panic_rnd) rng)
       | _ \<Rightarrow> Some (Inl Panic)
     else case coin_add (ra_burned acc) remainder of
       None \<Rightarrow> Some (Inl Panic)
     | Some burned_reward \<Rightarrow> Some (Inr (ra_transactions acc, burned_reward)))"

definition finish_rewards :: "reward_transaction list \<Rightarrow> coin \<Rightarrow> reward_transaction list" where
  "finish_rewards transactions burned_reward =
    filter (\<lambda>tx. rw_value tx \<noteq> 0) transactions @
    (if burned_reward > 0
     then [\<lparr> rw_validator_address = burn_address, rw_recipient = burn_address, rw_value = burned_reward \<rparr>] else [])"

definition distribute_rewards :: "(u8 list \<Rightarrow> u8 list) \<Rightarrow> (vrf_seed \<Rightarrow> vrf_entropy option) \<Rightarrow> accounts \<Rightarrow> vrf_seed \<Rightarrow> bitset \<Rightarrow>
  validator_set \<Rightarrow> coin \<Rightarrow> (error + reward_transaction list) option" where
  "distribute_rewards vrf_hash try_entropy accts seed penalized_set validator_slots reward_pot =
    (case (coin_div reward_pot (unat SLOTS), coin_rem reward_pot (unat SLOTS)) of
       (Some slot_reward, Some remainder) \<Rightarrow>
         (case reward_bands accts slot_reward 0 (bitset_iter penalized_set)
             \<lparr> ra_transactions = [], ra_eligible = [], ra_burned = 0 \<rparr> (vs_validators validator_slots) of
            None \<Rightarrow> Some (Inl Panic)
          | Some acc \<Rightarrow>
              if length (ra_transactions acc) \<noteq> length (ra_eligible acc) then Some (Inl Panic)
              else map_option (\<lambda>r. case r of Inl e \<Rightarrow> Inl e | Inr (transactions, burned) \<Rightarrow> Inr (finish_rewards transactions burned))
                (add_remainder vrf_hash try_entropy seed remainder acc))
     | _ \<Rightarrow> Some (Inl Panic))"

definition create_reward_transactions :: "policy \<Rightarrow> (u8 list \<Rightarrow> u8 list) \<Rightarrow> (vrf_seed \<Rightarrow> vrf_entropy option) \<Rightarrow> blockchain \<Rightarrow>
  accounts \<Rightarrow> macro_header \<Rightarrow> staking_contract \<Rightarrow> (error + reward_transaction list) option" where
  "create_reward_transactions p vrf_hash try_entropy bc accts macro_header staking_contract =
    (let st = bc_state bc in
     if batch_at p (mah_block_number macro_header) - 1 = 0 then Some (Inr [])
     else case (if first_batch_of_epoch p (mah_block_number macro_header) then bst_previous_slots st else bst_current_slots st) of
       None \<Rightarrow> Some (Inl Panic)
     | Some validator_slots \<Rightarrow> (case ci_head (bst_macro_info st) of
         Micro_Block _ \<Rightarrow> Some (Inl Panic)
       | Macro_Block prev_macro \<Rightarrow>
           (case Option.bind (block_reward_for_batch p macro_header (ma_header prev_macro) (bc_genesis_supply bc) (bc_genesis_timestamp bc))
               (\<lambda>block_reward. coin_add block_reward (ci_cum_tx_fees (bst_macro_info st))) of
              None \<Rightarrow> Some (Inl Panic)
            | Some reward_pot \<Rightarrow> distribute_rewards vrf_hash try_entropy accts (mah_seed macro_header)
                (previous_batch (stk_punished_slots staking_contract)) validator_slots reward_pot)))"

section \<open>Inherents of macro blocks\<close>

definition inherent_from_reward :: "reward_transaction \<Rightarrow> inherent" where
  "inherent_from_reward tx = Reward (rw_validator_address tx) (rw_recipient tx) (rw_value tx)"

definition finalize_previous_batch :: "policy \<Rightarrow> (u8 list \<Rightarrow> u8 list) \<Rightarrow> (vrf_seed \<Rightarrow> vrf_entropy option) \<Rightarrow> blockchain \<Rightarrow>
  macro_block \<Rightarrow> (error + inherent list) option" where
  "finalize_previous_batch p vrf_hash try_entropy bc macro_block =
    (let accts = bst_accounts (bc_state bc);
         rewards = (case ma_body macro_block of
           Some body \<Rightarrow> Some (Inr (mab_transactions body))
         | None \<Rightarrow> (case get_staking_contract accts of
             None \<Rightarrow> Some (Inl Panic)
           | Some c \<Rightarrow> create_reward_transactions p vrf_hash try_entropy bc accts (ma_header macro_block) c))
     in map_option (map_sum id (\<lambda>txs. map inherent_from_reward txs @ [FinalizeBatch])) rewards)"

definition finalize_previous_epoch :: "blockchain \<Rightarrow> u16 \<Rightarrow> inherent list" where
  "finalize_previous_epoch bc version =
    [FinalizeEpoch] @ (if Some version = w_checked_add (current_version (bc_state bc)) 1 then [VersionUpgrade version] else [])"

definition create_macro_block_inherents :: "policy \<Rightarrow> (u8 list \<Rightarrow> u8 list) \<Rightarrow> (vrf_seed \<Rightarrow> vrf_entropy option) \<Rightarrow> blockchain \<Rightarrow>
  macro_block \<Rightarrow> (error + inherent list) option" where
  "create_macro_block_inherents p vrf_hash try_entropy bc macro_block =
    map_option (map_sum id (\<lambda>inherents. inherents @
        (if is_election_block_at p (mah_block_number (ma_header macro_block))
         then finalize_previous_epoch bc (mah_version (ma_header macro_block)) else [])))
      (finalize_previous_batch p vrf_hash try_entropy bc macro_block)"

section \<open>Doubles between zero and one\<close>

lemma f64_round_half:
  assumes "0 \<le> n" "n < 2 ^ 53"
  shows "f64_round (of_int n / 2) = of_int n / 2"
proof -
  let ?x = "of_int n / 2 :: rat" and ?k = "shift_up 1074 (of_int n / 2)"
  have "(of_int n :: rat) < of_int (2 ^ 53)" using assms(2) by (simp only: of_int_less_iff)
  then have x: "?x < 2 ^ 52" by simp
  have "shift_up (Suc 1073) ?x = Suc (shift_up 1073 (2 * ?x))" using x by (simp only: shift_up.simps) simp
  moreover have n: "(1074 :: nat) = Suc 1073" by simp
  ultimately obtain j where j: "?k = Suc j" unfolding n by blast
  have "?x * 2 ^ ?k = of_int (n * 2 ^ j)" by (simp add: j)
  then have "rne (?x * 2 ^ ?k) = n * 2 ^ j" by (metis rne_int)
  then have "round_pos ?x = ?x" using x by (simp add: round_pos_small j)
  then show ?thesis using assms(1) by (auto simp: f64_round_def)
qed

definition unit_interval :: "rat \<Rightarrow> bool" where
  "unit_interval x \<longleftrightarrow> 0 \<le> x \<and> x \<le> 1"

lemma f64_round_unit: "unit_interval x \<Longrightarrow> unit_interval (f64_round x)"
  using f64_round_le [of x 1] f64_round_sign(1) [of x] by (simp add: unit_interval_def)

lemma f64_mul_unit: "unit_interval x \<Longrightarrow> unit_interval y \<Longrightarrow> unit_interval (f64_mul x y)"
  unfolding f64_mul_def by (rule f64_round_unit) (simp add: unit_interval_def mult_le_one)

lemma powi_loop_unit: "unit_interval x \<Longrightarrow> unit_interval y \<Longrightarrow> unit_interval (powi_loop x y n)"
proof (induction x y n rule: powi_loop.induct)
  case (1 x y n)
  show ?case
  proof (cases "n > 1")
    case True
    then have "powi_loop x y n = powi_loop (f64_mul x x) (if n mod 2 = 1 then f64_mul y x else y)
        ((if n mod 2 = 1 then n - 1 else n) div 2)"
      by (subst powi_loop.simps) (simp add: Let_def)
    then show ?thesis using "1.IH" [OF True refl refl] "1.prems" by (simp add: f64_mul_unit)
  next
    case False
    then show ?thesis using "1.prems" by (subst powi_loop.simps) (simp add: f64_mul_unit)
  qed
qed

lemma f64_powi_unit: "unit_interval x \<Longrightarrow> unit_interval (f64_powi x n)"
  using powi_loop_unit [of x 1 "unat n"] by (simp add: f64_powi_def unit_interval_def)

lemma decay_unit: "unit_interval SUPPLY_DECAY" "unit_interval BLOCKS_DELAY_DECAY"
  unfolding SUPPLY_DECAY_def BLOCKS_DELAY_DECAY_def by (rule f64_round_unit; simp add: unit_interval_def)+

lemma f64_as_u64_le:
  assumes "x \<le> of_nat n" "n < 2 ^ 64"
  shows "unat (f64_as_u64 x) \<le> n"
proof (cases "x \<le> 0")
  case False
  have "\<lfloor>x\<rfloor> \<le> int n" using floor_mono [OF assms(1)] by simp
  then have le: "nat \<lfloor>x\<rfloor> \<le> n" by simp
  have "x < 2 ^ 64"
  proof -
    have "(of_nat n :: rat) < of_nat (2 ^ 64)" using assms(2) by (simp only: of_nat_less_iff)
    then show ?thesis using assms(1) by simp
  qed
  then have "f64_as_u64 x = of_nat (nat \<lfloor>x\<rfloor>)" using False by (simp add: f64_as_u64_def)
  then show ?thesis using le assms(2) by (simp add: unat_of_nat)
qed (simp add: f64_as_u64_def)

lemma f64_as_u64_ge:
  assumes "of_nat n \<le> x" "x < 2 ^ 64"
  shows "n \<le> unat (f64_as_u64 x)"
proof (cases "x \<le> 0")
  case True
  then show ?thesis using assms(1) by simp
next
  case False
  have "int n \<le> \<lfloor>x\<rfloor>" using assms(1) by (simp add: le_floor_iff)
  moreover have "nat \<lfloor>x\<rfloor> < 2 ^ 64"
  proof -
    have "\<lfloor>x\<rfloor> < int (2 ^ 64)" using assms(2) by (simp add: floor_less_iff)
    then show ?thesis using False by (subst nat_less_iff) auto
  qed
  moreover have "f64_as_u64 x = of_nat (nat \<lfloor>x\<rfloor>)" using False assms(2) by (simp add: f64_as_u64_def)
  moreover have "unat (of_nat (nat \<lfloor>x\<rfloor>) :: u64) = nat \<lfloor>x\<rfloor> mod 2 ^ 64" by (simp only: unat_of_nat) simp
  ultimately show ?thesis by simp
qed

lemma u64_as_f64_exact: "unat n < 2 ^ 53 \<Longrightarrow> u64_as_f64 n = of_nat (unat n)"
  unfolding u64_as_f64_def by (rule f64_round_nat)

lemma f64_mul_nat_le:
  assumes "unit_interval x" "n < 2 ^ 53"
  shows "f64_mul (of_nat n) x \<le> of_nat n"
proof -
  have "of_nat n * x \<le> of_nat n * 1" using assms(1) by (intro mult_left_mono) (simp_all add: unit_interval_def)
  then have "of_nat n * x \<le> of_int (int n)" by simp
  then show ?thesis using assms(2) f64_round_le [of "of_nat n * x" "int n"] by (simp add: f64_mul_def)
qed

section \<open>The supply stays within its bounds\<close>

lemma supply_at_bounds:
  assumes "genesis_supply \<le> TOTAL_SUPPLY" "genesis_time \<le> current_time"
  shows "\<exists>supply. supply_at (of_nat genesis_supply) genesis_time current_time = Some supply \<and>
    genesis_supply \<le> unat supply \<and> unat supply \<le> TOTAL_SUPPLY"
proof -
  let ?t = "current_time - genesis_time" and ?rest = "of_nat TOTAL_SUPPLY - of_nat genesis_supply :: u64"
  have T: "TOTAL_SUPPLY < 2 ^ 53" by (simp add: TOTAL_SUPPLY_def)
  then have uT: "unat (of_nat TOTAL_SUPPLY :: u64) = TOTAL_SUPPLY" "unat (of_nat genesis_supply :: u64) = genesis_supply"
    using assms(1) by (simp_all add: unat_of_nat)
  then have ur: "unat ?rest = TOTAL_SUPPLY - genesis_supply" using assms(1) by (simp add: unat_sub_le word_le_nat_alt)
  let ?x = "f64_mul (u64_as_f64 ?rest) (f64_powi SUPPLY_DECAY ?t)"
  have "u64_as_f64 ?rest = of_nat (TOTAL_SUPPLY - genesis_supply)" using u64_as_f64_exact [of ?rest] ur T by simp
  then have "?x \<le> of_nat (TOTAL_SUPPLY - genesis_supply)"
    using f64_mul_nat_le [OF f64_powi_unit [OF decay_unit(1)], of "TOTAL_SUPPLY - genesis_supply" ?t] T by simp
  then have le: "unat (f64_as_u64 ?x) \<le> TOTAL_SUPPLY - genesis_supply" using T by (intro f64_as_u64_le) simp_all
  then have "unat (of_nat TOTAL_SUPPLY - f64_as_u64 ?x) = TOTAL_SUPPLY - unat (f64_as_u64 ?x)"
    using uT by (simp add: unat_sub_le word_le_nat_alt)
  moreover have "supply_at (of_nat genesis_supply) genesis_time current_time = Some (of_nat TOTAL_SUPPLY - f64_as_u64 ?x)"
    using assms(2) by (simp add: supply_at_def w_checked_sub_def)
  ultimately show ?thesis using le assms(1) by (intro exI [of _ "of_nat TOTAL_SUPPLY - f64_as_u64 ?x"]) simp
qed

lemma batch_delay_penalty_bounds: "1 / 2 \<le> batch_delay_penalty d" "batch_delay_penalty d \<le> 1"
proof -
  let ?q = "f64_powi (f64_powi BLOCKS_DELAY_DECAY d) d"
  have q: "unit_interval ?q" by (intro f64_powi_unit decay_unit)
  have half: "f64_round (1 / 2) = 1 / 2" using f64_round_half [of 1] by simp
  have one: "f64_round 1 = 1" using f64_round_int [of 1] by simp
  have m: "f64_sub 1 MINIMUM_REWARDS_PERCENTAGE = 1 / 2" using half by (simp add: f64_sub_def MINIMUM_REWARDS_PERCENTAGE_def)
  let ?y = "f64_mul (1 / 2) ?q"
  have y0: "0 \<le> ?y" using q f64_round_sign(1) [of "1 / 2 * ?q"] by (simp add: f64_mul_def unit_interval_def)
  have "f64_round (1 / 2 * ?q) \<le> f64_round (1 / 2)" using q by (intro f64_round_mono) (simp_all add: unit_interval_def)
  then have y1: "?y \<le> 1 / 2" unfolding half f64_mul_def .
  have e: "batch_delay_penalty d = f64_round (?y + 1 / 2)"
    unfolding batch_delay_penalty_def f64_add_def m unfolding MINIMUM_REWARDS_PERCENTAGE_def ..
  have "f64_round (1 / 2) \<le> f64_round (?y + 1 / 2)" using y0 y1 by (intro f64_round_mono) simp_all
  then show "1 / 2 \<le> batch_delay_penalty d" unfolding e half .
  have "f64_round (?y + 1 / 2) \<le> f64_round 1" using y0 y1 by (intro f64_round_mono) simp_all
  then show "batch_delay_penalty d \<le> 1" unfolding e one .
qed

lemma penalized_reward_bounds:
  assumes "n < 2 ^ 53"
  shows "n div 2 \<le> unat (f64_as_u64 (f64_mul (of_nat n) (batch_delay_penalty d)))"
    "unat (f64_as_u64 (f64_mul (of_nat n) (batch_delay_penalty d))) \<le> n"
proof -
  note p = batch_delay_penalty_bounds [of d]
  have hi: "f64_mul (of_nat n) (batch_delay_penalty d) \<le> of_nat n"
    using p assms by (intro f64_mul_nat_le) (simp_all add: unit_interval_def)
  then show "unat (f64_as_u64 (f64_mul (of_nat n) (batch_delay_penalty d))) \<le> n"
    using assms by (intro f64_as_u64_le) simp_all
  have "(of_nat n :: rat) < of_nat (2 ^ 53)" using assms by (simp only: of_nat_less_iff)
  then have lt: "(of_nat n :: rat) < 2 ^ 53" by simp
  have up: "of_nat n * batch_delay_penalty d \<le> of_nat n * 1" using p by (intro mult_left_mono) simp_all
  have lo: "of_int (int n) / 2 \<le> of_nat n * batch_delay_penalty d"
  proof -
    have "of_nat n * (1 / 2) \<le> of_nat n * batch_delay_penalty d" using p by (intro mult_left_mono) simp_all
    then show ?thesis by simp
  qed
  have "f64_round (of_int (int n) / 2) \<le> f64_round (of_nat n * batch_delay_penalty d)"
    using lo up lt p by (intro f64_round_mono) (simp_all add: abs_mult)
  moreover have "f64_round (of_int (int n) / 2) = of_int (int n) / 2" using assms by (intro f64_round_half) simp_all
  moreover have "(of_nat (n div 2) :: rat) \<le> of_nat n / 2"
  proof -
    have "(of_nat (n div 2 * 2) :: rat) \<le> of_nat n" by (simp only: of_nat_le_iff)
    then show ?thesis by (simp add: le_divide_eq)
  qed
  ultimately have "of_nat (n div 2) \<le> f64_mul (of_nat n) (batch_delay_penalty d)" by (simp add: f64_mul_def)
  moreover have "f64_mul (of_nat n) (batch_delay_penalty d) < 2 ^ 64" using hi lt by simp
  ultimately show "n div 2 \<le> unat (f64_as_u64 (f64_mul (of_nat n) (batch_delay_penalty d)))"
    by (rule f64_as_u64_ge)
qed


section \<open>The reward is distributed completely\<close>

definition reward_inv :: "accounts \<Rightarrow> coin \<Rightarrow> nat \<Rightarrow> reward_acc \<Rightarrow> bool" where
  "reward_inv accts slot_reward t acc \<longleftrightarrow>
    sum_list (map rw_value (ra_transactions acc)) + ra_burned acc = slot_reward * t \<and>
    map rw_value (ra_transactions acc) = map (\<lambda>e. slot_reward * unat e) (ra_eligible acc) \<and>
    (\<Sum>e\<leftarrow>ra_eligible acc. unat e) \<le> t \<and> length (ra_eligible acc) \<le> t \<and>
    (\<forall>tx\<in>set (ra_transactions acc). account_type_of (accounts_get accts (rw_recipient tx)) = Basic)"

text \<open>A validator that can be paid is paid for its slots that are not penalized.\<close>

definition paid :: "accounts \<Rightarrow> coin \<Rightarrow> nat set \<Rightarrow> reward_transaction list \<Rightarrow> slot_validator \<Rightarrow> bool" where
  "paid accts slot_reward P txs v \<longleftrightarrow> (\<forall>w. fmlookup (st_validators (get_staking_contract_store accts)) (sv_address v) = Some w \<and>
     account_type_of (accounts_get accts (v_reward_address w)) = Basic \<longrightarrow>
     (\<exists>tx\<in>set txs. rw_validator_address tx = v_address w \<and> rw_recipient tx = v_reward_address w \<and>
        slot_reward * card {s \<in> {unat (range_start (sv_slots v))..<unat (range_end (sv_slots v))}. s \<notin> P} \<le> rw_value tx))"

lemma take_penalized_spec:
  assumes "\<forall>p\<in>set pens. unat a \<le> p \<and> p < 2 ^ 16" "length (takeWhile (\<lambda>p. p < unat l) pens) \<le> unat e"
    "unat n + unat e < 2 ^ 64"
  shows "\<exists>e' n'. take_penalized a l pens e n = Some (dropWhile (\<lambda>p. p < unat l) pens, e', n') \<and>
    unat e' + length (takeWhile (\<lambda>p. p < unat l) pens) = unat e \<and>
    unat n' = unat n + length (takeWhile (\<lambda>p. p < unat l) pens)"
  using assms
proof (induction pens arbitrary: e n)
  case (Cons p pens)
  have u: "unat (of_nat p :: u16) = p" using Cons.prems(1) by (simp add: unat_of_nat)
  have f: "\<not> (of_nat p :: u16) < a" using Cons.prems(1) u by (simp add: word_less_nat_alt)
  show ?case
  proof (cases "p < unat l")
    case True
    then have e: "0 < unat e" using Cons.prems(2) by simp
    have "unat n + unat (1 :: u64) < 2 ^ 64" using e Cons.prems(3) by simp
    then have u1: "unat (n + 1) = unat n + 1" by (simp add: unat_add_lem_nat)
    have u2: "unat (e - 1) = unat e - 1" using e by (intro unat_minus_one) auto
    have "Suc (length (takeWhile (\<lambda>p. p < unat l) pens)) \<le> unat e" using Cons.prems(2) True by simp
    then have le: "length (takeWhile (\<lambda>p. p < unat l) pens) \<le> unat (e - 1)" unfolding u2 by linarith
    obtain e' n' where "take_penalized a l pens (e - 1) (n + 1) = Some (dropWhile (\<lambda>p. p < unat l) pens, e', n')"
      "unat e' + length (takeWhile (\<lambda>p. p < unat l) pens) = unat e - 1"
      "unat n' = unat n + 1 + length (takeWhile (\<lambda>p. p < unat l) pens)"
      using Cons.IH [OF _ le, of "n + 1"] Cons.prems(1,3) e u1 u2 by auto
    moreover have "(0 :: u64) < e" using e by (simp add: word_less_nat_alt)
    ultimately show ?thesis using True f u e by (simp add: Let_def word_less_nat_alt word_le_nat_alt)
  next
    case False
    then show ?thesis using f u by (simp add: Let_def word_less_nat_alt word_le_nat_alt)
  qed
qed simp

lemma sorted_below_count:
  assumes "sorted_wrt (<) pens" "\<forall>p\<in>set pens. a \<le> p"
  shows "length (takeWhile (\<lambda>p. p < b) pens) \<le> b - a"
proof -
  let ?xs = "takeWhile (\<lambda>p. p < b) pens"
  have "distinct pens" using assms(1) by (simp add: strict_sorted_iff)
  then have "length ?xs = card (set ?xs)" by (simp add: distinct_card distinct_takeWhile)
  also have "\<dots> \<le> card {a..<b}" using assms(2) by (intro card_mono) (auto dest: set_takeWhileD)
  finally show ?thesis by simp
qed

lemma takeWhile_sorted: "sorted_wrt (<) pens \<Longrightarrow> set (takeWhile (\<lambda>p. p < b) pens) = {p \<in> set pens. p < (b :: nat)}"
  by (induction pens) auto

lemma card_range_minus: "card {s \<in> {a..<b}. s \<notin> P} = b - a - card {p \<in> P. a \<le> p \<and> p < (b :: nat)}"
proof -
  have "{s \<in> {a..<b}. s \<notin> P} = {a..<b} - {p \<in> P. a \<le> p \<and> p < b}" by auto
  moreover have "{p \<in> P. a \<le> p \<and> p < b} \<subseteq> {a..<b}" by auto
  ultimately show ?thesis by (simp add: card_Diff_subset finite_subset)
qed

lemma reward_band_spec:
  assumes inv: "reward_inv accts slot_reward (unat first) acc"
    and v: "unat (range_start (sv_slots v)) = unat first" "range_start (sv_slots v) < range_end (sv_slots v)"
      "unat (range_end (sv_slots v)) \<le> 512" "fmlookup (st_validators (get_staking_contract_store accts)) (sv_address v) \<noteq> None"
    and pens: "sorted_wrt (<) pens" "set pens = {p \<in> P. unat first \<le> p}" "P \<subseteq> {..<512}"
    and fits: "slot_reward * 512 \<le> MAX_SAFE_VALUE"
  shows "\<exists>acc'. reward_band accts slot_reward first pens acc v =
      Some (range_end (sv_slots v), dropWhile (\<lambda>p. p < unat (range_end (sv_slots v))) pens, acc') \<and>
    reward_inv accts slot_reward (unat (range_end (sv_slots v))) acc' \<and>
    set (ra_transactions acc) \<subseteq> set (ra_transactions acc') \<and> paid accts slot_reward P (ra_transactions acc') v"
proof -
  let ?b = "range_end (sv_slots v)" and ?c = "length (takeWhile (\<lambda>p. p < unat (range_end (sv_slots v))) pens)"
  have k: "unat (num_slots v) = unat ?b - unat first" using num_slots_band [OF v(2)] v(1) by simp
  then have sum: "unat first + unat (num_slots v) = unat ?b" using v(1,2) by (simp add: word_less_nat_alt)
  then have last: "first + num_slots v = ?b"
    using unat_bound [of ?b] by (simp add: word_unat_eq_iff unat_add_lem_nat)
  have e: "unat (ucast (num_slots v) :: u64) = unat (num_slots v)"
    using unat_bound [of "num_slots v"] by (simp add: unsigned_ucast_eq take_bit_nat_eq_self)
  have c: "?c \<le> unat ?b - unat first" using pens by (intro sorted_below_count) auto
  have p16: "\<forall>p\<in>set pens. unat first \<le> p \<and> p < 2 ^ 16" using pens(2,3) by auto
  obtain e' n' where t: "take_penalized first ?b pens (ucast (num_slots v)) 0 = Some (dropWhile (\<lambda>p. p < unat ?b) pens, e', n')"
    "unat e' + ?c = unat (num_slots v)" "unat n' = ?c"
    using take_penalized_spec [OF p16, of ?b "ucast (num_slots v)" 0] c k e unat_bound [of "num_slots v"] by auto
  have split: "unat e' + unat n' = unat (num_slots v)" using t by simp
  have "set (takeWhile (\<lambda>p. p < unat ?b) pens) = {p \<in> P. unat first \<le> p \<and> p < unat ?b}"
    using takeWhile_sorted [OF pens(1)] pens(2) by auto
  moreover have "distinct pens" using pens(1) by (simp add: strict_sorted_iff)
  ultimately have "?c = card {p \<in> P. unat first \<le> p \<and> p < unat ?b}" by (metis distinct_card distinct_takeWhile)
  moreover have "card {s \<in> {unat first..<unat ?b}. s \<notin> P} = unat ?b - unat first - card {p \<in> P. unat first \<le> p \<and> p < unat ?b}"
    by (rule card_range_minus)
  ultimately have el: "card {s \<in> {unat (range_start (sv_slots v))..<unat ?b}. s \<notin> P} = unat e'" using t(2) k v(1) by simp
  have le: "slot_reward * unat e' \<le> slot_reward * 512" "slot_reward * unat n' \<le> slot_reward * 512"
    using split sum v(3) by (intro mult_le_mono2; simp)+
  have tot: "slot_reward * unat first + slot_reward * unat e' + slot_reward * unat n' = slot_reward * unat ?b"
    using split sum by (metis add.assoc distrib_left)
  have bd: "slot_reward * unat ?b \<le> MAX_SAFE_VALUE" using fits v(3) by (meson le_trans mult_le_mono2)
  have burned: "ra_burned acc + slot_reward * unat n' + slot_reward * unat e' \<le> MAX_SAFE_VALUE"
    using inv tot bd by (simp add: reward_inv_def)
  obtain w where w: "fmlookup (st_validators (get_staking_contract_store accts)) (sv_address v) = Some w" using v(4) by blast
  have len: "length (ra_eligible acc) < unat ?b" using inv v(1,2) by (simp add: reward_inv_def word_less_nat_alt)
  show ?thesis
    using inv t(1) burned le fits w tot split sum len
    by (auto simp: reward_band_def Let_def last coin_simps reward_inv_def coin_add_def paid_def el [simplified])
qed

lemma dropWhile_sorted: "sorted_wrt (<) pens \<Longrightarrow> set (dropWhile (\<lambda>p. p < b) pens) = {p \<in> set pens. (b :: nat) \<le> p}"
  by (induction pens) (auto simp: not_less intro: less_imp_le dest: order_trans)

lemma reward_bands_spec:
  assumes "bands (unat first) vs" "bands_end (unat first) vs = 512" "reward_inv accts slot_reward (unat first) acc"
    "\<forall>v\<in>set vs. fmlookup (st_validators (get_staking_contract_store accts)) (sv_address v) \<noteq> None"
    "sorted_wrt (<) pens" "set pens = {p \<in> P. unat first \<le> p}" "P \<subseteq> {..<512}" "slot_reward * 512 \<le> MAX_SAFE_VALUE"
  shows "\<exists>acc'. reward_bands accts slot_reward first pens acc vs = Some acc' \<and> reward_inv accts slot_reward 512 acc' \<and>
    set (ra_transactions acc) \<subseteq> set (ra_transactions acc') \<and> (\<forall>v\<in>set vs. paid accts slot_reward P (ra_transactions acc') v)"
  using assms(1-6)
proof (induction vs arbitrary: first pens acc)
  case (Cons v vs)
  let ?b = "range_end (sv_slots v)"
  have b: "bands (unat ?b) vs" "bands_end (unat ?b) vs = 512" using Cons.prems(1,2) by simp_all
  have b512: "unat ?b \<le> 512" using bands_mono [OF b(1)] b(2) by simp
  have v: "unat (range_start (sv_slots v)) = unat first" "range_start (sv_slots v) < ?b" using Cons.prems(1) by simp_all
  have known: "fmlookup (st_validators (get_staking_contract_store accts)) (sv_address v) \<noteq> None" using Cons.prems(4) by simp
  obtain acc' where a: "reward_band accts slot_reward first pens acc v = Some (?b, dropWhile (\<lambda>p. p < unat ?b) pens, acc')"
    "reward_inv accts slot_reward (unat ?b) acc'" "set (ra_transactions acc) \<subseteq> set (ra_transactions acc')"
    "paid accts slot_reward P (ra_transactions acc') v"
    using reward_band_spec [OF Cons.prems(3) v b512 known Cons.prems(5,6) assms(7,8)] by blast
  have s: "sorted_wrt (<) (dropWhile (\<lambda>p. p < unat ?b) pens)"
    using Cons.prems(5) by (metis sorted_wrt_append takeWhile_dropWhile_id)
  have d: "set (dropWhile (\<lambda>p. p < unat ?b) pens) = {p \<in> P. unat ?b \<le> p}"
    using dropWhile_sorted [OF Cons.prems(5)] Cons.prems(6) v by (auto simp: word_less_nat_alt)
  have "\<forall>v\<in>set vs. fmlookup (st_validators (get_staking_contract_store accts)) (sv_address v) \<noteq> None" using Cons.prems(4) by simp
  from Cons.IH [OF b a(2) this s d] obtain acc'' where r: "reward_bands accts slot_reward ?b (dropWhile (\<lambda>p. p < unat ?b) pens) acc' vs = Some acc''"
    "reward_inv accts slot_reward 512 acc''" "set (ra_transactions acc') \<subseteq> set (ra_transactions acc'')"
    "\<forall>v\<in>set vs. paid accts slot_reward P (ra_transactions acc'') v"
    by blast
  have "paid accts slot_reward P (ra_transactions acc'') v" using a(4) r(3) unfolding paid_def by blast
  then show ?case using a(1,3) r by auto
qed simp

lemma sum_list_rewards_update:
  assumes "i < length txs"
  shows "sum_list (map rw_value (txs[i := (txs ! i) \<lparr> rw_value := rw_value (txs ! i) + r \<rparr>])) = sum_list (map rw_value txs) + r"
  using assms by (induction txs arbitrary: i) (auto simp: nth_Cons split: nat.splits)

text \<open>The remainder only adds to what a validator gets.\<close>

lemma paid_mono:
  assumes "paid accts slot_reward P txs v"
    "\<And>tx. tx \<in> set txs \<Longrightarrow> \<exists>tx'\<in>set txs'. rw_validator_address tx' = rw_validator_address tx \<and>
       rw_recipient tx' = rw_recipient tx \<and> rw_value tx \<le> rw_value tx'"
  shows "paid accts slot_reward P txs' v"
  unfolding paid_def
proof (intro allI impI)
  fix w assume w: "fmlookup (st_validators (get_staking_contract_store accts)) (sv_address v) = Some w \<and>
    account_type_of (accounts_get accts (v_reward_address w)) = Basic"
  then obtain tx where tx: "tx \<in> set txs" "rw_validator_address tx = v_address w" "rw_recipient tx = v_reward_address w"
    "slot_reward * card {s \<in> {unat (range_start (sv_slots v))..<unat (range_end (sv_slots v))}. s \<notin> P} \<le> rw_value tx"
    using assms(1) unfolding paid_def by blast
  from assms(2) [OF tx(1)] obtain tx' where "tx' \<in> set txs'" "rw_validator_address tx' = rw_validator_address tx"
    "rw_recipient tx' = rw_recipient tx" "rw_value tx \<le> rw_value tx'" by blast
  then show "\<exists>tx\<in>set txs'. rw_validator_address tx = v_address w \<and> rw_recipient tx = v_reward_address w \<and>
    slot_reward * card {s \<in> {unat (range_start (sv_slots v))..<unat (range_end (sv_slots v))}. s \<notin> P} \<le> rw_value tx"
    using tx(2-4) by (intro bexI [of _ tx']) (simp_all add: le_trans)
qed

lemma add_remainder_spec:
  assumes inv: "reward_inv accts slot_reward 512 acc"
    and fits: "slot_reward * 512 + remainder \<le> MAX_SAFE_VALUE"
    and rng: "productive (vrf_next_u64 vrf_hash)" "try_entropy seed \<noteq> None"
  shows "\<exists>txs burned. add_remainder vrf_hash try_entropy seed remainder acc = Some (Inr (txs, burned)) \<and>
    sum_list (map rw_value txs) + burned = slot_reward * 512 + remainder \<and>
    (\<forall>tx\<in>set txs. account_type_of (accounts_get accts (rw_recipient tx)) = Basic) \<and>
    (\<forall>tx\<in>set (ra_transactions acc). \<exists>tx'\<in>set txs. rw_validator_address tx' = rw_validator_address tx \<and>
       rw_recipient tx' = rw_recipient tx \<and> rw_value tx \<le> rw_value tx')"
proof (cases "ra_transactions acc \<noteq> [] \<and> list_ex (\<lambda>s. s > 0) (ra_eligible acc)")
  case True
  let ?el = "ra_eligible acc" and ?txs = "ra_transactions acc" and ?next = "vrf_next_u64 vrf_hash"
  have sum: "(\<Sum>e\<leftarrow>?el. unat e) \<le> 512" "length ?el \<le> 512" and len: "length ?txs = length ?el"
    using inv by (auto simp: reward_inv_def dest: map_eq_imp_length_eq)
  obtain x where "x \<in> set ?el" "0 < unat x" using True by (auto simp: list_ex_iff word_less_nat_alt)
  then have pos: "0 < (\<Sum>e\<leftarrow>?el. unat e)" by (metis elem_le_sum_list in_set_conv_nth length_map less_le_trans nth_map)
  have "length ?el * (\<Sum>e\<leftarrow>?el. unat e) \<le> 512 * 512" using sum by (intro mult_le_mono)
  then have small: "length ?el * (\<Sum>e\<leftarrow>?el. unat e) < 2 ^ 64" by simp
  obtain d where d: "dd_new ?el = Some d" "dd_n d = length ?el" "unat (dd_T d) = (\<Sum>e\<leftarrow>?el. unat e)"
    "\<forall>x<length ?el. dd_K d ! x < length ?el"
    using dd_new_exact [OF small pos] by blast
  obtain entropy where e: "seed_rng try_entropy seed RewardDistribution = Some entropy" using rng(2) by (auto simp: seed_rng_def)
  obtain r g' where smp: "dd_sample ?next d entropy = Some (r, g')" using dd_sample_returns [OF rng(1)] by fastforce
  have "dd_T d \<noteq> 0" using d(3) pos by (metis unat_0 less_irrefl)
  moreover have "?el \<noteq> []" using True len by (metis length_0_conv)
  ultimately obtain i where i: "r = Inr i" "i < length ?txs" using dd_sample_Some [OF smp] d(2,4) len sum(2) by auto
  have "rw_value (?txs ! i) \<le> sum_list (map rw_value ?txs)" using i(2) by (metis elem_le_sum_list length_map nth_map)
  moreover have tot: "sum_list (map rw_value ?txs) + ra_burned acc = slot_reward * 512" using inv unfolding reward_inv_def by blast
  ultimately have "rw_value (?txs ! i) + remainder \<le> MAX_SAFE_VALUE" using fits by linarith
  then have ok: "coin_add (rw_value (?txs ! i)) remainder = Some (rw_value (?txs ! i) + remainder)"
    by (simp add: coin_simps coin_add_def)
  let ?new = "?txs[i := (?txs ! i) \<lparr> rw_value := rw_value (?txs ! i) + remainder \<rparr>]"
  have "add_remainder vrf_hash try_entropy seed remainder acc = Some (Inr (?new, ra_burned acc))"
    using True d(1) e smp i by (simp add: add_remainder_def bind_rnd_def ret_rnd_def ok)
  moreover have "sum_list (map rw_value ?new) + ra_burned acc = slot_reward * 512 + remainder"
    using sum_list_rewards_update [OF i(2), of remainder] tot by linarith
  moreover have "\<exists>tx'\<in>set ?new. rw_validator_address tx' = rw_validator_address tx \<and> rw_recipient tx' = rw_recipient tx \<and>
      rw_value tx \<le> rw_value tx'" if tx: "tx \<in> set ?txs" for tx
  proof -
    obtain j where j: "j < length ?txs" "tx = ?txs ! j" using tx by (auto simp: in_set_conv_nth)
    then have "?new ! j \<in> set ?new" by (metis length_list_update nth_mem)
    then show ?thesis using j i(2) by (intro bexI [of _ "?new ! j"]) (cases "j = i"; simp)
  qed
  moreover have "account_type_of (accounts_get accts (rw_recipient tx)) = Basic" if "tx \<in> set ?new" for tx
    using that inv i(2) by (auto simp: reward_inv_def dest!: subsetD [OF set_update_subset_insert])
  ultimately show ?thesis by blast
next
  case False
  have "coin_add (ra_burned acc) remainder = Some (ra_burned acc + remainder)"
    using inv fits by (simp add: reward_inv_def coin_simps coin_add_def)
  then have "add_remainder vrf_hash try_entropy seed remainder acc = Some (Inr (ra_transactions acc, ra_burned acc + remainder))"
    unfolding add_remainder_def if_not_P [OF False] by (simp only: option.case)
  then show ?thesis using inv by (auto simp: reward_inv_def)
qed

lemma finish_rewards_sum: "sum_list (map rw_value (finish_rewards txs burned)) = sum_list (map rw_value txs) + burned"
proof -
  have "sum_list (map rw_value (filter (\<lambda>tx. rw_value tx \<noteq> 0) txs)) = sum_list (map rw_value txs)" by (induction txs) auto
  then show ?thesis by (simp add: finish_rewards_def)
qed

lemma paid_finish:
  assumes "paid accts r P txs v" "0 < r * card {s \<in> {unat (range_start (sv_slots v))..<unat (range_end (sv_slots v))}. s \<notin> P}"
  shows "paid accts r P (finish_rewards txs burned) v"
  unfolding paid_def
proof (intro allI impI)
  fix w assume "fmlookup (st_validators (get_staking_contract_store accts)) (sv_address v) = Some w \<and>
    account_type_of (accounts_get accts (v_reward_address w)) = Basic"
  then obtain tx where tx: "tx \<in> set txs" "rw_validator_address tx = v_address w" "rw_recipient tx = v_reward_address w"
    "r * card {s \<in> {unat (range_start (sv_slots v))..<unat (range_end (sv_slots v))}. s \<notin> P} \<le> rw_value tx"
    using assms(1) unfolding paid_def by blast
  have "rw_value tx \<noteq> 0" using tx(4) assms(2) by linarith
  then have "tx \<in> set (finish_rewards txs burned)" using tx(1) by (simp add: finish_rewards_def)
  then show "\<exists>tx\<in>set (finish_rewards txs burned). rw_validator_address tx = v_address w \<and> rw_recipient tx = v_reward_address w \<and>
    r * card {s \<in> {unat (range_start (sv_slots v))..<unat (range_end (sv_slots v))}. s \<notin> P} \<le> rw_value tx"
    using tx(2-4) by blast
qed

lemma distribute_rewards_spec:
  assumes "validate_structure vs = Inr ()"
    "\<forall>v\<in>set (vs_validators vs). fmlookup (st_validators (get_staking_contract_store accts)) (sv_address v) \<noteq> None"
    "wf_bitset pset" "elems pset \<subseteq> {..<512}" "pot \<le> MAX_SAFE_VALUE" "productive (vrf_next_u64 vrf_hash)" "try_entropy seed \<noteq> None"
  shows "\<exists>txs. distribute_rewards vrf_hash try_entropy accts seed pset vs pot = Some (Inr txs) \<and>
    sum_list (map rw_value txs) = pot \<and>
    (\<forall>tx\<in>set txs. 0 < rw_value tx \<and>
       (rw_recipient tx = burn_address \<or> account_type_of (accounts_get accts (rw_recipient tx)) = Basic)) \<and>
    (0 < pot div 512 \<longrightarrow> (\<forall>v\<in>set (vs_validators vs).
       {s \<in> {unat (range_start (sv_slots v))..<unat (range_end (sv_slots v))}. s \<notin> elems pset} \<noteq> {} \<longrightarrow>
       paid accts (pot div 512) (elems pset) txs v))"
proof -
  let ?r = "pot div 512" and ?init = "\<lparr> ra_transactions = [], ra_eligible = [], ra_burned = 0 \<rparr>"
  have b: "bands (unat (0 :: u16)) (vs_validators vs)" "bands_end (unat (0 :: u16)) (vs_validators vs) = 512"
    using assms(1) by (simp_all add: validated_iff SLOTS_def)
  have pot: "?r * 512 + pot mod 512 = pot" by simp
  then have fits: "?r * 512 \<le> MAX_SAFE_VALUE" using assms(5) by linarith
  have fin: "finite (elems pset)" using assms(4) finite_subset by blast
  have "\<exists>acc. reward_bands accts ?r 0 (bitset_iter pset) ?init (vs_validators vs) = Some acc \<and> reward_inv accts ?r 512 acc \<and>
      set (ra_transactions ?init) \<subseteq> set (ra_transactions acc) \<and>
      (\<forall>v\<in>set (vs_validators vs). paid accts ?r (elems pset) (ra_transactions acc) v)"
    using assms(2,4) fits fin by (intro reward_bands_spec b) (simp_all add: reward_inv_def bitset_iter_eq)
  then obtain acc where acc: "reward_bands accts ?r 0 (bitset_iter pset) ?init (vs_validators vs) = Some acc" "reward_inv accts ?r 512 acc"
    "\<forall>v\<in>set (vs_validators vs). paid accts ?r (elems pset) (ra_transactions acc) v"
    by blast
  have "?r * 512 + pot mod 512 \<le> MAX_SAFE_VALUE" using pot assms(5) by simp
  then obtain txs burned where t: "add_remainder vrf_hash try_entropy seed (pot mod 512) acc = Some (Inr (txs, burned))"
    "sum_list (map rw_value txs) + burned = ?r * 512 + pot mod 512"
    "\<forall>tx\<in>set txs. account_type_of (accounts_get accts (rw_recipient tx)) = Basic"
    "\<forall>tx\<in>set (ra_transactions acc). \<exists>tx'\<in>set txs. rw_validator_address tx' = rw_validator_address tx \<and>
       rw_recipient tx' = rw_recipient tx \<and> rw_value tx \<le> rw_value tx'"
    using add_remainder_spec [of accts ?r acc "pot mod 512" vrf_hash try_entropy seed] acc(2) assms(6,7) by blast
  have "length (ra_transactions acc) = length (ra_eligible acc)"
    using acc(2) by (auto simp: reward_inv_def dest: map_eq_imp_length_eq)
  then have d: "distribute_rewards vrf_hash try_entropy accts seed pset vs pot = Some (Inr (finish_rewards txs burned))"
    using acc(1) t(1) by (simp add: distribute_rewards_def coin_div_def coin_rem_def SLOTS_def)
  have p: "paid accts ?r (elems pset) (finish_rewards txs burned) v"
    if v: "v \<in> set (vs_validators vs)" "0 < ?r" "{s \<in> {unat (range_start (sv_slots v))..<unat (range_end (sv_slots v))}. s \<notin> elems pset} \<noteq> {}" for v
  proof -
    have "paid accts ?r (elems pset) txs v" 
      using bspec [OF acc(3) v(1)] bspec [OF t(4)] by (rule paid_mono)
    moreover have "0 < ?r * card {s \<in> {unat (range_start (sv_slots v))..<unat (range_end (sv_slots v))}. s \<notin> elems pset}"
      using v(2,3) by (simp add: card_gt_0_iff)
    ultimately show ?thesis by (rule paid_finish)
  qed
  have "sum_list (map rw_value (finish_rewards txs burned)) = pot" using t(2) pot by (simp add: finish_rewards_sum)
  moreover have "0 < rw_value tx \<and> (rw_recipient tx = burn_address \<or> account_type_of (accounts_get accts (rw_recipient tx)) = Basic)"
    if "tx \<in> set (finish_rewards txs burned)" for tx
    using that t(3) by (auto simp: finish_rewards_def split: if_splits)
  ultimately show ?thesis using d p by blast
qed

section \<open>An example\<close>

definition example_rewarded :: accounts where
  "example_rewarded = \<lparr> acc_tree = fmempty, acc_store = (\<lambda>_. \<lparr> st_validators = fmupd 7 example_validator fmempty,
     st_stakers = fmempty, st_tombstones = fmempty \<rparr>), acc_log = [], acc_failed = False \<rparr>"

definition example_info :: chain_info where
  "example_info = chain_info_new TEST_POLICY (Macro_Block \<lparr> ma_header = example_macro_header, ma_body = None, ma_justification = None \<rparr>) True"

definition example_blockchain :: blockchain where
  "example_blockchain = \<lparr> bc_network_id = UnitAlbatross,
     bc_state = \<lparr> bst_accounts = example_rewarded, bst_main_chain = example_info, bst_head_hash = [], bst_macro_info = example_info,
       bst_macro_head_hash = [], bst_election_head = \<lparr> ma_header = example_macro_header, ma_body = None, ma_justification = None \<rparr>,
       bst_election_head_hash = [], bst_current_slots = Some example_validators, bst_previous_slots = None \<rparr>,
     bc_genesis_supply = 0, bc_genesis_timestamp = 0 \<rparr>"

section \<open>Properties\<close>

lemma block_reward_spec:
  assumes "genesis_supply \<le> TOTAL_SUPPLY" "genesis_timestamp \<le> mah_timestamp prev" "mah_timestamp prev \<le> mah_timestamp cur"
  shows "\<exists>s1 s2 r. supply_at (of_nat genesis_supply) genesis_timestamp (mah_timestamp prev) = Some s1 \<and>
    supply_at (of_nat genesis_supply) genesis_timestamp (mah_timestamp cur) = Some s2 \<and>
    genesis_supply \<le> unat s2 \<and> unat s2 \<le> TOTAL_SUPPLY \<and>
    block_reward_for_batch p cur prev genesis_supply genesis_timestamp = Some r \<and>
    (unat s2 - unat s1) div 2 \<le> r \<and> r \<le> unat s2 - unat s1"
proof -
  obtain s1 where s1: "supply_at (of_nat genesis_supply) genesis_timestamp (mah_timestamp prev) = Some s1" "unat s1 \<le> TOTAL_SUPPLY"
    using supply_at_bounds [OF assms(1,2)] by blast
  obtain s2 where s2: "supply_at (of_nat genesis_supply) genesis_timestamp (mah_timestamp cur) = Some s2"
    "genesis_supply \<le> unat s2" "unat s2 \<le> TOTAL_SUPPLY"
    using supply_at_bounds [OF assms(1) order_trans [OF assms(2,3)]] by blast
  let ?m = "w_saturating_sub s2 s1"
  have m: "unat ?m = unat s2 - unat s1" by (auto simp: w_saturating_sub_def unat_sub_le word_le_nat_alt)
  then have "unat ?m < 2 ^ 53" using s2(3) by (simp add: TOTAL_SUPPLY_def)
  then have e: "u64_as_f64 ?m = of_nat (unat s2 - unat s1)" and lt: "unat s2 - unat s1 < 2 ^ 53"
    using u64_as_f64_exact [of ?m] m by simp_all
  let ?x = "f64_as_u64 (f64_mul (of_nat (unat s2 - unat s1)) (batch_delay_penalty (batch_delay p (mah_timestamp prev) (mah_timestamp cur))))"
  note b = penalized_reward_bounds [OF lt, of "batch_delay p (mah_timestamp prev) (mah_timestamp cur)"]
  have "unat ?x \<le> MAX_SAFE_VALUE" using b(2) s2(3) by (simp add: TOTAL_SUPPLY_def MAX_SAFE_VALUE_def)
  then have "from_u64_unchecked (unat ?x) = Some (unat ?x)" by (simp add: from_u64_unchecked_def coin_try_from_def)
  then have "block_reward_for_batch p cur prev genesis_supply genesis_timestamp = Some (unat ?x)"
    using assms s1(1) s2(1) by (simp add: block_reward_for_batch_def Let_def e not_less)
  then show ?thesis using s1(1) s2 b by (intro exI [of _ s1] exI [of _ s2] exI [of _ "unat ?x"]) simp
qed

text \<open>
  C12. Rewards follow the supply curve: as long as timestamps do not go back, the supply is defined, never below
  the supply at genesis and never above the total supply, and the reward of a batch is defined, at most the growth
  of the supply over the batch, and at least half of it however late the batch is.
\<close>

theorem block_reward_bounds:
  assumes "genesis_supply \<le> TOTAL_SUPPLY" "genesis_timestamp \<le> mah_timestamp previous" "mah_timestamp previous \<le> mah_timestamp current"
  shows "\<exists>prev_supply supply reward. supply_at (of_nat genesis_supply) genesis_timestamp (mah_timestamp previous) = Some prev_supply \<and>
    supply_at (of_nat genesis_supply) genesis_timestamp (mah_timestamp current) = Some supply \<and>
    genesis_supply \<le> unat supply \<and> unat supply \<le> TOTAL_SUPPLY \<and>
    block_reward_for_batch p current previous genesis_supply genesis_timestamp = Some reward \<and>
    (unat supply - unat prev_supply) div 2 \<le> reward \<and> reward \<le> unat supply - unat prev_supply"
  by (rule block_reward_spec [OF assms])

theorem block_reward_bounds_witness:
  "\<exists>reward. block_reward_for_batch TEST_POLICY (example_macro_header \<lparr> mah_timestamp := 60000 \<rparr>) example_macro_header 1000000 0 =
     Some reward \<and> reward \<le> TOTAL_SUPPLY"
proof -
  have "1000000 \<le> TOTAL_SUPPLY" "0 \<le> mah_timestamp example_macro_header"
    "mah_timestamp example_macro_header \<le> mah_timestamp (example_macro_header \<lparr> mah_timestamp := 60000 \<rparr>)"
    by (simp_all add: TOTAL_SUPPLY_def example_macro_header_def)
  from block_reward_bounds [OF this, of TEST_POLICY] obtain s1 s2 reward where
    "unat (s2 :: u64) \<le> TOTAL_SUPPLY" "reward \<le> unat s2 - unat (s1 :: u64)"
    "block_reward_for_batch TEST_POLICY (example_macro_header \<lparr> mah_timestamp := 60000 \<rparr>) example_macro_header 1000000 0 = Some reward"
    by blast
  then show ?thesis by (meson diff_le_self le_trans)
qed

text \<open>
  C11. The pot of a batch is paid out completely: for a well-formed set of validators that the staking contract
  knows and penalized slots in range, the reward transactions exist without a panic, add up to exactly the block
  reward plus the transaction fees, are never empty, and go to basic accounts or the burn address. Every validator
  with a basic reward account gets at least the slot reward for each of its slots that is not penalized.
\<close>

theorem rewards_distributed:
  assumes "batch_at p (mah_block_number h) - 1 \<noteq> 0"
    "(if first_batch_of_epoch p (mah_block_number h) then bst_previous_slots (bc_state bc) else bst_current_slots (bc_state bc)) = Some vs"
    "validate_structure vs = Inr ()"
    "\<forall>v\<in>set (vs_validators vs). fmlookup (st_validators (get_staking_contract_store accts)) (sv_address v) \<noteq> None"
    "wf_bitset (previous_batch (stk_punished_slots c))" "elems (previous_batch (stk_punished_slots c)) \<subseteq> {..<512}"
    "ci_head (bst_macro_info (bc_state bc)) = Macro_Block prev"
    "bc_genesis_supply bc \<le> TOTAL_SUPPLY" "bc_genesis_timestamp bc \<le> mah_timestamp (ma_header prev)"
    "mah_timestamp (ma_header prev) \<le> mah_timestamp h"
    "ci_cum_tx_fees (bst_macro_info (bc_state bc)) \<le> MAX_SAFE_VALUE - TOTAL_SUPPLY"
    "productive (vrf_next_u64 vrf_hash)" "try_entropy (mah_seed h) \<noteq> None"
  shows "\<exists>reward txs. block_reward_for_batch p h (ma_header prev) (bc_genesis_supply bc) (bc_genesis_timestamp bc) = Some reward \<and>
    create_reward_transactions p vrf_hash try_entropy bc accts h c = Some (Inr txs) \<and>
    sum_list (map rw_value txs) = reward + ci_cum_tx_fees (bst_macro_info (bc_state bc)) \<and>
    (\<forall>tx\<in>set txs. 0 < rw_value tx \<and>
       (rw_recipient tx = burn_address \<or> account_type_of (accounts_get accts (rw_recipient tx)) = Basic)) \<and>
    (0 < (reward + ci_cum_tx_fees (bst_macro_info (bc_state bc))) div 512 \<longrightarrow> (\<forall>v\<in>set (vs_validators vs).
       {s \<in> {unat (range_start (sv_slots v))..<unat (range_end (sv_slots v))}. s \<notin> elems (previous_batch (stk_punished_slots c))} \<noteq> {} \<longrightarrow>
       paid accts ((reward + ci_cum_tx_fees (bst_macro_info (bc_state bc))) div 512) (elems (previous_batch (stk_punished_slots c))) txs v))"
proof -
  obtain s1 s2 r where r: "block_reward_for_batch p h (ma_header prev) (bc_genesis_supply bc) (bc_genesis_timestamp bc) = Some r"
    "unat (s2 :: u64) \<le> TOTAL_SUPPLY" "r \<le> unat s2 - unat (s1 :: u64)"
    using block_reward_spec [OF assms(8-10), of p] by blast
  let ?pot = "r + ci_cum_tx_fees (bst_macro_info (bc_state bc))"
  have "TOTAL_SUPPLY \<le> MAX_SAFE_VALUE" by (simp add: TOTAL_SUPPLY_def MAX_SAFE_VALUE_def)
  then have pot: "?pot \<le> MAX_SAFE_VALUE" using r(2,3) assms(11) by linarith
  then have ok: "coin_add r (ci_cum_tx_fees (bst_macro_info (bc_state bc))) = Some ?pot" by (simp add: coin_simps coin_add_def)
  have "create_reward_transactions p vrf_hash try_entropy bc accts h c =
      distribute_rewards vrf_hash try_entropy accts (mah_seed h) (previous_batch (stk_punished_slots c)) vs ?pot"
    using assms(1,2,7) r(1) unfolding create_reward_transactions_def Let_def by (simp add: ok)
  then show ?thesis
    using distribute_rewards_spec [OF assms(3-6) pot assms(12), of try_entropy "mah_seed h", OF assms(13)] r(1)
    by (elim exE conjE) (intro exI conjI; (assumption | simp))
qed

theorem rewards_distributed_witness:
  "\<exists>txs. create_reward_transactions TEST_POLICY (\<lambda>_. replicate 32 0) Some example_blockchain example_rewarded
     (example_macro_header \<lparr> mah_block_number := 296, mah_timestamp := 60000 \<rparr>)
     \<lparr> stk_balance = 0, stk_active_validators = fmempty, stk_punished_slots = punished_slots_default \<rparr> = Some (Inr txs)"
proof -
  let ?h = "example_macro_header \<lparr> mah_block_number := 296, mah_timestamp := 60000 \<rparr>"
  let ?c = "\<lparr> stk_balance = 0, stk_active_validators = fmempty, stk_punished_slots = punished_slots_default \<rparr>"
  have b: "batch_at TEST_POLICY 296 = 3" "\<not> first_batch_of_epoch TEST_POLICY 296"
    by (simp_all add: batch_at_def first_batch_of_epoch_def epoch_index_at_def TEST_POLICY_def blocks_per_epoch_def w_div_ceil_def Let_def)
  have e: "elems bitset_new = {}" "wf_bitset bitset_new" by (simp_all add: bitset_new_def elems_def wf_bitset_def)
  show ?thesis
    using rewards_distributed [of TEST_POLICY ?h example_blockchain example_validators example_rewarded ?c
        "\<lparr> ma_header = example_macro_header, ma_body = None, ma_justification = None \<rparr>" "\<lambda>_. replicate 32 0" Some]
      example_validators_wf zero_hash_productive b e
    by (auto simp: example_blockchain_def example_macro_header_def example_info_def chain_info_new_def wf_validators_def
        example_rewarded_def get_staking_contract_store_def example_validators_def validators_new_def example_band_def
        punished_slots_default_def TOTAL_SUPPLY_def MAX_SAFE_VALUE_def)
qed

end
