(* ===== verification/Tendermint.thy ===== *)
theory Tendermint
  imports BitSet "HOL-Library.Product_Lexorder"
begin

text \<open>
  The Tendermint state machine (\<^verbatim>\<open>tendermint/src\<close>): its state, proposing and awaiting proposals, the
  processing of proposals and of aggregated votes, the jump to a later rd, and one call of \<open>poll_next\<close>.

  The crate is generic over the trait \<open>Protocol\<close>. Its constants and pure functions are the record \<open>protocol\<close>;
  what it answers from outside during a poll is the record \<open>poll_input\<close>, together with what the streams,
  futures and the timer deliver. What the state machine does to the outside is recorded in \<open>td_log\<close>.
\<close>

section \<open>Steps and messages\<close>

datatype tm_step = Propose | Prevote | Precommit

fun step_number :: "tm_step \<Rightarrow> nat" where
  "step_number Propose = 0"
| "step_number Prevote = 1"
| "step_number Precommit = 2"

lemma step_number_inject: "step_number a = step_number b \<longleftrightarrow> a = b"
  by (cases a; cases b) simp_all

instantiation tm_step :: linorder
begin

definition less_eq_tm_step :: "tm_step \<Rightarrow> tm_step \<Rightarrow> bool" where
  "less_eq_tm_step a b \<longleftrightarrow> step_number a \<le> step_number b"

definition less_tm_step :: "tm_step \<Rightarrow> tm_step \<Rightarrow> bool" where
  "less_tm_step a b \<longleftrightarrow> step_number a < step_number b"

instance
  by standard (auto simp: less_eq_tm_step_def less_tm_step_def step_number_inject)

end

definition step_try_from :: "u8 \<Rightarrow> tm_step option" where
  "step_try_from value = (if value = 0 then Some Propose else if value = 1 then Some Prevote
    else if value = 2 then Some Precommit else None)"

type_synonym round_step = "u32 \<times> tm_step"

record 'p proposal_message =
  pm_round :: u32
  pm_valid_round :: "u32 option"
  pm_proposal :: 'p

record ('p, 's) signed_proposal =
  sp_message :: "'p proposal_message"
  sp_signature :: 's

record 'm tagged_message =
  tg_tag :: round_step
  tg_aggregation :: 'm

section \<open>State\<close>

record ('h, 'p, 'k, 'i, 's, 'a) tm_state =
  tm_current_round :: u32
  tm_current_step :: tm_step
  tm_known_proposals :: "('h, 'p) fmap"
  tm_round_proposals :: "(u32, ('h, u32 option \<times> 's) fmap) fmap"
  tm_votes :: "(round_step, 'h option) fmap"
  tm_best_votes :: "(round_step, 'a) fmap"
  tm_inherents :: "('k, 'i) fmap"
  tm_locked :: "(u32 \<times> 'h) option"
  tm_valid :: "(u32 \<times> 'h) option"

definition state_default :: "('h, 'p, 'k, 'i, 's, 'a) tm_state" where
  "state_default = \<lparr> tm_current_round = 0, tm_current_step = Propose, tm_known_proposals = fmempty,
    tm_round_proposals = fmempty, tm_votes = fmempty, tm_best_votes = fmempty, tm_inherents = fmempty,
    tm_locked = None, tm_valid = None \<rparr>"

datatype ('h, 'p, 'k, 'i, 's, 'a, 'd) tm_return =
    Decision 'd
  | Update "('h, 'p, 'k, 'i, 's, 'a) tm_state"
  | ProposalAccepted "('p, 's) signed_proposal"
  | ProposalIgnored "('p, 's) signed_proposal"
  | ProposalRejected "('p, 's) signed_proposal"

record ('h, 'p, 'k, 'i, 's, 'a, 'm, 'd) protocol =
  pr_hash :: "'p \<Rightarrow> 'h"
  pr_inherent_hash :: "'p \<Rightarrow> 'k"
  pr_hash_inherent :: "'i \<Rightarrow> 'k"
  pr_proposals :: "'a \<Rightarrow> ('h \<times> nat) list"
  pr_contributors_for :: "'a \<Rightarrow> 'h option \<Rightarrow> bitset"
  pr_all_contributors :: "'a \<Rightarrow> bitset"
  pr_sender :: "'m \<Rightarrow> u16"
  pr_message_contributors :: "'m \<Rightarrow> bitset"
  pr_sign_proposal :: "'p proposal_message \<Rightarrow> 's"
  pr_create_decision :: "'p \<Rightarrow> 'i \<Rightarrow> 'a \<Rightarrow> u32 \<Rightarrow> 'd"
  pr_timeout_delta :: u64
  pr_timeout_init :: u64
  pr_two_f_plus_one :: nat
  pr_f_plus_one :: nat

text \<open>Calls that reach the outside: the broadcast of a proposal, the start of an aggregation with the vote
  of this node, and the request of a proposal from its voters.\<close>

datatype ('h, 'p, 's) tm_event =
    BroadcastProposal "('p, 's) signed_proposal"
  | CreateAggregation round_step "'h option"
  | RequestProposal 'h u32 bitset

text \<open>
  \<open>td_aggregation_senders\<close> has the aggregations that were started, \<open>td_future_round_verification\<close> the rd
  and the contributors of the message that is being verified, \<open>td_timeout\<close> the duration of the timer.
\<close>

record ('h, 'p, 'k, 'i, 's, 'a, 'm, 'd) tendermint =
  td_state :: "('h, 'p, 'k, 'i, 's, 'a) tm_state"
  td_pending_proposal_requests :: "('h \<times> u32) fset"
  td_future_contributions :: "(u32, bitset) fmap"
  td_future_round_messages :: "(u16, 'm tagged_message) fmap"
  td_future_round_verification :: "(u32 \<times> bitset) option"
  td_timeout :: "u64 option"
  td_state_return_pending :: bool
  td_pending_aggregation_starts :: "round_step fset"
  td_decision :: bool
  td_pending_decision :: "'d option"
  td_aggregation_senders :: "round_step fset"
  td_log :: "('h, 'p, 's) tm_event list"

text \<open>The reasons for which the code panics.\<close>

datatype tm_panic = ProposalUnknown | InherentUnknown | VoteMissing | VoteExists | ProposalExists
  | WrongStep | ChannelClosed | NoMessage

text \<open>One turn of the loop in \<open>dispatch_messages\<close>: the result of the pending verification if it is ready, the next
  message if there is one, whether its channel takes it, and the random choice among \<open>n\<close> messages.\<close>

datatype send_result = Sent | Full | Closed

record 'm dispatch_input =
  di_verified :: "bool option"
  di_message :: "'m tagged_message option"
  di_send :: send_result
  di_random :: "nat \<Rightarrow> nat"

record ('h, 'p, 'i, 's, 'a, 'm) poll_input =
  pi_proposal :: "('p, 's) signed_proposal option"
  pi_requested :: "(('p, 's) signed_proposal option \<times> 'h \<times> u32) list"
  pi_dispatch :: "'m dispatch_input list"
  pi_random :: "nat \<Rightarrow> nat"
  pi_resend :: send_result
  pi_aggregates :: "(round_step \<times> 'a) list"
  pi_late_aggregates :: "(round_step \<times> 'a) list"
  pi_elapsed :: bool
  pi_is_proposer :: "u32 \<Rightarrow> bool option"
  pi_create_proposal :: "u32 \<Rightarrow> ('p proposal_message \<times> 'i) option"
  pi_verify_proposal :: "('p, 's) signed_proposal \<Rightarrow> 'i option \<Rightarrow> 'i option"

type_synonym ('h, 'p, 'k, 'i, 's, 'a, 'm, 'd, 'x) tm_eff =
  "(('h, 'p, 'k, 'i, 's, 'a, 'm, 'd) tendermint, tm_panic, 'x) eff"

definition gets_state :: "(('h, 'p, 'k, 'i, 's, 'a) tm_state \<Rightarrow> 'x) \<Rightarrow> ('h, 'p, 'k, 'i, 's, 'a, 'm, 'd, 'x) tm_eff" where
  "gets_state f = gets (\<lambda>t. f (td_state t))"

definition modify_state :: "(('h, 'p, 'k, 'i, 's, 'a) tm_state \<Rightarrow> ('h, 'p, 'k, 'i, 's, 'a) tm_state) \<Rightarrow>
  ('h, 'p, 'k, 'i, 's, 'a, 'm, 'd, unit) tm_eff" where
  "modify_state f = modify (\<lambda>t. t \<lparr> td_state := f (td_state t) \<rparr>)"

definition emit :: "('h, 'p, 's) tm_event \<Rightarrow> ('h, 'p, 'k, 'i, 's, 'a, 'm, 'd, unit) tm_eff" where
  "emit e = modify (\<lambda>t. t \<lparr> td_log := td_log t @ [e] \<rparr>)"

text \<open>The proposals of a round, and the first of them in the order of their hashes.\<close>

definition proposals_of :: "('h, 'p, 'k, 'i, 's, 'a) tm_state \<Rightarrow> u32 \<Rightarrow> ('h, u32 option \<times> 's) fmap" where
  "proposals_of s rd = (case fmlookup (tm_round_proposals s) rd of None \<Rightarrow> fmempty | Some m \<Rightarrow> m)"

definition or_default :: "u32 \<Rightarrow> ('h, 'p, 'k, 'i, 's, 'a) tm_state \<Rightarrow> ('h, 'p, 'k, 'i, 's, 'a) tm_state" where
  "or_default rd s = s \<lparr> tm_round_proposals := fmupd rd (proposals_of s rd) (tm_round_proposals s) \<rparr>"

definition first_entry :: "('h :: linorder, 'v) fmap \<Rightarrow> ('h \<times> 'v) option" where
  "first_entry m = (case sorted_list_of_fset (fmdom m) of [] \<Rightarrow> None | k # _ \<Rightarrow> map_option (Pair k) (fmlookup m k))"

section \<open>Votes, locks and decisions\<close>

definition start_timeout :: "('h, 'p, 'k, 'i, 's, 'a, 'm, 'd) protocol \<Rightarrow> ('h, 'p, 'k, 'i, 's, 'a, 'm, 'd, unit) tm_eff" where
  "start_timeout T = modify (\<lambda>t. if td_timeout t = None
     then t \<lparr> td_timeout := Some (pr_timeout_init T + ucast (tm_current_round (td_state t)) * pr_timeout_delta T) \<rparr> else t)"

definition reset_timeout :: "('h, 'p, 'k, 'i, 's, 'a, 'm, 'd, unit) tm_eff" where
  "reset_timeout = modify (\<lambda>t. t \<lparr> td_timeout := None \<rparr>)"

definition is_allowed_to_vote_on :: "('h, 'p, 'k, 'i, 's, 'a) tm_state \<Rightarrow> 'h \<Rightarrow> u32 option \<Rightarrow> bool" where
  "is_allowed_to_vote_on s proposal_hash vr =
    (case tm_locked s of
       None \<Rightarrow> True
     | Some (locked_round, locked_hash) \<Rightarrow>
         locked_hash = proposal_hash \<or> (case vr of None \<Rightarrow> False | Some r \<Rightarrow> locked_round \<le> r))"

definition has_two_f_plus_one :: "('h, 'p, 'k, 'i, 's, 'a, 'm, 'd) protocol \<Rightarrow> ('h, 'p, 'k, 'i, 's, 'a) tm_state \<Rightarrow> 'h \<Rightarrow> u32 \<Rightarrow> bool" where
  "has_two_f_plus_one T s proposal_hash rd =
    (case fmlookup (tm_best_votes s) (rd, Prevote) of
       None \<Rightarrow> False
     | Some aggregate \<Rightarrow> bitset_len (pr_contributors_for T aggregate (Some proposal_hash)) \<ge> pr_two_f_plus_one T)"

definition update_valid :: "u32 \<Rightarrow> 'h \<Rightarrow> ('h, 'p, 'k, 'i, 's, 'a) tm_state \<Rightarrow> ('h, 'p, 'k, 'i, 's, 'a) tm_state" where
  "update_valid rd proposal_hash s =
    (if (case tm_valid s of None \<Rightarrow> True | Some (r, _) \<Rightarrow> r < rd)
     then s \<lparr> tm_valid := Some (rd, proposal_hash) \<rparr> else s)"

definition build_decision :: "('h, 'p, 'k, 'i, 's, 'a, 'm, 'd) protocol \<Rightarrow> 'p \<Rightarrow> 'a \<Rightarrow> u32 \<Rightarrow> ('h, 'p, 'k, 'i, 's, 'a, 'm, 'd, 'd) tm_eff" where
  "build_decision T proposal aggregation rd =
    bind_eff (gets_state (\<lambda>s. fmlookup (tm_inherents s) (pr_inherent_hash T proposal))) (\<lambda>inherent_opt.
    bind_eff (some_or InherentUnknown inherent_opt) (\<lambda>inherent.
    ret (pr_create_decision T proposal inherent aggregation rd)))"

definition cached_precommit :: "('h, 'p, 'k, 'i, 's, 'a, 'm, 'd) protocol \<Rightarrow> ('h, 'p, 'k, 'i, 's, 'a) tm_state \<Rightarrow> 'h \<Rightarrow>
  (round_step \<times> 'a) option" where
  "cached_precommit T s proposal_hash =
    find (\<lambda>(id, agg). snd id = Precommit \<and> bitset_len (pr_contributors_for T agg (Some proposal_hash)) \<ge> pr_two_f_plus_one T)
      (map (\<lambda>id. (id, the (fmlookup (tm_best_votes s) id))) (sorted_list_of_fset (fmdom (tm_best_votes s))))"

definition cached_decision :: "('h, 'p, 'k, 'i, 's, 'a, 'm, 'd) protocol \<Rightarrow> 'h \<Rightarrow> ('h, 'p, 'k, 'i, 's, 'a, 'm, 'd, 'd option) tm_eff" where
  "cached_decision T proposal_hash =
    bind_eff (gets_state (\<lambda>s. (cached_precommit T s proposal_hash, fmlookup (tm_known_proposals s) proposal_hash)))
      (\<lambda>x. case x of
         (Some ((rd, _), aggregation), Some proposal) \<Rightarrow> bind_eff (build_decision T proposal aggregation rd) (\<lambda>d. ret (Some d))
       | _ \<Rightarrow> ret None)"

definition create_aggregation :: "round_step \<Rightarrow> ('h, 'p, 'k, 'i, 's, 'a, 'm, 'd, unit) tm_eff" where
  "create_aggregation tag =
    bind_eff (gets (\<lambda>t. tag |\<in>| td_aggregation_senders t)) (\<lambda>exists.
    when_eff (\<not> exists)
      (bind_eff (gets_state (\<lambda>s. fmlookup (tm_votes s) tag)) (\<lambda>vote_opt.
       bind_eff (some_or VoteMissing vote_opt) (\<lambda>vote.
       seq_eff (emit (CreateAggregation tag vote))
         (modify (\<lambda>t. t \<lparr> td_aggregation_senders := finsert tag (td_aggregation_senders t) \<rparr>))))))"

section \<open>Processing proposals\<close>

text \<open>The verification of a proposal: the hash under which it is known afterwards, if it is valid.\<close>

definition learn_proposal :: "('h, 'p, 'k, 'i, 's, 'a, 'm, 'd) protocol \<Rightarrow> (('p, 's) signed_proposal \<Rightarrow> 'i option \<Rightarrow> 'i option) \<Rightarrow>
  ('p, 's) signed_proposal \<Rightarrow> ('h, 'p, 'k, 'i, 's, 'a, 'm, 'd, 'h option) tm_eff" where
  "learn_proposal T verify_proposal sp =
    (let proposal = pm_proposal (sp_message sp); proposal_hash = pr_hash T proposal in
     bind_eff (gets_state (\<lambda>s. (fmlookup (tm_inherents s) (pr_inherent_hash T proposal), fmlookup (tm_known_proposals s) proposal_hash)))
       (\<lambda>x. case x of
          (None, known) \<Rightarrow>
            (case verify_proposal sp None of
               Some inherent \<Rightarrow>
                 seq_eff (modify_state (\<lambda>s. s \<lparr> tm_inherents := fmupd (pr_inherent_hash T proposal) inherent (tm_inherents s),
                     tm_known_proposals := fmupd proposal_hash proposal (tm_known_proposals s) \<rparr>))
                 (seq_eff (ensure (known = None) ProposalExists) (ret (Some proposal_hash)))
             | None \<Rightarrow> ret None)
        | (Some inherent, None) \<Rightarrow>
            (case verify_proposal sp (Some inherent) of
               Some _ \<Rightarrow>
                 seq_eff (modify_state (\<lambda>s. s \<lparr> tm_known_proposals := fmupd proposal_hash proposal (tm_known_proposals s) \<rparr>))
                 (ret (Some proposal_hash))
             | None \<Rightarrow> ret None)
        | (Some _, Some _) \<Rightarrow> ret (Some proposal_hash)))"

definition process_proposal :: "('h, 'p, 'k, 'i, 's, 'a, 'm, 'd) protocol \<Rightarrow> (('p, 's) signed_proposal \<Rightarrow> 'i option \<Rightarrow> 'i option) \<Rightarrow>
  ('p, 's) signed_proposal \<Rightarrow> ('h, 'p, 'k, 'i, 's, 'a, 'm, 'd, 'h option) tm_eff" where
  "process_proposal T verify_proposal sp =
    bind_eff (learn_proposal T verify_proposal sp) (\<lambda>hash_opt. case hash_opt of
       None \<Rightarrow> ret None
     | Some proposal_hash \<Rightarrow>
         let proposal_round = pm_round (sp_message sp) in
         seq_eff (modify_state (\<lambda>s. s \<lparr> tm_round_proposals := fmupd proposal_round
           (fmupd proposal_hash (pm_valid_round (sp_message sp), sp_signature sp) (proposals_of s proposal_round)) (tm_round_proposals s) \<rparr>))
         (seq_eff (modify_state (\<lambda>s. if has_two_f_plus_one T s proposal_hash proposal_round
           then update_valid proposal_round proposal_hash s else s))
         (bind_eff (cached_decision T proposal_hash) (\<lambda>decision.
          seq_eff (when_eff (decision \<noteq> None) (modify (\<lambda>t. t \<lparr> td_pending_decision := decision \<rparr>)))
          (ret (Some proposal_hash))))))"

definition process_next_proposal :: "('h, 'p, 'k, 'i, 's, 'a, 'm, 'd) protocol \<Rightarrow> (('p, 's) signed_proposal \<Rightarrow> 'i option \<Rightarrow> 'i option) \<Rightarrow>
  ('p, 's) signed_proposal \<Rightarrow> ('h, 'p, 'k, 'i, 's, 'a, 'm, 'd, ('h, 'p, 'k, 'i, 's, 'a, 'd) tm_return) tm_eff" where
  "process_next_proposal T verify_proposal proposal =
    (let proposal_round = pm_round (sp_message proposal) in
     seq_eff (modify_state (or_default proposal_round))
     (bind_eff (gets_state (\<lambda>s. proposals_of s proposal_round = fmempty)) (\<lambda>is_empty.
      if \<not> is_empty then ret (ProposalIgnored proposal)
      else bind_eff (process_proposal T verify_proposal proposal) (\<lambda>hash_opt.
        if hash_opt \<noteq> None
        then seq_eff (modify (\<lambda>t. t \<lparr> td_state_return_pending := True \<rparr>)) (ret (ProposalAccepted proposal))
        else ret (ProposalRejected proposal)))))"

section \<open>Proposing and awaiting a proposal\<close>

definition propose :: "('h :: linorder, 'p, 'k, 'i, 's, 'a, 'm, 'd) protocol \<Rightarrow> (u32 \<Rightarrow> ('p proposal_message \<times> 'i) option) \<Rightarrow>
  ('h, 'p, 'k, 'i, 's, 'a, 'm, 'd, ('h, 'p, 'k, 'i, 's, 'a, 'd) tm_return option) tm_eff" where
  "propose T create_proposal =
    bind_eff (gets_state tm_current_round) (\<lambda>current_round.
    seq_eff (modify_state (or_default current_round))
    (bind_eff (gets_state id) (\<lambda>st. case first_entry (proposals_of st current_round) of
       Some (proposal_hash, vr, signature) \<Rightarrow>
         bind_eff (some_or ProposalUnknown (fmlookup (tm_known_proposals st) proposal_hash)) (\<lambda>proposal.
         seq_eff (emit (BroadcastProposal \<lparr> sp_message =
           \<lparr> pm_round = current_round, pm_valid_round = vr, pm_proposal = proposal \<rparr>, sp_signature = signature \<rparr>))
         (seq_eff (modify_state (\<lambda>s. s \<lparr> tm_current_step := Prevote,
           tm_votes := fmupd (current_round, Prevote)
             (if is_allowed_to_vote_on s proposal_hash vr then Some proposal_hash else None) (tm_votes s) \<rparr>))
         (seq_eff (ensure (fmlookup (tm_votes st) (current_round, Prevote) = None) VoteExists)
         (bind_eff (gets_state id) (\<lambda>s. ret (Some (Update s)))))))
     | None \<Rightarrow> (case tm_valid st of
         Some (valid_round, proposal_hash) \<Rightarrow>
           bind_eff (some_or ProposalUnknown (fmlookup (tm_known_proposals st) proposal_hash)) (\<lambda>proposal.
           let signature = pr_sign_proposal T \<lparr> pm_round = current_round, pm_valid_round = Some valid_round, pm_proposal = proposal \<rparr> in
           seq_eff (modify_state (\<lambda>s. s \<lparr> tm_round_proposals := fmupd current_round
             (fmupd proposal_hash (Some valid_round, signature) (proposals_of s current_round)) (tm_round_proposals s) \<rparr>))
           (bind_eff (gets_state id) (\<lambda>s. ret (Some (Update s)))))
       | None \<Rightarrow> (case create_proposal current_round of
           None \<Rightarrow> ret None
         | Some (message, inherent) \<Rightarrow>
             let signature = pr_sign_proposal T message; proposal_hash = pr_hash T (pm_proposal message) in
             seq_eff (modify_state (\<lambda>s. s \<lparr>
               tm_inherents := fmupd (pr_hash_inherent T inherent) inherent (tm_inherents s),
               tm_known_proposals := fmupd proposal_hash (pm_proposal message) (tm_known_proposals s),
               tm_round_proposals := fmupd current_round
                 (fmupd proposal_hash (None, signature) (proposals_of s current_round)) (tm_round_proposals s) \<rparr>))
             (bind_eff (gets_state id) (\<lambda>s. ret (Some (Update s)))))))))"

definition cast_prevote :: "'h option \<Rightarrow> ('h, 'p, 'k, 'i, 's, 'a) tm_state \<Rightarrow> ('h, 'p, 'k, 'i, 's, 'a) tm_state" where
  "cast_prevote vote s = s \<lparr> tm_votes := fmupd (tm_current_round s, Prevote) vote (tm_votes s), tm_current_step := Prevote \<rparr>"

definition received_proposal_with_vr :: "('h, 'p, 'k, 'i, 's, 'a, 'm, 'd) protocol \<Rightarrow> 'h \<Rightarrow> u32 \<Rightarrow>
  ('h, 'p, 'k, 'i, 's, 'a) tm_state \<Rightarrow> ('h, 'p, 'k, 'i, 's, 'a) tm_state" where
  "received_proposal_with_vr T proposal_hash vr s =
    (if vr < tm_current_round s \<and> is_allowed_to_vote_on s proposal_hash (Some vr) \<and> has_two_f_plus_one T s proposal_hash vr
     then cast_prevote (Some proposal_hash) s else cast_prevote None s)"

definition received_proposal_without_vr :: "'h \<Rightarrow> ('h, 'p, 'k, 'i, 's, 'a) tm_state \<Rightarrow> ('h, 'p, 'k, 'i, 's, 'a) tm_state" where
  "received_proposal_without_vr proposal_hash s =
    (if is_allowed_to_vote_on s proposal_hash None then cast_prevote (Some proposal_hash) s else cast_prevote None s)"

definition await_proposal :: "('h :: linorder, 'p, 'k, 'i, 's, 'a, 'm, 'd) protocol \<Rightarrow> bool \<Rightarrow>
  ('h, 'p, 'k, 'i, 's, 'a, 'm, 'd, ('h, 'p, 'k, 'i, 's, 'a, 'd) tm_return option) tm_eff" where
  "await_proposal T elapsed =
    bind_eff (gets_state (\<lambda>s. fmlookup (tm_votes s) (tm_current_round s, Prevote) = None)) (\<lambda>no_vote.
    seq_eff (ensure no_vote VoteExists)
    (seq_eff (start_timeout T)
    (seq_eff (modify_state (\<lambda>s. or_default (tm_current_round s) s))
    (bind_eff (gets_state (\<lambda>s. first_entry (proposals_of s (tm_current_round s)))) (\<lambda>entry.
     let advance = (\<lambda>f. seq_eff (modify_state f) (seq_eff reset_timeout (bind_eff (gets_state id) (\<lambda>s. ret (Some (Update s)))))) in
     case entry of
       Some (proposal_hash, Some vr, _) \<Rightarrow> advance (received_proposal_with_vr T proposal_hash vr)
     | Some (proposal_hash, None, _) \<Rightarrow> advance (received_proposal_without_vr proposal_hash)
     | None \<Rightarrow> if elapsed then advance (cast_prevote None) else ret None)))))"

section \<open>Aggregated votes\<close>

definition on_polka :: "'h \<Rightarrow> ('h, 'p, 'k, 'i, 's, 'a, 'm, 'd, unit) tm_eff" where
  "on_polka proposal_hash =
    bind_eff (gets_state id) (\<lambda>st. case tm_current_step st of
       Prevote \<Rightarrow>
         seq_eff (modify_state (\<lambda>s. s \<lparr> tm_current_step := Precommit,
           tm_votes := fmupd (tm_current_round s, Precommit) (Some proposal_hash) (tm_votes s) \<rparr>))
         (seq_eff (ensure (fmlookup (tm_votes st) (tm_current_round st, Precommit) = None) VoteExists)
         (modify_state (\<lambda>s. s \<lparr> tm_locked := Some (tm_current_round s, proposal_hash) \<rparr>)))
     | _ \<Rightarrow> throw WrongStep)"

definition on_none_polka :: "('h, 'p, 'k, 'i, 's, 'a, 'm, 'd, unit) tm_eff" where
  "on_none_polka =
    bind_eff (gets_state id) (\<lambda>st. case tm_current_step st of
       Prevote \<Rightarrow>
         seq_eff (modify_state (\<lambda>s. s \<lparr> tm_current_step := Precommit,
           tm_votes := fmupd (tm_current_round s, Precommit) None (tm_votes s) \<rparr>))
         (ensure (fmlookup (tm_votes st) (tm_current_round st, Precommit) = None) VoteExists)
     | Precommit \<Rightarrow>
         seq_eff (modify_state (\<lambda>s. s \<lparr> tm_current_round := tm_current_round s + 1, tm_current_step := Propose \<rparr>))
         (modify (\<lambda>t. t \<lparr> td_future_contributions :=
           fmfilter (\<lambda>rd. rd > tm_current_round (td_state t)) (td_future_contributions t) \<rparr>))
     | Propose \<Rightarrow> throw WrongStep)"

text \<open>The loop over the proposals of the round: the first with 2f+1 votes, or whether one of them can still
  get there and how many contributors are left over.\<close>

fun find_polka :: "('h, 'p, 'k, 'i, 's, 'a, 'm, 'd) protocol \<Rightarrow> 'a \<Rightarrow> nat \<Rightarrow> bool \<Rightarrow> nat \<Rightarrow> 'h list \<Rightarrow> 'h + bool \<times> nat" where
  "find_polka T current_best total_contributors can_improve remaining [] = Inr (can_improve, remaining)"
| "find_polka T current_best total_contributors can_improve remaining (proposal_hash # hashes) =
    (let contributors = bitset_len (pr_contributors_for T current_best (Some proposal_hash)) in
     if contributors < pr_two_f_plus_one T
     then find_polka T current_best total_contributors (can_improve \<or> total_contributors - contributors < pr_f_plus_one T) (remaining - contributors) hashes
     else Inl proposal_hash)"

definition yield_update :: "('h, 'p, 'k, 'i, 's, 'a, 'm, 'd, ('h, 'p, 'k, 'i, 's, 'a, 'd) tm_return option) tm_eff" where
  "yield_update = seq_eff reset_timeout (bind_eff (gets_state id) (\<lambda>s. ret (Some (Update s))))"

definition aggregate :: "('h :: linorder, 'p, 'k, 'i, 's, 'a, 'm, 'd) protocol \<Rightarrow> bool \<Rightarrow>
  ('h, 'p, 'k, 'i, 's, 'a, 'm, 'd, ('h, 'p, 'k, 'i, 's, 'a, 'd) tm_return option) tm_eff" where
  "aggregate T elapsed =
    bind_eff (gets_state (\<lambda>s. (tm_current_round s, tm_current_step s))) (\<lambda>round_and_step.
    seq_eff (create_aggregation round_and_step)
    (bind_eff (gets_state (\<lambda>s. fmlookup (tm_best_votes s) round_and_step)) (\<lambda>best. case best of
       None \<Rightarrow> ret None
     | Some current_best \<Rightarrow>
         let total_contributors = bitset_len (pr_all_contributors T current_best) in
         if total_contributors < pr_two_f_plus_one T then ret None
         else
           seq_eff (modify_state (\<lambda>s. or_default (tm_current_round s) s))
           (bind_eff (gets_state (\<lambda>s. sorted_list_of_fset (fmdom (proposals_of s (tm_current_round s))))) (\<lambda>proposals.
            case find_polka T current_best total_contributors False total_contributors proposals of
              Inl proposal_hash \<Rightarrow> (case snd round_and_step of
                Prevote \<Rightarrow> seq_eff (modify_state (update_valid (fst round_and_step) proposal_hash))
                  (seq_eff (on_polka proposal_hash) yield_update)
              | Precommit \<Rightarrow>
                  bind_eff (gets_state (\<lambda>s. fmlookup (tm_known_proposals s) proposal_hash)) (\<lambda>known.
                  bind_eff (some_or ProposalUnknown known) (\<lambda>proposal.
                  bind_eff (build_decision T proposal current_best (fst round_and_step)) (\<lambda>decision.
                  seq_eff reset_timeout (ret (Some (Decision decision))))))
              | Propose \<Rightarrow> throw WrongStep)
            | Inr (can_improve, remaining) \<Rightarrow>
                let none_contributor_count = bitset_len (pr_contributors_for T current_best None) in
                if none_contributor_count \<ge> pr_two_f_plus_one T then seq_eff on_none_polka yield_update
                else if \<not> can_improve \<and> total_contributors - (remaining - none_contributor_count) \<ge> pr_f_plus_one T
                then seq_eff on_none_polka yield_update
                else seq_eff (start_timeout T)
                  (if elapsed then seq_eff on_none_polka yield_update else ret None)))))) "

text \<open>The proposals of an updated aggregate: a polka updates \<open>valid\<close> or is a decision, and an unknown proposal
  that can still win is requested. The difference of the counts is one of machine integers.\<close>

definition request_proposal :: "('h, 'p, 'k, 'i, 's, 'a, 'm, 'd) protocol \<Rightarrow> 'h \<Rightarrow> u32 \<Rightarrow> 'a \<Rightarrow> ('h, 'p, 'k, 'i, 's, 'a, 'm, 'd, unit) tm_eff" where
  "request_proposal T proposal_hash rd best_vote =
    bind_eff (gets (\<lambda>t. (proposal_hash, rd) |\<in>| td_pending_proposal_requests t)) (\<lambda>pending.
    when_eff (\<not> pending)
      (seq_eff (modify (\<lambda>t. t \<lparr> td_pending_proposal_requests := finsert (proposal_hash, rd) (td_pending_proposal_requests t) \<rparr>))
       (emit (RequestProposal proposal_hash rd (pr_contributors_for T best_vote (Some proposal_hash))))))"

fun check_proposals :: "('h, 'p, 'k, 'i, 's, 'a, 'm, 'd) protocol \<Rightarrow> round_step \<Rightarrow> 'a \<Rightarrow> ('h \<times> nat) list \<Rightarrow>
  ('h, 'p, 'k, 'i, 's, 'a, 'm, 'd, 'd option) tm_eff" where
  "check_proposals T round_and_step best_vote [] = ret None"
| "check_proposals T round_and_step best_vote ((proposal_hash, contributor_count) # proposals) =
    bind_eff (gets_state (\<lambda>s. fmlookup (tm_known_proposals s) proposal_hash)) (\<lambda>known.
    bind_eff
      (case (contributor_count \<ge> pr_two_f_plus_one T, known) of
         (True, Some proposal) \<Rightarrow> (case snd round_and_step of
           Prevote \<Rightarrow> seq_eff (modify_state (update_valid (fst round_and_step) proposal_hash)) (ret None)
         | Precommit \<Rightarrow> bind_eff (build_decision T proposal best_vote (fst round_and_step)) (\<lambda>d. ret (Some d))
         | Propose \<Rightarrow> throw WrongStep)
       | _ \<Rightarrow> ret None)
    (\<lambda>decision. case decision of
       Some d \<Rightarrow> ret (Some d)
     | None \<Rightarrow>
         seq_eff (when_eff (contributor_count \<ge> pr_f_plus_one T \<and>
             (int (bitset_len (pr_all_contributors T best_vote)) - int contributor_count) mod 2 ^ 64 < int (pr_f_plus_one T) \<and>
             known = None)
           (request_proposal T proposal_hash (fst round_and_step) best_vote))
         (check_proposals T round_and_step best_vote proposals)))"

definition update_best_vote :: "('h, 'p, 'k, 'i, 's, 'a, 'm, 'd) protocol \<Rightarrow> round_step \<Rightarrow> 'a \<Rightarrow>
  ('h, 'p, 'k, 'i, 's, 'a) tm_state \<Rightarrow> 'a \<times> bool" where
  "update_best_vote T round_and_step agg s =
    (case fmlookup (tm_best_votes s) round_and_step of
       None \<Rightarrow> (agg, True)
     | Some best \<Rightarrow> if bitset_len (pr_all_contributors T best) < bitset_len (pr_all_contributors T agg)
         then (agg, True) else (best, False))"

text \<open>What the started aggregations deliver until they are all pending: a decision, if one is reached, and
  whether the state improved. Only aggregations that were started are polled.\<close>

fun poll_aggregations :: "('h, 'p, 'k, 'i, 's, 'a, 'm, 'd) protocol \<Rightarrow> (round_step \<times> 'a) list \<Rightarrow>
  ('h, 'p, 'k, 'i, 's, 'a, 'm, 'd, 'd option \<times> bool) tm_eff" where
  "poll_aggregations T [] = ret (None, False)"
| "poll_aggregations T ((round_and_step, agg) # aggs) =
    bind_eff (gets (\<lambda>t. round_and_step |\<in>| td_aggregation_senders t)) (\<lambda>started.
    if \<not> started then poll_aggregations T aggs
    else bind_eff (gets_state (update_best_vote T round_and_step agg)) (\<lambda>(best_vote, improved).
      seq_eff (modify_state (\<lambda>s. s \<lparr> tm_best_votes := fmupd round_and_step best_vote (tm_best_votes s) \<rparr>))
      (bind_eff (check_proposals T round_and_step best_vote (pr_proposals T best_vote)) (\<lambda>decision. case decision of
         Some d \<Rightarrow> ret (Some d, improved)
       | None \<Rightarrow> bind_eff (poll_aggregations T aggs) (\<lambda>(d, improved'). ret (d, improved \<or> improved'))))))"

section \<open>Messages\<close>

definition vote_none :: "round_step \<Rightarrow> ('h, 'p, 'k, 'i, 's, 'a, 'm, 'd) tendermint \<Rightarrow> ('h, 'p, 'k, 'i, 's, 'a, 'm, 'd) tendermint" where
  "vote_none tag t = (if fmlookup (tm_votes (td_state t)) tag = None
    then t \<lparr> td_state := (td_state t) \<lparr> tm_votes := fmupd tag None (tm_votes (td_state t)) \<rparr>,
      td_pending_aggregation_starts := finsert tag (td_pending_aggregation_starts t) \<rparr>
    else t)"

text \<open>The rounds from \<open>lo\<close> up to and without \<open>hi\<close>.\<close>

definition rounds_between :: "u32 \<Rightarrow> u32 \<Rightarrow> u32 list" where
  "rounds_between lo hi = map of_nat [unat lo..<unat hi]"

definition skip_to_round :: "u32 \<Rightarrow> ('h, 'p, 'k, 'i, 's, 'a, 'm, 'd) tendermint \<Rightarrow> ('h, 'p, 'k, 'i, 's, 'a, 'm, 'd) tendermint" where
  "skip_to_round rd t =
    (let t1 = fold (\<lambda>r. vote_none (r, Precommit) \<circ> vote_none (r, Prevote)) (rounds_between (tm_current_round (td_state t)) rd) t in
     t1 \<lparr> td_state := (td_state t1) \<lparr> tm_current_round := rd, tm_current_step := Propose \<rparr>,
       td_timeout := None,
       td_future_contributions := fmfilter (\<lambda>r. r > rd) (td_future_contributions t1),
       td_future_round_messages := fmap_of_list (filter (\<lambda>(_, m). fst (tg_tag m) > rd)
         (map (\<lambda>k. (k, the (fmlookup (td_future_round_messages t1) k))) (sorted_list_of_fset (fmdom (td_future_round_messages t1))))) \<rparr>)"

text \<open>The result of a verification: whether there was one, and whether it made the node skip to a later round.\<close>

definition finish_verification :: "('h, 'p, 'k, 'i, 's, 'a, 'm, 'd) protocol \<Rightarrow> bool option \<Rightarrow>
  ('h, 'p, 'k, 'i, 's, 'a, 'm, 'd, bool \<times> bool) tm_eff" where
  "finish_verification T result =
    bind_eff (gets td_future_round_verification) (\<lambda>verification. case (verification, result) of
       (Some (rd, new_contributors), Some valid) \<Rightarrow>
         seq_eff (modify (\<lambda>t. t \<lparr> td_future_round_verification := None \<rparr>))
         (bind_eff (gets_state tm_current_round) (\<lambda>current_round.
          if valid \<and> rd > current_round then
            bind_eff (gets (\<lambda>t. bitset_or_assign (case fmlookup (td_future_contributions t) rd of None \<Rightarrow> bitset_new | Some c \<Rightarrow> c)
              new_contributors)) (\<lambda>contributors.
            seq_eff (modify (\<lambda>t. t \<lparr> td_future_contributions := fmupd rd contributors (td_future_contributions t) \<rparr>))
            (if bitset_len contributors \<ge> pr_f_plus_one T
             then seq_eff (modify (skip_to_round rd)) (ret (True, True))
             else ret (True, False)))
          else ret (True, False)))
     | _ \<Rightarrow> ret (False, False))"

text \<open>A message of a later round is kept, one for an aggregation that runs is sent to it. The result says whether
  there was a message, and returns it if the channel is full.\<close>

definition dispatch_message :: "('h, 'p, 'k, 'i, 's, 'a, 'm, 'd) protocol \<Rightarrow> 'm tagged_message option \<Rightarrow> send_result \<Rightarrow>
  ('h, 'p, 'k, 'i, 's, 'a, 'm, 'd, bool \<times> 'm tagged_message option) tm_eff" where
  "dispatch_message T message_opt send = (case message_opt of
     None \<Rightarrow> ret (False, None)
   | Some message \<Rightarrow>
       let tag = tg_tag message; sender = pr_sender T (tg_aggregation message) in
       bind_eff (gets id) (\<lambda>t.
       if fst tag > tm_current_round (td_state t) then
         seq_eff (when_eff (case fmlookup (td_future_round_messages t) sender of
             None \<Rightarrow> True | Some old \<Rightarrow> fst tag \<ge> fst (tg_tag old))
           (modify (\<lambda>t. t \<lparr> td_future_round_messages := fmupd sender message (td_future_round_messages t) \<rparr>)))
         (ret (True, None))
       else if tag |\<in>| td_aggregation_senders t then
         (case send of Sent \<Rightarrow> ret (True, None) | Closed \<Rightarrow> throw ChannelClosed | Full \<Rightarrow> ret (True, Some message))
       else ret (True, None)))"

text \<open>Random messages are taken out until one has contributors that are not verified yet; its verification
  starts. The result has the remaining messages.\<close>

lemma fmdrop_fcard: "k |\<in>| fmdom m \<Longrightarrow> fcard (fmdom m |-| {|k|}) < fcard (fmdom m)"
  by (auto simp: fcard.rep_eq card_gt_0_iff intro!: diff_less)

lemma keys_nth: "n < length (sorted_list_of_fset A) \<Longrightarrow> sorted_list_of_fset A ! n |\<in>| A"
  using nth_mem [of n "sorted_list_of_fset A"] by simp

function choose_message :: "('h, 'p, 'k, 'i, 's, 'a, 'm, 'd) protocol \<Rightarrow> (nat \<Rightarrow> nat) \<Rightarrow> (u32, bitset) fmap \<Rightarrow>
  (u16, 'm tagged_message) fmap \<Rightarrow> ((u16, 'm tagged_message) fmap \<times> (u32 \<times> bitset) option) option" where
  "choose_message T random future_contributions messages =
    (let keys = sorted_list_of_fset (fmdom messages); index = random (length keys) in
     if keys = [] then Some (messages, None)
     else if \<not> index < length keys then None
     else let message = the (fmlookup messages (keys ! index));
              rest = fmdrop (keys ! index) messages;
              contributors = pr_message_contributors T (tg_aggregation message);
              rd = fst (tg_tag message)
       in if is_subset contributors (case fmlookup future_contributions rd of None \<Rightarrow> bitset_new | Some c \<Rightarrow> c)
          then choose_message T random future_contributions rest
          else Some (rest, Some (rd, contributors)))"
  by pat_completeness auto
termination
  by (relation "measure (\<lambda>(_, _, _, m). fcard (fmdom m))") (auto intro!: fmdrop_fcard keys_nth)

declare choose_message.simps [simp del]

definition start_verification :: "('h, 'p, 'k, 'i, 's, 'a, 'm, 'd) protocol \<Rightarrow> (nat \<Rightarrow> nat) \<Rightarrow> ('h, 'p, 'k, 'i, 's, 'a, 'm, 'd, bool) tm_eff" where
  "start_verification T random =
    bind_eff (gets id) (\<lambda>t.
    if td_future_round_verification t = None \<and> td_future_round_messages t \<noteq> fmempty then
      bind_eff (some_or NoMessage (choose_message T random (td_future_contributions t) (td_future_round_messages t)))
        (\<lambda>(rest, verification).
      seq_eff (modify (\<lambda>t. t \<lparr> td_future_round_messages := rest, td_future_round_verification := verification \<rparr>)) (ret True))
    else ret False)"

text \<open>
  The loop of \<open>dispatch_messages\<close>, one input per turn; when nothing is ready any more, the last turn only starts a
  verification. The results are a message that could not be sent, and whether the node skipped to a later round.
\<close>

fun dispatch_messages :: "('h, 'p, 'k, 'i, 's, 'a, 'm, 'd) protocol \<Rightarrow> (nat \<Rightarrow> nat) \<Rightarrow> 'm dispatch_input list \<Rightarrow>
  ('h, 'p, 'k, 'i, 's, 'a, 'm, 'd, 'm tagged_message option \<times> bool) tm_eff" where
  "dispatch_messages T random [] = bind_eff (start_verification T random) (\<lambda>_. ret (None, False))"
| "dispatch_messages T random (di # dis) =
    bind_eff (finish_verification T (di_verified di)) (\<lambda>(verified, skipped).
    if skipped then ret (None, True)
    else bind_eff (dispatch_message T (di_message di) (di_send di)) (\<lambda>(received, failed).
      if failed \<noteq> None then ret (failed, False)
      else bind_eff (start_verification T (di_random di)) (\<lambda>started.
        if verified \<or> received \<or> started then dispatch_messages T random dis else ret (None, False))))"

section \<open>Polling\<close>

datatype 'r poll_result = Pending | Ready "'r option"

fun poll_requested :: "('h, 'p, 'k, 'i, 's, 'a, 'm, 'd) protocol \<Rightarrow> (('p, 's) signed_proposal \<Rightarrow> 'i option \<Rightarrow> 'i option) \<Rightarrow>
  (('p, 's) signed_proposal option \<times> 'h \<times> u32) list \<Rightarrow> ('h, 'p, 'k, 'i, 's, 'a, 'm, 'd, bool) tm_eff" where
  "poll_requested T verify_proposal [] = ret False"
| "poll_requested T verify_proposal ((signed_proposal, request) # responses) =
    seq_eff (modify (\<lambda>t. t \<lparr> td_pending_proposal_requests := td_pending_proposal_requests t |-| {|request|} \<rparr>))
    (bind_eff (case signed_proposal of None \<Rightarrow> ret None | Some sp \<Rightarrow> process_proposal T verify_proposal sp) (\<lambda>hash_opt.
     bind_eff (poll_requested T verify_proposal responses) (\<lambda>changed. ret (hash_opt \<noteq> None \<or> changed))))"

text \<open>The step of the state machine; \<open>None\<close> if the protocol aborts.\<close>

definition run_step :: "('h :: linorder, 'p, 'k, 'i, 's, 'a, 'm, 'd) protocol \<Rightarrow> ('h, 'p, 'i, 's, 'a, 'm) poll_input \<Rightarrow>
  ('h, 'p, 'k, 'i, 's, 'a, 'm, 'd, ('h, 'p, 'k, 'i, 's, 'a, 'd) tm_return option option) tm_eff" where
  "run_step T i =
    bind_eff (gets_state (\<lambda>s. (tm_current_round s, tm_current_step s))) (\<lambda>(current_round, current_step).
    case current_step of
      Propose \<Rightarrow> (case pi_is_proposer i current_round of
        None \<Rightarrow> ret None
      | Some True \<Rightarrow> bind_eff (propose T (pi_create_proposal i)) (\<lambda>r. ret (map_option Some r))
      | Some False \<Rightarrow> bind_eff (await_proposal T (pi_elapsed i)) (\<lambda>r. ret (Some r)))
    | _ \<Rightarrow> bind_eff (aggregate T (pi_elapsed i)) (\<lambda>r. ret (Some r)))"

definition finish_with_decision :: "'d \<Rightarrow>
  ('h, 'p, 'k, 'i, 's, 'a, 'm, 'd, ('h, 'p, 'k, 'i, 's, 'a, 'd) tm_return poll_result) tm_eff" where
  "finish_with_decision d = seq_eff (modify (\<lambda>t. t \<lparr> td_decision := True \<rparr>)) (ret (Ready (Some (Decision d))))"

definition export_state :: "('h, 'p, 'k, 'i, 's, 'a, 'm, 'd, ('h, 'p, 'k, 'i, 's, 'a, 'd) tm_return poll_result) tm_eff" where
  "export_state = seq_eff (modify (\<lambda>t. t \<lparr> td_state_return_pending := False \<rparr>))
    (bind_eff (gets_state id) (\<lambda>s. ret (Ready (Some (Update s)))))"

text \<open>The end of a poll in which the state machine made no progress.\<close>

definition start_aggregations :: "('h, 'p, 'k, 'i, 's, 'a, 'm, 'd, bool) tm_eff" where
  "start_aggregations =
    bind_eff (gets (\<lambda>t. sorted_list_of_fset (td_pending_aggregation_starts t))) (\<lambda>tags.
    seq_eff (modify (\<lambda>t. t \<lparr> td_pending_aggregation_starts := {||} \<rparr>))
    (seq_eff (for_eff create_aggregation tags) (ret (tags \<noteq> []))))"

definition poll_idle :: "('h, 'p, 'k, 'i, 's, 'a, 'm, 'd) protocol \<Rightarrow> ('h, 'p, 'i, 's, 'a, 'm) poll_input \<Rightarrow>
  ('h, 'p, 'k, 'i, 's, 'a, 'm, 'd, ('h, 'p, 'k, 'i, 's, 'a, 'd) tm_return poll_result) tm_eff" where
  "poll_idle T i =
    bind_eff start_aggregations (\<lambda>aggregations_created.
    bind_eff (gets id) (\<lambda>t.
     let tag = (tm_current_round (td_state t), tm_current_step (td_state t)) in
     if aggregations_created \<or> tm_current_step (td_state t) \<noteq> Propose \<and>
         fmlookup (tm_best_votes (td_state t)) tag = None \<and> tag |\<in>| td_aggregation_senders t then
       bind_eff (poll_aggregations T (pi_late_aggregates i)) (\<lambda>(decision, improved).
       case decision of
         Some d \<Rightarrow> finish_with_decision d
       | None \<Rightarrow> if improved then export_state else ret Pending)
     else ret Pending))"

definition resend :: "send_result \<Rightarrow> 'm tagged_message option \<Rightarrow> ('h, 'p, 'k, 'i, 's, 'a, 'm, 'd, unit) tm_eff" where
  "resend send failed_message = (case failed_message of
     None \<Rightarrow> ret ()
   | Some message \<Rightarrow> bind_eff (gets (\<lambda>t. tg_tag message |\<in>| td_aggregation_senders t)) (\<lambda>started.
       ensure (\<not> started \<or> send \<noteq> Closed) ChannelClosed))"

definition poll_next :: "('h :: linorder, 'p, 'k, 'i, 's, 'a, 'm, 'd) protocol \<Rightarrow> ('h, 'p, 'i, 's, 'a, 'm) poll_input \<Rightarrow>
  ('h, 'p, 'k, 'i, 's, 'a, 'm, 'd, ('h, 'p, 'k, 'i, 's, 'a, 'd) tm_return poll_result) tm_eff" where
  "poll_next T i =
    bind_eff (gets td_decision) (\<lambda>decided.
    if decided then ret (Ready None)
    else case pi_proposal i of
      Some proposal \<Rightarrow> bind_eff (process_next_proposal T (pi_verify_proposal i) proposal) (\<lambda>r. ret (Ready (Some r)))
    | None \<Rightarrow>
        bind_eff (poll_requested T (pi_verify_proposal i) (pi_requested i)) (\<lambda>changed.
        bind_eff (gets td_pending_decision) (\<lambda>pending_decision.
        case pending_decision of
          Some d \<Rightarrow> seq_eff (modify (\<lambda>t. t \<lparr> td_pending_decision := None \<rparr>)) (finish_with_decision d)
        | None \<Rightarrow>
            bind_eff (dispatch_messages T (pi_random i) (pi_dispatch i)) (\<lambda>(failed_message, skipped).
            bind_eff (poll_aggregations T (pi_aggregates i)) (\<lambda>(decision, improved).
            case decision of
              Some d \<Rightarrow> finish_with_decision d
            | None \<Rightarrow>
                seq_eff (resend (pi_resend i) failed_message)
                (bind_eff (run_step T i) (\<lambda>outcome. case outcome of
                   None \<Rightarrow> seq_eff (modify (\<lambda>t. t \<lparr> td_decision := True \<rparr>)) (ret (Ready None))
                 | Some (Some (Decision d)) \<Rightarrow> finish_with_decision d
                 | Some (Some (Update s)) \<Rightarrow>
                     seq_eff (modify (\<lambda>t. t \<lparr> td_state_return_pending := False \<rparr>)) (ret (Ready (Some (Update s))))
                 | Some (Some r) \<Rightarrow> ret (Ready (Some r))
                 | Some None \<Rightarrow> bind_eff (gets td_state_return_pending) (\<lambda>return_pending.
                     if changed \<or> skipped \<or> improved \<or> return_pending then export_state else poll_idle T i))))))))"

section \<open>Starting and restarting\<close>

definition restart_aggregation :: "round_step \<Rightarrow> ('h, 'p, 'k, 'i, 's, 'a, 'm, 'd, unit) tm_eff" where
  "restart_aggregation tag = bind_eff (gets_state (\<lambda>s. (tm_current_round s, tm_current_step s))) (\<lambda>current.
     when_eff (tag \<noteq> current) (create_aggregation tag))"

definition tendermint_init :: "('h, 'p, 'k, 'i, 's, 'a, 'm, 'd, unit) tm_eff" where
  "tendermint_init = bind_eff (gets_state (\<lambda>s. sorted_list_of_fset (fmdom (tm_votes s)))) (for_eff restart_aggregation)"

definition tendermint_new :: "('h, 'p, 'k, 'i, 's, 'a) tm_state option \<Rightarrow> ('h, 'p, 'k, 'i, 's, 'a, 'm, 'd) tendermint" where
  "tendermint_new state_opt = snd (tendermint_init
    \<lparr> td_state = (case state_opt of None \<Rightarrow> state_default | Some s \<Rightarrow> s), td_pending_proposal_requests = {||},
      td_future_contributions = fmempty, td_future_round_messages = fmempty, td_future_round_verification = None,
      td_timeout = None, td_state_return_pending = False, td_pending_aggregation_starts = {||}, td_decision = False,
      td_pending_decision = None, td_aggregation_senders = {||}, td_log = [] \<rparr>)"

end
