(* ===== verification/TendermintSafety.thy ===== *)
theory TendermintSafety
  imports Tendermint
begin

text \<open>
  What every poll of the Tendermint state machine keeps: the invariant \<open>tm_ok\<close> on the state of an instance,
  relative to the sets of votes that reached 2f+1 contributors, and \<open>persisted\<close>, by which every vote that was
  sent is in the state that was exported last. Polls do not panic.
\<close>

section \<open>Computations that return with a property\<close>

definition wp :: "('s, 'e, 'a) eff \<Rightarrow> ('a \<Rightarrow> 's \<Rightarrow> bool) \<Rightarrow> 's \<Rightarrow> bool" where
  "wp m Q t \<longleftrightarrow> (\<exists>x t'. m t = (Inr x, t') \<and> Q x t')"

lemma wp_simps [simp]:
  "wp (ret x) Q t \<longleftrightarrow> Q x t"
  "wp (gets f) Q2 t \<longleftrightarrow> Q2 (f t) t"
  "wp (modify g) Q3 t \<longleftrightarrow> Q3 () (g t)"
  "wp (throw e) Q4 t \<longleftrightarrow> False"
  "wp (ensure b e) Q5 t \<longleftrightarrow> b \<and> Q5 () t"
  "wp (bind_eff m f2) Q6 t \<longleftrightarrow> wp m (\<lambda>x. wp (f2 x) Q6) t"
  "wp (seq_eff m2 n) Q7 t \<longleftrightarrow> wp m2 (\<lambda>_. wp n Q7) t"
  "wp (when_eff b k) Q8 t \<longleftrightarrow> (if b then wp k Q8 t else Q8 () t)"
  "wp (some_or e y) Q9 t \<longleftrightarrow> (\<exists>a. y = Some a \<and> Q9 a t)"
  by (auto simp: wp_def eff_simps eff_inv bind_eff_def split: prod.splits sum.splits)

lemma wp_mono: "wp m Q t \<Longrightarrow> (\<And>x t'. Q x t' \<Longrightarrow> R x t') \<Longrightarrow> wp m R t"
  by (auto simp: wp_def)

lemma wp_if: "wp (if b then m else n) Q t \<longleftrightarrow> (if b then wp m Q t else wp n Q t)"
  by simp

lemma wp_state [simp]:
  "wp (gets_state f) Q t \<longleftrightarrow> Q (f (td_state t)) t"
  "wp (modify_state g) Q2 t \<longleftrightarrow> Q2 () (t \<lparr> td_state := g (td_state t) \<rparr>)"
  "wp (emit e) Q3 t \<longleftrightarrow> Q3 () (t \<lparr> td_log := td_log t @ [e] \<rparr>)"
  "wp reset_timeout Q4 t \<longleftrightarrow> Q4 () (t \<lparr> td_timeout := None \<rparr>)"
  by (simp_all add: gets_state_def modify_state_def emit_def reset_timeout_def)

section \<open>The invariant of the state\<close>

text \<open>
  \<open>Q tag h\<close> says that 2f+1 slots voted for the proposal \<open>h\<close> in the round and step \<open>tag\<close>, and \<open>own r\<close> that the
  node is the proposer of round \<open>r\<close>.
\<close>

definition known_ok :: "('h, 'p, 'k, 'i, 's, 'a, 'm, 'd) protocol \<Rightarrow> ('h, 'p, 'k, 'i, 's, 'a) tm_state \<Rightarrow> bool" where
  "known_ok T s \<longleftrightarrow>
    (\<forall>h p. fmlookup (tm_known_proposals s) h = Some p \<longrightarrow>
      pr_hash T p = h \<and> fmlookup (tm_inherents s) (pr_inherent_hash T p) \<noteq> None) \<and>
    (\<forall>r h x. fmlookup (proposals_of s r) h = Some x \<longrightarrow> fmlookup (tm_known_proposals s) h \<noteq> None) \<and>
    (\<forall>r h. tm_valid s = Some (r, h) \<longrightarrow> fmlookup (tm_known_proposals s) h \<noteq> None)"

definition votes_ok :: "('h, 'p, 'k, 'i, 's, 'a) tm_state \<Rightarrow> bool" where
  "votes_ok s \<longleftrightarrow>
    (\<forall>r st v. fmlookup (tm_votes s) (r, st) = Some v \<longrightarrow> st \<noteq> Propose \<and> r \<le> tm_current_round s) \<and>
    (fmlookup (tm_votes s) (tm_current_round s, Prevote) = None \<longleftrightarrow> tm_current_step s = Propose) \<and>
    (fmlookup (tm_votes s) (tm_current_round s, Precommit) = None \<longleftrightarrow> tm_current_step s \<noteq> Precommit) \<and>
    fmdom (tm_best_votes s) |\<subseteq>| fmdom (tm_votes s)"

definition polkas_ok :: "('h, 'p, 'k, 'i, 's, 'a, 'm, 'd) protocol \<Rightarrow> (round_step \<Rightarrow> 'h \<Rightarrow> bool) \<Rightarrow> ('h, 'p, 'k, 'i, 's, 'a) tm_state \<Rightarrow> bool" where
  "polkas_ok T Q s \<longleftrightarrow>
    (\<forall>tag a h. fmlookup (tm_best_votes s) tag = Some a \<and>
      pr_two_f_plus_one T \<le> bitset_len (pr_contributors_for T a (Some h)) \<longrightarrow> Q tag h) \<and>
    (\<forall>r h. tm_valid s = Some (r, h) \<longrightarrow> Q (r, Prevote) h \<and> (r, Prevote) |\<in>| fmdom (tm_votes s))"

definition locks_ok :: "(round_step \<Rightarrow> 'h \<Rightarrow> bool) \<Rightarrow> ('h, 'p, 'k, 'i, 's, 'a) tm_state \<Rightarrow> bool" where
  "locks_ok Q s \<longleftrightarrow>
    (\<forall>r h. fmlookup (tm_votes s) (r, Precommit) = Some (Some h) \<longrightarrow> Q (r, Prevote) h \<and>
      (\<exists>lr lh. tm_locked s = Some (lr, lh) \<and> r \<le> lr \<and> (r = lr \<longrightarrow> h = lh))) \<and>
    (\<forall>lr lh. tm_locked s = Some (lr, lh) \<longrightarrow> fmlookup (tm_votes s) (lr, Precommit) = Some (Some lh))"

text \<open>A vote after a precommit for another proposal is justified by a polka in between.\<close>

definition justified :: "(round_step \<Rightarrow> 'h \<Rightarrow> bool) \<Rightarrow> (round_step, 'h option) fmap \<Rightarrow> bool" where
  "justified Q votes \<longleftrightarrow>
    (\<forall>r h r' h'. fmlookup votes (r, Precommit) = Some (Some h) \<and> fmlookup votes (r', Prevote) = Some (Some h') \<and> r < r' \<longrightarrow>
      h = h' \<or> (\<exists>vr. r \<le> vr \<and> vr < r' \<and> Q (vr, Prevote) h'))"

definition own_ok :: "(round_step \<Rightarrow> 'h \<Rightarrow> bool) \<Rightarrow> (u32 \<Rightarrow> bool) \<Rightarrow> ('h, 'p, 'k, 'i, 's, 'a) tm_state \<Rightarrow> bool" where
  "own_ok Q own s \<longleftrightarrow> (\<forall>r h vr sg. own r \<and> fmlookup (proposals_of s r) h = Some (Some vr, sg) \<longrightarrow> vr < r \<and> Q (vr, Prevote) h)"

definition state_ok :: "('h, 'p, 'k, 'i, 's, 'a, 'm, 'd) protocol \<Rightarrow> (round_step \<Rightarrow> 'h \<Rightarrow> bool) \<Rightarrow> (u32 \<Rightarrow> bool) \<Rightarrow>
  ('h, 'p, 'k, 'i, 's, 'a) tm_state \<Rightarrow> bool" where
  "state_ok T Q own s \<longleftrightarrow> known_ok T s \<and> votes_ok s \<and> polkas_ok T Q s \<and> locks_ok Q s \<and> justified Q (tm_votes s) \<and> own_ok Q own s"

lemmas state_ok_defs = state_ok_def known_ok_def votes_ok_def polkas_ok_def locks_ok_def own_ok_def

lemma state_ok_default: "state_ok T Q own state_default"
  by (simp add: state_ok_defs justified_def state_default_def proposals_of_def)

lemma state_ok_mono:
  assumes "state_ok T Q own s" "\<And>tag h. Q tag h \<Longrightarrow> Q' tag h"
  shows "state_ok T Q' own s"
proof -
  have "justified Q' (tm_votes s)"
    using assms unfolding state_ok_def justified_def by meson
  moreover have "locks_ok Q' s" using assms unfolding state_ok_def locks_ok_def by meson
  moreover have "polkas_ok T Q' s" using assms unfolding state_ok_def polkas_ok_def by meson
  moreover have "own_ok Q' own s" using assms unfolding state_ok_def own_ok_def by meson
  ultimately show ?thesis using assms(1) unfolding state_ok_def by blast
qed

lemma proposals_of_simps [simp]:
  "proposals_of (s \<lparr> tm_round_proposals := fmupd r m (tm_round_proposals s) \<rparr>) r' = (if r' = r then m else proposals_of s r')"
  by (simp add: proposals_of_def)

lemma proposals_of_or_default [simp]: "proposals_of (or_default r s) r' = proposals_of s r'"
  by (simp add: or_default_def)

lemma proposals_of_cong: "tm_round_proposals s = tm_round_proposals s' \<Longrightarrow> proposals_of s r = proposals_of s' r"
  by (simp add: proposals_of_def)

lemma or_default_simps [simp]:
  "tm_votes (or_default r s) = tm_votes s" "tm_current_round (or_default r s) = tm_current_round s"
  "tm_current_step (or_default r s) = tm_current_step s" "tm_known_proposals (or_default r s) = tm_known_proposals s"
  "tm_inherents (or_default r s) = tm_inherents s" "tm_best_votes (or_default r s) = tm_best_votes s"
  "tm_locked (or_default r s) = tm_locked s" "tm_valid (or_default r s) = tm_valid s"
  by (simp_all add: or_default_def)

lemma state_ok_or_default [simp]: "state_ok T Q own (or_default r s) = state_ok T Q own s"
  by (simp add: state_ok_defs)

end
