(* ===== verification/Spec2Isabelle.thy ===== *)
theory Spec2Isabelle
  imports ContractProperties BlockProof Rewards TendermintSafety
begin

text \<open>
  A verification library for the ledger of core-rs-albatross, the Rust implementation of the Nimiq
  proof-of-stake protocol. It models the code that decides who owns which coins: amounts, the policy of
  epochs and batches, transactions and their verification, the four kinds of accounts with the staking
  contract as the largest, and the accounts tree that commits and reverts blocks.

  \<^bold>\<open>How the program works.\<close> A block carries transactions and inherents. \<open>Accounts::commit_batch\<close> applies
  them one after the other. A transaction takes value and fee from its sender and gives the value to its
  recipient; each side is an account whose type selects the handlers (\<open>commit_outgoing_transaction\<close> and
  so on). A failing transaction pays its fee only. Inherents pay rewards to basic accounts and tell the
  staking contract about penalties, jailings and the ends of batches and epochs. Every handler returns a
  receipt from which the corresponding revert restores the state, in the opposite order.

  \<^bold>\<open>Conventions.\<close> Integers keep their Rust width as words. \<open>Coin\<close> is a natural number with the checks of
  \<^verbatim>\<open>primitives/src/coin.rs\<close>; addition and subtraction that panic are partial. A method with \<open>&mut self\<close>,
  a store or a log is a computation of type \<open>('s, 'e, 'a) eff\<close> of the theory \<open>Prelude\<close>: it maps a state
  to a result or an error and a new state, and keeps the changes made before an error. \<open>Panic\<close> is an error
  of its own, so a theorem that excludes it shows that no \<open>expect\<close>, \<open>unwrap\<close> or overflowing coin is reached.
  Tries and B-trees are finite maps. Signatures, hash functions and the postcard format of receipts and
  proofs are fields of the records \<open>env\<close>, \<open>sc_env\<close> and \<open>acc_env\<close>; the only law used of them is that receipts
  deserialize to what was serialized (\<open>codecs_ok\<close>, \<open>acc_codecs_ok\<close>), and an instance that satisfies it
  appears in the examples.

  \<^bold>\<open>The theories.\<close>
  \<^item> \<open>Prelude\<close>: the effects, their inversion rules, sums over finite maps, and the locale \<open>reversible\<close> of
    operations that are undone from their receipts.
  \<^item> \<open>Coin\<close> (\<^verbatim>\<open>primitives/src/coin.rs\<close>): arithmetic, printing and parsing, with the round trip.
  \<^item> \<open>Policy\<close> (\<^verbatim>\<open>primitives/src/policy.rs\<close>, \<^verbatim>\<open>networks.rs\<close>): epochs, batches, election and macro blocks,
    windows and timestamps; that block numbers decompose into epoch and index.
  \<^item> \<open>BitSet\<close> (\<^verbatim>\<open>collections/src/bitset.rs\<close>): that it implements finite sets of numbers.
  \<^item> \<open>PunishedSlots\<close> (\<^verbatim>\<open>staking_contract/punished_slots.rs\<close>): penalties and jailings of slots and their reverts.
  \<^item> \<open>AccountTypes\<close>: the data the account modules exchange, i.e. transactions, inherents, errors, logs and
    receipts. \<open>Wire\<close> (\<^verbatim>\<open>serde/src/lib.rs\<close>) has readers of fixed-size data and the locale \<open>wire\<close> of writers
    and the readers that undo them. \<open>Double\<close> has the rounding of double-precision arithmetic.
  \<^item> \<open>TransactionData\<close> (\<^verbatim>\<open>primitives/transaction/src\<close>): creation data of contracts, proofs, and the
    verification of a transaction for each type of account.
  \<^item> \<open>Interaction\<close> (\<^verbatim>\<open>interaction_traits.rs\<close>, \<^verbatim>\<open>reserved_balance.rs\<close>): reserved balances, and the locale
    \<open>account_kind\<close>, the contract every kind of account satisfies: handlers do not panic, an error leaves
    the account as it was, the balance changes by the amounts of the transaction, and the revert undoes the
    handler. It is interpreted by \<open>BasicAccount\<close>, \<open>VestingContract\<close>, \<open>HtlcContract\<close> and \<open>StakingAccount\<close>,
    and by \<open>Account\<close> for the dispatch over all four (\<^verbatim>\<open>primitives/account/src/account\<close>).
  \<^item> \<open>StakingState\<close>, \<open>StakingValidator\<close>, \<open>StakingStaker\<close>, \<open>StakingTransaction\<close> and \<open>StakingContract\<close>: the
    staking contract (\<^verbatim>\<open>staking_contract/mod.rs\<close>, \<^verbatim>\<open>store.rs\<close>, \<^verbatim>\<open>validator.rs\<close>, \<^verbatim>\<open>staker.rs\<close>, \<^verbatim>\<open>traits.rs\<close>).
    \<open>StakingInvariant\<close> defines when its books are in order; \<open>StakingSpec\<close>, \<open>StakingStakerSpec\<close>, \<open>StakingSafety\<close>
    and \<open>StakingInherents\<close> show that each operation keeps them so and does not panic; \<open>StakingRevert\<close> shows
    the reverts; \<open>StakingUpgrade\<close>, \<open>StakingReach\<close> and \<open>StakingStake\<close> treat the version upgrade, reachable
    states and the active stake; \<open>StakingProperties\<close> states the results.
  \<^item> \<open>Accounts\<close> (\<^verbatim>\<open>primitives/account/src/accounts.rs\<close>): the tree with commit and revert of transactions,
    inherents and batches. \<open>AccountsSafety\<close> has the invariant of the tree, \<open>AccountsCommit\<close> a single
    transaction or inherent and its revert, \<open>AccountsBatch\<close> the batch through the locale \<open>undoable\<close>.
    \<open>AccountsProperties\<close> and \<open>ContractProperties\<close> state the results.

  \<^item> \<open>Sampling\<close> (\<^verbatim>\<open>vrf/src/rng.rs\<close>, \<^verbatim>\<open>discrete.rs\<close>, \<open>VrfRng\<close> of \<^verbatim>\<open>vrf.rs\<close>): rejection sampling and the alias
    method, which is exact. \<open>Slots\<close> (\<^verbatim>\<open>primitives/src/slots_allocation.rs\<close>): the validators of an epoch, their
    bands of slots and the search in them. \<open>Election\<close> (\<open>select_validators\<close>, \<open>supports_version_upgrade\<close>,
    \<open>compute_slot_number\<close>): elected sets are well-formed and every slot that is not disabled gets its turn.
  \<^item> \<open>BlockTypes\<close>, \<open>Equivocation\<close> and \<open>Block\<close> (\<^verbatim>\<open>primitives/block/src\<close>, \<^verbatim>\<open>primitives/src/tendermint.rs\<close>): headers and
    bodies, votes and their aggregated signatures, the three kinds of equivocation proofs, interlinks, and the
    checks on a block by itself, against its predecessors and against the validators. \<open>BlockProperties\<close>: two final
    blocks of one height and round convict a third of the slots, and verified blocks form a chain.
  \<^item> \<open>BlockProof\<close> (\<^verbatim>\<open>block_proof.rs\<close>, \<^verbatim>\<open>consensus/src/messages/handlers.rs\<close>): proofs that an election block is
    part of the chain; honest answers verify, accepted proofs are paths of hash references, and computing the
    hops ends after at most 31 of them.
  \<^item> \<open>ChainState\<close> (\<^verbatim>\<open>blockchain-interface/src/chain_info.rs\<close>, \<^verbatim>\<open>blockchain/src/blockchain_state.rs\<close>): the
    information kept per block and the state at the head. \<open>Rewards\<close> (\<^verbatim>\<open>blockchain/src/reward.rs\<close>,
    \<^verbatim>\<open>blockchain/src/blockchain/inherents.rs\<close>): the supply curve, the reward of a batch, its distribution
    over the slots, and the inherents of macro blocks; the pot of a batch is paid out to the last Luna.
  \<^item> \<open>Tendermint\<close> (\<^verbatim>\<open>tendermint/src\<close>): the state machine that agrees on macro blocks, one poll at a time, with
    restarts from the exported state. \<open>TendermintSafety\<close> has the invariant of its state.

  \<^bold>\<open>Bounds.\<close> No definition uses fuel except the scaling loops of \<open>Double\<close>, which take as many steps
  as a double has exponents, and loops over machine words, whose length is fixed. Rejection sampling is a
  partial function; it returns for the generators that are \<open>productive\<close>. The loop over interlink hops is a
  partial function as well, and shown to end for all inputs.

  \<^bold>\<open>Not modelled.\<close> Accounts trees with missing parts, and the radix trie, chunks and proofs below them: the
  tree is complete. The chain store, synchronization, networking, the mempool and
  clients are outside the library, as is cryptography, which enters through the parameters above.
\<close>

end
